(* ===== verification/Prelude.thy ===== *)
theory Prelude
  imports Complex_Main
begin

text \<open>
  What every component of the model shares: the names of the model's basic types, the errors a
  source function can raise, the transaction type in which the database functions are written
  together with its sequencing laws, and the generic facts on lists, sums and options that the
  component proofs use through \<open>simp\<close> and \<open>auto\<close>.
\<close>

section \<open>Basic types\<close>

text \<open>
  Amounts are integer rao, instants are integers (any fixed resolution), UUIDs and identity
  columns are natural numbers.  Python's unbounded integers are \<open>int\<close>.
\<close>

type_synonym rao = int
type_synonym time = int
type_synonym uuid = nat
type_synonym serial = nat
type_synonym ss58 = string

text \<open>Python's own exceptions that the modelled code can run into.\<close>

datatype py_error = IndexError | KeyError | ZeroDivisionError | StopIteration | ValueError string | TypeError string | RuntimeError string

named_theorems tx_simps "one-step unfolding of transactions"
named_theorems table_simps "reads of a table after a write"

section \<open>Transactions\<close>

text \<open>
  A function of the \<open>db\<close> package runs inside the transaction of the session it is handed.  It
  either raises, and then the transaction is rolled back and leaves nothing behind, or returns a
  value and the database as the transaction sees it.  So a function is
  \<open>'s \<Rightarrow> 'e + ('a \<times> 's)\<close>: an error carries no state.
\<close>

type_synonym ('s, 'e, 'a) tx = "'s \<Rightarrow> 'e + ('a \<times> 's)"

definition ret :: "'a \<Rightarrow> ('s, 'e, 'a) tx" where
  "ret x s = Inr (x, s)"

definition raise :: "'e \<Rightarrow> ('s, 'e, 'a) tx" where
  "raise e s = Inl e"

definition bindT :: "('s, 'e, 'a) tx \<Rightarrow> ('a \<Rightarrow> ('s, 'e, 'b) tx) \<Rightarrow> ('s, 'e, 'b) tx" where
  "bindT m f s = (case m s of Inl e \<Rightarrow> Inl e | Inr (x, s') \<Rightarrow> f x s')"

definition thenT :: "('s, 'e, 'a) tx \<Rightarrow> ('s, 'e, 'b) tx \<Rightarrow> ('s, 'e, 'b) tx" where
  "thenT m k = bindT m (\<lambda>_. k)"

definition reads :: "('s \<Rightarrow> 'a) \<Rightarrow> ('s, 'e, 'a) tx" where
  "reads f s = Inr (f s, s)"

text \<open>Raise \<open>e\<close> when the condition holds: the source's \<open>if c: raise e\<close>.\<close>

definition raise_if :: "bool \<Rightarrow> 'e \<Rightarrow> ('s, 'e, unit) tx" where
  "raise_if c e = (if c then raise e else ret ())"

text \<open>The scope around a transaction: commit on success, roll back on error.\<close>

definition in_scope :: "('s, 'e, 'a) tx \<Rightarrow> 's \<Rightarrow> ('e + 'a) \<times> 's" where
  "in_scope m s = (case m s of Inl e \<Rightarrow> (Inl e, s) | Inr (x, s') \<Rightarrow> (Inr x, s'))"

lemma bindT_Inr_iff [tx_simps]:
  "bindT m f s = Inr (y, s'') \<longleftrightarrow> (\<exists>x s'. m s = Inr (x, s') \<and> f x s' = Inr (y, s''))"
  by (auto simp: bindT_def split: sum.splits)

lemma bindT_Inl_iff:
  "bindT m f s = Inl e \<longleftrightarrow> m s = Inl e \<or> (\<exists>x s'. m s = Inr (x, s') \<and> f x s' = Inl e)"
  by (auto simp: bindT_def split: sum.splits)

lemma bindT_step [simp]: "m s = Inr (x, s') \<Longrightarrow> bindT m f s = f x s'"
  by (simp add: bindT_def)

lemma bindT_fail [simp]: "m s = Inl e \<Longrightarrow> bindT m f s = Inl e"
  by (simp add: bindT_def)

lemma thenT_Inr_iff [tx_simps]:
  "thenT m k s = Inr (y, s'') \<longleftrightarrow> (\<exists>x s'. m s = Inr (x, s') \<and> k s' = Inr (y, s''))"
  by (simp add: thenT_def bindT_Inr_iff)

lemma thenT_Inl_iff:
  "thenT m k s = Inl e \<longleftrightarrow> m s = Inl e \<or> (\<exists>x s'. m s = Inr (x, s') \<and> k s' = Inl e)"
  by (simp add: thenT_def bindT_Inl_iff)

lemma thenT_step [simp]: "m s = Inr (x, s') \<Longrightarrow> thenT m k s = k s'"
  by (simp add: thenT_def)

lemma thenT_fail [simp]: "m s = Inl e \<Longrightarrow> thenT m k s = Inl e"
  by (simp add: thenT_def)

lemma ret_simps [simp, tx_simps]:
  "ret x s = Inr (y, s') \<longleftrightarrow> y = x \<and> s' = s"
  "ret x s \<noteq> Inl e"
  by (auto simp: ret_def)

lemma raise_simps [simp, tx_simps]:
  "raise e s \<noteq> Inr r"
  "raise e s = Inl e' \<longleftrightarrow> e' = e"
  by (auto simp: raise_def)

lemma reads_simps [simp, tx_simps]:
  "reads f s = Inr (y, s') \<longleftrightarrow> y = f s \<and> s' = s"
  "reads f s \<noteq> Inl e"
  by (auto simp: reads_def)

lemma raise_if_simps [simp, tx_simps]:
  "raise_if c e s = Inr (u, s') \<longleftrightarrow> \<not> c \<and> s' = s"
  "raise_if c e s = Inl e' \<longleftrightarrow> c \<and> e' = e"
  by (auto simp: raise_if_def)

lemma in_scope_simps [simp]:
  "m s = Inl e \<Longrightarrow> in_scope m s = (Inl e, s)"
  "m s = Inr (x, s') \<Longrightarrow> in_scope m s = (Inr x, s')"
  by (simp_all add: in_scope_def)

text \<open>The sequencing operations spelled out, for evaluating a transaction on a concrete state.\<close>

lemmas tx_eval = bindT_def thenT_def ret_def raise_def reads_def raise_if_def in_scope_def

section \<open>Invariants of a machine\<close>

text \<open>
  The contract between a step relation and what holds of it for ever: an invariant that the start
  has and every step keeps holds in every state a run reaches.
\<close>

locale invariant_of =
  fixes start :: "'s \<Rightarrow> bool"
    and step :: "'s \<Rightarrow> 's \<Rightarrow> bool"
    and inv :: "'s \<Rightarrow> bool"
  assumes start_inv: "start s \<Longrightarrow> inv s"
    and step_inv: "step s s' \<Longrightarrow> inv s \<Longrightarrow> inv s'"
begin

lemma run_inv: "step\<^sup>*\<^sup>* s s' \<Longrightarrow> inv s \<Longrightarrow> inv s'"
  by (induction rule: rtranclp_induct) (auto intro: step_inv)

lemma reach_inv: "start s \<Longrightarrow> step\<^sup>*\<^sup>* s s' \<Longrightarrow> inv s'"
  using run_inv start_inv by blast

lemma run_relates:
  assumes "\<And>s s'. step s s' \<Longrightarrow> inv s \<Longrightarrow> r s s'" and "\<And>s. r s s" and "\<And>s s1 s2. r s s1 \<Longrightarrow> r s1 s2 \<Longrightarrow> r s s2"
    and "step\<^sup>*\<^sup>* s s'" and "inv s"
  shows "r s s'"
  using assms(4,5)
proof (induction rule: rtranclp_induct)
  case (step y z)
  then have "inv y" using run_inv by blast
  with step assms(1) [of y z] assms(3) [of s y z] show ?case by blast
qed (rule assms(2))

end

section \<open>Procedures of several transactions\<close>

text \<open>
  A worker opens one transaction after another: what one committed stays when a later one fails, so a
  procedure returns the state it left whatever its result is.  \<open>each\<close> is \<open>for x in xs: body\<close>, with an
  accumulator the body updates.
\<close>

definition bindP :: "('s \<Rightarrow> ('e + 'a) \<times> 's) \<Rightarrow> ('a \<Rightarrow> 's \<Rightarrow> ('e + 'b) \<times> 's) \<Rightarrow> 's \<Rightarrow> ('e + 'b) \<times> 's" where
  "bindP m f s = (case m s of (Inl e, s') \<Rightarrow> (Inl e, s') | (Inr x, s') \<Rightarrow> f x s')"

fun each :: "('a \<Rightarrow> 'c \<Rightarrow> 's \<Rightarrow> ('e + 'c) \<times> 's) \<Rightarrow> 'a list \<Rightarrow> 'c \<Rightarrow> 's \<Rightarrow> ('e + 'c) \<times> 's" where
  "each body [] c s = (Inr c, s)"
| "each body (x # xs) c s = (case body x c s of (Inl e, s') \<Rightarrow> (Inl e, s') | (Inr c', s') \<Rightarrow> each body xs c' s')"

text \<open>What every round of a loop keeps, the loop keeps.\<close>

lemma each_keeps:
  assumes "each body xs c s = (r, s')"
    and "\<And>x c s r s'. x \<in> set xs \<Longrightarrow> body x c s = (r, s') \<Longrightarrow> ok s \<Longrightarrow> keeps s s' \<and> ok s'"
    and "\<And>s. keeps s s" and "\<And>s s1 s2. keeps s s1 \<Longrightarrow> keeps s1 s2 \<Longrightarrow> keeps s s2" and "ok s"
  shows "keeps s s' \<and> ok s'"
  using assms(1,2,5)
proof (induction xs arbitrary: c s)
  case Nil
  then show ?case using assms(3) by simp
next
  case (Cons x xs)
  obtain r1 s1 where b: "body x c s = (r1, s1)" by (cases "body x c s")
  have K: "keeps s s1 \<and> ok s1" by (rule Cons.prems(2) [OF _ b Cons.prems(3)]) simp
  show ?case
  proof (cases r1)
    case (Inl e)
    then show ?thesis using Cons.prems(1) b K by simp
  next
    case (Inr c1)
    then have "each body xs c1 s1 = (r, s')" using Cons.prems(1) b by simp
    then have "keeps s1 s' \<and> ok s'" using K by (intro Cons.IH [of c1 s1] Cons.prems(2)) auto
    then show ?thesis using K assms(4) by blast
  qed
qed

text \<open>
  A follower of the chain: it scans the block after the last one it scanned, and its position moves
  only when the scan of a block went through.
\<close>

locale block_follower =
  fixes scan :: "int \<Rightarrow> 'c \<Rightarrow> 's \<Rightarrow> ('e + 'c) \<times> 's"
    and position :: "'s \<Rightarrow> int"
    and following :: "'s \<Rightarrow> bool"
    and grows :: "'s \<Rightarrow> 's \<Rightarrow> bool"
  assumes scan_next: "scan (position s + 1) c s = (r, s') \<Longrightarrow> following s \<Longrightarrow>
      following s' \<and> grows s s' \<and> position s' = (case r of Inl _ \<Rightarrow> position s | Inr _ \<Rightarrow> position s + 1)"
    and grows_refl: "grows s s"
    and grows_trans: "grows s s1 \<Longrightarrow> grows s1 s2 \<Longrightarrow> grows s s2"
begin

lemma scan_range:
  assumes "each scan [position s + 1..m] c s = (r, s')" and "following s" and "position s \<le> m"
  shows "following s' \<and> grows s s' \<and> position s \<le> position s' \<and>
    (case r of Inl _ \<Rightarrow> True | Inr _ \<Rightarrow> position s' = m)"
  using assms
proof (induction "nat (m - position s)" arbitrary: c s)
  case 0
  then show ?case using grows_refl by auto
next
  case (Suc k)
  let ?n = "position s + 1"
  obtain r1 s1 where b: "scan ?n c s = (r1, s1)" by (cases "scan ?n c s")
  note next1 = scan_next [OF b Suc.prems(2)]
  have le: "?n \<le> m" using Suc.hyps(2) by simp
  then have range: "[?n..m] = ?n # [?n + 1..m]" by (simp add: upto_rec1)
  show ?case
  proof (cases r1)
    case (Inl e)
    then show ?thesis using Suc.prems(1) b next1 by (auto simp: range)
  next
    case (Inr c1)
    then have at: "position s1 = ?n" using next1 by simp
    have "each scan [position s1 + 1..m] c1 s1 = (r, s')" using Suc.prems(1) b Inr by (simp add: range at)
    moreover have "k = nat (m - position s1)" using Suc.hyps(2) at by simp
    ultimately have "following s' \<and> grows s1 s' \<and> position s1 \<le> position s' \<and>
        (case r of Inl _ \<Rightarrow> True | Inr _ \<Rightarrow> position s' = m)"
      using next1 at le by (intro Suc.hyps(1)) simp_all
    then show ?thesis using next1 at grows_trans by auto
  qed
qed

end

section \<open>Lists, sums and options\<close>

lemma finds_iff: "case_option False P m \<longleftrightarrow> (\<exists>x. m = Some x \<and> P x)"
  by (cases m) simp_all

lemma nonempty_iff: "case_list False P xs \<longleftrightarrow> (\<exists>y ys. xs = y # ys \<and> P y ys)"
  by (cases xs) simp_all

text \<open>\<open>next((x for x in xs if p x), None)\<close>.\<close>

abbreviation first_such :: "('a \<Rightarrow> bool) \<Rightarrow> 'a list \<Rightarrow> 'a option" where
  "first_such p xs \<equiv> List.find p xs"

lemma find_Some_mem: "List.find p xs = Some x \<Longrightarrow> x \<in> set xs \<and> p x"
  by (auto simp: find_Some_iff in_set_conv_nth)

lemma find_None_conv: "List.find p xs = None \<longleftrightarrow> (\<forall>x \<in> set xs. \<not> p x)"
  by (auto simp: find_None_iff)

lemma find_append:
  "List.find p (xs @ ys) = (case List.find p xs of Some x \<Rightarrow> Some x | None \<Rightarrow> List.find p ys)"
  by (induction xs) auto

lemma pred_option_code [code]: "pred_option p None = True" "pred_option p (Some x) = p x"
  by simp_all

text \<open>A call that is known to succeed, in the form the evaluator decides.\<close>

lemma succeeds_iff: "case_sum (\<lambda>_. False) P m \<longleftrightarrow> (\<exists>r. m = Inr r \<and> P r)"
  by (cases m) simp_all

text \<open>The sum of a column over the rows that satisfy a condition.\<close>

definition sum_where :: "('a \<Rightarrow> bool) \<Rightarrow> ('a \<Rightarrow> int) \<Rightarrow> 'a list \<Rightarrow> int" where
  "sum_where p f xs = sum_list (map f (filter p xs))"

lemma sum_where_simps [simp]:
  "sum_where p f [] = 0"
  "sum_where p f (x # xs) = (if p x then f x else 0) + sum_where p f xs"
  "sum_where p f (xs @ ys) = sum_where p f xs + sum_where p f ys"
  by (simp_all add: sum_where_def)

lemma sum_where_cong:
  "(\<And>x. x \<in> set xs \<Longrightarrow> p x = q x) \<Longrightarrow> (\<And>x. x \<in> set xs \<Longrightarrow> p x \<Longrightarrow> f x = g x) \<Longrightarrow>
   sum_where p f xs = sum_where q g xs"
  by (induction xs) auto

lemma sum_where_nonneg:
  "(\<And>x. x \<in> set xs \<Longrightarrow> p x \<Longrightarrow> 0 \<le> f x) \<Longrightarrow> 0 \<le> sum_where p f xs"
proof (induction xs)
  case (Cons a xs)
  then have "0 \<le> sum_where p f xs" by simp
  with Cons.prems [of a] show ?case by simp
qed simp

lemma sum_where_mono:
  "(\<And>x. x \<in> set xs \<Longrightarrow> p x \<Longrightarrow> q x) \<Longrightarrow> (\<And>x. x \<in> set xs \<Longrightarrow> q x \<Longrightarrow> 0 \<le> f x) \<Longrightarrow>
   sum_where p f xs \<le> sum_where q f xs"
proof (induction xs)
  case (Cons a xs)
  then have "sum_where p f xs \<le> sum_where q f xs" by simp
  with Cons.prems(1) [of a] Cons.prems(2) [of a] show ?case by auto
qed simp

text \<open>Replacing one element of a list whose keys are distinct.\<close>

lemma map_if_key_set:
  "set (map (\<lambda>x. if k x = k r then r else x) xs) \<subseteq> insert r (set xs)"
  by auto

lemma sum_where_replace:
  assumes "distinct (map k xs)" and "r0 \<in> set xs" and "k r0 = k r"
  shows "sum_where p f (map (\<lambda>x. if k x = k r then r else x) xs)
       = sum_where p f xs - (if p r0 then f r0 else 0) + (if p r then f r else 0)"
  using assms
proof (induction xs)
  case (Cons a xs)
  show ?case
  proof (cases "a = r0")
    case True
    with Cons.prems have "\<forall>x \<in> set xs. k x \<noteq> k r" by (metis distinct.simps(2) image_eqI list.map(2) set_map)
    then have "map (\<lambda>x. if k x = k r then r else x) xs = xs" by (simp add: map_idI)
    with True Cons.prems show ?thesis by simp
  next
    case False
    with Cons.prems have mem: "r0 \<in> set xs" by simp
    with Cons.prems have "k a \<noteq> k r" by (metis distinct.simps(2) image_eqI list.map(2) set_map)
    with Cons.IH Cons.prems mem show ?thesis by simp
  qed
qed simp

text \<open>\<open>divmod\<close> and \<open>//\<close> of Python's integers round towards minus infinity, as \<open>div\<close> does.\<close>

definition py_divmod :: "int \<Rightarrow> int \<Rightarrow> py_error + int \<times> int" where
  "py_divmod a b = (if b = 0 then Inl ZeroDivisionError else Inr (a div b, a mod b))"

definition py_floordiv :: "int \<Rightarrow> int \<Rightarrow> py_error + int" where
  "py_floordiv a b = (if b = 0 then Inl ZeroDivisionError else Inr (a div b))"

section \<open>Decimal text\<close>

fun digits_of :: "nat \<Rightarrow> string" where
  "digits_of n = (if n < 10 then [''0123456789'' ! n] else digits_of (n div 10) @ [''0123456789'' ! (n mod 10)])"

declare digits_of.simps [simp del]

text \<open>\<open>str(n)\<close> of an integer.\<close>

definition str_int :: "int \<Rightarrow> string" where
  "str_int n = (if n < 0 then ''-'' @ digits_of (nat (- n)) else digits_of (nat n))"

end
