(* ===== verification/Ratelimit.thy ===== *)
theory Ratelimit
  imports Prelude "HOL-Library.Sublist"
begin

text \<open>
  The per-client request ceiling, \<open>submission_api/ratelimit.py\<close>: a sliding window of admission
  timestamps per client key, in a table ordered from the least to the most recently seen key.
  The components are the record \<open>limiter\<close>, the operations \<open>peek\<close>, \<open>check\<close>, \<open>prune\<close> and
  \<open>evict\<close> in the source's order, the contract \<open>window_limiter\<close> a caller relies on, and its
  interpretation on \<open>check\<close>.  Timestamps are exact rationals: the rounding of Python's floats is
  not modelled.
\<close>

section \<open>The model\<close>

record decision =
  allowed :: bool
  dlimit :: int
  remaining :: int
  reset_seconds :: int

text \<open>
  The ordered dictionary \<open>_hits\<close> is an association list with distinct keys, coldest key first;
  a deque is a list, oldest timestamp first.  The two sizes are natural numbers, as
  \<open>_positive_int\<close> in the settings guarantees.
\<close>

record limiter =
  limit :: nat
  window_seconds :: int
  max_clients :: nat
  hits :: "(string \<times> rat list) list"

definition ceil_positive :: "rat \<Rightarrow> int" where
  "ceil_positive seconds = max 1 \<lceil>seconds\<rceil>"

text \<open>\<open>while window and window[0] <= horizon: window.popleft()\<close>\<close>

fun prune_from :: "rat \<Rightarrow> rat list \<Rightarrow> rat list" where
  "prune_from horizon [] = []"
| "prune_from horizon (t # window) = (if t \<le> horizon then prune_from horizon window else t # window)"

definition prune :: "limiter \<Rightarrow> rat list \<Rightarrow> rat \<Rightarrow> rat list" where
  "prune l window now = prune_from (now - of_int (window_seconds l)) window"

text \<open>Pop the coldest keys while the table is over its cap and the coldest window is stale.\<close>

fun evict_from :: "nat \<Rightarrow> rat \<Rightarrow> (string \<times> rat list) list \<Rightarrow> (string \<times> rat list) list" where
  "evict_from cap horizon [] = []"
| "evict_from cap horizon ((k, window) # rest) =
     (if length ((k, window) # rest) > cap then
        if window \<noteq> [] \<and> last window > horizon then (k, window) # rest
        else evict_from cap horizon rest
      else (k, window) # rest)"

definition evict :: "limiter \<Rightarrow> rat \<Rightarrow> limiter" where
  "evict l now = l\<lparr>hits := evict_from (max_clients l) (now - of_int (window_seconds l)) (hits l)\<rparr>"

text \<open>
  The budget without spending it.  The window is pruned in place, so the table changes too; the
  key keeps its position.
\<close>

definition peek :: "limiter \<Rightarrow> string \<Rightarrow> rat \<Rightarrow> decision \<times> limiter" where
  "peek l key now =
     (let fresh = \<lparr>allowed = True, dlimit = int (limit l), remaining = int (limit l), reset_seconds = 1\<rparr> in
      case map_of (hits l) key of
        None \<Rightarrow> (fresh, l)
      | Some w \<Rightarrow>
          (let window = prune l w now;
               l' = l\<lparr>hits := map (\<lambda>(k, v). if k = key then (k, window) else (k, v)) (hits l)\<rparr>
           in case window of
                [] \<Rightarrow> (fresh, l')
              | t0 # _ \<Rightarrow>
                  (\<lparr>allowed = length window < limit l,
                    dlimit = int (limit l),
                    remaining = max 0 (int (limit l) - int (length window)),
                    reset_seconds = ceil_positive (t0 + of_int (window_seconds l) - now)\<rparr>, l')))"

text \<open>
  \<open>self._hits.get(key)\<close>, the new deque when there is none, and \<open>move_to_end\<close>: the entry for
  the key leaves its place and is written last.
\<close>

definition touch :: "string \<Rightarrow> rat list \<Rightarrow> (string \<times> rat list) list \<Rightarrow> (string \<times> rat list) list" where
  "touch key window hs = filter (\<lambda>(k, v). k \<noteq> key) hs @ [(key, window)]"

text \<open>
  Record a request against a key.  With a limit of 0 the refused branch reads \<open>window[0]\<close> of
  an empty deque, which raises.
\<close>

definition check :: "limiter \<Rightarrow> string \<Rightarrow> rat \<Rightarrow> (py_error + decision) \<times> limiter" where
  "check l key now =
     (let w = (case map_of (hits l) key of None \<Rightarrow> [] | Some v \<Rightarrow> v);
          window = prune l w now in
      if length window \<ge> limit l then
        (case window of
           [] \<Rightarrow> Inl IndexError
         | t0 # _ \<Rightarrow> Inr \<lparr>allowed = False, dlimit = int (limit l), remaining = 0,
                     reset_seconds = ceil_positive (t0 + of_int (window_seconds l) - now)\<rparr>,
         l\<lparr>hits := touch key window (hits l)\<rparr>)
      else
        (let window' = window @ [now] in
         (Inr \<lparr>allowed = True, dlimit = int (limit l),
               remaining = int (limit l) - int (length window'),
               reset_seconds = ceil_positive (hd window' + of_int (window_seconds l) - now)\<rparr>,
          evict (l\<lparr>hits := touch key window' (hits l)\<rparr>) now)))"

definition tracked_clients :: "limiter \<Rightarrow> nat" where
  "tracked_clients l = length (hits l)"

definition new_limiter :: "nat \<Rightarrow> int \<Rightarrow> nat \<Rightarrow> limiter" where
  "new_limiter lmt win cap = \<lparr>limit = lmt, window_seconds = win, max_clients = cap, hits = []\<rparr>"

text \<open>Whether a call admitted its request.\<close>

definition admitted :: "(py_error + decision) \<Rightarrow> bool" where
  "admitted r = (case r of Inl _ \<Rightarrow> False | Inr d \<Rightarrow> allowed d)"

text \<open>
  A sequence of requests, with the log of those that were admitted, over any limiter given by its
  request operation.
\<close>

fun run_requests :: "('l \<Rightarrow> 'k \<Rightarrow> rat \<Rightarrow> bool \<times> 'l) \<Rightarrow> 'l \<Rightarrow> ('k \<times> rat) list \<Rightarrow> 'l \<times> ('k \<times> rat) list" where
  "run_requests request l [] = (l, [])"
| "run_requests request l ((k, t) # es) =
     (let (ok, l') = request l k t; (l'', adm) = run_requests request l' es
      in (l'', if ok then (k, t) # adm else adm))"

definition check_request :: "limiter \<Rightarrow> string \<Rightarrow> rat \<Rightarrow> bool \<times> limiter" where
  "check_request l key now = (let (r, l') = check l key now in (admitted r, l'))"

text \<open>
  The reference: no table, no eviction, just the log of every request ever admitted; a request is
  admitted when fewer than \<open>lmt\<close> earlier ones of its key lie inside the window.
\<close>

definition live_in_log :: "int \<Rightarrow> ('k \<times> rat) list \<Rightarrow> 'k \<Rightarrow> rat \<Rightarrow> rat list" where
  "live_in_log win adm key now =
     filter (\<lambda>t. now - of_int win < t) (map snd (filter (\<lambda>(k, _). k = key) adm))"

fun spec_run :: "nat \<Rightarrow> int \<Rightarrow> ('k \<times> rat) list \<Rightarrow> ('k \<times> rat) list \<Rightarrow> ('k \<times> rat) list" where
  "spec_run lmt win adm [] = []"
| "spec_run lmt win adm ((k, t) # es) =
     (if length (live_in_log win adm k t) < lmt then (k, t) # spec_run lmt win (adm @ [(k, t)]) es
      else spec_run lmt win adm es)"

section \<open>The contract of a sliding-window limiter\<close>

text \<open>
  What a caller may rely on: \<open>live l k now\<close> are the admissions that still count against \<open>k\<close>
  at \<open>now\<close>; a request is admitted exactly when they are fewer than the limit; an admission adds
  itself and nothing else; a refusal changes nothing.  From this alone follows that the limiter
  behaves as if it remembered every admission for ever.
\<close>

locale window_limiter =
  fixes request :: "'l \<Rightarrow> 'k \<Rightarrow> rat \<Rightarrow> bool \<times> 'l"
    and live :: "'l \<Rightarrow> 'k \<Rightarrow> rat \<Rightarrow> rat list"
    and inv :: "nat \<Rightarrow> int \<Rightarrow> rat \<Rightarrow> 'l \<Rightarrow> bool"
  assumes decide: "inv lmt win t0 l \<Longrightarrow> t0 \<le> now \<Longrightarrow>
      fst (request l k now) \<longleftrightarrow> length (live l k now) < lmt"
    and inv_step: "inv lmt win t0 l \<Longrightarrow> t0 \<le> now \<Longrightarrow> inv lmt win now (snd (request l k now))"
    and live_step: "inv lmt win t0 l \<Longrightarrow> t0 \<le> now \<Longrightarrow> now \<le> later \<Longrightarrow>
      live (snd (request l k now)) k' later =
        live l k' later @ (if fst (request l k now) \<and> k' = k \<and> later - of_int win < now then [now] else [])"
begin

lemma run_refines_log:
  assumes "inv lmt win t0 l" and "sorted (map snd es)" and "\<forall>e \<in> set es. t0 \<le> snd e"
    and "\<And>k now. t0 \<le> now \<Longrightarrow> live l k now = live_in_log win adm k now"
  shows "snd (run_requests request l es) = spec_run lmt win adm es"
  using assms
proof (induction es arbitrary: l t0 adm)
  case (Cons e es)
  obtain k t where e: "e = (k, t)" by (cases e)
  obtain ok l' where req: "request l k t = (ok, l')" by (cases "request l k t")
  have t0: "t0 \<le> t" using Cons.prems(3) e by simp
  have ok: "ok \<longleftrightarrow> length (live_in_log win adm k t) < lmt"
    using decide [OF Cons.prems(1) t0, of k] Cons.prems(4) [OF t0, of k] req by simp
  define adm' where "adm' = (if ok then adm @ [(k, t)] else adm)"
  have "live l' k' now = live_in_log win adm' k' now" if "t \<le> now" for k' now
    using live_step [OF Cons.prems(1) t0 that, of k k'] Cons.prems(4) [of now k'] t0 that req
    by (auto simp: adm'_def live_in_log_def)
  moreover have "inv lmt win t l'" using inv_step [OF Cons.prems(1) t0, of k] req by simp
  moreover have "\<forall>e \<in> set es. t \<le> snd e" and "sorted (map snd es)" using Cons.prems(2) e by auto
  ultimately have "snd (run_requests request l' es) = spec_run lmt win adm' es" by (intro Cons.IH) auto
  then show ?case using ok by (auto simp: e req adm'_def split: prod.splits)
qed simp

end

section \<open>The reference never exceeds the limit\<close>

definition in_window :: "int \<Rightarrow> 'k \<Rightarrow> rat \<Rightarrow> ('k \<times> rat) list \<Rightarrow> nat" where
  "in_window win key t adm = length (filter (\<lambda>(k, s). k = key \<and> t - of_int win < s \<and> s \<le> t) adm)"

lemma in_window_simps [simp]:
  "in_window win key t [] = 0"
  "in_window win key t (adm @ adm') = in_window win key t adm + in_window win key t adm'"
  "in_window win key t [(k, s)] = (if k = key \<and> t - of_int win < s \<and> s \<le> t then 1 else 0)"
  by (simp_all add: in_window_def)

lemma in_window_le_live:
  assumes "\<forall>e \<in> set adm. snd e \<le> s" and "s \<le> t"
  shows "in_window win k t adm \<le> length (live_in_log win adm k s)"
  using assms(1)
proof (induction adm)
  case (Cons e adm)
  have "t - of_int win < x \<Longrightarrow> s - of_int win < x" for x using assms(2) by linarith
  with Cons show ?case by (cases e) (auto simp: in_window_def live_in_log_def le_Suc_eq)
qed simp

lemma spec_run_bound:
  assumes "sorted (map snd es)" and "\<forall>e \<in> set adm. \<forall>e' \<in> set es. snd e \<le> snd e'"
    and "\<And>t. in_window win key t adm \<le> lmt"
  shows "in_window win key t (adm @ spec_run lmt win adm es) \<le> lmt"
  using assms
proof (induction es arbitrary: adm)
  case (Cons e es)
  obtain k s where e: "e = (k, s)" by (cases e)
  show ?case
  proof (cases "length (live_in_log win adm k s) < lmt")
    case True
    have "in_window win key u (adm @ [(k, s)]) \<le> lmt" for u
    proof (cases "k = key \<and> s \<le> u")
      case c: True
      have "in_window win k u adm \<le> length (live_in_log win adm k s)"
        using Cons.prems(2) e c by (intro in_window_le_live) auto
      with c True show ?thesis by simp
    next
      case False
      with Cons.prems(3) [of u] show ?thesis by auto
    qed
    moreover have "\<forall>e \<in> set (adm @ [(k, s)]). \<forall>e' \<in> set es. snd e \<le> snd e'"
      using Cons.prems(1,2) e by auto
    ultimately have "in_window win key t ((adm @ [(k, s)]) @ spec_run lmt win (adm @ [(k, s)]) es) \<le> lmt"
      using Cons.prems(1) e by (intro Cons.IH) auto
    then show ?thesis using True e by simp
  next
    case False
    have "in_window win key t (adm @ spec_run lmt win adm es) \<le> lmt"
      using Cons.prems e by (intro Cons.IH) auto
    with False e show ?thesis by simp
  qed
qed simp

section \<open>The table implements the contract\<close>

definition window_of :: "(string \<times> rat list) list \<Rightarrow> string \<Rightarrow> rat list" where
  "window_of hs k = (case map_of hs k of None \<Rightarrow> [] | Some w \<Rightarrow> w)"

definition live_hits :: "limiter \<Rightarrow> string \<Rightarrow> rat \<Rightarrow> rat list" where
  "live_hits l k now = filter (\<lambda>t. now - of_int (window_seconds l) < t) (window_of (hits l) k)"

definition windows_ok :: "rat \<Rightarrow> (string \<times> rat list) list \<Rightarrow> bool" where
  "windows_ok t0 hs \<longleftrightarrow> distinct (map fst hs) \<and>
     (\<forall>e \<in> set hs. sorted (snd e) \<and> (\<forall>t \<in> set (snd e). t \<le> t0))"

definition limiter_inv :: "nat \<Rightarrow> int \<Rightarrow> rat \<Rightarrow> limiter \<Rightarrow> bool" where
  "limiter_inv lmt win t0 l \<longleftrightarrow> limit l = lmt \<and> window_seconds l = win \<and> windows_ok t0 (hits l)"

lemma prune_from_filter: "sorted w \<Longrightarrow> prune_from h w = filter (\<lambda>t. h < t) w"
proof (induction w)
  case (Cons t w)
  show ?case
  proof (cases "t \<le> h")
    case True
    with Cons show ?thesis by simp
  next
    case False
    with Cons.prems have "\<forall>u \<in> set w. h < u" by auto
    with False show ?thesis by simp
  qed
qed simp

lemma window_of_touch [simp]:
  "window_of (touch key w hs) k = (if k = key then w else window_of hs k)"
proof -
  have "map_of (filter (\<lambda>(k, v). k \<noteq> key) hs) k = (if k = key then None else map_of hs k)"
    by (induction hs) auto
  then show ?thesis by (auto simp: window_of_def touch_def map_add_def split: option.splits)
qed

lemma window_of_ok: "windows_ok t0 hs \<Longrightarrow> sorted (window_of hs k) \<and> (\<forall>t \<in> set (window_of hs k). t \<le> t0)"
  by (fastforce simp: windows_ok_def window_of_def split: option.splits dest: map_of_SomeD)

lemma windows_ok_touch:
  "windows_ok t0 hs \<Longrightarrow> t0 \<le> now \<Longrightarrow> sorted w \<Longrightarrow> \<forall>t \<in> set w. t \<le> now \<Longrightarrow> windows_ok now (touch key w hs)"
  by (fastforce simp: windows_ok_def touch_def distinct_map filter_map inj_on_def)

lemma evict_from_suffix: "suffix (evict_from cap h hs) hs"
  by (induction hs) (auto simp: suffix_Cons)

lemma windows_ok_suffix: "suffix hs' hs \<Longrightarrow> windows_ok t0 hs \<Longrightarrow> windows_ok t0 hs'"
  by (auto simp: suffix_def windows_ok_def)

lemma windows_ok_evict: "windows_ok t0 hs \<Longrightarrow> windows_ok t0 (evict_from cap h hs)"
  by (rule windows_ok_suffix [OF evict_from_suffix])

text \<open>Eviction only forgets windows with nothing live in them, so no client regains budget by it.\<close>

lemma evict_keeps_live:
  "windows_ok t0 hs \<Longrightarrow>
   filter (\<lambda>t. h < t) (window_of (evict_from cap h hs) k) = filter (\<lambda>t. h < t) (window_of hs k)"
proof (induction hs)
  case (Cons e hs)
  obtain key w where e: "e = (key, w)" by (cases e)
  have ok: "windows_ok t0 hs" and key: "key \<notin> fst ` set hs" and srt: "sorted w"
    using Cons.prems by (auto simp: e windows_ok_def)
  have stale: "filter (\<lambda>t. h < t) w = []" if "\<not> (w \<noteq> [] \<and> h < last w)"
  proof (cases w rule: rev_cases)
    case (snoc ys y)
    with that srt show ?thesis by (auto simp: sorted_append filter_empty_conv not_less intro: order_trans)
  qed simp
  have gone: "window_of (evict_from cap h hs) key = []"
  proof -
    have "fst ` set (evict_from cap h hs) \<subseteq> fst ` set hs"
      using evict_from_suffix [of cap h hs] by (intro image_mono set_mono_suffix)
    with key have "map_of (evict_from cap h hs) key = None" by (auto simp: map_of_eq_None_iff)
    then show ?thesis by (simp add: window_of_def)
  qed
  show ?case
    using Cons.IH [OF ok] stale gone by (auto simp: e window_of_def)
qed simp

lemma check_request_cases:
  fixes k :: string
  assumes "limiter_inv lmt win t0 l" and "t0 \<le> now"
  defines "w \<equiv> live_hits l k now"
  shows "check_request l k now =
    (if length w < lmt then (True, evict (l\<lparr>hits := touch k (w @ [now]) (hits l)\<rparr>) now)
     else (False, l\<lparr>hits := touch k w (hits l)\<rparr>))"
proof -
  have srt: "sorted (window_of (hits l) k)" using assms(1) window_of_ok by (auto simp: limiter_inv_def)
  then have p: "prune l (window_of (hits l) k) now = w"
    by (simp add: prune_def prune_from_filter w_def live_hits_def)
  have lmt: "limit l = lmt" using assms(1) by (simp add: limiter_inv_def)
  show ?thesis
  proof (cases "length w < lmt")
    case True
    then show ?thesis using p lmt
      by (simp add: check_request_def check_def window_of_def [symmetric] Let_def admitted_def)
  next
    case False
    then show ?thesis using p lmt
      by (simp add: check_request_def check_def window_of_def [symmetric] Let_def admitted_def
          split: list.splits)
  qed
qed

lemma touch_live_sorted:
  assumes "limiter_inv lmt win t0 l" and "t0 \<le> now"
  shows "sorted (live_hits l k now)" and "sorted (live_hits l k now @ [now])"
    and "\<forall>t \<in> set (live_hits l k now). t \<le> now"
proof -
  have ok: "sorted (window_of (hits l) k)" "\<forall>t \<in> set (window_of (hits l) k). t \<le> t0"
    using assms(1) window_of_ok by (auto simp: limiter_inv_def)
  show s: "sorted (live_hits l k now)" using ok(1) by (simp add: live_hits_def sorted_wrt_filter)
  show b: "\<forall>t \<in> set (live_hits l k now). t \<le> now" using ok(2) assms(2) by (auto simp: live_hits_def)
  show "sorted (live_hits l k now @ [now])" using s b by (simp add: sorted_append)
qed

interpretation rl: window_limiter check_request live_hits limiter_inv
proof (unfold_locales, goal_cases)
  case (1 lmt win t0 l now k)
  then show ?case by (simp add: check_request_cases)
next
  case (2 lmt win t0 l now k)
  have "windows_ok now (touch k (live_hits l k now) (hits l))"
    and "windows_ok now (touch k (live_hits l k now @ [now]) (hits l))"
    using 2 touch_live_sorted [OF 2, of k] by (auto intro!: windows_ok_touch simp: limiter_inv_def)
  then show ?case using 2
    by (auto simp: check_request_cases limiter_inv_def evict_def intro: windows_ok_evict)
next
  case (3 lmt win t0 l now later k k')
  have later: "now - of_int win < t" if "later - of_int win < t" for t using 3 that by linarith
  have refilter: "filter (\<lambda>t. later - of_int win < t) (filter (\<lambda>t. now - of_int win < t) xs)
      = filter (\<lambda>t. later - of_int win < t) xs" for xs
    using later by (simp add: filter_filter) (metis)
  have win: "window_seconds l = win" using 3 by (simp add: limiter_inv_def)
  have evicted: "filter (\<lambda>t. later - of_int win < t)
        (window_of (evict_from cap (now - of_int win) hs) k'')
      = filter (\<lambda>t. later - of_int win < t) (window_of hs k'')" if "windows_ok now hs" for hs cap k''
    using evict_keeps_live [OF that, of "now - of_int win" cap k''] refilter by metis
  have ok: "windows_ok now (touch k (live_hits l k now @ [now]) (hits l))"
    using 3 touch_live_sorted [OF 3(1,2), of k] by (auto intro!: windows_ok_touch simp: limiter_inv_def)
  show ?case
    using evicted [OF ok] refilter
    by (auto simp: check_request_cases [OF 3(1,2)] evict_def live_hits_def win)
qed

section \<open>Properties\<close>

text \<open>
  C40.  On any sequence of requests with non-decreasing timestamps, \<open>check\<close> admits exactly the
  requests that the reference limiter admits, which keeps every admission for ever and counts those
  of the last \<open>window_seconds\<close>.  Pruning and the eviction of cold clients are invisible: evicting a
  client never hands back budget that is still in use.
\<close>

theorem check_refines_log:
  assumes "sorted (map snd es)"
  shows "snd (run_requests check_request (new_limiter lmt win cap) es) = spec_run lmt win [] es"
proof (cases es)
  case (Cons e es')
  show ?thesis
  proof (rule rl.run_refines_log)
    show "limiter_inv lmt win (snd e) (new_limiter lmt win cap)"
      by (simp add: limiter_inv_def new_limiter_def windows_ok_def)
    show "\<forall>e' \<in> set es. snd e \<le> snd e'" using assms Cons by auto
    show "live_hits (new_limiter lmt win cap) k now = live_in_log win [] k now" for k now
      by (simp add: live_hits_def live_in_log_def new_limiter_def window_of_def)
  qed (rule assms)
qed simp

theorem check_refines_log_witness:
  "snd (run_requests check_request (new_limiter 1 10 1) [(''a'', 0), (''a'', 5), (''b'', 6), (''a'', 11)])
     = [(''a'', 0), (''b'', 6), (''a'', 11)]"
proof -
  have "sorted (map snd [(''a'', 0 :: rat), (''a'', 5), (''b'', 6), (''a'', 11)])" by simp
  from check_refines_log [OF this, of 1 10 1] show ?thesis by (simp add: live_in_log_def)
qed

text \<open>
  The ceiling itself: whatever the sequence of requests, in every window \<open>(t - window, t]\<close> at
  most \<open>limit\<close> requests of one client are admitted.  There is no boundary at which a client can
  spend two budgets.
\<close>

theorem check_rate_bound:
  assumes "sorted (map snd es)"
  shows "in_window win key t (snd (run_requests check_request (new_limiter lmt win cap) es)) \<le> lmt"
proof -
  have "snd (run_requests check_request (new_limiter lmt win cap) es) = spec_run lmt win [] es"
    using rl.run_refines_log [of lmt win "snd (hd es)" "new_limiter lmt win cap" es "[]"] assms
    by (cases es)
      (auto simp: limiter_inv_def new_limiter_def windows_ok_def live_hits_def live_in_log_def window_of_def)
  with spec_run_bound [OF assms, of "[]" win key lmt t] show ?thesis by simp
qed

theorem check_rate_bound_witness:
  "in_window 10 ''a'' 9 (snd (run_requests check_request (new_limiter 1 10 1) [(''a'', 0), (''a'', 5), (''b'', 6)])) \<le> 1"
proof -
  have "sorted (map snd [(''a'', 0 :: rat), (''a'', 5), (''b'', 6)])" by simp
  from check_rate_bound [OF this, of 10 "''a''" 9 1 1] show ?thesis by simp
qed

lemma run_distinct_clients:
  assumes "distinct ks" and "0 < win" and "0 < lmt" and "limit l = lmt" and "window_seconds l = win"
    and "\<forall>e \<in> set (hits l). snd e \<noteq> [] \<and> t - of_int win < last (snd e)"
    and "fst ` set (hits l) \<inter> set ks = {}"
  shows "tracked_clients (fst (run_requests check_request l (map (\<lambda>k. (k, t)) ks)))
       = tracked_clients l + length ks"
  using assms
proof (induction ks arbitrary: l)
  case (Cons k ks)
  have none: "map_of (hits l) k = None" using Cons.prems by (auto simp: map_of_eq_None_iff)
  have touched: "touch k [t] (hits l) = hits l @ [(k, [t])]"
    using Cons.prems(7) by (force simp: touch_def filter_id_conv)
  have stay: "evict_from cap (t - of_int win) (hits l @ [(k, [t])]) = hits l @ [(k, [t])]" for cap
    using Cons.prems(2,6) by (cases "hits l") auto
  have step: "check_request l k t = (True, l\<lparr>hits := hits l @ [(k, [t])]\<rparr>)"
    using none touched stay Cons.prems(3-5)
    by (simp add: check_request_def check_def prune_def evict_def Let_def admitted_def)
  have "tracked_clients (fst (run_requests check_request (l\<lparr>hits := hits l @ [(k, [t])]\<rparr>) (map (\<lambda>k. (k, t)) ks)))
      = tracked_clients (l\<lparr>hits := hits l @ [(k, [t])]\<rparr>) + length ks"
    using Cons.prems by (intro Cons.IH) auto
  then show ?case by (auto simp: step tracked_clients_def split: prod.splits)
qed simp

text \<open>
  \<open>max_clients\<close> does not bound the table.  Any number of distinct clients arriving within one
  window are all kept: the coldest window is live, so eviction stops before dropping anything.  The
  module's documentation calls the table bounded and says that a saturated table is left one entry
  over its cap.
\<close>

theorem table_is_unbounded:
  assumes "distinct ks" and "0 < win" and "0 < lmt"
  shows "tracked_clients (fst (run_requests check_request (new_limiter lmt win cap) (map (\<lambda>k. (k, t)) ks)))
       = length ks"
  using run_distinct_clients [OF assms, of "new_limiter lmt win cap" t]
  by (simp add: new_limiter_def tracked_clients_def)

theorem table_is_unbounded_witness:
  "tracked_clients (fst (run_requests check_request (new_limiter 5 60 1)
     (map (\<lambda>k. (k, 0)) [''a'', ''b'', ''c'', ''d'']))) = 4"
  using table_is_unbounded [of "[''a'', ''b'', ''c'', ''d'']" 60 5 1 0] by simp

lemma prune_from_idem [simp]: "prune_from h (prune_from h w) = prune_from h w"
  by (induction w) auto

lemma map_of_replace: "map_of (map (\<lambda>(k, v). if k = key then (k, w) else (k, v)) hs) k
    = (if k = key then map_option (\<lambda>_. w) (map_of hs key) else map_of hs k)"
  by (induction hs) auto

lemma peek_window:
  "prune l (window_of (hits (snd (peek l k now))) k') now = prune l (window_of (hits l) k') now"
  by (auto simp: peek_def window_of_def map_of_replace prune_def Let_def split: option.splits list.splits)

lemma peek_frame: "limit (snd (peek l k now)) = limit l \<and> window_seconds (snd (peek l k now)) = window_seconds l"
  by (auto simp: peek_def Let_def split: option.splits list.splits)

lemma check_depends:
  "prune l (window_of (hits l') k) now = prune l (window_of (hits l) k) now \<Longrightarrow>
   limit l' = limit l \<Longrightarrow> window_seconds l' = window_seconds l \<Longrightarrow> fst (check l' k now) = fst (check l k now)"
  by (simp add: check_def window_of_def prune_def Let_def split: list.splits)

text \<open>
  Asking first is consistent with spending: \<open>peek\<close> says a request would be admitted exactly
  when \<open>check\<close> at the same instant admits it, and having asked changes no later answer at that
  instant, for this client or any other.
\<close>

lemma peek_predicts_check:
  assumes "0 < limit l"
  shows "(allowed (fst (peek l k now)) \<longleftrightarrow> admitted (fst (check l k now))) \<and>
    fst (check (snd (peek l k now)) k' now) = fst (check l k' now)"
proof
  show "allowed (fst (peek l k now)) \<longleftrightarrow> admitted (fst (check l k now))"
    using assms
    by (auto simp: peek_def check_def prune_def admitted_def Let_def split: option.splits list.splits)
  show "fst (check (snd (peek l k now)) k' now) = fst (check l k' now)"
    by (rule check_depends) (simp_all add: peek_window peek_frame)
qed

end
