(* ===== verification/Schema.thy ===== *)
theory Schema
  imports Prelude "HOL-Library.Word"
begin

text \<open>
  The durable state: the tables of \<open>conjectures_subnet/db/models.py\<close> that the credit, intent,
  transfer and submission modules read and write, as one record of row lists, with the named
  CHECK, UNIQUE and FOREIGN KEY constraints of each table as executable predicates and the two
  writes every module uses, \<open>insert_into\<close> and \<open>update_in\<close>, which refuse a row that violates one
  of them.

  SQL's three-valued logic is written out: a CHECK whose expression is NULL passes, and NULLs in a
  unique index are distinct.  \<open>bytea\<close> is a list of bytes, \<open>now()\<close> is the field \<open>clock\<close>,
  \<open>gen_random_uuid()\<close> and the identity columns draw from counters, and the server's
  \<open>pg_catalog.sha256\<close> is a field, since it is code outside this repository.  The value domains
  \<open>ss58\<close> and \<open>sha256\<close> and the integer widths of the columns are not modelled.
\<close>

section \<open>Errors and enumerations\<close>

type_synonym bytes = "8 word list"

text \<open>
  \<open>db/errors.py\<close>: the message, the stable reason code and the keyword details of a refusal.
  \<open>PayoutConflict\<close> is the error of \<open>db/payouts.py\<close>, by the fixed part of its message.  JSON values are
  \<open>detail\<close>s; \<open>DTime\<close> is the ISO text of an instant.
\<close>

datatype detail = DStr string | DInt int | DUuid "uuid option" | DBytes bytes | DBool bool | DTime time | DList "detail list"

datatype db_error =
    RecordNotFound string
  | RecordConflict string string "(string \<times> detail) list"
  | IdempotencyConflict string "(string \<times> detail) list"
  | DuplicateProof string "(string \<times> detail) list"
  | DuplicatePayment string "(string \<times> detail) list"
  | PayoutConflict string
  | IntegrityError string
  | DigestError string
  | NoResultFound
  | PyError py_error

datatype task_mode = FORMALIZED | COUNTEREXAMPLE
datatype verification_state = UNVERIFIED | V_REJECTED | VERIFIED
datatype manual_review_state = UNREVIEWED | R_REJECTED | APPROVED
datatype reward_state = INELIGIBLE | ELIGIBLE | REWARDED | RW_FAILED
datatype credit_entry_kind = DEPOSIT | SPEND | REFUND | ADJUSTMENT | BONUS | GRANT
datatype deposit_state = AWAITING_TRANSFER | SEEN_UNFINALIZED | D_CREDITED | D_EXPIRED | D_FAILED
datatype intent_state = OPEN | BUNDLE_ATTACHED | I_CONFIRMED | I_EXPIRED | I_CANCELLED
datatype chain_transfer_state = UNATTRIBUTED | T_CREDITED | T_IGNORED
datatype payout_state = PENDING | SUBMITTED | P_CONFIRMED | P_FAILED
datatype treasury_payout_state = UNCLAIMED | CLAIMED | DISREGARDED
datatype review_outcome = O_APPROVED | O_REJECTED
datatype reviewer_kind = HUMAN | AUTOMATIC | ADVISORY
datatype order_state = TP_NEW | TP_FAILED | TP_CREATED | TP_PENDING | TP_CONFIRMING | TP_UNDERPAID
  | TP_CONFIRMED | TP_OVERPAID | TP_EXPIRED | TP_LATE_PAYMENT | TP_CANCELLED
datatype challenge_kind = C_EMAIL | C_WALLET | C_HOTKEY_LINK | C_HOTKEY_SESSION | C_COLDKEY_LINK
  | C_COLDKEY_SESSION | C_PASSWORD_SIGNUP | C_PASSWORD_RESET
datatype session_kind = COOKIE | BEARER

section \<open>Rows\<close>

text \<open>Accounts, and what is attached to them: identities, coldkeys, sessions and login challenges.\<close>

record account_row =
  a_id :: uuid
  a_email :: "string option"
  a_email_verified :: bool
  a_display_name :: "string option"
  a_password_hash :: "string option"
  a_password_updated_at :: "time option"
  a_failed_password_attempts :: int
  a_password_throttled_until :: "time option"
  a_roles :: "string list"
  a_payout_coldkey :: "ss58 option"
  a_submission_coldkey :: "ss58 option"
  a_created_at :: time
  a_updated_at :: time

record identity_row =
  ai_id :: serial
  ai_account_id :: uuid
  ai_provider :: string
  ai_subject :: string
  ai_email :: string
  ai_linked_at :: time
  ai_last_used_at :: time

record wallet_row =
  w_account_id :: uuid
  w_coldkey :: ss58
  w_signature :: bytes
  w_linked_at :: time

record session_row =
  se_id :: uuid
  se_account_id :: uuid
  se_kind :: session_kind
  se_token_sha256 :: bytes
  se_coldkey_scope :: "ss58 option"
  se_issued_at :: time
  se_last_seen_at :: time
  se_expires_at :: time
  se_revoked_at :: "time option"
  se_user_agent :: "string option"
  se_source_ip :: "string option"

record challenge_row =
  ch_id :: uuid
  ch_kind :: challenge_kind
  ch_account_id :: "uuid option"
  ch_email :: "string option"
  ch_ss58 :: "ss58 option"
  ch_secret_sha256 :: bytes
  ch_message :: "string option"
  ch_password_hash :: "string option"
  ch_expires_at :: time
  ch_consumed_at :: "time option"
  ch_created_at :: time
  ch_attempts :: int

text \<open>Invitations, and the purchases made through the card processor.\<close>

record invitation_row =
  iv_id :: uuid
  iv_code_sha256 :: bytes
  iv_credits :: int
  iv_max_redemptions :: int
  iv_redeemed_count :: int
  iv_email_domain :: "string option"
  iv_expires_at :: "time option"
  iv_revoked_at :: "time option"
  iv_note :: string
  iv_created_by :: uuid
  iv_created_at :: time

record redemption_row =
  rd_id :: uuid
  rd_invitation_id :: uuid
  rd_account_id :: uuid
  rd_created_at :: time

record order_row =
  o_id :: uuid
  o_account_id :: uuid
  o_credits :: int
  o_credit_price_rao :: rao
  o_status :: order_state
  o_external_id :: string
  o_invoice_id :: "string option"
  o_merchant_id :: "string option"
  o_fiat_amount :: "string option"
  o_fiat_currency :: "string option"
  o_exchange_rate :: "string option"
  o_commission_amount :: "string option"
  o_crypto_amount_rao :: "rao option"
  o_crypto_amount :: "string option"
  o_crypto_currency :: "string option"
  o_crypto_network :: "string option"
  o_deposit_address :: "string option"
  o_hosted_invoice_url :: "string option"
  o_credited_ledger_id :: "serial option"
  o_needs_review :: bool
  o_failure_reason :: "string option"
  o_last_event_id :: "string option"
  o_last_polled_at :: "time option"
  o_invoice_expires_at :: "time option"
  o_confirmed_at :: "time option"
  o_created_at :: time
  o_updated_at :: time

record webhook_row =
  wd_webhook_id :: string
  wd_order_id :: "uuid option"
  wd_invoice_id :: "string option"
  wd_event :: "string option"
  wd_status :: "string option"
  wd_outcome :: string
  wd_received_at :: time

record ledger_row =
  l_id :: serial
  l_account_id :: uuid
  l_kind :: credit_entry_kind
  l_amount_rao :: rao
  l_credit_price_rao :: "rao option"
  l_deposit_id :: "uuid option"
  l_intent_id :: "uuid option"
  l_tmc_pay_order_id :: "uuid option"
  l_invitation_redemption_id :: "uuid option"
  l_reason :: "string option"
  l_created_by :: string
  l_created_at :: time

record deposit_row =
  d_id :: uuid
  d_account_id :: uuid
  d_amount_rao :: rao
  d_treasury_address :: ss58
  d_credit_price_rao :: rao
  d_status :: deposit_state
  d_extrinsic_reference :: "string option"
  d_sender_coldkey :: "ss58 option"
  d_observed_amount_rao :: "rao option"
  d_block :: "int option"
  d_failure_reason :: "string option"
  d_credited_ledger_id :: "serial option"
  d_expires_at :: time
  d_created_at :: time
  d_updated_at :: time

record intent_row =
  i_id :: uuid
  i_account_id :: uuid
  i_hotkey :: "ss58 option"
  i_signer_coldkey :: "ss58 option"
  i_public_credit_name :: "string option"
  i_public_credit_url :: "string option"
  i_public_credit_orcid :: "string option"
  i_task_id :: string
  i_task_bundle_sha256 :: bytes
  i_status :: intent_state
  i_credits_held :: int
  i_credit_price_rao :: rao
  i_proof_content :: "bytes option"
  i_proof_sha256 :: "bytes option"
  i_request_digest :: "bytes option"
  i_submission_id :: "uuid option"
  i_expires_at :: time
  i_created_at :: time
  i_updated_at :: time

record transfer_row =
  t_id :: serial
  t_extrinsic_reference :: string
  t_block :: int
  t_block_timestamp :: time
  t_extrinsic_index :: int
  t_event_index :: int
  t_sender_coldkey :: ss58
  t_recipient :: ss58
  t_amount_rao :: rao
  t_status :: chain_transfer_state
  t_account_id :: "uuid option"
  t_deposit_id :: "uuid option"
  t_credit_price_rao :: "rao option"
  t_credits_granted :: int
  t_note :: "string option"
  t_observed_at :: time
  t_updated_at :: time

record cursor_row =
  c_watcher :: string
  c_recipient :: ss58
  c_netuid :: int
  c_uid :: int
  c_watch_from :: time
  c_start_block :: int
  c_start_block_timestamp :: time
  c_last_scanned_block :: int
  c_last_scanned_at :: time
  c_created_at :: time

record proof_row =
  p_digest :: bytes
  p_content :: bytes
  p_byte_length :: int
  p_created_at :: time

record submission_row =
  s_id :: uuid
  s_hotkey :: "ss58 option"
  s_public_credit_name :: "string option"
  s_public_credit_url :: "string option"
  s_public_credit_orcid :: "string option"
  s_idempotency_key :: uuid
  s_request_digest :: bytes
  s_task_id :: string
  s_task_bundle_sha256 :: bytes
  s_problem_id :: string
  s_reward_target_id :: string
  s_task_mode :: task_mode
  s_proof_digest :: bytes
  s_payment_reference :: "string option"
  s_payment_sender :: "ss58 option"
  s_payment_amount_rao :: "rao option"
  s_payment_block :: "int option"
  s_hotkey_signature :: "bytes option"
  s_signer_coldkey :: "ss58 option"
  s_signer_signature :: "bytes option"
  s_account_id :: "uuid option"
  s_credit_ledger_id :: "serial option"
  s_intent_id :: "uuid option"
  s_verification_status :: verification_state
  s_manual_review_status :: manual_review_state
  s_reward_status :: reward_state
  s_failure_reason :: "string option"
  s_manual_review_required :: bool
  s_review_policy_version :: string
  s_bounty_amount_rao :: rao
  s_bounty_policy_version :: string
  s_bounty_inputs :: "(string \<times> detail) list option"
  s_bounty_locked_at :: "time option"
  s_verification_lease_until :: "time option"
  s_verification_lease_owner :: "string option"
  s_verification_attempts :: int
  s_created_at :: time
  s_updated_at :: time

record event_row =
  e_id :: serial
  e_submission_id :: uuid
  e_kind :: string
  e_detail :: "string option"
  e_context :: "(string \<times> detail) list option"
  e_actor :: string
  e_occurred_at :: time

record run_row =
  v_id :: serial
  v_submission_id :: uuid
  v_task_bundle_sha256 :: bytes
  v_proof_digest :: bytes
  v_verifier_version :: string
  v_container_digest :: bytes
  v_sandbox_mode :: string
  v_accepted :: bool
  v_reason_code :: string
  v_stage :: string
  v_checks :: "(string \<times> bool) list option"
  v_report :: "bytes option"
  v_report_digest :: "bytes option"
  v_started_at :: time
  v_finished_at :: time

record decision_row =
  r_id :: serial
  r_submission_id :: uuid
  r_decision :: review_outcome
  r_kind :: reviewer_kind
  r_reviewer :: string
  r_policy_version :: string
  r_reason_code :: string
  r_notes :: "string option"
  r_notes_public :: "string option"
  r_supersedes_id :: "serial option"
  r_created_at :: time

record reward_row =
  rw_id :: serial
  rw_submission_id :: uuid
  rw_eligibility_reason :: string
  rw_amount_rao :: rao
  rw_pricing_policy_version :: string
  rw_pricing_inputs :: "(string \<times> detail) list option"
  rw_generation_key :: "string option"
  rw_destination_coldkey :: ss58
  rw_destination_hotkey :: "ss58 option"
  rw_status :: payout_state
  rw_chain_observed :: bool
  rw_extrinsic_reference :: "string option"
  rw_submitted_block :: "int option"
  rw_finalized_block :: "int option"
  rw_failure_reason :: "string option"
  rw_initiated_by :: string
  rw_created_at :: time
  rw_submitted_at :: "time option"
  rw_confirmed_at :: "time option"

record action_row =
  ac_id :: serial
  ac_reward_event_id :: serial
  ac_action :: string
  ac_actor :: string
  ac_reason :: string
  ac_review_decision_id :: serial
  ac_chain_evidence :: "(string \<times> detail) list"
  ac_created_at :: time

record payout_row =
  tp_id :: serial
  tp_extrinsic_reference :: string
  tp_block :: int
  tp_block_timestamp :: time
  tp_extrinsic_index :: int
  tp_event_index :: int
  tp_origin_coldkey :: ss58
  tp_origin_hotkey :: ss58
  tp_destination_coldkey :: ss58
  tp_destination_hotkey :: ss58
  tp_origin_netuid :: int
  tp_destination_netuid :: int
  tp_amount_rao :: rao
  tp_tao_equivalent_rao :: "rao option"
  tp_alpha_usd :: "rat option"
  tp_alpha_usd_observed_at :: "time option"
  tp_status :: treasury_payout_state
  tp_reward_event_id :: "serial option"
  tp_note :: "string option"
  tp_observed_at :: time
  tp_updated_at :: time

record payout_cursor_row =
  pc_watcher :: string
  pc_network :: string
  pc_origin_coldkey :: ss58
  pc_origin_hotkey :: ss58
  pc_netuid :: int
  pc_watch_from :: time
  pc_start_block :: int
  pc_start_block_timestamp :: time
  pc_last_scanned_block :: int
  pc_last_scanned_at :: time
  pc_created_at :: time

record delivery_row =
  dl_reward_event_id :: serial
  dl_signer_wallet :: string
  dl_discord_user_id :: string
  dl_status :: string
  dl_attempt_count :: int
  dl_next_attempt_at :: time
  dl_lease_owner :: "string option"
  dl_lease_until :: "time option"
  dl_last_error :: "string option"
  dl_created_at :: time
  dl_updated_at :: time
  dl_delivered_at :: "time option"

text \<open>Chat-log claims and the bonuses paid for them.\<close>

record claim_row =
  tc_id :: uuid
  tc_submission_id :: "uuid option"
  tc_account_id :: uuid
  tc_proof_digest :: bytes
  tc_reward_target_id :: string
  tc_task_bundle_sha256 :: bytes
  tc_status :: string
  tc_amount_usd_cents :: int
  tc_terms_version :: string
  tc_package :: "bytes option"
  tc_package_chunked :: bool
  tc_package_digest :: bytes
  tc_state_version :: int
  tc_offer_start_at :: time
  tc_revision :: int
  tc_proof_review_decision_id :: "serial option"
  tc_reviewer_id :: "uuid option"
  tc_review_note :: "string option"
  tc_consent :: "(string \<times> detail) list"
  tc_proof_policy_snapshot :: "(string \<times> detail) list"
  tc_checklist :: "(string \<times> detail) list option"
  tc_history :: "(string \<times> detail) list list"
  tc_created_at :: time
  tc_updated_at :: time
  tc_expires_at :: time
  tc_audit_expires_at :: time

record bonus_row =
  tb_id :: uuid
  tb_claim_id :: uuid
  tb_prepared_by :: uuid
  tb_prepared_at :: time
  tb_claim_state_version :: int
  tb_amount_usd_cents :: int
  tb_amount_rao :: rao
  tb_alpha_usd :: rat
  tb_price_source :: string
  tb_price_observed_at :: time
  tb_destination_coldkey :: ss58
  tb_origin_coldkey :: ss58
  tb_origin_hotkey :: ss58
  tb_destination_evidence :: string
  tb_status :: string
  tb_treasury_payout_id :: "serial option"
  tb_completed_at :: "time option"
  tb_completed_by :: "uuid option"
  tb_completion_evidence :: "(string \<times> detail) list option"

record bounty_task_row =
  bt_reward_target_id :: string
  bt_pricing_policy :: string
  bt_opened_at :: time
  bt_start_share_numerator :: int
  bt_start_share_denominator :: int

record db =
  clock :: time
  pg_sha256 :: "bytes \<Rightarrow> bytes"
  next_uuid :: uuid
  next_ledger_id :: serial
  next_transfer_id :: serial
  next_event_id :: serial
  next_run_id :: serial
  next_decision_id :: serial
  next_reward_id :: serial
  next_action_id :: serial
  next_payout_id :: serial
  accounts :: "account_row list"
  wallets :: "wallet_row list"
  ledger :: "ledger_row list"
  deposits :: "deposit_row list"
  intents :: "intent_row list"
  transfers :: "transfer_row list"
  cursors :: "cursor_row list"
  proofs :: "proof_row list"
  submissions :: "submission_row list"
  events :: "event_row list"
  runs :: "run_row list"
  decisions :: "decision_row list"
  reward_events :: "reward_row list"
  instruction_actions :: "action_row list"
  treasury_payouts :: "payout_row list"
  payout_cursors :: "payout_cursor_row list"
  deliveries :: "delivery_row list"
  trajectory_claims :: "claim_row list"
  bonuses :: "bonus_row list"
  bounty_tasks :: "bounty_task_row list"
  next_identity_id :: serial
  identities :: "identity_row list"
  sessions :: "session_row list"
  challenges :: "challenge_row list"
  invitations :: "invitation_row list"
  redemptions :: "redemption_row list"
  orders :: "order_row list"
  webhook_deliveries :: "webhook_row list"

type_synonym 'a dbtx = "(db, db_error, 'a) tx"

section \<open>Constraints\<close>

text \<open>
  A table's constraints are a list of names with their truth for one row.  PostgreSQL reports one
  violated constraint: the CHECKs come before the unique indexes, these in the order of their
  creation, and the foreign keys come last.
\<close>

definition violated :: "(string \<times> bool) list \<Rightarrow> string option" where
  "violated cs = map_option fst (List.find (\<lambda>c. \<not> snd c) cs)"

definition length_between :: "int \<Rightarrow> int \<Rightarrow> string \<Rightarrow> bool" where
  "length_between lo hi s \<longleftrightarrow> lo \<le> int (length s) \<and> int (length s) \<le> hi"

definition in_chars :: "string \<Rightarrow> char \<Rightarrow> bool" where
  "in_chars cs c \<longleftrightarrow> c \<in> set cs"

abbreviation "digit_chars \<equiv> ''0123456789''"
abbreviation "lower_chars \<equiv> ''abcdefghijklmnopqrstuvwxyz''"
abbreviation "upper_chars \<equiv> ''ABCDEFGHIJKLMNOPQRSTUVWXYZ''"

text \<open>\<open>x = btrim(x)\<close>: no space at either end.\<close>

definition is_btrimmed :: "string \<Rightarrow> bool" where
  "is_btrimmed s \<longleftrightarrow> s = [] \<or> hd s \<noteq> CHR '' '' \<and> last s \<noteq> CHR '' ''"

definition is_https_url :: "string \<Rightarrow> bool" where
  "is_https_url s \<longleftrightarrow> take 8 s = ''https://''"

text \<open>\<open>^[0-9]{4}-[0-9]{4}-[0-9]{4}-[0-9]{3}[0-9X]$\<close>\<close>

definition is_orcid :: "string \<Rightarrow> bool" where
  "is_orcid s \<longleftrightarrow> length s = 19 \<and>
     list_all (\<lambda>i. in_chars
        (if i \<in> {4, 9, 14} then ''-'' else if i = 18 then digit_chars @ ''X'' else digit_chars) (s ! i))
       [0..<19]"

text \<open>\<open>^[A-Z][A-Z0-9_]{0,63}$\<close> and \<open>^[a-z][a-z0-9-]{0,63}$\<close>\<close>

definition is_event_kind :: "string \<Rightarrow> bool" where
  "is_event_kind s \<longleftrightarrow> length_between 1 64 s \<and> in_chars upper_chars (hd s) \<and>
     list_all (in_chars (upper_chars @ digit_chars @ ''_'')) (tl s)"

definition is_watcher_name :: "string \<Rightarrow> bool" where
  "is_watcher_name s \<longleftrightarrow> length_between 1 64 s \<and> in_chars lower_chars (hd s) \<and>
     list_all (in_chars (lower_chars @ digit_chars @ ''-'')) (tl s)"

text \<open>Two rows collide on a unique index when both have the same non-NULL key; a row never collides with itself.\<close>

definition unique_on :: "('r \<Rightarrow> 'k) \<Rightarrow> ('r \<Rightarrow> 'c option) \<Rightarrow> 'r \<Rightarrow> 'r list \<Rightarrow> bool" where
  "unique_on key col r rows \<longleftrightarrow>
     (case col r of None \<Rightarrow> True
      | Some v \<Rightarrow> list_all (\<lambda>x. key x = key r \<or> col x \<noteq> Some v) rows)"

definition references :: "'k option \<Rightarrow> ('r \<Rightarrow> 'k) \<Rightarrow> 'r list \<Rightarrow> bool" where
  "references v key rows \<longleftrightarrow> (case v of None \<Rightarrow> True | Some k \<Rightarrow> list_ex (\<lambda>x. key x = k) rows)"

subsection \<open>\<open>credit_ledger\<close>\<close>

definition ledger_checks :: "ledger_row \<Rightarrow> (string \<times> bool) list" where
  "ledger_checks r =
    [(''ledger_amount_nonzero'', l_amount_rao r \<noteq> 0),
     (''ledger_price_positive'', pred_option (\<lambda>v. v > 0) (l_credit_price_rao r)),
     (''ledger_credits_are_positive'',
        l_kind r \<notin> {DEPOSIT, REFUND, BONUS, GRANT} \<or> l_amount_rao r > 0),
     (''ledger_spends_are_negative'', l_kind r \<noteq> SPEND \<or> l_amount_rao r < 0),
     (''ledger_adjustments_explain_themselves'', l_kind r \<noteq> ADJUSTMENT \<or> l_reason r \<noteq> None),
     (''ledger_spend_names_its_intent'',
        l_kind r \<noteq> SPEND \<or> l_intent_id r \<noteq> None \<and> l_credit_price_rao r \<noteq> None),
     (''ledger_grant_names_its_redemption'',
        l_kind r \<noteq> GRANT \<or> l_invitation_redemption_id r \<noteq> None \<and> l_credit_price_rao r \<noteq> None),
     (''ledger_redemption_only_on_grant'', l_invitation_redemption_id r = None \<or> l_kind r = GRANT),
     (''ledger_deposit_names_its_deposit'',
        l_kind r \<noteq> DEPOSIT \<or> (l_deposit_id r \<noteq> None) \<noteq> (l_tmc_pay_order_id r \<noteq> None))]"

definition ledger_keys :: "db \<Rightarrow> ledger_row \<Rightarrow> (string \<times> bool) list" where
  "ledger_keys s r =
    [(''credit_ledger_spend_idx'',
        unique_on l_id (\<lambda>x. if l_kind x = SPEND then l_intent_id x else None) r (ledger s)),
     (''credit_ledger_tmc_pay_idx'', unique_on l_id l_tmc_pay_order_id r (ledger s)),
     (''credit_ledger_grant_idx'', unique_on l_id l_invitation_redemption_id r (ledger s)),
     (''credit_ledger_account_id_fkey'', references (Some (l_account_id r)) a_id (accounts s)),
     (''credit_ledger_deposit_fkey'', references (l_deposit_id r) d_id (deposits s)),
     (''credit_ledger_intent_fkey'', references (l_intent_id r) i_id (intents s)),
     (''credit_ledger_tmc_pay_order_fkey'', references (l_tmc_pay_order_id r) o_id (orders s)),
     (''credit_ledger_invitation_redemption_fkey'',
        references (l_invitation_redemption_id r) rd_id (redemptions s))]"

subsection \<open>\<open>deposits\<close>\<close>

definition deposit_checks :: "deposit_row \<Rightarrow> (string \<times> bool) list" where
  "deposit_checks r =
    [(''deposit_amount_positive'', d_amount_rao r > 0),
     (''deposit_price_positive'', d_credit_price_rao r > 0),
     (''deposit_reference_length'', pred_option (length_between 1 128) (d_extrinsic_reference r)),
     (''deposit_observed_positive'', pred_option (\<lambda>v. v > 0) (d_observed_amount_rao r)),
     (''deposit_block_positive'', pred_option (\<lambda>v. v > 0) (d_block r)),
     (''deposit_credited_needs_ledger_and_finality'',
        d_status r \<noteq> D_CREDITED \<or>
        d_credited_ledger_id r \<noteq> None \<and> d_extrinsic_reference r \<noteq> None \<and>
        d_observed_amount_rao r \<noteq> None \<and> d_block r \<noteq> None),
     (''deposit_seen_needs_a_reference'',
        d_status r \<noteq> SEEN_UNFINALIZED \<or> d_extrinsic_reference r \<noteq> None),
     (''deposit_failed_needs_a_reason'', d_status r \<noteq> D_FAILED \<or> d_failure_reason r \<noteq> None),
     (''deposits_updated_not_before_created'', d_updated_at r \<ge> d_created_at r)]"

definition deposit_keys :: "db \<Rightarrow> deposit_row \<Rightarrow> (string \<times> bool) list" where
  "deposit_keys s r =
    [(''deposits_credited_ledger_id_key'', unique_on d_id d_credited_ledger_id r (deposits s)),
     (''deposits_extrinsic_idx'', unique_on d_id d_extrinsic_reference r (deposits s)),
     (''deposits_account_id_fkey'', references (Some (d_account_id r)) a_id (accounts s)),
     (''deposits_credited_ledger_id_fkey'', references (d_credited_ledger_id r) l_id (ledger s))]"

subsection \<open>\<open>submission_intents\<close>\<close>

definition intent_checks :: "db \<Rightarrow> intent_row \<Rightarrow> (string \<times> bool) list" where
  "intent_checks s r =
    [(''intent_task_id_nonempty'', length_between 1 255 (i_task_id r)),
     (''intent_public_credit_name_shape'',
        pred_option (\<lambda>n. length_between 1 128 n \<and> is_btrimmed n) (i_public_credit_name r)),
     (''intent_public_credit_url_shape'',
        pred_option (\<lambda>u. i_public_credit_name r \<noteq> None \<and> length_between 1 2048 u \<and> is_https_url u)
          (i_public_credit_url r)),
     (''intent_public_credit_orcid_shape'',
        pred_option (\<lambda>i. i_public_credit_name r \<noteq> None \<and> is_orcid i) (i_public_credit_orcid r)),
     (''intent_holds_something'', i_credits_held r > 0),
     (''intent_price_positive'', i_credit_price_rao r > 0),
     (''intent_proof_is_paired'', (i_proof_content r = None) = (i_proof_sha256 r = None)),
     (''intent_proof_digest_matches'',
        (case (i_proof_content r, i_proof_sha256 r) of
           (Some c, Some d) \<Rightarrow> d = pg_sha256 s c | _ \<Rightarrow> True)),
     (''intent_attached_has_a_proof'',
        i_status r \<noteq> BUNDLE_ATTACHED \<or> i_proof_sha256 r \<noteq> None \<and> i_request_digest r \<noteq> None),
     (''intent_confirmed_has_a_submission'',
        i_status r \<noteq> I_CONFIRMED \<or> i_submission_id r \<noteq> None),
     (''intent_expires_after_creation'', i_expires_at r > i_created_at r),
     (''intents_updated_not_before_created'', i_updated_at r \<ge> i_created_at r)]"

definition intent_keys :: "db \<Rightarrow> intent_row \<Rightarrow> (string \<times> bool) list" where
  "intent_keys s r =
    [(''submission_intents_submission_id_key'', unique_on i_id i_submission_id r (intents s)),
     (''submission_intents_account_id_fkey'', references (Some (i_account_id r)) a_id (accounts s)),
     (''submission_intents_submission_id_fkey'', references (i_submission_id r) s_id (submissions s))]"

text \<open>The trigger \<open>submission_intents_reject_hotkey\<close>, before an insert only.\<close>

definition intent_insert_guard :: "intent_row \<Rightarrow> (string \<times> bool) list" where
  "intent_insert_guard r = [(''intent_names_no_hotkey'', i_hotkey r = None)]"

subsection \<open>\<open>chain_transfers\<close> and \<open>chain_watch_cursor\<close>\<close>

definition transfer_checks :: "transfer_row \<Rightarrow> (string \<times> bool) list" where
  "transfer_checks r =
    [(''transfer_reference_length'', length_between 1 128 (t_extrinsic_reference r)),
     (''transfer_block_positive'', t_block r > 0),
     (''transfer_extrinsic_index_nonnegative'', t_extrinsic_index r \<ge> 0),
     (''transfer_event_index_nonnegative'', t_event_index r \<ge> 0),
     (''transfer_amount_positive'', t_amount_rao r > 0),
     (''transfer_price_positive'', pred_option (\<lambda>v. v > 0) (t_credit_price_rao r)),
     (''transfer_credits_nonnegative'', t_credits_granted r \<ge> 0),
     (''transfer_note_length'', pred_option (length_between 1 500) (t_note r)),
     (''transfer_credited_needs_attribution'',
        t_status r \<noteq> T_CREDITED \<or>
        t_account_id r \<noteq> None \<and> t_deposit_id r \<noteq> None \<and> t_credit_price_rao r \<noteq> None),
     (''transfer_uncredited_grants_nothing'', t_status r = T_CREDITED \<or> t_credits_granted r = 0),
     (''transfer_ignored_needs_a_reason'', t_status r \<noteq> T_IGNORED \<or> t_note r \<noteq> None),
     (''chain_transfers_updated_not_before_observed'', t_updated_at r \<ge> t_observed_at r)]"

definition transfer_keys :: "db \<Rightarrow> transfer_row \<Rightarrow> (string \<times> bool) list" where
  "transfer_keys s r =
    [(''chain_transfers_deposit_id_key'', unique_on t_id t_deposit_id r (transfers s)),
     (''chain_transfers_reference_idx'',
        unique_on t_id (\<lambda>x. Some (t_extrinsic_reference x)) r (transfers s)),
     (''chain_transfers_position_idx'',
        unique_on t_id (\<lambda>x. Some (t_block x, t_extrinsic_index x, t_event_index x)) r (transfers s)),
     (''chain_transfers_account_id_fkey'', references (t_account_id r) a_id (accounts s)),
     (''chain_transfers_deposit_id_fkey'', references (t_deposit_id r) d_id (deposits s))]"

definition cursor_checks :: "cursor_row \<Rightarrow> (string \<times> bool) list" where
  "cursor_checks r =
    [(''watcher_name_shape'', is_watcher_name (c_watcher r)),
     (''cursor_netuid_nonnegative'', c_netuid r \<ge> 0),
     (''cursor_uid_nonnegative'', c_uid r \<ge> 0),
     (''cursor_start_block_positive'', c_start_block r > 0),
     (''cursor_never_reads_before_its_start'', c_last_scanned_block r \<ge> c_start_block r - 1),
     (''cursor_start_block_is_at_or_after_watch_from'', c_start_block_timestamp r \<ge> c_watch_from r)]"

subsection \<open>\<open>proofs\<close>, \<open>submissions\<close> and \<open>submission_events\<close>\<close>

definition proof_checks :: "db \<Rightarrow> proof_row \<Rightarrow> (string \<times> bool) list" where
  "proof_checks s r =
    [(''proof_digest_matches'', p_digest r = pg_sha256 s (p_content r)),
     (''proof_length_matches'', p_byte_length r = int (length (p_content r)))]"

definition submission_checks :: "submission_row \<Rightarrow> (string \<times> bool) list" where
  "submission_checks r =
    [(''task_id_nonempty'', length_between 1 255 (s_task_id r)),
     (''problem_id_nonempty'', length_between 1 255 (s_problem_id r)),
     (''reward_target_id_nonempty'', length_between 1 255 (s_reward_target_id r)),
     (''submission_public_credit_name_shape'',
        pred_option (\<lambda>n. length_between 1 128 n \<and> is_btrimmed n) (s_public_credit_name r)),
     (''submission_public_credit_url_shape'',
        pred_option (\<lambda>u. s_public_credit_name r \<noteq> None \<and> length_between 1 2048 u \<and> is_https_url u)
          (s_public_credit_url r)),
     (''submission_public_credit_orcid_shape'',
        pred_option (\<lambda>i. s_public_credit_name r \<noteq> None \<and> is_orcid i) (s_public_credit_orcid r)),
     (''payment_reference_nonempty'', pred_option (length_between 1 128) (s_payment_reference r)),
     (''payment_amount_positive'', pred_option (\<lambda>v. v > 0) (s_payment_amount_rao r)),
     (''payment_block_positive'', pred_option (\<lambda>v. v > 0) (s_payment_block r)),
     (''hotkey_signature_len'', pred_option (\<lambda>b. length b = 64) (s_hotkey_signature r)),
     (''signer_signature_len'', pred_option (\<lambda>b. length b = 64) (s_signer_signature r)),
     (''review_policy_version_nonempty'', length_between 1 64 (s_review_policy_version r)),
     (''bounty_amount_positive'', s_bounty_amount_rao r > 0),
     (''bounty_policy_version_nonempty'', length_between 1 64 (s_bounty_policy_version r)),
     (''bounty_locked_not_before_submission'',
        pred_option (\<lambda>t. t \<ge> s_created_at r) (s_bounty_locked_at r)),
     (''verification_attempts_nonneg'', s_verification_attempts r \<ge> 0),
     (''verification_lease_paired'',
        (s_verification_lease_until r = None) = (s_verification_lease_owner r = None)),
     (''verification_lease_owner_len'',
        pred_option (length_between 1 128) (s_verification_lease_owner r)),
     (''updated_not_before_created'', s_updated_at r \<ge> s_created_at r)]"

definition submission_funding_checks :: "submission_row \<Rightarrow> (string \<times> bool) list" where
  "submission_funding_checks r =
    [(''submission_funded_exactly_once'',
        (s_payment_reference r \<noteq> None) \<noteq> (s_credit_ledger_id r \<noteq> None)),
     (''submission_payment_is_complete'',
        s_payment_reference r = None \<or>
        s_payment_sender r \<noteq> None \<and> s_payment_amount_rao r \<noteq> None \<and> s_payment_block r \<noteq> None),
     (''submission_credit_path_is_complete'',
        s_credit_ledger_id r = None \<or> s_account_id r \<noteq> None \<and> s_intent_id r \<noteq> None),
     (''submission_signer_coldkey_is_funded'',
        (case s_signer_coldkey r of None \<Rightarrow> True
         | Some k \<Rightarrow> s_account_id r \<noteq> None \<and> s_credit_ledger_id r \<noteq> None \<or>
             (case s_payment_sender r of None \<Rightarrow> True | Some p \<Rightarrow> k = p))),
     (''submission_authorised_exactly_once'',
        s_hotkey r \<noteq> None \<and> s_hotkey_signature r \<noteq> None \<or>
        s_signer_coldkey r \<noteq> None \<and> s_signer_signature r \<noteq> None \<or>
        s_hotkey r = None \<and> s_hotkey_signature r = None \<and> s_signer_coldkey r = None \<and>
        s_signer_signature r = None \<and> s_account_id r \<noteq> None \<and> s_credit_ledger_id r \<noteq> None)]"

text \<open>\<open>(a, b)\<close> as a composite index key: NULL when either part is.\<close>

definition both :: "'a option \<Rightarrow> 'b \<Rightarrow> ('a \<times> 'b) option" where
  "both a b = map_option (\<lambda>x. (x, b)) a"

definition submission_unique :: "db \<Rightarrow> submission_row \<Rightarrow> (string \<times> bool) list" where
  "submission_unique s r =
    [(''submissions_proof_digest_key'', unique_on s_id (\<lambda>x. Some (s_proof_digest x)) r (submissions s)),
     (''submissions_idempotency_unique'',
        unique_on s_id (\<lambda>x. both (s_hotkey x) (s_idempotency_key x)) r (submissions s)),
     (''submissions_payment_reference_unique'', unique_on s_id s_payment_reference r (submissions s)),
     (''submissions_credit_ledger_id_key'', unique_on s_id s_credit_ledger_id r (submissions s)),
     (''submissions_intent_id_key'', unique_on s_id s_intent_id r (submissions s)),
     (''submissions_reward_target_reward_unique'',
        unique_on s_id (\<lambda>x. if s_reward_status x \<noteq> INELIGIBLE then Some (s_reward_target_id x) else None)
          r (submissions s)),
     (''submissions_session_idempotency_unique'',
        unique_on s_id (\<lambda>x. if s_hotkey x = None then both (s_account_id x) (s_idempotency_key x) else None)
          r (submissions s)),
     (''submissions_signer_idempotency_unique'',
        unique_on s_id (\<lambda>x. both (s_signer_coldkey x) (s_idempotency_key x)) r (submissions s))]"

definition submission_fkeys :: "db \<Rightarrow> submission_row \<Rightarrow> (string \<times> bool) list" where
  "submission_fkeys s r =
    [(''submissions_proof_digest_fkey'', references (Some (s_proof_digest r)) p_digest (proofs s)),
     (''submissions_account_id_fkey'', references (s_account_id r) a_id (accounts s)),
     (''submissions_credit_ledger_id_fkey'', references (s_credit_ledger_id r) l_id (ledger s)),
     (''submissions_intent_id_fkey'', references (s_intent_id r) i_id (intents s))]"

text \<open>The trigger \<open>submissions_reject_hotkey\<close>, before an insert only.\<close>

definition submission_insert_guard :: "submission_row \<Rightarrow> (string \<times> bool) list" where
  "submission_insert_guard r =
    [(''submission_names_no_hotkey'', s_hotkey r = None \<and> s_hotkey_signature r = None)]"

definition event_checks :: "db \<Rightarrow> event_row \<Rightarrow> (string \<times> bool) list" where
  "event_checks s r =
    [(''event_kind_shape'', is_event_kind (e_kind r)),
     (''submission_events_submission_id_fkey'', references (Some (e_submission_id r)) s_id (submissions s))]"

text \<open>
  The update triggers of \<open>submissions\<close>: what a row says of its miner, its signature and its
  public credit never changes.
\<close>

definition submission_update_guard :: "submission_row \<Rightarrow> submission_row \<Rightarrow> (string \<times> bool) list" where
  "submission_update_guard old new =
    [(''submission_legacy_hotkey_immutable'',
        s_hotkey new = s_hotkey old \<and> s_hotkey_signature new = s_hotkey_signature old),
     (''submission_public_credit_immutable'',
        s_public_credit_name new = s_public_credit_name old \<and>
        s_public_credit_url new = s_public_credit_url old \<and>
        s_public_credit_orcid new = s_public_credit_orcid old),
     (''submission_signer_coldkey_immutable'', s_signer_coldkey new = s_signer_coldkey old),
     (''submission_signer_signature_immutable'', s_signer_signature new = s_signer_signature old)]"

subsection \<open>\<open>verification_runs\<close> and \<open>review_decisions\<close>\<close>

definition run_checks :: "db \<Rightarrow> run_row \<Rightarrow> (string \<times> bool) list" where
  "run_checks s r =
    [(''runs_report_paired'', (v_report r = None) = (v_report_digest r = None)),
     (''runs_report_digest_matches'',
        (case (v_report r, v_report_digest r) of (Some c, Some d) \<Rightarrow> d = pg_sha256 s c | _ \<Rightarrow> True)),
     (''runs_finished_after_started'', v_finished_at r \<ge> v_started_at r),
     (''verification_runs_submission_id_fkey'',
        references (Some (v_submission_id r)) s_id (submissions s)),
     (''verification_runs_proof_digest_fkey'',
        references (Some (v_proof_digest r)) p_digest (proofs s))]"

definition decision_checks :: "db \<Rightarrow> decision_row \<Rightarrow> (string \<times> bool) list" where
  "decision_checks s r =
    [(''reviewer_nonempty'', length_between 1 255 (r_reviewer r)),
     (''review_notes_public_length'', pred_option (length_between 1 100000) (r_notes_public r)),
     (''review_supersedes_not_self'', r_supersedes_id r \<noteq> Some (r_id r)),
     (''review_decisions_supersedes_unique'',
        unique_on r_id (\<lambda>x. both (r_supersedes_id x) (r_submission_id x)) r (decisions s)),
     (''review_decisions_submission_id_fkey'',
        references (Some (r_submission_id r)) s_id (submissions s)),
     (''review_supersedes_same_submission'',
        references (both (r_supersedes_id r) (r_submission_id r))
          (\<lambda>x. (r_id x, r_submission_id x)) (decisions s))]"

section \<open>Writes\<close>

text \<open>
  \<open>session.add\<close> with \<open>flush\<close>, and the flush of a changed row.  \<open>put\<close> stores the table's new rows.
\<close>

definition insert_into ::
  "('s \<Rightarrow> 'r list) \<Rightarrow> ('r list \<Rightarrow> 's \<Rightarrow> 's) \<Rightarrow> ('s \<Rightarrow> 'r \<Rightarrow> (string \<times> bool) list) \<Rightarrow> 'r \<Rightarrow>
   ('s, db_error, unit) tx" where
  "insert_into rows put checks r s =
     (case violated (checks s r) of
        Some c \<Rightarrow> Inl (IntegrityError c)
      | None \<Rightarrow> Inr ((), put (rows s @ [r]) s))"

text \<open>
  \<open>INSERT ... ON CONFLICT (column) DO NOTHING\<close>: the CHECKs of the new row are evaluated first; then
  a row with the same value in the arbiter column makes the statement a no-op.  The value says
  whether a row was written.
\<close>

definition insert_or_skip ::
  "('s \<Rightarrow> 'r list) \<Rightarrow> ('r list \<Rightarrow> 's \<Rightarrow> 's) \<Rightarrow> ('s \<Rightarrow> 'r \<Rightarrow> (string \<times> bool) list) \<Rightarrow>
   ('s \<Rightarrow> 'r \<Rightarrow> (string \<times> bool) list) \<Rightarrow> ('r \<Rightarrow> 'k) \<Rightarrow> 'r \<Rightarrow> ('s, db_error, bool) tx" where
  "insert_or_skip rows put checks keys arbiter r s =
     (case violated (checks s r) of
        Some c \<Rightarrow> Inl (IntegrityError c)
      | None \<Rightarrow>
          if list_ex (\<lambda>x. arbiter x = arbiter r) (rows s) then Inr (False, s)
          else (case violated (keys s r) of
                  Some c \<Rightarrow> Inl (IntegrityError c)
                | None \<Rightarrow> Inr (True, put (rows s @ [r]) s)))"

definition replace_row :: "('r \<Rightarrow> 'k) \<Rightarrow> 'r \<Rightarrow> 'r list \<Rightarrow> 'r list" where
  "replace_row key r rows = map (\<lambda>x. if key x = key r then r else x) rows"

definition update_in ::
  "('s \<Rightarrow> 'r list) \<Rightarrow> ('r list \<Rightarrow> 's \<Rightarrow> 's) \<Rightarrow> ('r \<Rightarrow> 'k) \<Rightarrow> ('s \<Rightarrow> 'r \<Rightarrow> (string \<times> bool) list) \<Rightarrow>
   'r \<Rightarrow> ('s, db_error, unit) tx" where
  "update_in rows put key checks r s =
     (case violated (checks s r) of
        Some c \<Rightarrow> Inl (IntegrityError c)
      | None \<Rightarrow> Inr ((), put (replace_row key r (rows s)) s))"

text \<open>\<open>UPDATE ... SET ... WHERE ...\<close> over a whole table; the value is the row count.\<close>

definition update_where ::
  "('s \<Rightarrow> 'r list) \<Rightarrow> ('r list \<Rightarrow> 's \<Rightarrow> 's) \<Rightarrow> ('s \<Rightarrow> 'r \<Rightarrow> (string \<times> bool) list) \<Rightarrow>
   ('r \<Rightarrow> bool) \<Rightarrow> ('s \<Rightarrow> 'r \<Rightarrow> 'r) \<Rightarrow> ('s, db_error, int) tx" where
  "update_where rows put checks cond f s =
     (case violated (concat (map (\<lambda>r. if cond r then checks s (f s r) else []) (rows s))) of
        Some c \<Rightarrow> Inl (IntegrityError c)
      | None \<Rightarrow> Inr (int (length (filter cond (rows s))),
                    put (map (\<lambda>r. if cond r then f s r else r) (rows s)) s))"

text \<open>\<open>except IntegrityError: await session.rollback(); raise ...\<close>\<close>

definition on_integrity :: "(string \<Rightarrow> db_error) \<Rightarrow> ('s, db_error, 'a) tx \<Rightarrow> ('s, db_error, 'a) tx" where
  "on_integrity h m s = (case m s of Inl (IntegrityError c) \<Rightarrow> Inl (h c) | r \<Rightarrow> r)"

text \<open>A Python error inside a transaction.\<close>

definition lift_py :: "py_error + 'a \<Rightarrow> ('s, db_error, 'a) tx" where
  "lift_py r s = (case r of Inl e \<Rightarrow> Inl (PyError e) | Inr x \<Rightarrow> Inr (x, s))"

text \<open>\<open>session.get\<close> and \<open>SELECT ... WHERE key = k\<close> on a key column.\<close>

definition find_row :: "('r \<Rightarrow> 'k) \<Rightarrow> 'k \<Rightarrow> 'r list \<Rightarrow> 'r option" where
  "find_row key k rows = List.find (\<lambda>x. key x = k) rows"

definition insert_ledger :: "ledger_row \<Rightarrow> unit dbtx" where
  "insert_ledger = insert_into ledger (\<lambda>rs. ledger_update (\<lambda>_. rs))
     (\<lambda>s r. ledger_checks r @ ledger_keys s r)"

definition insert_deposit :: "deposit_row \<Rightarrow> unit dbtx" where
  "insert_deposit = insert_into deposits (\<lambda>rs. deposits_update (\<lambda>_. rs))
     (\<lambda>s r. deposit_checks r @ deposit_keys s r)"

text \<open>The \<open>touch_updated_at\<close> triggers set \<open>updated_at := now()\<close> before every update.\<close>

definition update_deposit :: "deposit_row \<Rightarrow> unit dbtx" where
  "update_deposit r s = update_in deposits (\<lambda>rs. deposits_update (\<lambda>_. rs)) d_id
     (\<lambda>s r. deposit_checks r @ deposit_keys s r) (r\<lparr>d_updated_at := clock s\<rparr>) s"

definition insert_intent :: "intent_row \<Rightarrow> unit dbtx" where
  "insert_intent = insert_into intents (\<lambda>rs. intents_update (\<lambda>_. rs))
     (\<lambda>s r. intent_insert_guard r @ intent_checks s r @ intent_keys s r)"

definition update_intent :: "intent_row \<Rightarrow> unit dbtx" where
  "update_intent r s = update_in intents (\<lambda>rs. intents_update (\<lambda>_. rs)) i_id
     (\<lambda>s r. intent_checks s r @ intent_keys s r) (r\<lparr>i_updated_at := clock s\<rparr>) s"

text \<open>The only inserts into \<open>chain_transfers\<close> and \<open>proofs\<close> skip a row that is already there.\<close>

definition insert_transfer :: "transfer_row \<Rightarrow> bool dbtx" where
  "insert_transfer = insert_or_skip transfers (\<lambda>rs. transfers_update (\<lambda>_. rs))
     (\<lambda>s. transfer_checks) transfer_keys t_extrinsic_reference"

definition insert_proof :: "proof_row \<Rightarrow> bool dbtx" where
  "insert_proof = insert_or_skip proofs (\<lambda>rs. proofs_update (\<lambda>_. rs)) proof_checks (\<lambda>s r. []) p_digest"

definition update_transfer :: "transfer_row \<Rightarrow> unit dbtx" where
  "update_transfer r s = update_in transfers (\<lambda>rs. transfers_update (\<lambda>_. rs)) t_id
     (\<lambda>s r. transfer_checks r @ transfer_keys s r) (r\<lparr>t_updated_at := clock s\<rparr>) s"

definition insert_cursor :: "cursor_row \<Rightarrow> unit dbtx" where
  "insert_cursor = insert_into cursors (\<lambda>rs. cursors_update (\<lambda>_. rs))
     (\<lambda>s r. cursor_checks r @
        [(''chain_watch_cursor_pkey'', list_all (\<lambda>x. c_watcher x \<noteq> c_watcher r) (cursors s))])"

definition update_cursor :: "cursor_row \<Rightarrow> unit dbtx" where
  "update_cursor = update_in cursors (\<lambda>rs. cursors_update (\<lambda>_. rs)) c_watcher (\<lambda>s r. cursor_checks r)"

definition insert_submission :: "submission_row \<Rightarrow> unit dbtx" where
  "insert_submission = insert_into submissions (\<lambda>rs. submissions_update (\<lambda>_. rs))
     (\<lambda>s r. submission_insert_guard r @ submission_checks r @ submission_funding_checks r @
        submission_unique s r @ submission_fkeys s r)"

definition update_submission :: "submission_row \<Rightarrow> unit dbtx" where
  "update_submission r s =
     (case find_row s_id (s_id r) (submissions s) of
        None \<Rightarrow> Inr ((), s)
      | Some old \<Rightarrow>
          update_in submissions (\<lambda>rs. submissions_update (\<lambda>_. rs)) s_id
            (\<lambda>s r. submission_update_guard old r @ submission_checks r @ submission_funding_checks r @
               submission_unique s r @ submission_fkeys s r) (r\<lparr>s_updated_at := clock s\<rparr>) s)"

definition insert_run :: "run_row \<Rightarrow> unit dbtx" where
  "insert_run = insert_into runs (\<lambda>rs. runs_update (\<lambda>_. rs)) run_checks"

definition insert_decision :: "decision_row \<Rightarrow> unit dbtx" where
  "insert_decision = insert_into decisions (\<lambda>rs. decisions_update (\<lambda>_. rs)) decision_checks"

definition insert_event :: "event_row \<Rightarrow> unit dbtx" where
  "insert_event = insert_into events (\<lambda>rs. events_update (\<lambda>_. rs)) event_checks"

text \<open>Fresh identities.\<close>

definition new_uuid :: "uuid dbtx" where
  "new_uuid s = Inr (next_uuid s, s\<lparr>next_uuid := Suc (next_uuid s)\<rparr>)"

definition new_ledger_id :: "serial dbtx" where
  "new_ledger_id s = Inr (next_ledger_id s, s\<lparr>next_ledger_id := Suc (next_ledger_id s)\<rparr>)"

definition new_transfer_id :: "serial dbtx" where
  "new_transfer_id s = Inr (next_transfer_id s, s\<lparr>next_transfer_id := Suc (next_transfer_id s)\<rparr>)"

definition new_event_id :: "serial dbtx" where
  "new_event_id s = Inr (next_event_id s, s\<lparr>next_event_id := Suc (next_event_id s)\<rparr>)"

definition new_run_id :: "serial dbtx" where
  "new_run_id s = Inr (next_run_id s, s\<lparr>next_run_id := Suc (next_run_id s)\<rparr>)"

definition new_decision_id :: "serial dbtx" where
  "new_decision_id s = Inr (next_decision_id s, s\<lparr>next_decision_id := Suc (next_decision_id s)\<rparr>)"

text \<open>A freshly migrated database.\<close>

definition empty_db :: "(bytes \<Rightarrow> bytes) \<Rightarrow> time \<Rightarrow> db" where
  "empty_db sha now = \<lparr>clock = now, pg_sha256 = sha, next_uuid = 0, next_ledger_id = 1,
     next_transfer_id = 1, next_event_id = 1, next_run_id = 1, next_decision_id = 1,
     next_reward_id = 1, next_action_id = 1, next_payout_id = 1, accounts = [], wallets = [], ledger = [], deposits = [],
     intents = [], transfers = [], cursors = [], proofs = [], submissions = [], events = [],
     runs = [], decisions = [], reward_events = [], instruction_actions = [],
     treasury_payouts = [], payout_cursors = [], deliveries = [], trajectory_claims = [], bonuses = [],
     bounty_tasks = [], next_identity_id = 1, identities = [], sessions = [], challenges = [], invitations = [],
     redemptions = [], orders = [], webhook_deliveries = []\<rparr>"

text \<open>The server's defaults of an account row.\<close>

definition account_defaults :: "uuid \<Rightarrow> time \<Rightarrow> account_row" where
  "account_defaults n now = \<lparr>a_id = n, a_email = None, a_email_verified = False, a_display_name = None,
     a_password_hash = None, a_password_updated_at = None, a_failed_password_attempts = 0,
     a_password_throttled_until = None, a_roles = [''MINER''], a_payout_coldkey = None,
     a_submission_coldkey = None, a_created_at = now, a_updated_at = now\<rparr>"

lemma account_defaults_id [simp]: "a_id (account_defaults n now) = n"
  by (simp add: account_defaults_def)

section \<open>Laws\<close>

lemma violated_None_iff: "violated cs = None \<longleftrightarrow> (\<forall>c \<in> set cs. snd c)"
  by (simp add: violated_def find_None_conv)

lemma violated_SomeD: "violated cs = Some n \<Longrightarrow> (n, False) \<in> set cs"
  by (auto simp: violated_def dest!: find_Some_mem)

lemma violated_cases:
  obtains (holds) "violated cs = None" and "\<forall>c \<in> set cs. snd c"
    | (fails) n where "violated cs = Some n" and "\<not> (\<forall>c \<in> set cs. snd c)"
  by (metis not_None_eq violated_None_iff)

lemma insert_into_Inr [tx_simps]:
  "insert_into rows put checks r s = Inr (u, s') \<longleftrightarrow>
     (\<forall>c \<in> set (checks s r). snd c) \<and> s' = put (rows s @ [r]) s"
  by (rule violated_cases [of "checks s r"]) (auto simp: insert_into_def)

lemma insert_into_Inl:
  "insert_into rows put checks r s = Inl e \<longleftrightarrow>
     (\<exists>c. violated (checks s r) = Some c \<and> e = IntegrityError c)"
  by (auto simp: insert_into_def split: option.splits)

lemma update_in_Inr [tx_simps]:
  "update_in rows put key checks r s = Inr (u, s') \<longleftrightarrow>
     (\<forall>c \<in> set (checks s r). snd c) \<and> s' = put (replace_row key r (rows s)) s"
  by (rule violated_cases [of "checks s r"]) (auto simp: update_in_def)

lemma update_where_Inr [tx_simps]:
  "update_where rows put checks cond f s = Inr (n, s') \<longleftrightarrow>
     (\<forall>r \<in> set (rows s). cond r \<longrightarrow> (\<forall>c \<in> set (checks s (f s r)). snd c)) \<and>
     n = int (length (filter cond (rows s))) \<and>
     s' = put (map (\<lambda>r. if cond r then f s r else r) (rows s)) s"
proof -
  let ?cs = "concat (map (\<lambda>r. if cond r then checks s (f s r) else []) (rows s))"
  have all: "(\<forall>c \<in> set ?cs. snd c) \<longleftrightarrow>
      (\<forall>r \<in> set (rows s). cond r \<longrightarrow> (\<forall>c \<in> set (checks s (f s r)). snd c))" by auto
  show ?thesis unfolding all [symmetric] update_where_def
    by (rule violated_cases [of ?cs]) (simp_all only: option.case sum.inject prod.inject, auto)
qed

lemma on_integrity_Inr [simp, tx_simps]: "on_integrity h m s = Inr r \<longleftrightarrow> m s = Inr r"
  by (auto simp: on_integrity_def split: sum.splits db_error.splits)

lemma on_integrity_Inl:
  "on_integrity h m s = Inl e \<longleftrightarrow>
     (\<exists>c. m s = Inl (IntegrityError c) \<and> e = h c) \<or> (m s = Inl e \<and> (\<forall>c. e \<noteq> IntegrityError c))"
  by (auto simp: on_integrity_def split: sum.splits db_error.splits)

lemma lift_py_Inr [simp, tx_simps]: "lift_py r s = Inr (x, s') \<longleftrightarrow> r = Inr x \<and> s' = s"
  by (auto simp: lift_py_def split: sum.splits)

lemma new_id_simps [simp, tx_simps]:
  "new_uuid s = Inr (n, s') \<longleftrightarrow> n = next_uuid s \<and> s' = s\<lparr>next_uuid := Suc (next_uuid s)\<rparr>"
  "new_ledger_id s = Inr (n, s') \<longleftrightarrow> n = next_ledger_id s \<and> s' = s\<lparr>next_ledger_id := Suc (next_ledger_id s)\<rparr>"
  "new_transfer_id s = Inr (n, s') \<longleftrightarrow>
     n = next_transfer_id s \<and> s' = s\<lparr>next_transfer_id := Suc (next_transfer_id s)\<rparr>"
  "new_event_id s = Inr (n, s') \<longleftrightarrow> n = next_event_id s \<and> s' = s\<lparr>next_event_id := Suc (next_event_id s)\<rparr>"
  "new_run_id s = Inr (n, s') \<longleftrightarrow> n = next_run_id s \<and> s' = s\<lparr>next_run_id := Suc (next_run_id s)\<rparr>"
  "new_decision_id s = Inr (n, s') \<longleftrightarrow>
     n = next_decision_id s \<and> s' = s\<lparr>next_decision_id := Suc (next_decision_id s)\<rparr>"
  by (auto simp: new_uuid_def new_ledger_id_def new_transfer_id_def new_event_id_def new_run_id_def
      new_decision_id_def)

lemma insert_or_skip_Inr [tx_simps]:
  "insert_or_skip rows put checks keys arbiter r s = Inr (b, s') \<longleftrightarrow>
     (\<forall>c \<in> set (checks s r). snd c) \<and>
     (if arbiter r \<in> arbiter ` set (rows s) then \<not> b \<and> s' = s
      else b \<and> (\<forall>c \<in> set (keys s r). snd c) \<and> s' = put (rows s @ [r]) s)"
proof -
  have "list_ex (\<lambda>x. arbiter x = arbiter r) (rows s) \<longleftrightarrow> arbiter r \<in> arbiter ` set (rows s)"
    by (auto simp: list_ex_iff) (metis imageI)
  then show ?thesis
    by (rule_tac violated_cases [of "checks s r"]; rule_tac violated_cases [of "keys s r"])
      (auto simp: insert_or_skip_def)
qed

lemma find_row_Some: "find_row key k rows = Some r \<Longrightarrow> r \<in> set rows \<and> key r = k"
  by (auto simp: find_row_def dest: find_Some_mem)

lemma find_row_None: "find_row key k rows = None \<longleftrightarrow> k \<notin> key ` set rows"
  by (auto simp: find_row_def find_None_conv)

lemma find_row_unique:
  "distinct (map key rows) \<Longrightarrow> r \<in> set rows \<Longrightarrow> find_row key (key r) rows = Some r"
  by (induction rows) (auto simp: find_row_def)

lemma map_key_replace_row [simp]: "map key (replace_row key r rows) = map key rows"
  by (auto simp: replace_row_def)

lemma set_replace_row: "set (replace_row key r rows) \<subseteq> insert r (set rows)"
  by (auto simp: replace_row_def)

lemma replace_row_mem:
  "r0 \<in> set rows \<Longrightarrow> key r0 = key r \<Longrightarrow> r \<in> set (replace_row key r rows)"
  by (force simp: replace_row_def)

lemma sum_where_replace_row:
  "distinct (map key rows) \<Longrightarrow> r0 \<in> set rows \<Longrightarrow> key r0 = key r \<Longrightarrow>
   sum_where p f (replace_row key r rows)
     = sum_where p f rows - (if p r0 then f r0 else 0) + (if p r then f r else 0)"
  unfolding replace_row_def by (rule sum_where_replace)

text \<open>A row replaced by one that agrees with it on a column leaves that column as it was.\<close>

lemma map_replace_row:
  assumes "distinct (map key rows)" and "r0 \<in> set rows" and "key r0 = key r" and "f r0 = f r"
  shows "map f (replace_row key r rows) = map f rows"
proof -
  have "x = r0" if "x \<in> set rows" "key x = key r" for x
    using that assms(1-3) by (metis (no_types, lifting) find_row_unique option.inject)
  then show ?thesis using assms(4) by (auto simp: replace_row_def)
qed

lemma replace_row_keys: "(\<forall>x \<in> set (replace_row key r rows). P (key x)) \<longleftrightarrow> (\<forall>x \<in> set rows. P (key x))"
proof -
  have "key ` set (replace_row key r rows) = key ` set rows"
    by (metis map_key_replace_row set_map)
  then show ?thesis by (metis (no_types, lifting) image_iff)
qed

lemma mem_replace_row:
  assumes "distinct (map key rows)" and "r0 \<in> set rows" and "key r0 = key r"
    and "x \<in> set rows" and "x \<noteq> r0"
  shows "x \<in> set (replace_row key r rows)"
proof -
  have "key x \<noteq> key r" using assms by (metis (no_types, lifting) find_row_unique option.inject)
  then show ?thesis using assms(4) by (force simp: replace_row_def)
qed

lemma find_after_replace:
  assumes "find_row key n rows = Some r0" and "key r = n"
  shows "find_row key n (replace_row key r rows) = Some r"
  using assms by (induction rows) (auto simp: find_row_def replace_row_def split: if_splits)

text \<open>
  The interface of a table: whatever the record field behind it, a successful insert appends
  exactly the row, a successful update replaces exactly the row with its key, both only when every
  constraint holds, and a lookup by key sees precisely that.
\<close>

locale table =
  fixes rows :: "'s \<Rightarrow> 'r list"
    and put :: "'r list \<Rightarrow> 's \<Rightarrow> 's"
    and key :: "'r \<Rightarrow> 'k"
  assumes rows_put: "rows (put rs s) = rs"
begin

lemma find_after_insert:
  assumes "insert_into rows put checks r s = Inr (u, s')"
  shows "find_row key k (rows s') =
    (case find_row key k (rows s) of Some x \<Rightarrow> Some x | None \<Rightarrow> if key r = k then Some r else None)"
  using assms by (auto simp: tx_simps rows_put find_row_def find_append split: option.splits)

lemma find_after_update:
  assumes "update_in rows put key checks r s = Inr (u, s')"
  shows "find_row key k (rows s') =
    (if k = key r \<and> k \<in> key ` set (rows s) then Some r else find_row key k (rows s))"
proof -
  have "find_row key k (replace_row key r xs) =
      (if k = key r \<and> k \<in> key ` set xs then Some r else find_row key k xs)" for xs
    by (induction xs) (auto simp: find_row_def replace_row_def)
  then show ?thesis using assms by (simp add: tx_simps rows_put)
qed

lemma keys_after_update:
  "update_in rows put key checks r s = Inr (u, s') \<Longrightarrow> map key (rows s') = map key (rows s)"
  by (simp add: tx_simps rows_put)

lemma insert_distinct:
  "insert_into rows put checks r s = Inr (u, s') \<Longrightarrow> distinct (map key (rows s)) \<Longrightarrow>
   key r \<notin> key ` set (rows s) \<Longrightarrow> distinct (map key (rows s'))"
  by (auto simp: tx_simps rows_put)

end

interpretation ledger_table: table ledger "\<lambda>rs. ledger_update (\<lambda>_. rs)" l_id
  by unfold_locales simp
interpretation deposit_table: table deposits "\<lambda>rs. deposits_update (\<lambda>_. rs)" d_id
  by unfold_locales simp
interpretation intent_table: table intents "\<lambda>rs. intents_update (\<lambda>_. rs)" i_id
  by unfold_locales simp
interpretation transfer_table: table transfers "\<lambda>rs. transfers_update (\<lambda>_. rs)" t_id
  by unfold_locales simp
interpretation cursor_table: table cursors "\<lambda>rs. cursors_update (\<lambda>_. rs)" c_watcher
  by unfold_locales simp
interpretation submission_table: table submissions "\<lambda>rs. submissions_update (\<lambda>_. rs)" s_id
  by unfold_locales simp

text \<open>What a successful write did, table by table.\<close>

lemma insert_ledger_Inr [tx_simps]:
  "insert_ledger r s = Inr (u, s') \<longleftrightarrow>
     (\<forall>c \<in> set (ledger_checks r @ ledger_keys s r). snd c) \<and> s' = s\<lparr>ledger := ledger s @ [r]\<rparr>"
  by (auto simp: insert_ledger_def insert_into_Inr)

lemma insert_deposit_Inr [tx_simps]:
  "insert_deposit r s = Inr (u, s') \<longleftrightarrow>
     (\<forall>c \<in> set (deposit_checks r @ deposit_keys s r). snd c) \<and> s' = s\<lparr>deposits := deposits s @ [r]\<rparr>"
  by (auto simp: insert_deposit_def insert_into_Inr)

lemma update_deposit_Inr [tx_simps]:
  "update_deposit r s = Inr (u, s') \<longleftrightarrow>
     (let r' = r\<lparr>d_updated_at := clock s\<rparr> in
      (\<forall>c \<in> set (deposit_checks r' @ deposit_keys s r'). snd c) \<and>
      s' = s\<lparr>deposits := replace_row d_id r' (deposits s)\<rparr>)"
  by (auto simp: update_deposit_def update_in_Inr Let_def)

lemma insert_intent_Inr [tx_simps]:
  "insert_intent r s = Inr (u, s') \<longleftrightarrow>
     (\<forall>c \<in> set (intent_insert_guard r @ intent_checks s r @ intent_keys s r). snd c) \<and>
     s' = s\<lparr>intents := intents s @ [r]\<rparr>"
  by (auto simp: insert_intent_def insert_into_Inr)

lemma update_intent_Inr [tx_simps]:
  "update_intent r s = Inr (u, s') \<longleftrightarrow>
     (let r' = r\<lparr>i_updated_at := clock s\<rparr> in
      (\<forall>c \<in> set (intent_checks s r' @ intent_keys s r'). snd c) \<and>
      s' = s\<lparr>intents := replace_row i_id r' (intents s)\<rparr>)"
  by (auto simp: update_intent_def update_in_Inr Let_def)

lemma insert_transfer_Inr [tx_simps]:
  "insert_transfer r s = Inr (b, s') \<longleftrightarrow>
     (\<forall>c \<in> set (transfer_checks r). snd c) \<and>
     (if t_extrinsic_reference r \<in> t_extrinsic_reference ` set (transfers s) then \<not> b \<and> s' = s
      else b \<and> (\<forall>c \<in> set (transfer_keys s r). snd c) \<and> s' = s\<lparr>transfers := transfers s @ [r]\<rparr>)"
  by (simp add: insert_transfer_def insert_or_skip_Inr)

lemma insert_proof_Inr [tx_simps]:
  "insert_proof r s = Inr (b, s') \<longleftrightarrow>
     (\<forall>c \<in> set (proof_checks s r). snd c) \<and>
     (if p_digest r \<in> p_digest ` set (proofs s) then \<not> b \<and> s' = s
      else b \<and> s' = s\<lparr>proofs := proofs s @ [r]\<rparr>)"
  by (simp add: insert_proof_def insert_or_skip_Inr)

lemma update_transfer_Inr [tx_simps]:
  "update_transfer r s = Inr (u, s') \<longleftrightarrow>
     (let r' = r\<lparr>t_updated_at := clock s\<rparr> in
      (\<forall>c \<in> set (transfer_checks r' @ transfer_keys s r'). snd c) \<and>
      s' = s\<lparr>transfers := replace_row t_id r' (transfers s)\<rparr>)"
  by (auto simp: update_transfer_def update_in_Inr Let_def)

lemma insert_cursor_Inr [tx_simps]:
  "insert_cursor r s = Inr (u, s') \<longleftrightarrow>
     (\<forall>c \<in> set (cursor_checks r). snd c) \<and> (\<forall>x \<in> set (cursors s). c_watcher x \<noteq> c_watcher r) \<and>
     s' = s\<lparr>cursors := cursors s @ [r]\<rparr>"
  by (auto simp: insert_cursor_def insert_into_Inr list_all_iff)

lemma update_cursor_Inr [tx_simps]:
  "update_cursor r s = Inr (u, s') \<longleftrightarrow>
     (\<forall>c \<in> set (cursor_checks r). snd c) \<and> s' = s\<lparr>cursors := replace_row c_watcher r (cursors s)\<rparr>"
  by (auto simp: update_cursor_def update_in_Inr)

lemma insert_submission_Inr [tx_simps]:
  "insert_submission r s = Inr (u, s') \<longleftrightarrow>
     (\<forall>c \<in> set (submission_insert_guard r @ submission_checks r @ submission_funding_checks r @
        submission_unique s r @ submission_fkeys s r). snd c) \<and>
     s' = s\<lparr>submissions := submissions s @ [r]\<rparr>"
  by (auto simp: insert_submission_def insert_into_Inr)

lemma update_submission_Inr [tx_simps]:
  "update_submission r s = Inr (u, s') \<longleftrightarrow>
     (case find_row s_id (s_id r) (submissions s) of None \<Rightarrow> s' = s
      | Some old \<Rightarrow> let r' = r\<lparr>s_updated_at := clock s\<rparr> in
          (\<forall>c \<in> set (submission_update_guard old r' @ submission_checks r' @ submission_funding_checks r' @
               submission_unique s r' @ submission_fkeys s r'). snd c) \<and>
          s' = s\<lparr>submissions := replace_row s_id r' (submissions s)\<rparr>)"
  by (auto simp: update_submission_def update_in_Inr Let_def split: option.splits)

lemma insert_run_Inr [tx_simps]:
  "insert_run r s = Inr (u, s') \<longleftrightarrow>
     (\<forall>c \<in> set (run_checks s r). snd c) \<and> s' = s\<lparr>runs := runs s @ [r]\<rparr>"
  by (auto simp: insert_run_def insert_into_Inr)

lemma insert_decision_Inr [tx_simps]:
  "insert_decision r s = Inr (u, s') \<longleftrightarrow>
     (\<forall>c \<in> set (decision_checks s r). snd c) \<and> s' = s\<lparr>decisions := decisions s @ [r]\<rparr>"
  by (auto simp: insert_decision_def insert_into_Inr)

lemma insert_event_Inr [tx_simps]:
  "insert_event r s = Inr (u, s') \<longleftrightarrow>
     (\<forall>c \<in> set (event_checks s r). snd c) \<and> s' = s\<lparr>events := events s @ [r]\<rparr>"
  by (auto simp: insert_event_def insert_into_Inr)

lemma unique_onD: "unique_on key col r rows \<Longrightarrow> col r = Some v \<Longrightarrow> x \<in> set rows \<Longrightarrow> key x \<noteq> key r \<Longrightarrow> col x \<noteq> Some v"
  by (auto simp: unique_on_def list_all_iff)

lemma referencesD: "references (Some k) key rows \<Longrightarrow> k \<in> key ` set rows"
  by (auto simp: references_def list_ex_iff)

text \<open>What a unique index promises of a whole table, and that the writes which check it keep it.\<close>

definition one_per :: "('r \<Rightarrow> 'k) \<Rightarrow> ('r \<Rightarrow> 'c option) \<Rightarrow> 'r list \<Rightarrow> bool" where
  "one_per key col rows \<longleftrightarrow>
     (\<forall>x \<in> set rows. \<forall>y \<in> set rows. \<forall>v. col x = Some v \<longrightarrow> col y = Some v \<longrightarrow> key x = key y)"

lemma one_per_Nil [simp]: "one_per key col []"
  by (simp add: one_per_def)

lemma one_perD: "one_per key col rows \<Longrightarrow> x \<in> set rows \<Longrightarrow> y \<in> set rows \<Longrightarrow> col x = Some v \<Longrightarrow> col y = Some v \<Longrightarrow>
    key x = key y"
  unfolding one_per_def by blast

lemma one_per_add:
  assumes "one_per key col rows" and "unique_on key col r rows"
    and "\<And>x. x \<in> set rows' \<Longrightarrow> x = r \<or> x \<in> set rows"
  shows "one_per key col rows'"
  unfolding one_per_def
proof (intro ballI allI impI)
  fix x y v assume xy: "x \<in> set rows'" "y \<in> set rows'" and v: "col x = Some v" "col y = Some v"
  have new: "key z = key r" if "z \<in> set rows" "col r = Some v" "col z = Some v" for z
    using unique_onD [OF assms(2) that(2,1)] that(3) by auto
  have key: "key z = key r" if "z \<in> set rows'" "col z = Some v" "col r = Some v" for z
    using assms(3) [OF that(1)] new [OF _ that(3,2)] by auto
  consider "x = r" | "y = r" | "x \<in> set rows" "y \<in> set rows" using assms(3) xy by blast
  then show "key x = key y"
  proof cases
    case 1 then show ?thesis using key [OF xy(2) v(2)] v(1) by simp
  next
    case 2 then show ?thesis using key [OF xy(1) v(1)] v(2) by simp
  next
    case 3 then show ?thesis using one_perD [OF assms(1) 3 v] by simp
  qed
qed

lemma one_per_insert:
  assumes "one_per key col rows" and "unique_on key col r rows"
  shows "one_per key col (rows @ [r])"
  using assms by (rule one_per_add) auto

lemma one_per_replace:
  assumes "one_per key col rows" and "unique_on key col r rows"
  shows "one_per key col (replace_row key r rows)"
  using assms by (rule one_per_add) (auto simp: replace_row_def split: if_splits)

lemma one_per_map:
  assumes "\<And>x. x \<in> set rows \<Longrightarrow> key (f x) = key x \<and> col (f x) = col x"
  shows "one_per key col (map f rows) \<longleftrightarrow> one_per key col rows"
  using assms by (simp add: one_per_def)

lemma references_mono:
  assumes "references v key rows" and "key ` set rows \<subseteq> key ` set rows'"
  shows "references v key rows'"
proof (cases v)
  case (Some k)
  then have "k \<in> key ` set rows" using assms(1) referencesD by simp
  then obtain x where "x \<in> set rows'" "key x = k" using assms(2) by auto
  then show ?thesis using Some by (simp add: references_def list_ex_iff) blast
qed (simp add: references_def)

end
