(* ===== verification/Credits.thy ===== *)
theory Credits
  imports Schema "HOL-Library.Multiset"
begin

text \<open>
  The credit ledger and the deposits that fund it, \<open>conjectures_subnet/db/credits.py\<close>.  The
  definitions follow the module top to bottom; an ORM object handed to a function is the row it was
  loaded from.
\<close>

section \<open>Balances\<close>

definition LIVE_INTENT_STATES :: "intent_state list" where
  "LIVE_INTENT_STATES = [OPEN, BUNDLE_ATTACHED]"

record credit_balance =
  cb_balance_rao :: rao
  cb_held_rao :: rao
  credits_available :: int
  remainder_rao :: rao
  cb_credit_price_rao :: rao
  low_balance :: bool

definition available_rao :: "credit_balance \<Rightarrow> rao" where
  "available_rao b = cb_balance_rao b - cb_held_rao b"

definition lock_account :: "uuid \<Rightarrow> unit dbtx" where
  "lock_account account_id s =
     (if list_ex (\<lambda>a. a_id a = account_id) (accounts s) then Inr ((), s)
      else Inl (RecordNotFound ''account not found''))"

definition balance_rao :: "db \<Rightarrow> uuid \<Rightarrow> rao" where
  "balance_rao s account_id = sum_where (\<lambda>l. l_account_id l = account_id) l_amount_rao (ledger s)"

text \<open>What a row of \<open>submission_intents\<close> claims of the balance, and whether it still does.\<close>

definition intent_hold :: "intent_row \<Rightarrow> rao" where
  "intent_hold i = i_credits_held i * i_credit_price_rao i"

definition intent_live :: "time \<Rightarrow> intent_row \<Rightarrow> bool" where
  "intent_live now i \<longleftrightarrow> i_status i \<in> set LIVE_INTENT_STATES \<and> i_expires_at i > now"

definition held_rao :: "db \<Rightarrow> uuid \<Rightarrow> time \<Rightarrow> rao" where
  "held_rao s account_id now =
     sum_where (\<lambda>i. i_account_id i = account_id \<and> intent_live now i) intent_hold (intents s)"

definition get_credit_balance :: "uuid \<Rightarrow> rao \<Rightarrow> time \<Rightarrow> int \<Rightarrow> credit_balance dbtx" where
  "get_credit_balance account_id credit_price_rao now low_balance_credits s =
     (let total = balance_rao s account_id;
          held = held_rao s account_id now;
          available = total - held in
      case (if available \<le> 0 then Inr (0, 0) else py_divmod available credit_price_rao) of
        Inl e \<Rightarrow> Inl (PyError e)
      | Inr (credits, remainder) \<Rightarrow>
          Inr (\<lparr>cb_balance_rao = total, cb_held_rao = held, credits_available = credits,
                remainder_rao = remainder, cb_credit_price_rao = credit_price_rao,
                low_balance = credits \<le> low_balance_credits\<rparr>, s))"

text \<open>\<open>ORDER BY id DESC LIMIT n\<close>, below the cursor when there is one.\<close>

definition ledger_page :: "db \<Rightarrow> uuid \<Rightarrow> nat \<Rightarrow> serial option \<Rightarrow> ledger_row list" where
  "ledger_page s account_id limit after_id =
     take limit (rev (sort_key l_id
       (filter (\<lambda>l. l_account_id l = account_id \<and> (case after_id of None \<Rightarrow> True | Some c \<Rightarrow> l_id l < c))
         (ledger s))))"

definition ledger_total :: "db \<Rightarrow> uuid \<Rightarrow> int" where
  "ledger_total s account_id = int (length (filter (\<lambda>l. l_account_id l = account_id) (ledger s)))"

section \<open>Package bonuses\<close>

text \<open>A schedule maps the paid credit count of a package to its free credits; absent or empty is none.\<close>

type_synonym bonus_schedule = "(int \<times> int) list option"

definition bonus_rao_for_credits :: "int \<Rightarrow> rao \<Rightarrow> bonus_schedule \<Rightarrow> rao" where
  "bonus_rao_for_credits paid_credits credit_price_rao schedule =
     (case schedule of None \<Rightarrow> 0 | Some [] \<Rightarrow> 0
      | Some m \<Rightarrow> (case map_of m paid_credits of None \<Rightarrow> 0 | Some n \<Rightarrow> n) * credit_price_rao)"

definition package_bonus_rao :: "rao \<Rightarrow> rao \<Rightarrow> bonus_schedule \<Rightarrow> py_error + rao" where
  "package_bonus_rao paid_rao credit_price_rao schedule =
     (if schedule = None \<or> schedule = Some [] then Inr 0
      else case py_divmod paid_rao credit_price_rao of
             Inl e \<Rightarrow> Inl e
           | Inr (paid_credits, remainder) \<Rightarrow>
               if remainder \<noteq> 0 then Inr 0
               else Inr (bonus_rao_for_credits paid_credits credit_price_rao schedule))"

definition bonus_reason :: "int \<Rightarrow> rao \<Rightarrow> rao \<Rightarrow> py_error + string" where
  "bonus_reason paid_credits bonus_rao credit_price_rao =
     (case py_floordiv bonus_rao credit_price_rao of
        Inl e \<Rightarrow> Inl e
      | Inr n \<Rightarrow> Inr (''package bonus: '' @ str_int n @ '' credit(s) granted with a ''
                       @ str_int paid_credits @ ''-credit purchase''))"

section \<open>Ledger entries\<close>

definition record_entry ::
  "uuid \<Rightarrow> credit_entry_kind \<Rightarrow> rao \<Rightarrow> rao option \<Rightarrow> uuid option \<Rightarrow> uuid option \<Rightarrow> uuid option \<Rightarrow>
   uuid option \<Rightarrow> string option \<Rightarrow> string \<Rightarrow> ledger_row dbtx" where
  "record_entry account_id kind amount price deposit_id intent_id tmc_pay_order_id
       invitation_redemption_id reason created_by =
     bindT new_ledger_id (\<lambda>id s.
       (let entry = \<lparr>l_id = id, l_account_id = account_id, l_kind = kind, l_amount_rao = amount,
              l_credit_price_rao = price, l_deposit_id = deposit_id, l_intent_id = intent_id,
              l_tmc_pay_order_id = tmc_pay_order_id,
              l_invitation_redemption_id = invitation_redemption_id, l_reason = reason,
              l_created_by = created_by, l_created_at = clock s\<rparr>
        in thenT (on_integrity (\<lambda>_. RecordConflict ''that credit movement has already been recorded''
                    ''DUPLICATE_LEDGER_ENTRY'' []) (insert_ledger entry))
             (ret entry) s))"

section \<open>Deposits\<close>

definition create_deposit :: "uuid \<Rightarrow> rao \<Rightarrow> ss58 \<Rightarrow> rao \<Rightarrow> time \<Rightarrow> deposit_row dbtx" where
  "create_deposit account_id amount_rao treasury_address credit_price_rao expires_at =
     bindT new_uuid (\<lambda>id s.
       (let deposit = \<lparr>d_id = id, d_account_id = account_id, d_amount_rao = amount_rao,
              d_treasury_address = treasury_address, d_credit_price_rao = credit_price_rao,
              d_status = AWAITING_TRANSFER, d_extrinsic_reference = None, d_sender_coldkey = None,
              d_observed_amount_rao = None, d_block = None, d_failure_reason = None,
              d_credited_ledger_id = None, d_expires_at = expires_at,
              d_created_at = clock s, d_updated_at = clock s\<rparr>
        in thenT (insert_deposit deposit) (ret deposit) s))"

definition get_deposit :: "uuid \<Rightarrow> uuid \<Rightarrow> deposit_row dbtx" where
  "get_deposit deposit_id account_id s =
     (case find_row d_id deposit_id (deposits s) of
        None \<Rightarrow> Inl (RecordNotFound ''deposit not found'')
      | Some d \<Rightarrow> if d_account_id d \<noteq> account_id then Inl (RecordNotFound ''deposit not found'')
                  else Inr (d, s))"

text \<open>\<open>ORDER BY created_at DESC LIMIT n\<close>; rows with the same instant keep the table's order.\<close>

definition deposits_for :: "db \<Rightarrow> uuid \<Rightarrow> nat \<Rightarrow> deposit_row list" where
  "deposits_for s account_id limit =
     take limit (sort_key (\<lambda>d. - d_created_at d) (filter (\<lambda>d. d_account_id d = account_id) (deposits s)))"

definition mark_seen :: "deposit_row \<Rightarrow> string \<Rightarrow> ss58 option \<Rightarrow> deposit_row dbtx" where
  "mark_seen deposit extrinsic_reference sender_coldkey =
     (let d = deposit\<lparr>d_status := SEEN_UNFINALIZED, d_extrinsic_reference := Some extrinsic_reference,
                d_sender_coldkey := (case sender_coldkey of None \<Rightarrow> d_sender_coldkey deposit | Some k \<Rightarrow> Some k)\<rparr>
      in thenT (on_integrity (\<lambda>_. RecordConflict ''that transfer already funds another deposit''
                  ''DUPLICATE_DEPOSIT'' [(''extrinsic_reference'', DStr extrinsic_reference)])
                  (update_deposit d))
           (ret d))"

definition credit_deposit ::
  "deposit_row \<Rightarrow> string \<Rightarrow> ss58 \<Rightarrow> rao \<Rightarrow> int \<Rightarrow> bonus_schedule \<Rightarrow> string \<Rightarrow> ledger_row dbtx" where
  "credit_deposit deposit extrinsic_reference sender_coldkey observed_amount_rao block schedule created_by =
     thenT (raise_if (d_status deposit = D_CREDITED)
              (RecordConflict ''that deposit has already been credited'' ''DEPOSIT_ALREADY_CREDITED''
                 [(''deposit_id'', DUuid (Some (d_id deposit)))]))
    (bindT (record_entry (d_account_id deposit) DEPOSIT observed_amount_rao None (Some (d_id deposit))
              None None None None created_by) (\<lambda>entry.
     bindT (lift_py (package_bonus_rao observed_amount_rao (d_credit_price_rao deposit) schedule)) (\<lambda>bonus.
     thenT (if bonus \<noteq> 0 then
              bindT (lift_py (bonus_reason (observed_amount_rao div d_credit_price_rao deposit) bonus
                       (d_credit_price_rao deposit))) (\<lambda>reason.
              thenT (record_entry (d_account_id deposit) BONUS bonus None None None None None
                       (Some reason) created_by) (ret ()))
            else ret ())
    (thenT (on_integrity (\<lambda>_. RecordConflict ''that transfer already funds another deposit''
              ''DUPLICATE_DEPOSIT'' [(''extrinsic_reference'', DStr extrinsic_reference)])
              (update_deposit (deposit\<lparr>d_status := D_CREDITED,
                 d_extrinsic_reference := Some extrinsic_reference,
                 d_sender_coldkey := Some sender_coldkey,
                 d_observed_amount_rao := Some observed_amount_rao,
                 d_block := Some block,
                 d_credited_ledger_id := Some (l_id entry)\<rparr>)))
     (ret entry)))))"

definition fail_deposit :: "deposit_row \<Rightarrow> string \<Rightarrow> deposit_row dbtx" where
  "fail_deposit deposit reason =
     (let d = deposit\<lparr>d_status := D_FAILED, d_failure_reason := Some reason\<rparr>
      in thenT (update_deposit d) (ret d))"

definition expire_open_deposits :: "time \<Rightarrow> int dbtx" where
  "expire_open_deposits now =
     update_where deposits (\<lambda>rs. deposits_update (\<lambda>_. rs)) (\<lambda>s. deposit_checks)
       (\<lambda>d. d_status d = AWAITING_TRANSFER \<and> d_expires_at d \<le> now)
       (\<lambda>s d. d\<lparr>d_status := D_EXPIRED, d_updated_at := clock s\<rparr>)"

text \<open>A small database used by the examples: one account with a declared deposit of three credits.\<close>

definition sample_deposit :: deposit_row where
  "sample_deposit = \<lparr>d_id = 1, d_account_id = 0, d_amount_rao = 30, d_treasury_address = ''T'',
     d_credit_price_rao = 10, d_status = AWAITING_TRANSFER, d_extrinsic_reference = None,
     d_sender_coldkey = None, d_observed_amount_rao = None, d_block = None, d_failure_reason = None,
     d_credited_ledger_id = None, d_expires_at = 900, d_created_at = 90, d_updated_at = 90\<rparr>"

definition sample_db :: db where
  "sample_db = (empty_db (\<lambda>_. replicate 32 0) 100)\<lparr>next_uuid := 2,
     accounts := [(account_defaults 0 0)\<lparr>a_payout_coldkey := Some ''A''\<rparr>], deposits := [sample_deposit]\<rparr>"

definition sample_credited :: "db_error + ledger_row \<times> db" where
  "sample_credited = credit_deposit sample_deposit ''5-1-2'' ''A'' 30 5 (Some [(3, 1)]) ''watcher'' sample_db"

section \<open>What one operation does\<close>

lemma lock_account_Inr [tx_simps]:
  "lock_account a s = Inr (u, s') \<longleftrightarrow> a \<in> a_id ` set (accounts s) \<and> s' = s"
  by (auto simp: lock_account_def list_ex_iff)

lemma get_credit_balance_Inr:
  "get_credit_balance a price now low s = Inr (b, s') \<Longrightarrow>
   s' = s \<and> cb_balance_rao b = balance_rao s a \<and> cb_held_rao b = held_rao s a now \<and>
   (if available_rao b \<le> 0 then credits_available b = 0 \<and> remainder_rao b = 0
    else price \<noteq> 0 \<and> credits_available b = available_rao b div price \<and> remainder_rao b = available_rao b mod price)"
  by (auto simp: get_credit_balance_def py_divmod_def available_rao_def Let_def split: if_splits)

lemma record_entry_Inr:
  assumes "record_entry a kind amount price dep itt tmc red reason by s = Inr (e, s')"
  shows "s' = s\<lparr>next_ledger_id := Suc (next_ledger_id s), ledger := ledger s @ [e]\<rparr>"
    and "l_id e = next_ledger_id s" and "l_account_id e = a" and "l_kind e = kind"
    and "l_amount_rao e = amount" and "l_deposit_id e = dep" and "l_intent_id e = itt"
    and "l_tmc_pay_order_id e = tmc" and "l_credit_price_rao e = price" and "l_created_by e = by"
    and "l_reason e = reason" and "l_created_at e = clock s" and "l_invitation_redemption_id e = red"
    and "\<forall>c \<in> set (ledger_checks e @ ledger_keys (s\<lparr>next_ledger_id := Suc (next_ledger_id s)\<rparr>) e). snd c"
  using assms by (auto simp: record_entry_def tx_simps Let_def)

lemma ledger_checks_signs:
  assumes "\<forall>c \<in> set (ledger_checks e). snd c"
  shows "l_kind e \<in> {DEPOSIT, REFUND, BONUS, GRANT} \<Longrightarrow> 0 < l_amount_rao e"
    and "l_kind e = SPEND \<Longrightarrow> l_amount_rao e < 0" and "l_amount_rao e \<noteq> 0"
  using assms unfolding ledger_checks_def by auto

lemma record_entry_positive:
  assumes "record_entry a kind amount price dep itt tmc red reason by s = Inr (e, s')"
    and "kind \<in> {DEPOSIT, REFUND, BONUS, GRANT}"
  shows "0 < amount"
proof -
  have "\<forall>c \<in> set (ledger_checks e). snd c" using record_entry_Inr(14) [OF assms(1)] by simp
  from ledger_checks_signs(1) [OF this] show ?thesis
    using record_entry_Inr(4,5) [OF assms(1)] assms(2) by simp
qed

lemma create_deposit_Inr:
  assumes "create_deposit a amount addr price expi s = Inr (d, s')"
  shows "s' = s\<lparr>next_uuid := Suc (next_uuid s), deposits := deposits s @ [d]\<rparr>"
    and "d_id d = next_uuid s" and "d_account_id d = a" and "d_amount_rao d = amount"
    and "d_treasury_address d = addr" and "d_credit_price_rao d = price"
    and "d_status d = AWAITING_TRANSFER" and "d_extrinsic_reference d = None"
    and "d_credited_ledger_id d = None" and "d_expires_at d = expi"
    and "0 < amount" and "0 < price"
  using assms by (auto simp: create_deposit_def tx_simps Let_def deposit_checks_def)

lemma balance_rao_append [simp]:
  "balance_rao (s\<lparr>ledger := ledger s @ es\<rparr>) a
     = balance_rao s a + sum_where (\<lambda>l. l_account_id l = a) l_amount_rao es"
  by (simp add: balance_rao_def)

lemma balance_rao_frame [simp]:
  "balance_rao (s\<lparr>deposits := x1\<rparr>) a = balance_rao s a"
  "balance_rao (s\<lparr>intents := x2\<rparr>) a = balance_rao s a"
  "balance_rao (s\<lparr>transfers := x3\<rparr>) a = balance_rao s a"
  "balance_rao (s\<lparr>next_ledger_id := x4\<rparr>) a = balance_rao s a"
  "balance_rao (s\<lparr>next_uuid := x5\<rparr>) a = balance_rao s a"
  by (simp_all add: balance_rao_def)

text \<open>An entry of the chain path: a deposit of a transfer, a package bonus or a spend, naming nothing else.\<close>

definition chain_entry :: "ledger_row \<Rightarrow> bool" where
  "chain_entry l \<longleftrightarrow> l_kind l \<in> {DEPOSIT, BONUS, SPEND} \<and> (l_kind l = DEPOSIT \<longleftrightarrow> l_deposit_id l \<noteq> None) \<and>
     l_tmc_pay_order_id l = None \<and> l_invitation_redemption_id l = None"

text \<open>
  The effect of crediting a deposit, in one statement: the entries it appended, and the deposit row
  it rewrote.
\<close>

lemma credit_deposit_Inr:
  assumes "credit_deposit d ref sndr obs blk sch by s = Inr (e, s')"
  obtains bonus es where
    "package_bonus_rao obs (d_credit_price_rao d) sch = Inr bonus"
    and "es = e # (if bonus = 0 then [] else tl es)"
    and "length es = (if bonus = 0 then 1 else 2)"
    and "ledger s' = ledger s @ es"
    and "map l_id es = [next_ledger_id s..<next_ledger_id s + length es]"
    and "next_ledger_id s' = next_ledger_id s + length es"
    and "\<forall>x \<in> set es. l_account_id x = d_account_id d \<and> l_intent_id x = None \<and> chain_entry x"
    and "l_kind e = DEPOSIT" and "l_amount_rao e = obs" and "l_deposit_id e = Some (d_id d)"
    and "bonus \<noteq> 0 \<longrightarrow> l_kind (es ! 1) = BONUS \<and> l_amount_rao (es ! 1) = bonus \<and> 0 < bonus"
    and "0 < obs" and "d_status d \<noteq> D_CREDITED"
    and "deposits s' = replace_row d_id (d\<lparr>d_status := D_CREDITED, d_extrinsic_reference := Some ref,
           d_sender_coldkey := Some sndr, d_observed_amount_rao := Some obs, d_block := Some blk,
           d_credited_ledger_id := Some (l_id e), d_updated_at := clock s\<rparr>) (deposits s)"
    and "s' = s\<lparr>next_ledger_id := next_ledger_id s', ledger := ledger s', deposits := deposits s'\<rparr>"
proof -
  from assms obtain s1 bonus where d: "d_status d \<noteq> D_CREDITED"
    and e: "record_entry (d_account_id d) DEPOSIT obs None (Some (d_id d)) None None None None by s = Inr (e, s1)"
    and b: "package_bonus_rao obs (d_credit_price_rao d) sch = Inr bonus"
    and rest: "(\<exists>s2. (if bonus \<noteq> 0 then
              bindT (lift_py (bonus_reason (obs div d_credit_price_rao d) bonus (d_credit_price_rao d))) (\<lambda>reason.
              thenT (record_entry (d_account_id d) BONUS bonus None None None None None
                       (Some reason) by) (ret ()))
            else ret ()) s1 = Inr ((), s2) \<and>
        update_deposit (d\<lparr>d_status := D_CREDITED, d_extrinsic_reference := Some ref,
                 d_sender_coldkey := Some sndr, d_observed_amount_rao := Some obs, d_block := Some blk,
                 d_credited_ledger_id := Some (l_id e)\<rparr>) s2 = Inr ((), s'))"
    by (auto simp: credit_deposit_def tx_simps)
  note E = record_entry_Inr [OF e]
  have obs: "0 < obs" using record_entry_positive [OF e] by simp
  show thesis
  proof (cases "bonus = 0")
    case True
    with rest have "update_deposit (d\<lparr>d_status := D_CREDITED, d_extrinsic_reference := Some ref,
                 d_sender_coldkey := Some sndr, d_observed_amount_rao := Some obs, d_block := Some blk,
                 d_credited_ledger_id := Some (l_id e)\<rparr>) s1 = Inr ((), s')" by simp
    then show thesis using True E d obs b by (intro that [of bonus "[e]"]) (simp_all add: tx_simps Let_def chain_entry_def)
  next
    case False
    with rest obtain reason e2 s2 where
      r: "record_entry (d_account_id d) BONUS bonus None None None None None (Some reason) by s1 = Inr (e2, s2)"
      and u: "update_deposit (d\<lparr>d_status := D_CREDITED, d_extrinsic_reference := Some ref,
                 d_sender_coldkey := Some sndr, d_observed_amount_rao := Some obs, d_block := Some blk,
                 d_credited_ledger_id := Some (l_id e)\<rparr>) s2 = Inr ((), s')"
      by (auto simp: tx_simps)
    note E2 = record_entry_Inr [OF r]
    have "0 < bonus" using record_entry_positive [OF r] by simp
    then show thesis using False E E2 d obs b u
      by (intro that [of bonus "[e, e2]"]) (simp_all add: tx_simps Let_def chain_entry_def)
  qed
qed

section \<open>Pages of the ledger\<close>

lemma newest_first_pages:
  assumes sorted: "sorted_wrt (\<lambda>x y. (key y :: nat) < key x) xs" and n: "0 < n" "n \<le> length xs"
  shows "take (n + m) xs = take n xs @ take m (filter (\<lambda>x. key x < key (last (take n xs))) xs)"
proof -
  have split: "sorted_wrt (\<lambda>x y. key y < key x) (take n xs @ drop n xs)" using sorted by simp
  have "take n xs \<noteq> []" using n by auto
  then obtain pre c where pre: "take n xs = pre @ [c]" by (metis rev_exhaust)
  have "filter (\<lambda>x. key x < key c) (take n xs) = []"
    using split unfolding pre by (auto simp: sorted_wrt_append filter_empty_conv)
  moreover have "filter (\<lambda>x. key x < key c) (drop n xs) = drop n xs"
    using split unfolding pre by (auto simp: sorted_wrt_append filter_id_conv)
  moreover have "filter (\<lambda>x. key x < key c) xs
      = filter (\<lambda>x. key x < key c) (take n xs) @ filter (\<lambda>x. key x < key c) (drop n xs)"
    by (metis append_take_drop_id filter_append)
  ultimately show ?thesis by (simp add: pre take_add)
qed

lemma rev_sort_key_filter:
  "filter p (rev (sort_key f xs)) = rev (sort_key f (filter p xs))"
  by (simp add: rev_filter [symmetric] filter_sort)

lemma newest_first_sorted:
  assumes "distinct (map key xs)"
  shows "sorted_wrt (\<lambda>x y. (key y :: nat) < key x) (rev (sort_key key xs))"
proof -
  have "sorted (map key (sort_key key xs))" by simp
  moreover have "mset (map key (sort_key key xs)) = mset (map key xs)" by simp
  then have "distinct (map key (sort_key key xs))" using assms by (metis mset_eq_imp_distinct_iff)
  ultimately have "sorted_wrt (<) (map key (sort_key key xs))" by (simp add: strict_sorted_iff)
  then show ?thesis by (simp add: sorted_wrt_map sorted_wrt_rev)
qed

section \<open>Properties\<close>

text \<open>
  A reported balance is exact and never negative: with a positive price, what is available (the
  ledger less the live holds) is the whole credits times the price plus a remainder below one
  credit; an account with nothing available, or less than nothing, reports zero of both; reading
  changes nothing.
\<close>

theorem credit_balance_exact:
  assumes "0 < price"
  shows "\<exists>b. get_credit_balance a price now low s = Inr (b, s) \<and>
    available_rao b = balance_rao s a - held_rao s a now \<and>
    credits_available b * price + remainder_rao b = max 0 (available_rao b) \<and>
    0 \<le> credits_available b \<and> 0 \<le> remainder_rao b \<and> remainder_rao b < price \<and>
    (low_balance b \<longleftrightarrow> credits_available b \<le> low)"
  using assms
  by (auto simp: get_credit_balance_def py_divmod_def available_rao_def Let_def pos_imp_zdiv_nonneg_iff)

theorem credit_balance_exact_witness:
  "\<exists>b. get_credit_balance 0 10 100 1 sample_db = Inr (b, sample_db) \<and>
    available_rao b = balance_rao sample_db 0 - held_rao sample_db 0 100 \<and>
    credits_available b * 10 + remainder_rao b = max 0 (available_rao b) \<and>
    0 \<le> credits_available b \<and> 0 \<le> remainder_rao b \<and> remainder_rao b < 10 \<and>
    (low_balance b \<longleftrightarrow> credits_available b \<le> 1)"
  by (rule credit_balance_exact) simp

text \<open>
  Crediting a deposit adds to its owner's balance exactly the amount observed on chain plus the
  package bonus that amount earns, and to nobody else's; it leaves the deposit CREDITED with the
  entry that pays for it, and from then on no attempt to credit that deposit succeeds, whatever
  transfer it names.
\<close>

theorem credit_deposit_once:
  assumes "credit_deposit d ref sndr obs blk sch by s = Inr (e, s')"
    and "find_row d_id (d_id d) (deposits s) = Some d"
  shows "\<exists>bonus d'. package_bonus_rao obs (d_credit_price_rao d) sch = Inr bonus \<and>
    (\<forall>a. balance_rao s' a = balance_rao s a + (if a = d_account_id d then obs + bonus else 0)) \<and>
    find_row d_id (d_id d) (deposits s') = Some d' \<and> d_status d' = D_CREDITED \<and>
    d_observed_amount_rao d' = Some obs \<and> d_credited_ledger_id d' = Some (l_id e) \<and>
    (\<forall>ref2 sndr2 obs2 blk2 sch2 by2. credit_deposit d' ref2 sndr2 obs2 blk2 sch2 by2 s' =
       Inl (RecordConflict ''that deposit has already been credited'' ''DEPOSIT_ALREADY_CREDITED''
              [(''deposit_id'', DUuid (Some (d_id d)))]))"
  using assms(1)
proof (cases rule: credit_deposit_Inr)
  case (1 bonus es)
  let ?d = "d\<lparr>d_status := D_CREDITED, d_extrinsic_reference := Some ref, d_sender_coldkey := Some sndr,
     d_observed_amount_rao := Some obs, d_block := Some blk, d_credited_ledger_id := Some (l_id e),
     d_updated_at := clock s\<rparr>"
  have "sum_where (\<lambda>l. l_account_id l = a) l_amount_rao es = (if a = d_account_id d then obs + bonus else 0)" for a
  proof (cases "bonus = 0")
    case True
    with 1(2) have "es = [e]" by simp
    then show ?thesis using 1(7,9) True by simp
  next
    case False
    with 1(2,3) obtain e2 where es: "es = [e, e2]" by (cases es; cases "tl es") (auto split: if_splits)
    show ?thesis using 1(7,9,11) False unfolding es by simp
  qed
  then have "balance_rao s' a = balance_rao s a + (if a = d_account_id d then obs + bonus else 0)" for a
    by (simp add: balance_rao_def 1(4))
  moreover have "find_row d_id (d_id d) (deposits s') = Some ?d"
  proof -
    have "update_in deposits (\<lambda>rs. deposits_update (\<lambda>_. rs)) d_id (\<lambda>_ _. []) ?d s
        = Inr ((), s\<lparr>deposits := deposits s'\<rparr>)" by (simp add: update_in_Inr 1(14))
    from deposit_table.find_after_update [OF this, of "d_id d"] find_row_Some [OF assms(2)]
    show ?thesis by (auto split: if_splits)
  qed
  moreover have "credit_deposit ?d ref2 sndr2 obs2 blk2 sch2 by2 s' =
      Inl (RecordConflict ''that deposit has already been credited'' ''DEPOSIT_ALREADY_CREDITED''
              [(''deposit_id'', DUuid (Some (d_id d)))])" for ref2 sndr2 obs2 blk2 sch2 by2
    by (simp add: credit_deposit_def thenT_Inl_iff)
  ultimately show ?thesis using 1(1) by (intro exI [of _ bonus] exI [of _ ?d]) simp
qed

lemma sample_credited_ok: "\<exists>e s'. sample_credited = Inr (e, s') \<and> balance_rao s' 0 = 40"
proof -
  have "(case sample_credited of Inr (e, s') \<Rightarrow> balance_rao s' 0 = 40 | Inl _ \<Rightarrow> False)" by code_simp
  then show ?thesis by (auto split: sum.splits)
qed

theorem credit_deposit_once_witness:
  "\<exists>e s' d'. sample_credited = Inr (e, s') \<and> balance_rao s' 0 = 40 \<and>
    find_row d_id 1 (deposits s') = Some d' \<and> d_status d' = D_CREDITED \<and>
    credit_deposit d' ''6-1-2'' ''A'' 30 6 None ''watcher'' s' =
       Inl (RecordConflict ''that deposit has already been credited'' ''DEPOSIT_ALREADY_CREDITED''
              [(''deposit_id'', DUuid (Some 1))])"
proof -
  obtain e s' where c: "sample_credited = Inr (e, s')" "balance_rao s' 0 = 40" using sample_credited_ok by blast
  have "find_row d_id (d_id sample_deposit) (deposits sample_db) = Some sample_deposit" by code_simp
  from credit_deposit_once [OF c(1) [unfolded sample_credited_def] this]
  obtain d' where "find_row d_id 1 (deposits s') = Some d'" "d_status d' = D_CREDITED"
    "credit_deposit d' ''6-1-2'' ''A'' 30 6 None ''watcher'' s' =
       Inl (RecordConflict ''that deposit has already been credited'' ''DEPOSIT_ALREADY_CREDITED''
              [(''deposit_id'', DUuid (Some 1))])"
    by (auto simp: sample_deposit_def)
  with c show ?thesis by blast
qed

text \<open>
  Paging through an account's ledger loses and repeats nothing: a page of \<open>n\<close> entries followed by
  the page of \<open>m\<close> entries that continues after its last id is exactly the single page of \<open>n + m\<close>
  entries, wherever the walk started.
\<close>

theorem ledger_pages_compose:
  assumes "distinct (map l_id (ledger s))" and "length (ledger_page s a n after_id) = n" and "0 < n"
  shows "ledger_page s a (n + m) after_id = ledger_page s a n after_id @
    ledger_page s a m (Some (l_id (last (ledger_page s a n after_id))))"
proof -
  let ?p = "\<lambda>l. l_account_id l = a \<and> (case after_id of None \<Rightarrow> True | Some c \<Rightarrow> l_id l < c)"
  let ?xs = "rev (sort_key l_id (filter ?p (ledger s)))"
  let ?c = "l_id (last (take n ?xs))"
  have page: "ledger_page s a k after_id = take k ?xs" for k by (simp add: ledger_page_def)
  have sorted: "sorted_wrt (\<lambda>x y. l_id y < l_id x) ?xs"
    using assms(1) by (intro newest_first_sorted distinct_map_filter)
  have len: "n \<le> length ?xs" using assms(2) unfolding page by simp
  have "length (take n ?xs) = n" using assms(2) unfolding page .
  then have "take n ?xs \<noteq> []" using assms(3) by (intro notI) simp
  then have mem: "last (take n ?xs) \<in> set ?xs" by (rule in_set_takeD [OF last_in_set])
  have "filter (\<lambda>x. l_id x < ?c) ?xs = rev (sort_key l_id (filter (\<lambda>l. l_account_id l = a \<and> l_id l < ?c) (ledger s)))"
    unfolding rev_sort_key_filter filter_filter
    by (rule arg_cong [where f = "\<lambda>zs. rev (sort_key l_id zs)"], rule filter_cong)
      (use mem in \<open>auto split: option.splits\<close>)
  then show ?thesis
    unfolding page using newest_first_pages [OF sorted assms(3) len, of m] by (simp add: ledger_page_def)
qed

theorem ledger_pages_compose_witness:
  "\<exists>e s'. sample_credited = Inr (e, s') \<and>
    ledger_page s' 0 (1 + 1) None = ledger_page s' 0 1 None @
      ledger_page s' 0 1 (Some (l_id (last (ledger_page s' 0 1 None)))) \<and> length (ledger_page s' 0 2 None) = 2"
proof -
  have "(case sample_credited of Inr (e, s') \<Rightarrow> distinct (map l_id (ledger s')) \<and> length (ledger_page s' 0 1 None) = 1 \<and>
      length (ledger_page s' 0 2 None) = 2 | Inl _ \<Rightarrow> False)" by code_simp
  then obtain e s' where c: "sample_credited = Inr (e, s')" "distinct (map l_id (ledger s'))"
    "length (ledger_page s' 0 1 None) = 1" "length (ledger_page s' 0 2 None) = 2" by (auto split: sum.splits)
  from ledger_pages_compose [OF c(2,3), of 1] c(1,4) show ?thesis by auto
qed

end
