(* ===== verification/Transfers.thy ===== *)
theory Transfers
  imports Credits
begin

text \<open>
  Observed transfers, the watcher's cursor and the attribution that turns a transfer into credits:
  \<open>conjectures_subnet/db/transfers.py\<close>.  Row locks (\<open>FOR UPDATE\<close>) make each of these functions
  atomic with respect to the others on the same row, so a function is one step of the database.
\<close>

section \<open>The cursor\<close>

definition DEPOSIT_WATCHER :: string where
  "DEPOSIT_WATCHER = ''deposits''"

text \<open>\<open>repr\<close> of a string without quotes or backslashes.\<close>

definition quoted :: "string \<Rightarrow> string" where
  "quoted t = CHR 0x27 # t @ [CHR 0x27]"

definition cursor :: "string \<Rightarrow> db \<Rightarrow> cursor_row option" where
  "cursor watcher s = find_row c_watcher watcher (cursors s)"

definition open_cursor ::
  "string \<Rightarrow> ss58 \<Rightarrow> int \<Rightarrow> int \<Rightarrow> time \<Rightarrow> int \<Rightarrow> time \<Rightarrow> cursor_row dbtx" where
  "open_cursor watcher recipient netuid uid watch_from start_block start_block_timestamp s =
     (let row = \<lparr>c_watcher = watcher, c_recipient = recipient, c_netuid = netuid, c_uid = uid,
            c_watch_from = watch_from, c_start_block = start_block,
            c_start_block_timestamp = start_block_timestamp,
            c_last_scanned_block = start_block - 1,
            c_last_scanned_at = clock s, c_created_at = clock s\<rparr>
      in thenT (insert_cursor row) (ret row) s)"

definition advance_cursor :: "string \<Rightarrow> int \<Rightarrow> time \<Rightarrow> cursor_row dbtx" where
  "advance_cursor watcher through_block now s =
     (case find_row c_watcher watcher (cursors s) of
        None \<Rightarrow> Inl (RecordNotFound (''no cursor for watcher '' @ quoted watcher))
      | Some row \<Rightarrow>
          if through_block > c_last_scanned_block row then
            (let row' = row\<lparr>c_last_scanned_block := through_block, c_last_scanned_at := now\<rparr>
             in thenT (update_cursor row') (ret row') s)
          else Inr (row, s))"

section \<open>Recording what arrived\<close>

record recorded_transfer =
  rt_transfer :: transfer_row
  rt_created :: bool

text \<open>The observed facts of one arrival.\<close>

record arrival =
  ar_reference :: string
  ar_block :: int
  ar_block_timestamp :: time
  ar_extrinsic_index :: int
  ar_event_index :: int
  ar_sender :: ss58
  ar_recipient :: ss58
  ar_amount_rao :: rao

definition new_transfer_row :: "db \<Rightarrow> serial \<Rightarrow> arrival \<Rightarrow> transfer_row" where
  "new_transfer_row s new_id a =
     \<lparr>t_id = new_id, t_extrinsic_reference = ar_reference a, t_block = ar_block a,
      t_block_timestamp = ar_block_timestamp a, t_extrinsic_index = ar_extrinsic_index a,
      t_event_index = ar_event_index a, t_sender_coldkey = ar_sender a, t_recipient = ar_recipient a,
      t_amount_rao = ar_amount_rao a, t_status = UNATTRIBUTED, t_account_id = None,
      t_deposit_id = None, t_credit_price_rao = None, t_credits_granted = 0, t_note = None,
      t_observed_at = clock s, t_updated_at = clock s\<rparr>"

text \<open>
  \<open>INSERT ... ON CONFLICT (extrinsic_reference) DO NOTHING RETURNING\<close>, and the row that was already
  there when nothing came back.  The identity column is drawn from its sequence either way.
\<close>

definition record_transfer :: "arrival \<Rightarrow> recorded_transfer dbtx" where
  "record_transfer a =
     bindT new_transfer_id (\<lambda>new_id.
     bindT (reads (\<lambda>s. new_transfer_row s new_id a)) (\<lambda>row.
     bindT (insert_transfer row) (\<lambda>inserted s.
       if inserted then Inr (\<lparr>rt_transfer = row, rt_created = True\<rparr>, s)
       else case find_row t_extrinsic_reference (ar_reference a) (transfers s) of
              None \<Rightarrow> Inl NoResultFound
            | Some existing \<Rightarrow> Inr (\<lparr>rt_transfer = existing, rt_created = False\<rparr>, s))))"

text \<open>The operator's queue, oldest first, and one sender's history, newest first.\<close>

definition unattributed :: "db \<Rightarrow> nat \<Rightarrow> int \<Rightarrow> transfer_row list" where
  "unattributed s limit after_block =
     take limit (sort_key t_block (sort_key t_id
       (filter (\<lambda>t. t_status t = UNATTRIBUTED \<and> t_block t > after_block) (transfers s))))"

definition transfers_from :: "db \<Rightarrow> ss58 \<Rightarrow> nat \<Rightarrow> transfer_row list" where
  "transfers_from s sender_coldkey limit =
     take limit (rev (sort_key t_block (sort_key t_id
       (filter (\<lambda>t. t_sender_coldkey t = sender_coldkey) (transfers s)))))"

section \<open>Attribution\<close>

definition account_for_coldkey :: "db \<Rightarrow> ss58 \<Rightarrow> uuid option" where
  "account_for_coldkey s coldkey =
     (case map w_account_id (filter (\<lambda>w. w_coldkey w = coldkey) (wallets s)) of
        [acct] \<Rightarrow> Some acct
      | _ # _ # _ \<Rightarrow> None
      | [] \<Rightarrow>
          (case take 2 (map a_id (filter (\<lambda>a. a_payout_coldkey a = Some coldkey) (accounts s))) of
             [acct] \<Rightarrow> Some acct
           | _ \<Rightarrow> None))"

text \<open>\<open>ORDER BY created_at LIMIT 1\<close> over the open deposits of this account, address and amount.\<close>

definition matching_open_deposit :: "db \<Rightarrow> uuid \<Rightarrow> rao \<Rightarrow> ss58 \<Rightarrow> deposit_row option" where
  "matching_open_deposit s account_id amount_rao recipient =
     (case sort_key d_created_at
             (filter (\<lambda>d. d_account_id d = account_id \<and> d_treasury_address d = recipient \<and>
                          d_amount_rao d = amount_rao \<and>
                          d_status d \<in> {AWAITING_TRANSFER, SEEN_UNFINALIZED} \<and>
                          d_credited_ledger_id d = None) (deposits s)) of
        [] \<Rightarrow> None | d # _ \<Rightarrow> Some d)"

definition credit ::
  "transfer_row \<Rightarrow> uuid \<Rightarrow> rao \<Rightarrow> time \<Rightarrow> string \<Rightarrow> bonus_schedule \<Rightarrow> (ledger_row \<times> transfer_row) dbtx" where
  "credit transfer account_id credit_price_rao deposit_expires_at created_by schedule =
     thenT (raise_if (t_status transfer = T_CREDITED)
              (RecordConflict ''that transfer has already been credited'' ''TRANSFER_ALREADY_CREDITED''
                 [(''extrinsic_reference'', DStr (t_extrinsic_reference transfer))]))
    (thenT (lock_account account_id)
    (bindT (reads (\<lambda>s. matching_open_deposit s account_id (t_amount_rao transfer) (t_recipient transfer)))
       (\<lambda>found.
     bindT (case found of
              Some d \<Rightarrow> ret d
            | None \<Rightarrow> create_deposit account_id (t_amount_rao transfer) (t_recipient transfer)
                        credit_price_rao deposit_expires_at) (\<lambda>deposit.
     bindT (credit_deposit deposit (t_extrinsic_reference transfer) (t_sender_coldkey transfer)
              (t_amount_rao transfer) (t_block transfer) schedule created_by) (\<lambda>entry.
     bindT (lift_py (py_floordiv (t_amount_rao transfer) credit_price_rao)) (\<lambda>granted.
       (let t = transfer\<lparr>t_status := T_CREDITED, t_account_id := Some account_id,
                  t_deposit_id := Some (d_id deposit), t_credit_price_rao := Some credit_price_rao,
                  t_credits_granted := granted, t_note := None\<rparr>
        in thenT (update_transfer t) (ret (entry, t)))))))))"

definition claim_for_submission :: "arrival \<Rightarrow> string \<Rightarrow> transfer_row dbtx" where
  "claim_for_submission a note =
     bindT (record_transfer a) (\<lambda>recorded.
     bindT (\<lambda>s. case find_row t_id (t_id (rt_transfer recorded)) (transfers s) of
                 None \<Rightarrow> Inl NoResultFound | Some t \<Rightarrow> Inr (t, s)) (\<lambda>locked.
     thenT (raise_if (t_status locked = T_CREDITED)
              (RecordConflict (''that transfer has already been credited to an account as credits; ''
                  @ ''spend a credit instead of citing the transfer'') ''TRANSFER_ALREADY_CREDITED''
                 [(''extrinsic_reference'', DStr (ar_reference a))]))
    (thenT (raise_if (t_status locked = T_IGNORED)
              (RecordConflict ''that transfer has already funded a submission'' ''DUPLICATE_PAYMENT''
                 [(''extrinsic_reference'', DStr (ar_reference a))]))
       (let t = locked\<lparr>t_status := T_IGNORED, t_note := Some (take 500 note)\<rparr>
        in thenT (update_transfer t) (ret t)))))"

definition leave_unattributed :: "transfer_row \<Rightarrow> string \<Rightarrow> transfer_row dbtx" where
  "leave_unattributed transfer note =
     (let t = transfer\<lparr>t_note := Some (take 500 note)\<rparr> in thenT (update_transfer t) (ret t))"

definition ignore :: "transfer_row \<Rightarrow> string \<Rightarrow> transfer_row dbtx" where
  "ignore transfer note =
     thenT (raise_if (t_status transfer = T_CREDITED)
              (RecordConflict ''a credited transfer cannot be ignored; correct it with an ADJUSTMENT entry''
                 ''TRANSFER_ALREADY_CREDITED''
                 [(''extrinsic_reference'', DStr (t_extrinsic_reference transfer))]))
       (let t = transfer\<lparr>t_status := T_IGNORED, t_note := Some (take 500 note)\<rparr>
        in thenT (update_transfer t) (ret t))"

section \<open>What one operation does\<close>

lemma new_transfer_row_simps [simp]:
  "t_id (new_transfer_row s n a) = n" "t_extrinsic_reference (new_transfer_row s n a) = ar_reference a"
  "t_status (new_transfer_row s n a) = UNATTRIBUTED" "t_amount_rao (new_transfer_row s n a) = ar_amount_rao a"
  "t_deposit_id (new_transfer_row s n a) = None" "t_account_id (new_transfer_row s n a) = None"
  "t_sender_coldkey (new_transfer_row s n a) = ar_sender a" "t_recipient (new_transfer_row s n a) = ar_recipient a"
  "t_block (new_transfer_row s n a) = ar_block a" "t_credits_granted (new_transfer_row s n a) = 0"
  "new_transfer_row (s\<lparr>next_transfer_id := m\<rparr>) n a = new_transfer_row s n a"
  by (simp_all add: new_transfer_row_def)

lemma record_transfer_Inr:
  assumes "record_transfer a s = Inr (r, s')"
  obtains
    (old) "\<not> rt_created r" "s' = s\<lparr>next_transfer_id := Suc (next_transfer_id s)\<rparr>"
      "rt_transfer r \<in> set (transfers s)" "t_extrinsic_reference (rt_transfer r) = ar_reference a"
      "find_row t_extrinsic_reference (ar_reference a) (transfers s) = Some (rt_transfer r)"
  | (new) "rt_created r" "ar_reference a \<notin> t_extrinsic_reference ` set (transfers s)"
      "rt_transfer r = new_transfer_row s (next_transfer_id s) a"
      "s' = s\<lparr>next_transfer_id := Suc (next_transfer_id s), transfers := transfers s @ [rt_transfer r]\<rparr>"
      "0 < ar_amount_rao a"
proof (cases "ar_reference a \<in> t_extrinsic_reference ` set (transfers s)")
  case True
  with assms obtain t where t: "find_row t_extrinsic_reference (ar_reference a) (transfers s) = Some t"
    and "r = \<lparr>rt_transfer = t, rt_created = False\<rparr>" "s' = s\<lparr>next_transfer_id := Suc (next_transfer_id s)\<rparr>"
    by (auto simp: record_transfer_def tx_simps split: if_splits option.splits)
  with find_row_Some [OF t] show ?thesis by (intro old) simp_all
next
  case False
  with assms show ?thesis
    by (intro new) (auto simp: record_transfer_def tx_simps transfer_checks_def split: if_splits option.splits)
qed

text \<open>Recording the same arrival again finds the row and writes nothing.\<close>

lemma record_transfer_again:
  assumes "record_transfer a s = Inr (r, s')"
  shows "\<exists>t. find_row t_extrinsic_reference (ar_reference a) (transfers s') = Some t \<and>
    (\<forall>q s''. record_transfer a s' = Inr (q, s'') \<longrightarrow>
       q = \<lparr>rt_transfer = t, rt_created = False\<rparr> \<and> transfers s'' = transfers s')"
proof -
  have mem: "ar_reference a \<in> t_extrinsic_reference ` set (transfers s')"
    using assms by (cases rule: record_transfer_Inr) (auto intro: rev_image_eqI)
  then obtain t where t: "find_row t_extrinsic_reference (ar_reference a) (transfers s') = Some t"
    by (metis find_row_None not_None_eq)
  show ?thesis
  proof (intro exI conjI allI impI)
    fix q s'' assume "record_transfer a s' = Inr (q, s'')"
    then show "q = \<lparr>rt_transfer = t, rt_created = False\<rparr>" "transfers s'' = transfers s'"
      using mem t by (cases rule: record_transfer_Inr; cases q; simp)+
  qed (rule t)
qed

lemma matching_open_deposit_Some:
  assumes "matching_open_deposit s a amount addr = Some d"
  shows "d \<in> set (deposits s)" and "d_account_id d = a" and "d_amount_rao d = amount"
    and "d_treasury_address d = addr" and "d_status d \<in> {AWAITING_TRANSFER, SEEN_UNFINALIZED}"
    and "d_credited_ledger_id d = None"
proof -
  let ?p = "\<lambda>d. d_account_id d = a \<and> d_treasury_address d = addr \<and> d_amount_rao d = amount \<and>
      d_status d \<in> {AWAITING_TRANSFER, SEEN_UNFINALIZED} \<and> d_credited_ledger_id d = None"
  from assms obtain ds where ds: "sort_key d_created_at (filter ?p (deposits s)) = d # ds"
    by (auto simp: matching_open_deposit_def split: list.splits)
  have "d \<in> set (sort_key d_created_at (filter ?p (deposits s)))" unfolding ds by simp
  then have "d \<in> set (deposits s) \<and> ?p d" by simp
  then show "d \<in> set (deposits s)" and "d_account_id d = a" and "d_amount_rao d = amount"
    and "d_treasury_address d = addr" and "d_status d \<in> {AWAITING_TRANSFER, SEEN_UNFINALIZED}"
    and "d_credited_ledger_id d = None" by auto
qed

lemma credit_deposit_positive:
  assumes "credit_deposit d ref sndr obs blk sch by s = Inr (e, s')"
  obtains es where "ledger s' = ledger s @ es" and "next_ledger_id s' = next_ledger_id s + length es"
    and "map l_id es = [next_ledger_id s..<next_ledger_id s + length es]"
    and "\<forall>x \<in> set es. l_account_id x = d_account_id d \<and> l_intent_id x = None \<and> chain_entry x \<and> 0 < l_amount_rao x \<and>
           l_kind x \<in> {DEPOSIT, BONUS}"
    and "sum_where (\<lambda>x. l_kind x = DEPOSIT \<and> l_deposit_id x \<noteq> None) l_amount_rao es = obs"
  using assms
proof (cases rule: credit_deposit_Inr)
  case (1 bonus es)
  show ?thesis
  proof (cases "bonus = 0")
    case True
    with 1(2) have es: "es = [e]" by simp
    show ?thesis using 1(4-10,12) by (intro that [of es]) (simp_all add: es)
  next
    case False
    with 1(2,3) obtain e2 where es: "es = [e, e2]" by (cases es; cases "tl es") (auto split: if_splits)
    have "l_kind e2 = BONUS" "0 < l_amount_rao e2" using False 1(11) by (simp_all add: es)
    then show ?thesis using 1(4-10,12) by (intro that [of es]) (simp_all add: es)
  qed
qed

lemma credit_Inr:
  assumes "credit t a price expi by sch s = Inr ((e, t'), s')"
  obtains es where "ledger s' = ledger s @ es" and "next_ledger_id s' = next_ledger_id s + length es"
    and "map l_id es = [next_ledger_id s..<next_ledger_id s + length es]"
    and "\<forall>x \<in> set es. l_account_id x = a \<and> l_intent_id x = None \<and> chain_entry x \<and> 0 < l_amount_rao x \<and>
           l_kind x \<in> {DEPOSIT, BONUS}"
    and "sum_where (\<lambda>x. l_kind x = DEPOSIT \<and> l_deposit_id x \<noteq> None) l_amount_rao es = t_amount_rao t"
    and "t_status t \<noteq> T_CREDITED" and "t_status t' = T_CREDITED" and "t_account_id t' = Some a"
    and "t_id t' = t_id t" and "t_amount_rao t' = t_amount_rao t"
    and "t_extrinsic_reference t' = t_extrinsic_reference t" and "t_credits_granted t' = t_amount_rao t div price"
    and "s' = s\<lparr>next_uuid := next_uuid s', next_ledger_id := next_ledger_id s', ledger := ledger s',
           deposits := deposits s', transfers := replace_row t_id (t'\<lparr>t_updated_at := clock s\<rparr>) (transfers s)\<rparr>"
    and "next_uuid s \<le> next_uuid s'"
proof -
  from assms obtain d s1 s2 g where nc: "t_status t \<noteq> T_CREDITED"
    and d: "(case matching_open_deposit s a (t_amount_rao t) (t_recipient t) of Some d \<Rightarrow> ret d
            | None \<Rightarrow> create_deposit a (t_amount_rao t) (t_recipient t) price expi) s = Inr (d, s1)"
    and cd: "credit_deposit d (t_extrinsic_reference t) (t_sender_coldkey t) (t_amount_rao t) (t_block t) sch by s1
             = Inr (e, s2)"
    and g: "py_floordiv (t_amount_rao t) price = Inr g"
    and t': "t' = t\<lparr>t_status := T_CREDITED, t_account_id := Some a, t_deposit_id := Some (d_id d),
               t_credit_price_rao := Some price, t_credits_granted := g, t_note := None\<rparr>"
    and up: "update_transfer t' s2 = Inr ((), s')"
    by (auto simp: credit_def tx_simps Let_def)
  obtain u ds where s1: "s1 = s\<lparr>next_uuid := u, deposits := ds\<rparr>" "d_account_id d = a" "next_uuid s \<le> u"
  proof (cases "matching_open_deposit s a (t_amount_rao t) (t_recipient t)")
    case None
    with d have "create_deposit a (t_amount_rao t) (t_recipient t) price expi s = Inr (d, s1)" by simp
    from create_deposit_Inr(1,3) [OF this] show ?thesis
      by (intro that [of "deposits s @ [d]" "Suc (next_uuid s)"]) simp_all
  next
    case (Some d0)
    with d matching_open_deposit_Some(2) [OF Some] show ?thesis
      by (intro that [of "deposits s" "next_uuid s"]) simp_all
  qed
  from cd obtain es where es: "ledger s2 = ledger s1 @ es" "next_ledger_id s2 = next_ledger_id s1 + length es"
    "map l_id es = [next_ledger_id s1..<next_ledger_id s1 + length es]"
    "\<forall>x \<in> set es. l_account_id x = d_account_id d \<and> l_intent_id x = None \<and> chain_entry x \<and> 0 < l_amount_rao x \<and>
           l_kind x \<in> {DEPOSIT, BONUS}"
    "sum_where (\<lambda>x. l_kind x = DEPOSIT \<and> l_deposit_id x \<noteq> None) l_amount_rao es = t_amount_rao t"
    by (rule credit_deposit_positive)
  from cd obtain n l ds' where s2: "s2 = s1\<lparr>next_ledger_id := n, ledger := l, deposits := ds'\<rparr>"
    by (rule credit_deposit_Inr) blast
  from up have s': "s' = s2\<lparr>transfers := replace_row t_id (t'\<lparr>t_updated_at := clock s2\<rparr>) (transfers s2)\<rparr>"
    by (simp add: tx_simps Let_def)
  have fin: "s' = s\<lparr>next_uuid := next_uuid s', next_ledger_id := next_ledger_id s', ledger := ledger s',
           deposits := deposits s', transfers := replace_row t_id (t'\<lparr>t_updated_at := clock s\<rparr>) (transfers s)\<rparr>"
    by (simp add: s' s2 s1)
  have "next_uuid s \<le> next_uuid s'" "ledger s' = l" "next_ledger_id s' = n"
    using s1 by (simp_all add: s' s2)
  moreover have "ledger s2 = l" "next_ledger_id s2 = n" "ledger s1 = ledger s" "next_ledger_id s1 = next_ledger_id s"
    by (simp_all add: s2 s1)
  moreover have "g = t_amount_rao t div price" using g by (simp add: py_floordiv_def split: if_splits)
  ultimately show thesis using es s1(2) nc fin by (intro that [of es]) (simp_all add: t')
qed

lemma leave_unattributed_Inr:
  "leave_unattributed t note s = Inr (t', s') \<Longrightarrow>
   t' = t\<lparr>t_note := Some (take 500 note)\<rparr> \<and>
   s' = s\<lparr>transfers := replace_row t_id (t'\<lparr>t_updated_at := clock s\<rparr>) (transfers s)\<rparr>"
  by (auto simp: leave_unattributed_def tx_simps Let_def)

lemma ignore_Inr:
  "ignore t note s = Inr (t', s') \<Longrightarrow>
   t_status t \<noteq> T_CREDITED \<and> t' = t\<lparr>t_status := T_IGNORED, t_note := Some (take 500 note)\<rparr> \<and>
   s' = s\<lparr>transfers := replace_row t_id (t'\<lparr>t_updated_at := clock s\<rparr>) (transfers s)\<rparr>"
  by (auto simp: ignore_def tx_simps Let_def)

lemma claim_for_submission_Inr:
  assumes "claim_for_submission a note s = Inr (t', s')"
  obtains r s1 t where "record_transfer a s = Inr (r, s1)"
    and "find_row t_id (t_id (rt_transfer r)) (transfers s1) = Some t" and "t_status t = UNATTRIBUTED"
    and "t' = t\<lparr>t_status := T_IGNORED, t_note := Some (take 500 note)\<rparr>"
    and "s' = s1\<lparr>transfers := replace_row t_id (t'\<lparr>t_updated_at := clock s1\<rparr>) (transfers s1)\<rparr>"
proof -
  from assms obtain r s1 t where "record_transfer a s = Inr (r, s1)"
    "find_row t_id (t_id (rt_transfer r)) (transfers s1) = Some t"
    "t_status t \<noteq> T_CREDITED" "t_status t \<noteq> T_IGNORED"
    "t' = t\<lparr>t_status := T_IGNORED, t_note := Some (take 500 note)\<rparr>"
    "s' = s1\<lparr>transfers := replace_row t_id (t'\<lparr>t_updated_at := clock s1\<rparr>) (transfers s1)\<rparr>"
    by (auto simp: claim_for_submission_def tx_simps Let_def split: option.splits)
  then show thesis by (intro that) (auto intro: chain_transfer_state.exhaust [of "t_status t"])
qed

end
