(* ===== verification/ChainReader.thy ===== *)
theory ChainReader
  imports Transfers
begin

text \<open>
  The pure half of the chain reader \<open>conjectures_subnet/transfers.py\<close>: the textual identity of a
  transfer, the resolution of a reference a miner quotes, and the search that turns the configured
  genesis instant into a block height.  The node is a parameter: the finalized head, the transfers of
  a block and the timestamp of a block, any of which may fail.
\<close>

text \<open>What reading the chain, or a worker that reads it, can fail with.\<close>

datatype watcher_error = SettingsError string | ChainUnavailable string | Db db_error

section \<open>References\<close>

record transfer_reference =
  tr_block :: int
  tr_extrinsic_index :: int
  tr_event_index :: "int option"

definition str_reference :: "transfer_reference \<Rightarrow> string" where
  "str_reference r =
     (case tr_event_index r of
        None \<Rightarrow> str_int (tr_block r) @ ''-'' @ str_int (tr_extrinsic_index r)
      | Some e \<Rightarrow> str_int (tr_block r) @ ''-'' @ str_int (tr_extrinsic_index r) @ ''-'' @ str_int e)"

text \<open>\<open>IncomingTransfer.reference\<close>\<close>

definition canonical_reference :: "int \<Rightarrow> int \<Rightarrow> int \<Rightarrow> string" where
  "canonical_reference block extrinsic_index event_index =
     str_int block @ ''-'' @ str_int extrinsic_index @ ''-'' @ str_int event_index"

text \<open>\<open>str.strip\<close> on Latin-1 text.\<close>

definition is_space :: "char \<Rightarrow> bool" where
  "is_space c \<longleftrightarrow> of_char c \<in> ({9..13} \<union> {28..32} \<union> {133, 160} :: nat set)"

definition strip :: "string \<Rightarrow> string" where
  "strip t = rev (dropWhile is_space (rev (dropWhile is_space t)))"

fun split_dash :: "string \<Rightarrow> string list" where
  "split_dash [] = [[]]"
| "split_dash (c # cs) =
     (if c = CHR ''-'' then [] # split_dash cs
      else case split_dash cs of [] \<Rightarrow> [[c]] | p # ps \<Rightarrow> (c # p) # ps)"

text \<open>\<open>\d{1,n}\<close>, and \<open>int\<close> of such a text.\<close>

definition is_digit :: "char \<Rightarrow> bool" where
  "is_digit c \<longleftrightarrow> c \<in> set ''0123456789''"

definition is_number :: "nat \<Rightarrow> string \<Rightarrow> bool" where
  "is_number n t \<longleftrightarrow> t \<noteq> [] \<and> length t \<le> n \<and> list_all is_digit t"

definition int_of_digits :: "string \<Rightarrow> int" where
  "int_of_digits t = foldl (\<lambda>acc c. 10 * acc + (of_char c - 48)) 0 t"

text \<open>\<open>REFERENCE.fullmatch(raw.strip())\<close>: two or three dash-separated numbers.\<close>

definition parse_reference :: "string \<Rightarrow> transfer_reference option" where
  "parse_reference raw =
     (case split_dash (strip raw) of
        [b, x] \<Rightarrow> if is_number 12 b \<and> is_number 6 x
                   then Some \<lparr>tr_block = int_of_digits b, tr_extrinsic_index = int_of_digits x,
                              tr_event_index = None\<rparr> else None
      | [b, x, e] \<Rightarrow> if is_number 12 b \<and> is_number 6 x \<and> is_number 6 e
                      then Some \<lparr>tr_block = int_of_digits b, tr_extrinsic_index = int_of_digits x,
                                 tr_event_index = Some (int_of_digits e)\<rparr> else None
      | _ \<Rightarrow> None)"

text \<open>The references the pattern can spell.\<close>

definition reference_in_range :: "transfer_reference \<Rightarrow> bool" where
  "reference_in_range r \<longleftrightarrow> 0 \<le> tr_block r \<and> tr_block r < 10 ^ 12 \<and>
     0 \<le> tr_extrinsic_index r \<and> tr_extrinsic_index r < 10 ^ 6 \<and>
     pred_option (\<lambda>e. 0 \<le> e \<and> e < 10 ^ 6) (tr_event_index r)"

section \<open>Resolving a reference\<close>

datatype resolve_error = AmbiguousReference nat | Unavailable watcher_error

definition finalized_transfer ::
  "int \<Rightarrow> (int \<Rightarrow> watcher_error + arrival list) \<Rightarrow> transfer_reference \<Rightarrow> resolve_error + arrival option" where
  "finalized_transfer head transfers_in r =
     (if tr_block r > head then Inr None
      else case transfers_in (tr_block r) of
        Inl e \<Rightarrow> Inl (Unavailable e)
      | Inr ts \<Rightarrow>
          (let in_extrinsic = filter (\<lambda>a. ar_extrinsic_index a = tr_extrinsic_index r) ts in
           if in_extrinsic = [] then Inr None
           else case tr_event_index r of
             Some e \<Rightarrow> Inr (List.find (\<lambda>a. ar_event_index a = e) in_extrinsic)
           | None \<Rightarrow> if length in_extrinsic > 1 then Inl (AmbiguousReference (length in_extrinsic))
                     else Inr (Some (hd in_extrinsic))))"

section \<open>The first block of the watch\<close>

definition BLOCKS_PER_DAY :: int where "BLOCKS_PER_DAY = 7200"

text \<open>
  The doubling search for a block before the instant: \<open>step\<close> is \<open>BLOCKS_PER_DAY * 2 ^ k\<close>.  The value is
  the pair of bounds \<open>(low, high)\<close>.
\<close>

function lower_bound ::
  "(int \<Rightarrow> watcher_error + time) \<Rightarrow> time \<Rightarrow> int \<Rightarrow> int \<Rightarrow> nat \<Rightarrow> watcher_error + int \<times> int" where
  "lower_bound block since tipb high k =
     (let candidate = tipb - BLOCKS_PER_DAY * 2 ^ k in
      if candidate \<le> 1 then Inr (1, high)
      else case block candidate of
        Inl e \<Rightarrow> Inl e
      | Inr timestamp \<Rightarrow>
          if timestamp < since then Inr (candidate, high)
          else lower_bound block since tipb candidate (Suc k))"
  by pat_completeness auto

termination lower_bound
proof (relation "measure (\<lambda>(block, since, tipb, high, k). nat (tipb - BLOCKS_PER_DAY * 2 ^ k))", simp)
  fix block :: "int \<Rightarrow> watcher_error + time" and since :: time and tipb high :: int and k candidate timestamp
  assume "candidate = tipb - BLOCKS_PER_DAY * 2 ^ k" and c: "\<not> candidate \<le> 1"
  moreover have "BLOCKS_PER_DAY * 2 ^ k < BLOCKS_PER_DAY * 2 ^ Suc k" by (simp add: BLOCKS_PER_DAY_def)
  ultimately show "((block, since, tipb, candidate, Suc k), block, since, tipb, high, k)
      \<in> measure (\<lambda>(block, since, tipb, high, k). nat (tipb - BLOCKS_PER_DAY * 2 ^ k))" by simp
qed

declare lower_bound.simps [simp del]

function bisect :: "(int \<Rightarrow> watcher_error + time) \<Rightarrow> time \<Rightarrow> int \<Rightarrow> int \<Rightarrow> watcher_error + int" where
  "bisect block since low high =
     (if low + 1 < high then
        let middle = (low + high) div 2 in
        case block middle of
          Inl e \<Rightarrow> Inl e
        | Inr timestamp \<Rightarrow>
            if timestamp < since then bisect block since middle high else bisect block since low middle
      else Inr high)"
  by pat_completeness auto

termination bisect
  by (relation "measure (\<lambda>(block, since, low, high). nat (high - low))") auto

declare bisect.simps [simp del]

definition first_block_at_or_after ::
  "(int \<Rightarrow> watcher_error + time) \<Rightarrow> int \<Rightarrow> time \<Rightarrow> watcher_error + int \<times> time" where
  "first_block_at_or_after block tipb since =
     (case block tipb of
        Inl e \<Rightarrow> Inl e
      | Inr tip \<Rightarrow>
          if tip < since then Inl (ChainUnavailable ''the finalized head is before the requested instant'')
          else case lower_bound block since tipb tipb 0 of
            Inl e \<Rightarrow> Inl e
          | Inr (low, high) \<Rightarrow>
              (case bisect block since low high of
                 Inl e \<Rightarrow> Inl e
               | Inr n \<Rightarrow> (case block n of Inl e \<Rightarrow> Inl e | Inr timestamp \<Rightarrow> Inr (n, timestamp))))"

text \<open>A transfer used by the examples below.\<close>

definition sample_arrival :: arrival where
  "sample_arrival = \<lparr>ar_reference = ''5-1-2'', ar_block = 5, ar_block_timestamp = 60,
     ar_extrinsic_index = 1, ar_event_index = 2, ar_sender = ''A'', ar_recipient = ''T'', ar_amount_rao = 7\<rparr>"

section \<open>The search finds the boundary\<close>

lemma lower_bound_spec:
  assumes "\<And>n. 1 \<le> n \<Longrightarrow> n \<le> tipb \<Longrightarrow> block n = Inr (ts n)" and "since \<le> ts high" and "high \<le> tipb"
    and "tipb - BLOCKS_PER_DAY * 2 ^ k < high" and "1 \<le> high"
  shows "\<exists>low h. lower_bound block since tipb high k = Inr (low, h) \<and> 1 \<le> low \<and> low \<le> h \<and> h \<le> tipb \<and>
    since \<le> ts h \<and> (low = 1 \<or> ts low < since)"
  using assms(2-)
proof (induction k arbitrary: high rule: measure_induct_rule [where f = "\<lambda>k. nat (tipb - BLOCKS_PER_DAY * 2 ^ k)"])
  case (less k)
  let ?c = "tipb - BLOCKS_PER_DAY * 2 ^ k"
  show ?case
  proof (cases "?c \<le> 1")
    case True
    then show ?thesis using less.prems by (subst lower_bound.simps) simp
  next
    case False
    have "0 < BLOCKS_PER_DAY * 2 ^ k" by (simp add: BLOCKS_PER_DAY_def)
    then have blk: "block ?c = Inr (ts ?c)" using False assms(1) [of ?c] by simp
    show ?thesis
    proof (cases "ts ?c < since")
      case True
      then show ?thesis using False blk less.prems by (subst lower_bound.simps) simp
    next
      case ge: False
      have step: "BLOCKS_PER_DAY * 2 ^ k < BLOCKS_PER_DAY * 2 ^ Suc k" by (simp add: BLOCKS_PER_DAY_def)
      have "\<exists>low h. lower_bound block since tipb ?c (Suc k) = Inr (low, h) \<and> 1 \<le> low \<and> low \<le> h \<and> h \<le> tipb \<and>
          since \<le> ts h \<and> (low = 1 \<or> ts low < since)"
        using False ge step less.prems by (intro less.IH) auto
      then show ?thesis using False ge blk by (subst lower_bound.simps) (simp add: Let_def)
    qed
  qed
qed

lemma bisect_spec:
  assumes "\<And>n. low \<le> n \<Longrightarrow> n \<le> high \<Longrightarrow> block n = Inr (ts n)" and "ts low < since" and "since \<le> ts high"
    and "low < high"
  shows "\<exists>n. bisect block since low high = Inr n \<and> low < n \<and> n \<le> high \<and> since \<le> ts n \<and> ts (n - 1) < since"
  using assms
proof (induction block since low high rule: bisect.induct)
  case (1 block since low high)
  show ?case
  proof (cases "low + 1 < high")
    case False
    then have h: "high = low + 1" using "1.prems" by simp
    show ?thesis using "1.prems" by (subst bisect.simps) (simp add: h)
  next
    case True
    define m where "m = (low + high) div 2"
    have m: "low < m" "m < high" using True by (simp_all add: m_def)
    have blk: "block m = Inr (ts m)" using "1.prems"(1) m by simp
    show ?thesis
    proof (cases "ts m < since")
      case lt: True
      have "\<exists>n. bisect block since m high = Inr n \<and> m < n \<and> n \<le> high \<and> since \<le> ts n \<and> ts (n - 1) < since"
        using True m lt blk "1.prems" by (intro "1.IH"(1) [of m "ts m"]) (simp_all add: m_def)
      then obtain n where "bisect block since m high = Inr n" "m < n" "n \<le> high" "since \<le> ts n" "ts (n - 1) < since"
        by blast
      then show ?thesis using True lt blk m by (subst bisect.simps) (simp add: m_def [symmetric] Let_def)
    next
      case ge: False
      have "\<exists>n. bisect block since low m = Inr n \<and> low < n \<and> n \<le> m \<and> since \<le> ts n \<and> ts (n - 1) < since"
        using True m ge blk "1.prems" by (intro "1.IH"(2) [of m "ts m"]) (simp_all add: m_def)
      then obtain n where "bisect block since low m = Inr n" "low < n" "n \<le> m" "since \<le> ts n" "ts (n - 1) < since"
        by blast
      then show ?thesis using True ge blk m by (subst bisect.simps) (simp add: m_def [symmetric] Let_def)
    qed
  qed
qed

lemma lower_bound_nontrivial:
  "lower_bound block since tipb high k = Inr (low, h) \<Longrightarrow> low = 1 \<or> low < tipb"
proof (induction block since tipb high k rule: lower_bound.induct)
  case (1 block since tipb high k)
  have "0 < BLOCKS_PER_DAY * 2 ^ k" by (simp add: BLOCKS_PER_DAY_def)
  with 1 show ?case by (subst (asm) lower_bound.simps) (auto simp: Let_def split: if_splits sum.splits)
qed

section \<open>Text of a reference\<close>

lemma digits_of_props:
  "digits_of n \<noteq> [] \<and> list_all is_digit (digits_of n) \<and> int_of_digits (digits_of n) = int n"
proof (induction n rule: digits_of.induct)
  case (1 n)
  have d: "is_digit (''0123456789'' ! m)" "of_char (''0123456789'' ! m) = int m + 48" if "m < 10" for m
    using that by (auto simp: is_digit_def less_Suc_eq numeral_eq_Suc)
  show ?case
  proof (cases "n < 10")
    case True
    then show ?thesis using d [of n] by (subst (1 2 3) digits_of.simps) (simp add: int_of_digits_def)
  next
    case False
    then have ih: "digits_of (n div 10) \<noteq> []" "list_all is_digit (digits_of (n div 10))"
      "int_of_digits (digits_of (n div 10)) = int (n div 10)" using 1 by auto
    have "int_of_digits (digits_of (n div 10) @ [c]) = 10 * int (n div 10) + (of_char c - 48)" for c
      using ih(3) by (simp add: int_of_digits_def)
    then show ?thesis using False ih d [of "n mod 10"]
      by (subst (1 2 3) digits_of.simps) (simp add: zdiv_int zmod_int)
  qed
qed

lemma length_digits_of: "n < 10 ^ k \<Longrightarrow> 0 < k \<Longrightarrow> length (digits_of n) \<le> k"
proof (induction n arbitrary: k rule: digits_of.induct)
  case (1 n)
  show ?case
  proof (cases "n < 10")
    case True
    then show ?thesis using 1 by (subst digits_of.simps) simp
  next
    case False
    from 1 obtain j where k: "k = Suc j" by (cases k) auto
    with 1 False have "j \<noteq> 0" by (intro notI) simp
    with k have "length (digits_of (n div 10)) \<le> j" using False 1 by (intro "1.IH") auto
    then show ?thesis using False k by (subst digits_of.simps) simp
  qed
qed

lemma int_of_digits_bounds:
  "list_all is_digit t \<Longrightarrow> 0 \<le> int_of_digits t \<and> int_of_digits t < 10 ^ length t"
proof (induction t rule: rev_induct)
  case (snoc c t)
  then have "(0::int) \<le> of_char c - 48 \<and> of_char c - 48 \<le> (9::int)" by (auto simp: is_digit_def)
  with snoc show ?case by (auto simp: int_of_digits_def)
qed (simp add: int_of_digits_def)

lemma split_dash_digits: "list_all is_digit t \<Longrightarrow> split_dash t = [t]"
  by (induction t) (auto simp: is_digit_def)

lemma split_dash_join: "list_all is_digit t \<Longrightarrow> split_dash (t @ CHR ''-'' # u) = t # split_dash u"
  by (induction t) (auto simp: is_digit_def)

lemma strip_id: "t \<noteq> [] \<Longrightarrow> \<not> is_space (hd t) \<Longrightarrow> \<not> is_space (last t) \<Longrightarrow> strip t = t"
proof -
  assume t: "t \<noteq> []" "\<not> is_space (hd t)" "\<not> is_space (last t)"
  have "dropWhile is_space t = t" "dropWhile is_space (rev t) = rev t"
    using t by (simp_all add: dropWhile_eq_self_iff hd_rev)
  then show ?thesis by (simp add: strip_def)
qed

lemma digit_not_space: "is_digit c \<Longrightarrow> \<not> is_space c"
  by (auto simp: is_digit_def is_space_def)

lemma str_int_props:
  assumes "0 \<le> n"
  shows "str_int n \<noteq> []" and "list_all is_digit (str_int n)" and "int_of_digits (str_int n) = n"
    and "n < 10 ^ k \<Longrightarrow> 0 < k \<Longrightarrow> is_number k (str_int n)"
proof -
  note d = digits_of_props [of "nat n"]
  show "str_int n \<noteq> []" "list_all is_digit (str_int n)" "int_of_digits (str_int n) = n"
    using d assms by (simp_all add: str_int_def)
  show "is_number k (str_int n)" if "n < 10 ^ k" "0 < k"
  proof -
    have "nat n < 10 ^ k" using that assms by (simp add: nat_less_iff)
    then show ?thesis using d length_digits_of [of "nat n" k] that assms by (simp add: str_int_def is_number_def)
  qed
qed

lemma split_reference:
  assumes "0 \<le> tr_block r" "0 \<le> tr_extrinsic_index r" "pred_option (\<lambda>e. 0 \<le> e) (tr_event_index r)"
  shows "split_dash (str_reference r) = str_int (tr_block r) # str_int (tr_extrinsic_index r) #
    (case tr_event_index r of None \<Rightarrow> [] | Some e \<Rightarrow> [str_int e])"
  using assms str_int_props(2)
  by (auto simp: str_reference_def split_dash_join split_dash_digits split: option.splits)

lemma strip_reference:
  assumes "0 \<le> tr_block r" "0 \<le> tr_extrinsic_index r" "pred_option (\<lambda>e. 0 \<le> e) (tr_event_index r)"
  shows "strip (str_reference r) = str_reference r"
proof (rule strip_id)
  have hd: "is_digit (hd (str_int n))" and lst: "is_digit (last (str_int n))" if "0 \<le> n" for n
    using str_int_props(1,2) [OF that] by (simp_all add: list_all_iff)
  show "str_reference r \<noteq> []" by (simp add: str_reference_def split: option.splits)
  show "\<not> is_space (hd (str_reference r))"
    using hd [of "tr_block r"] assms str_int_props(1)
    by (auto simp: str_reference_def hd_append dest: digit_not_space split: option.splits)
  show "\<not> is_space (last (str_reference r))"
    using lst assms str_int_props(1)
    by (auto simp: str_reference_def last_append intro!: digit_not_space split: option.splits)
qed

lemma parse_reference_range: "parse_reference raw = Some r \<Longrightarrow> reference_in_range r"
proof -
  have num: "0 \<le> int_of_digits t \<and> int_of_digits t < 10 ^ n" if "is_number n t" for n t
  proof -
    from that have "0 \<le> int_of_digits t \<and> int_of_digits t < 10 ^ length t" and "length t \<le> n"
      using int_of_digits_bounds by (auto simp: is_number_def)
    moreover have "(10::int) ^ length t \<le> 10 ^ n" using \<open>length t \<le> n\<close> by simp
    ultimately show ?thesis by linarith
  qed
  assume "parse_reference raw = Some r"
  then show ?thesis using num [of 12] num [of 6]
    by (auto simp: parse_reference_def reference_in_range_def split: list.splits if_splits)
qed

section \<open>Properties\<close>

text \<open>
  Printing a transfer reference and parsing it back is the identity for every reference in the
  accepted range, and every reference the parser accepts is in that range: so the canonical text a
  submission stores resolves to the transfer it was printed from, however the miner spelled it.
\<close>

theorem reference_roundtrip:
  "(reference_in_range r \<longrightarrow> parse_reference (str_reference r) = Some r) \<and>
   (\<forall>raw. parse_reference raw = Some r \<longrightarrow> parse_reference (str_reference r) = Some r)"
proof -
  have "parse_reference (str_reference r) = Some r" if "reference_in_range r"
    using that str_int_props split_reference [of r] strip_reference [of r]
    by (cases "tr_event_index r")
      (auto simp: parse_reference_def reference_in_range_def)
  then show ?thesis using parse_reference_range by blast
qed

theorem reference_roundtrip_witness:
  "reference_in_range \<lparr>tr_block = 4512, tr_extrinsic_index = 7, tr_event_index = Some 31\<rparr> \<and>
   parse_reference '' 04512-7-31 '' = Some \<lparr>tr_block = 4512, tr_extrinsic_index = 7, tr_event_index = Some 31\<rparr> \<and>
   parse_reference (str_reference \<lparr>tr_block = 4512, tr_extrinsic_index = 7, tr_event_index = Some 31\<rparr>)
     = Some \<lparr>tr_block = 4512, tr_extrinsic_index = 7, tr_event_index = Some 31\<rparr>"
proof (intro conjI)
  show r: "reference_in_range \<lparr>tr_block = 4512, tr_extrinsic_index = 7, tr_event_index = Some 31\<rparr>"
    by (simp add: reference_in_range_def)
  show "parse_reference '' 04512-7-31 '' = Some \<lparr>tr_block = 4512, tr_extrinsic_index = 7, tr_event_index = Some 31\<rparr>"
    by code_simp
  show "parse_reference (str_reference \<lparr>tr_block = 4512, tr_extrinsic_index = 7, tr_event_index = Some 31\<rparr>)
     = Some \<lparr>tr_block = 4512, tr_extrinsic_index = 7, tr_event_index = Some 31\<rparr>"
    using reference_roundtrip r by blast
qed

text \<open>
  C39.  The genesis search is exact: when the blocks \<open>1 .. head\<close> are readable, their timestamps do not
  decrease, block 1 lies before the configured instant and the head does not, the search returns,
  and what it returns is the earliest block at or after the instant, with its timestamp.
\<close>

theorem first_block_exact:
  assumes "\<And>n. 1 \<le> n \<Longrightarrow> n \<le> tipb \<Longrightarrow> block n = Inr (ts n)"
    and "\<And>m n. 1 \<le> m \<Longrightarrow> m \<le> n \<Longrightarrow> n \<le> tipb \<Longrightarrow> ts m \<le> ts n"
    and "ts 1 < since" and "since \<le> ts tipb" and "1 \<le> tipb"
  shows "\<exists>n. first_block_at_or_after block tipb since = Inr (n, ts n) \<and> 1 \<le> n \<and> n \<le> tipb \<and> since \<le> ts n \<and>
    (\<forall>m. 1 \<le> m \<and> m < n \<longrightarrow> ts m < since)"
proof -
  have "tipb - BLOCKS_PER_DAY * 2 ^ 0 < tipb" by (simp add: BLOCKS_PER_DAY_def)
  then obtain low high where lb: "lower_bound block since tipb tipb 0 = Inr (low, high)"
    and b: "1 \<le> low" "low \<le> high" "high \<le> tipb" "since \<le> ts high" "low = 1 \<or> ts low < since"
    using lower_bound_spec [of tipb block ts since tipb 0] assms by auto
  have "ts low < since" using b assms(3) by auto
  then have "low < high" using b by (metis linorder_not_less order.order_iff_strict)
  then obtain n where n: "bisect block since low high = Inr n" "low < n" "n \<le> high" "since \<le> ts n" "ts (n - 1) < since"
    using bisect_spec [of low high block ts since] assms(1) b \<open>ts low < since\<close> by auto
  have "ts m < since" if "1 \<le> m" "m < n" for m
    using assms(2) [of m "n - 1"] that n b by auto
  moreover have "first_block_at_or_after block tipb since = Inr (n, ts n)"
    using lb n b assms(1) [of n] assms(1) [of tipb] assms(4,5) by (simp add: first_block_at_or_after_def)
  ultimately show ?thesis using n b by (intro exI [of _ n]) auto
qed

theorem first_block_exact_witness:
  "\<exists>n. first_block_at_or_after (\<lambda>n. Inr (12 * n)) 20000 1201 = Inr (n, 12 * n) \<and> 1 \<le> n \<and> n \<le> 20000 \<and>
     1201 \<le> 12 * n \<and> (\<forall>m. 1 \<le> m \<and> m < n \<longrightarrow> 12 * m < 1201)"
  by (rule first_block_exact) auto

text \<open>
  A reference is never guessed at.  For a block at or below the finalized head whose events have
  distinct positions, \<open>finalized_transfer\<close> returns a transfer exactly when it is the one the reference
  names: the event at that position, or the only transfer of the extrinsic when no event is named;
  an extrinsic with several transfers and no event index is refused as ambiguous, and a block above
  the finalized head resolves to nothing.
\<close>

theorem finalized_transfer_exact:
  assumes "transfers_in (tr_block r) = Inr ts" and "distinct (map ar_event_index ts)"
  shows "(\<forall>a. finalized_transfer head transfers_in r = Inr (Some a) \<longleftrightarrow>
           tr_block r \<le> head \<and> a \<in> set ts \<and> ar_extrinsic_index a = tr_extrinsic_index r \<and>
           (case tr_event_index r of Some e \<Rightarrow> ar_event_index a = e
            | None \<Rightarrow> filter (\<lambda>x. ar_extrinsic_index x = tr_extrinsic_index r) ts = [a])) \<and>
         (\<forall>k. finalized_transfer head transfers_in r = Inl (AmbiguousReference k) \<longleftrightarrow>
           tr_block r \<le> head \<and> tr_event_index r = None \<and>
           k = length (filter (\<lambda>x. ar_extrinsic_index x = tr_extrinsic_index r) ts) \<and> 1 < k)"
proof -
  let ?in = "filter (\<lambda>x. ar_extrinsic_index x = tr_extrinsic_index r) ts"
  have uniq: "find (\<lambda>a. ar_event_index a = e) ?in = Some a \<longleftrightarrow> a \<in> set ?in \<and> ar_event_index a = e" for e a
  proof
    assume "a \<in> set ?in \<and> ar_event_index a = e"
    moreover have "distinct (map ar_event_index ?in)" using assms(2) by (rule distinct_map_filter)
    ultimately show "find (\<lambda>a. ar_event_index a = e) ?in = Some a"
      using find_row_unique [of ar_event_index ?in a] by (simp add: find_row_def)
  qed (use find_Some_mem in fastforce)
  show ?thesis
  proof (cases "tr_event_index r")
    case (Some e)
    then show ?thesis using uniq assms(1) by (auto simp: finalized_transfer_def Let_def filter_empty_conv)
  next
    case None
    consider "?in = []" | a where "?in = [a]" | "1 < length ?in"
      by (cases ?in; cases "tl ?in") auto
    then show ?thesis
    proof cases
      case (2 a)
      have "a \<in> set ?in" unfolding 2 by simp
      then have "a \<in> set ts" "ar_extrinsic_index a = tr_extrinsic_index r" by simp_all
      then show ?thesis using None assms(1) 2 by (simp add: finalized_transfer_def) auto
    next
      case 3
      then have "?in \<noteq> []" "?in \<noteq> [a]" for a by auto
      then show ?thesis using 3 None assms(1) by (auto simp: finalized_transfer_def Let_def)
    qed (use None assms(1) in \<open>auto simp: finalized_transfer_def\<close>)
  qed
qed

theorem finalized_transfer_exact_witness:
  "finalized_transfer 9 (\<lambda>_. Inr [sample_arrival])
     \<lparr>tr_block = 5, tr_extrinsic_index = 1, tr_event_index = None\<rparr> = Inr (Some sample_arrival)"
  using finalized_transfer_exact [of "\<lambda>_. Inr [sample_arrival]"
      "\<lparr>tr_block = 5, tr_extrinsic_index = 1, tr_event_index = None\<rparr>" "[sample_arrival]" 9]
  by (simp add: sample_arrival_def)

end
