(* ===== verification/Watcher.thy ===== *)
theory Watcher
  imports ChainReader
begin

text \<open>
  The deposit watcher, \<open>deposit_watcher/watcher.py\<close>: it follows the finalized chain, records every
  transfer into the treasury and settles it into credits.

  A method of the watcher opens several transactions, and what one committed stays when a later one
  fails.  So a method is a function from the database to a result \<^emph>\<open>and\<close> the database it left, whatever
  the result is.  The chain is a parameter: a record of the four reads of the protocol
  \<open>TransferSource\<close>, any of which may fail.  The worker's wall clock is the database's.
\<close>

section \<open>Configuration and results\<close>

type_synonym 'a proc = "db \<Rightarrow> (watcher_error + 'a) \<times> db"

record watcher_settings =
  ws_recipient :: ss58
  ws_netuid :: int
  ws_uid :: int
  ws_watch_from :: time
  ws_batch_blocks :: int
  ws_credit_price_rao :: rao
  ws_adopted_deposit_window :: int
  ws_bonus_schedule :: bonus_schedule

record chain =
  finalized_head :: "watcher_error + int"
  transfers_to :: "ss58 \<Rightarrow> int \<Rightarrow> watcher_error + arrival list"
  hotkey_at :: "int \<Rightarrow> int \<Rightarrow> watcher_error + ss58 option"
  block_timestamp :: "int \<Rightarrow> watcher_error + time"

record admitted =
  ad_recorded :: bool
  ad_credited :: bool
  ad_credits_granted :: int
  ad_unattributed :: bool
  ad_ignored :: bool
  ad_conflict :: "string option"

definition Admitted :: "bool \<Rightarrow> admitted" where
  "Admitted r = \<lparr>ad_recorded = r, ad_credited = False, ad_credits_granted = 0,
     ad_unattributed = False, ad_ignored = False, ad_conflict = None\<rparr>"

record scanned =
  sc_from_block :: int
  sc_through_block :: int
  sc_observed :: int
  sc_recorded :: int
  sc_credited :: int
  sc_credits_granted :: int
  sc_unattributed :: int
  sc_ignored :: int
  sc_errors :: "string list"

definition of_bool_int :: "bool \<Rightarrow> int" where
  "of_bool_int b = (if b then 1 else 0)"

definition apply_admitted :: "admitted \<Rightarrow> scanned \<Rightarrow> scanned" where
  "apply_admitted a sc = sc
     \<lparr>sc_recorded := sc_recorded sc + of_bool_int (ad_recorded a),
      sc_credited := sc_credited sc + of_bool_int (ad_credited a),
      sc_credits_granted := sc_credits_granted sc + ad_credits_granted a,
      sc_unattributed := sc_unattributed sc + of_bool_int (ad_unattributed a),
      sc_ignored := sc_ignored sc + of_bool_int (ad_ignored a),
      sc_errors := sc_errors sc @ (case ad_conflict a of None \<Rightarrow> [] | Some m \<Rightarrow> [m])\<rparr>"

definition blocks :: "scanned \<Rightarrow> int" where
  "blocks sc = max 0 (sc_through_block sc - sc_from_block sc + 1)"

definition LEDGER_ACTOR :: string where "LEDGER_ACTOR = ''deposit-watcher''"

definition UNKNOWN_SENDER :: string where
  "UNKNOWN_SENDER = ''no account owns this sending coldkey: it is not a linked wallet and not a unique payout ''
     @ ''coldkey. Attribute it by hand, or have the sender claim it.''"

definition SELF_TRANSFER :: string where
  "SELF_TRANSFER = ''the sender is the watched address itself; this is not an incoming payment''"

definition CONFLICT_NOTE :: string where
  "CONFLICT_NOTE = ''settlement conflicted with existing state:''"

section \<open>Startup\<close>

definition verify_identity :: "watcher_settings \<Rightarrow> chain \<Rightarrow> watcher_error + ss58" where
  "verify_identity ws ch =
     (case hotkey_at ch (ws_netuid ws) (ws_uid ws) of
        Inl e \<Rightarrow> Inl e
      | Inr None \<Rightarrow> Inl (SettingsError ''no registered hotkey'')
      | Inr (Some registered) \<Rightarrow>
          if registered \<noteq> ws_recipient ws then Inl (SettingsError ''not this validator's own address'')
          else Inr registered)"

definition require_same_watch :: "watcher_settings \<Rightarrow> cursor_row \<Rightarrow> watcher_error + unit" where
  "require_same_watch ws c =
     (if c_recipient c = ws_recipient ws \<and> c_netuid c = ws_netuid ws \<and> c_uid c = ws_uid ws \<and>
         c_watch_from c = ws_watch_from ws
      then Inr () else Inl (SettingsError ''the stored cursor does not match this configuration''))"

text \<open>\<open>chain.first_block_at_or_after(self.source, watch_from)\<close>: the search starts at the finalized head.\<close>

definition genesis_block :: "chain \<Rightarrow> time \<Rightarrow> watcher_error + int \<times> time" where
  "genesis_block ch since =
     (case finalized_head ch of
        Inl e \<Rightarrow> Inl e
      | Inr head \<Rightarrow> first_block_at_or_after (block_timestamp ch) head since)"

text \<open>
  The cursor is read again after the search, under the write: it is then whatever a watcher that
  started at the same time stored, \<open>others\<close> being what that watcher did in between.
\<close>

definition resolve_cursor :: "watcher_settings \<Rightarrow> chain \<Rightarrow> (db \<Rightarrow> db) \<Rightarrow> cursor_row proc" where
  "resolve_cursor ws ch others s =
     (case cursor DEPOSIT_WATCHER s of
        Some existing \<Rightarrow>
          (case require_same_watch ws existing of Inl e \<Rightarrow> (Inl e, s) | Inr _ \<Rightarrow> (Inr existing, s))
      | None \<Rightarrow>
          (case genesis_block ch (ws_watch_from ws) of
             Inl e \<Rightarrow> (Inl e, s)
           | Inr (number, timestamp) \<Rightarrow>
               (let t = others s in
                case cursor DEPOSIT_WATCHER t of
                  Some existing \<Rightarrow>
                    (case require_same_watch ws existing of Inl e \<Rightarrow> (Inl e, t) | Inr _ \<Rightarrow> (Inr existing, t))
                | None \<Rightarrow>
                    (case open_cursor DEPOSIT_WATCHER (ws_recipient ws) (ws_netuid ws) (ws_uid ws)
                            (ws_watch_from ws) number timestamp t of
                       Inl e \<Rightarrow> (Inl (Db e), t)
                     | Inr (c, s') \<Rightarrow> (Inr c, s')))))"

section \<open>One arrival\<close>

definition settle :: "watcher_settings \<Rightarrow> serial \<Rightarrow> arrival \<Rightarrow> bool \<Rightarrow> admitted dbtx" where
  "settle ws transfer_id a recorded =
     bindT (reads (\<lambda>s. find_row t_id transfer_id (transfers s))) (\<lambda>found.
     case found of
       None \<Rightarrow> raise (RecordConflict ''the recorded transfer disappeared'' ''CONFLICT'' [])
     | Some transfer \<Rightarrow>
         if t_status transfer \<noteq> UNATTRIBUTED then ret (Admitted recorded)
         else if ar_sender a = ar_recipient a then
           thenT (ignore transfer SELF_TRANSFER) (ret ((Admitted recorded)\<lparr>ad_ignored := True\<rparr>))
         else
           bindT (reads (\<lambda>s. account_for_coldkey s (ar_sender a))) (\<lambda>acct.
           case acct of
             None \<Rightarrow> thenT (leave_unattributed transfer UNKNOWN_SENDER)
                       (ret ((Admitted recorded)\<lparr>ad_unattributed := True\<rparr>))
           | Some account_id \<Rightarrow>
               bindT (reads clock) (\<lambda>now.
               bindT (credit transfer account_id (ws_credit_price_rao ws)
                        (now + ws_adopted_deposit_window ws) LEDGER_ACTOR (ws_bonus_schedule ws))
                 (\<lambda>(entry, credited).
               ret ((Admitted recorded)\<lparr>ad_credited := True,
                      ad_credits_granted := t_credits_granted credited\<rparr>)))))"

text \<open>\<open>except RecordConflict\<close> also catches its subclasses; the message goes onto the row.\<close>

definition conflict_message :: "db_error \<Rightarrow> string option" where
  "conflict_message e = (case e of RecordConflict m c d \<Rightarrow> Some m | IdempotencyConflict m d \<Rightarrow> Some m
     | DuplicateProof m d \<Rightarrow> Some m | DuplicatePayment m d \<Rightarrow> Some m | _ \<Rightarrow> None)"

definition note_conflict :: "serial \<Rightarrow> string \<Rightarrow> unit dbtx" where
  "note_conflict transfer_id msg =
     bindT (reads (\<lambda>s. find_row t_id transfer_id (transfers s))) (\<lambda>found.
     case found of
       None \<Rightarrow> ret ()
     | Some transfer \<Rightarrow> thenT (leave_unattributed transfer (CONFLICT_NOTE @ '' '' @ msg)) (ret ()))"

definition admit :: "watcher_settings \<Rightarrow> arrival \<Rightarrow> admitted proc" where
  "admit ws a s =
     (case record_transfer a s of
        Inl e \<Rightarrow> (Inl (Db e), s)
      | Inr (rt, s1) \<Rightarrow>
          if t_status (rt_transfer rt) \<noteq> UNATTRIBUTED then (Inr (Admitted (rt_created rt)), s1)
          else (case settle ws (t_id (rt_transfer rt)) a (rt_created rt) s1 of
                  Inr (ad, s2) \<Rightarrow> (Inr ad, s2)
                | Inl e \<Rightarrow>
                    (case conflict_message e of
                       None \<Rightarrow> (Inl (Db e), s1)
                     | Some msg \<Rightarrow>
                         (case note_conflict (t_id (rt_transfer rt)) msg s1 of
                            Inl e' \<Rightarrow> (Inl (Db e'), s1)
                          | Inr (_, s2) \<Rightarrow>
                              (Inr ((Admitted (rt_created rt))\<lparr>ad_unattributed := True,
                                      ad_conflict := Some (ar_reference a @ '': '' @ msg)\<rparr>), s2)))))"

section \<open>Blocks and passes\<close>

fun admit_all :: "watcher_settings \<Rightarrow> arrival list \<Rightarrow> scanned \<Rightarrow> scanned proc" where
  "admit_all ws [] sc s = (Inr sc, s)"
| "admit_all ws (a # as) sc s =
     (case admit ws a s of
        (Inl e, s') \<Rightarrow> (Inl e, s')
      | (Inr ad, s') \<Rightarrow>
          admit_all ws as (apply_admitted ad (sc\<lparr>sc_observed := sc_observed sc + 1\<rparr>)) s')"

definition scan_block :: "watcher_settings \<Rightarrow> chain \<Rightarrow> int \<Rightarrow> scanned \<Rightarrow> scanned proc" where
  "scan_block ws ch number sc s =
     (case transfers_to ch (ws_recipient ws) number of
        Inl e \<Rightarrow> (Inl e, s)
      | Inr arrivals \<Rightarrow>
          (case admit_all ws arrivals sc s of
             (Inl e, s') \<Rightarrow> (Inl e, s')
           | (Inr sc', s') \<Rightarrow>
               (case advance_cursor DEPOSIT_WATCHER number (clock s') s' of
                  Inl e \<Rightarrow> (Inl (Db e), s')
                | Inr (_, s'') \<Rightarrow> (Inr sc', s''))))"

fun scan_range :: "watcher_settings \<Rightarrow> chain \<Rightarrow> int list \<Rightarrow> scanned \<Rightarrow> scanned proc" where
  "scan_range ws ch [] sc s = (Inr sc, s)"
| "scan_range ws ch (n # ns) sc s =
     (case scan_block ws ch n sc s of
        (Inl e, s') \<Rightarrow> (Inl e, s')
      | (Inr sc', s') \<Rightarrow> scan_range ws ch ns sc' s')"

definition scan_once :: "watcher_settings \<Rightarrow> chain \<Rightarrow> scanned option proc" where
  "scan_once ws ch s =
     (case cursor DEPOSIT_WATCHER s of
        None \<Rightarrow> (Inl (SettingsError ''the watcher has no cursor; call resolve_cursor first''), s)
      | Some c \<Rightarrow>
          (case finalized_head ch of
             Inl e \<Rightarrow> (Inl e, s)
           | Inr head \<Rightarrow>
               (let first = c_last_scanned_block c + 1 in
                if first > head then (Inr None, s)
                else let last = min head (first + ws_batch_blocks ws - 1);
                         sc = \<lparr>sc_from_block = first, sc_through_block = last, sc_observed = 0,
                               sc_recorded = 0, sc_credited = 0, sc_credits_granted = 0,
                               sc_unattributed = 0, sc_ignored = 0, sc_errors = []\<rparr>
                     in case scan_range ws ch [first..last] sc s of
                          (Inl e, s') \<Rightarrow> (Inl e, s')
                        | (Inr sc', s') \<Rightarrow> (Inr (Some sc'), s'))))"

text \<open>\<open>catch_up(max_passes=n)\<close>\<close>

fun catch_up :: "watcher_settings \<Rightarrow> chain \<Rightarrow> nat \<Rightarrow> scanned list proc" where
  "catch_up ws ch 0 s = (Inr [], s)"
| "catch_up ws ch (Suc n) s =
     (case scan_once ws ch s of
        (Inl e, s') \<Rightarrow> (Inl e, s')
      | (Inr None, s') \<Rightarrow> (Inr [], s')
      | (Inr (Some sc), s') \<Rightarrow>
          (case catch_up ws ch n s' of
             (Inl e, s'') \<Rightarrow> (Inl e, s'')
           | (Inr passes, s'') \<Rightarrow> (Inr (sc # passes), s'')))"

text \<open>A watch used by the examples: one account, a cursor before block 5, one arrival in block 5.\<close>

definition sample_settings :: watcher_settings where
  "sample_settings = \<lparr>ws_recipient = ''T'', ws_netuid = 1, ws_uid = 0, ws_watch_from = 50, ws_batch_blocks = 1,
     ws_credit_price_rao = 7, ws_adopted_deposit_window = 60, ws_bonus_schedule = None\<rparr>"

definition sample_chain :: chain where
  "sample_chain = \<lparr>finalized_head = Inr 6,
     transfers_to = (\<lambda>_ b. Inr (if b = 5 then [sample_arrival] else [])),
     hotkey_at = (\<lambda>_ _. Inr (Some ''T'')), block_timestamp = (\<lambda>b. Inr (12 * b))\<rparr>"

definition sample_watch :: db where
  "sample_watch = (empty_db (\<lambda>_. replicate 32 0) 100)\<lparr>next_uuid := 1,
     accounts := [(account_defaults 0 0)\<lparr>a_payout_coldkey := Some ''A''\<rparr>],
     cursors := [\<lparr>c_watcher = DEPOSIT_WATCHER, c_recipient = ''T'', c_netuid = 1, c_uid = 0, c_watch_from = 50,
       c_start_block = 5, c_start_block_timestamp = 60, c_last_scanned_block = 4, c_last_scanned_at = 90,
       c_created_at = 90\<rparr>]\<rparr>"

text \<open>The arrival of block 5 on record, its reference quoted by another account's claim.\<close>

definition sample_claim :: deposit_row where
  "sample_claim = \<lparr>d_id = 2, d_account_id = 1, d_amount_rao = 30, d_treasury_address = ''T'',
     d_credit_price_rao = 10, d_status = SEEN_UNFINALIZED, d_extrinsic_reference = Some ''5-1-2'',
     d_sender_coldkey = None, d_observed_amount_rao = None, d_block = None, d_failure_reason = None,
     d_credited_ledger_id = None, d_expires_at = 900, d_created_at = 90, d_updated_at = 90\<rparr>"

definition sample_quoted :: db where
  "sample_quoted = sample_watch\<lparr>next_uuid := 3,
     accounts := [(account_defaults 0 0)\<lparr>a_payout_coldkey := Some ''A''\<rparr>, account_defaults 1 0],
     deposits := [sample_claim], next_transfer_id := 2,
     transfers := [new_transfer_row sample_watch 1 sample_arrival]\<rparr>"

section \<open>What one operation does\<close>

lemma settle_Inr:
  assumes "settle ws n a r s = Inr (ad, s')"
  obtains
    (decided) t where "find_row t_id n (transfers s) = Some t" "t_status t \<noteq> UNATTRIBUTED"
      "ad = Admitted r" "s' = s"
  | (noted) t t' where "find_row t_id n (transfers s) = Some t" "t_status t = UNATTRIBUTED"
      "t' = t\<lparr>t_status := t_status t', t_note := t_note t', t_updated_at := clock s\<rparr>"
      "t_status t' \<noteq> T_CREDITED" "\<not> ad_credited ad"
      "s' = s\<lparr>transfers := replace_row t_id t' (transfers s)\<rparr>" "ad_ignored ad \<longrightarrow> t_status t' = T_IGNORED"
  | (credited) t acct e t' where "find_row t_id n (transfers s) = Some t" "t_status t = UNATTRIBUTED"
      "account_for_coldkey s (ar_sender a) = Some acct"
      "credit t acct (ws_credit_price_rao ws) (clock s + ws_adopted_deposit_window ws) LEDGER_ACTOR
         (ws_bonus_schedule ws) s = Inr ((e, t'), s')"
      "ad = (Admitted r)\<lparr>ad_credited := True, ad_credits_granted := t_credits_granted t'\<rparr>"
proof -
  from assms obtain t where t: "find_row t_id n (transfers s) = Some t"
    by (cases "find_row t_id n (transfers s)") (auto simp: settle_def tx_simps)
  show thesis
  proof (cases "t_status t = UNATTRIBUTED")
    case False
    with t assms show thesis by (intro decided [of t]) (auto simp: settle_def tx_simps)
  next
    case un: True
    show thesis
    proof (cases "ar_sender a = ar_recipient a")
      case True
      with un t assms obtain t' where "ignore t SELF_TRANSFER s = Inr (t', s')" "\<not> ad_credited ad"
        by (auto simp: settle_def tx_simps Admitted_def)
      with un t ignore_Inr [of t SELF_TRANSFER s t' s'] show thesis
        by (intro noted [of t "t'\<lparr>t_updated_at := clock s\<rparr>"]) simp_all
    next
      case False
      show thesis
      proof (cases "account_for_coldkey s (ar_sender a)")
        case None
        with False un t assms obtain t' where "leave_unattributed t UNKNOWN_SENDER s = Inr (t', s')" "\<not> ad_credited ad" "\<not> ad_ignored ad"
          by (auto simp: settle_def tx_simps Admitted_def)
        with un t leave_unattributed_Inr [of t UNKNOWN_SENDER s t' s'] show thesis
          by (intro noted [of t "t'\<lparr>t_updated_at := clock s\<rparr>"]) simp_all
      next
        case (Some acct)
        with False un t assms show thesis
          by (auto simp: settle_def tx_simps intro: credited)
      qed
    qed
  qed
qed

lemma note_conflict_Inr:
  assumes "note_conflict n msg s = Inr (u, s')"
  obtains (gone) "find_row t_id n (transfers s) = None" "s' = s"
  | (noted) t where "find_row t_id n (transfers s) = Some t"
      "s' = s\<lparr>transfers := replace_row t_id (t\<lparr>t_note := Some (take 500 (CONFLICT_NOTE @ '' '' @ msg)),
         t_updated_at := clock s\<rparr>) (transfers s)\<rparr>"
  using assms
  by (cases "find_row t_id n (transfers s)")
    (auto simp: note_conflict_def tx_simps dest!: leave_unattributed_Inr)

section \<open>What a pass keeps\<close>

text \<open>The references on record, and the keys of the table they are in.\<close>

definition recorded_refs :: "db \<Rightarrow> string set" where
  "recorded_refs s = t_extrinsic_reference ` set (transfers s)"

definition transfers_keyed :: "db \<Rightarrow> bool" where
  "transfers_keyed s \<longleftrightarrow> distinct (map t_id (transfers s)) \<and> (\<forall>t \<in> set (transfers s). t_id t < next_transfer_id s)"

text \<open>Every transfer of every block the cursor has passed is on record.\<close>

definition no_gap :: "watcher_settings \<Rightarrow> chain \<Rightarrow> db \<Rightarrow> bool" where
  "no_gap ws ch s \<longleftrightarrow> (\<forall>c b. cursor DEPOSIT_WATCHER s = Some c \<longrightarrow> c_start_block c \<le> b \<longrightarrow>
     b \<le> c_last_scanned_block c \<longrightarrow>
     (\<exists>as. transfers_to ch (ws_recipient ws) b = Inr as \<and> ar_reference ` set as \<subseteq> recorded_refs s))"

text \<open>What handling one arrival, or several, may do to the records.\<close>

definition keeps_records :: "db \<Rightarrow> db \<Rightarrow> bool" where
  "keeps_records s s' \<longleftrightarrow> transfers_keyed s' \<and> recorded_refs s \<subseteq> recorded_refs s' \<and> cursors s' = cursors s"

lemma keeps_records_trans: "keeps_records s s1 \<Longrightarrow> keeps_records s1 s2 \<Longrightarrow> keeps_records s s2"
  by (auto simp: keeps_records_def)

lemma keeps_records_refl: "transfers_keyed s \<Longrightarrow> keeps_records s s"
  by (simp add: keeps_records_def)

lemma rewritten_transfer_keeps:
  assumes "transfers_keyed s" and "find_row t_id n (transfers s) = Some t" and "t_id t' = t_id t"
    and "t_extrinsic_reference t' = t_extrinsic_reference t"
    and "transfers s' = replace_row t_id t' (transfers s)" and "next_transfer_id s' = next_transfer_id s"
    and "cursors s' = cursors s"
  shows "keeps_records s s'"
proof -
  have d: "distinct (map t_id (transfers s))" using assms(1) by (simp add: transfers_keyed_def)
  have "map t_extrinsic_reference (transfers s') = map t_extrinsic_reference (transfers s)"
    unfolding assms(5) using find_row_Some [OF assms(2)] assms(3,4) by (intro map_replace_row [OF d, of t]) simp_all
  then have "recorded_refs s' = recorded_refs s" unfolding recorded_refs_def by (metis set_map)
  moreover have "transfers_keyed s'"
    using assms(1) replace_row_keys [of t_id t' "transfers s" "\<lambda>k. k < next_transfer_id s"]
    by (simp add: transfers_keyed_def assms(5,6))
  ultimately show ?thesis using assms(7) by (simp add: keeps_records_def)
qed

lemma settle_keeps:
  assumes "settle ws n a r s = Inr (ad, s')" and "transfers_keyed s"
  shows "keeps_records s s'"
  using assms(1)
proof (cases rule: settle_Inr)
  case (decided t)
  then show ?thesis using assms(2) by (simp add: keeps_records_def)
next
  case (noted t t')
  have "t_id t' = t_id t" "t_extrinsic_reference t' = t_extrinsic_reference t" by (subst noted(3), simp)+
  then show ?thesis by (rule rewritten_transfer_keeps [OF assms(2) noted(1)]) (simp_all add: noted(6))
next
  case (credited t acct e t')
  from credited(4) show ?thesis
  proof (cases rule: credit_Inr)
    case (1 es)
    show ?thesis
      by (rule rewritten_transfer_keeps [OF assms(2) credited(1), of "t'\<lparr>t_updated_at := clock s\<rparr>"])
        (simp_all add: 1(9,11), (subst 1(13), simp)+)
  qed
qed

lemma note_conflict_keeps:
  assumes "note_conflict n msg s = Inr (u, s')" and "transfers_keyed s"
  shows "keeps_records s s'"
  using assms(1)
proof (cases rule: note_conflict_Inr)
  case gone
  then show ?thesis using assms(2) by (simp add: keeps_records_def)
next
  case (noted t)
  show ?thesis by (rule rewritten_transfer_keeps [OF assms(2) noted(1)]) (simp_all add: noted(2))
qed

lemma record_transfer_keeps:
  assumes "record_transfer a s = Inr (r, s')" and "transfers_keyed s"
  shows "keeps_records s s'" and "ar_reference a \<in> recorded_refs s'"
  using assms
  by (cases rule: record_transfer_Inr;
      force simp: keeps_records_def transfers_keyed_def recorded_refs_def less_Suc_eq)+

lemma admit_keeps:
  assumes "admit ws a s = (r, s')" and "transfers_keyed s"
  shows "keeps_records s s'" and "r = Inr ad \<Longrightarrow> ar_reference a \<in> recorded_refs s'"
proof -
  have "keeps_records s s' \<and> (\<forall>ad. r = Inr ad \<longrightarrow> ar_reference a \<in> recorded_refs s')"
  proof (cases "record_transfer a s")
    case (Inl e)
    then show ?thesis using assms by (auto simp: admit_def keeps_records_def)
  next
    case (Inr q)
    then obtain rt s1 where rec: "record_transfer a s = Inr (rt, s1)" by (cases q) simp
    note R = record_transfer_keeps [OF rec assms(2)]
    have k1: "transfers_keyed s1" using R(1) by (simp add: keeps_records_def)
    have "keeps_records s1 s'"
    proof (cases "t_status (rt_transfer rt) = UNATTRIBUTED")
      case False
      then show ?thesis using assms(1) rec k1 by (simp add: admit_def keeps_records_def)
    next
      case True
      note adm = assms(1) [unfolded admit_def rec, simplified, unfolded True, simplified]
      show ?thesis
      proof (cases "settle ws (t_id (rt_transfer rt)) a (rt_created rt) s1")
        case (Inr q2)
        then show ?thesis using settle_keeps [of ws "t_id (rt_transfer rt)" a "rt_created rt" s1] k1 adm
          by (cases q2) auto
      next
        case (Inl e)
        with adm k1 show ?thesis
          by (auto split: option.splits sum.splits intro: note_conflict_keeps keeps_records_refl)
      qed
    qed
    then show ?thesis using R keeps_records_trans by (auto simp: keeps_records_def)
  qed
  then show "keeps_records s s'" "r = Inr ad \<Longrightarrow> ar_reference a \<in> recorded_refs s'" by auto
qed

lemma admit_all_keeps:
  assumes "admit_all ws as sc s = (r, s')" and "transfers_keyed s"
  shows "keeps_records s s' \<and> (\<forall>sc'. r = Inr sc' \<longrightarrow> ar_reference ` set as \<subseteq> recorded_refs s')"
  using assms
proof (induction as arbitrary: sc s)
  case Nil
  then show ?case by (auto simp: keeps_records_def)
next
  case (Cons a as)
  obtain r1 s1 where a: "admit ws a s = (r1, s1)" by (cases "admit ws a s")
  note A = admit_keeps [OF a Cons.prems(2)]
  have k1: "transfers_keyed s1" using A(1) by (simp add: keeps_records_def)
  show ?case
  proof (cases r1)
    case (Inl e)
    then show ?thesis using Cons.prems(1) a A(1) by auto
  next
    case (Inr ad)
    with Cons.prems(1) a have "admit_all ws as (apply_admitted ad (sc\<lparr>sc_observed := sc_observed sc + 1\<rparr>)) s1 = (r, s')"
      by simp
    from Cons.IH [OF this k1] show ?thesis using A(2) [OF Inr] A(1) keeps_records_trans
      by (auto simp: keeps_records_def)
  qed
qed

lemma advance_cursor_Inr:
  assumes "advance_cursor w n now s = Inr (c', s')"
  obtains c cs where "find_row c_watcher w (cursors s) = Some c"
    and "c' = (if c_last_scanned_block c < n then c\<lparr>c_last_scanned_block := n, c_last_scanned_at := now\<rparr> else c)"
    and "cursor w s' = Some c'" and "s' = s\<lparr>cursors := cs\<rparr>"
proof -
  from assms obtain c where c: "find_row c_watcher w (cursors s) = Some c"
    by (auto simp: advance_cursor_def split: option.splits)
  show thesis
  proof (cases "c_last_scanned_block c < n")
    case True
    let ?c = "c\<lparr>c_last_scanned_block := n, c_last_scanned_at := now\<rparr>"
    from True c assms have "c' = ?c" "s' = s\<lparr>cursors := replace_row c_watcher ?c (cursors s)\<rparr>"
      by (auto simp: advance_cursor_def tx_simps Let_def)
    moreover have "find_row c_watcher w (replace_row c_watcher ?c (cursors s)) = Some ?c"
      using find_row_Some [OF c] by (intro find_after_replace [OF c]) simp
    ultimately show thesis using True c by (intro that [of c "replace_row c_watcher ?c (cursors s)"]) (simp_all add: cursor_def)
  next
    case False
    with c assms show thesis by (intro that [of c "cursors s"]) (auto simp: advance_cursor_def cursor_def)
  qed
qed

text \<open>The state of the watch between two blocks.\<close>

definition watching :: "watcher_settings \<Rightarrow> chain \<Rightarrow> cursor_row \<Rightarrow> db \<Rightarrow> bool" where
  "watching ws ch c s \<longleftrightarrow> transfers_keyed s \<and> no_gap ws ch s \<and> cursor DEPOSIT_WATCHER s = Some c"

lemma no_gap_keeps: "no_gap ws ch s \<Longrightarrow> keeps_records s s' \<Longrightarrow> no_gap ws ch s'"
  unfolding no_gap_def keeps_records_def cursor_def by (metis subset_trans)

lemma watching_keeps: "watching ws ch c s \<Longrightarrow> keeps_records s s' \<Longrightarrow> watching ws ch c s'"
  using no_gap_keeps by (auto simp: watching_def keeps_records_def cursor_def)

lemma scan_block_watching:
  assumes "scan_block ws ch (c_last_scanned_block c + 1) sc s = (r, s')" and w: "watching ws ch c s"
  shows "recorded_refs s \<subseteq> recorded_refs s' \<and> (\<exists>c'. watching ws ch c' s' \<and> c_start_block c' = c_start_block c \<and>
    (case r of Inl _ \<Rightarrow> c' = c | Inr _ \<Rightarrow> c_last_scanned_block c' = c_last_scanned_block c + 1))"
proof -
  let ?n = "c_last_scanned_block c + 1"
  have k: "transfers_keyed s" using w by (simp add: watching_def)
  show ?thesis
  proof (cases "transfers_to ch (ws_recipient ws) ?n")
    case (Inl e)
    then show ?thesis using assms by (auto simp: scan_block_def)
  next
    case (Inr as)
    obtain r1 s1 where a: "admit_all ws as sc s = (r1, s1)" by (cases "admit_all ws as sc s")
    have keep: "keeps_records s s1" "\<forall>sc'. r1 = Inr sc' \<longrightarrow> ar_reference ` set as \<subseteq> recorded_refs s1"
      using admit_all_keeps [OF a k] by auto
    have w1: "watching ws ch c s1" and mono: "recorded_refs s \<subseteq> recorded_refs s1"
      using watching_keeps [OF w keep(1)] keep(1) by (simp_all add: keeps_records_def)
    show ?thesis
    proof (cases r1)
      case e: (Inl e)
      then show ?thesis using assms(1) a Inr w1 mono by (auto simp: scan_block_def)
    next
      case ok: (Inr sc')
      note scan = assms(1) [unfolded scan_block_def Inr, simplified, unfolded a ok, simplified]
      show ?thesis
      proof (cases "advance_cursor DEPOSIT_WATCHER ?n (clock s1) s1")
        case (Inl e)
        then show ?thesis using scan w1 mono by auto
      next
        case (Inr q)
        then obtain c' s2 where adv: "advance_cursor DEPOSIT_WATCHER ?n (clock s1) s1 = Inr (c', s2)" by (cases q) simp
        with scan have r: "r = Inr sc'" "s2 = s'" by simp_all
        from adv obtain c0 cs where c0: "find_row c_watcher DEPOSIT_WATCHER (cursors s1) = Some c0"
          "c' = (if c_last_scanned_block c0 < ?n then c0\<lparr>c_last_scanned_block := ?n, c_last_scanned_at := clock s1\<rparr> else c0)"
          "cursor DEPOSIT_WATCHER s2 = Some c'" "s2 = s1\<lparr>cursors := cs\<rparr>" by (rule advance_cursor_Inr)
        have "c0 = c" using w1 c0(1) by (simp add: watching_def cursor_def)
        then have C: "c' = c\<lparr>c_last_scanned_block := ?n, c_last_scanned_at := clock s1\<rparr>"
          "cursor DEPOSIT_WATCHER s' = Some c'" using c0(2,3) r(2) by simp_all
        have fr: "transfers s' = transfers s1" "next_transfer_id s' = next_transfer_id s1"
          using c0(4) r(2) by auto
        have refs: "recorded_refs s' = recorded_refs s1" by (simp add: recorded_refs_def fr)
        have "no_gap ws ch s'"
          unfolding no_gap_def
        proof (intro allI impI)
          fix c2 b assume c2: "cursor DEPOSIT_WATCHER s' = Some c2" "c_start_block c2 \<le> b" "b \<le> c_last_scanned_block c2"
          then have c2': "c2 = c'" using C(2) by simp
          show "\<exists>as. transfers_to ch (ws_recipient ws) b = Inr as \<and> ar_reference ` set as \<subseteq> recorded_refs s'"
          proof (cases "b = ?n")
            case True
            then show ?thesis using \<open>transfers_to ch (ws_recipient ws) ?n = Inr as\<close> keep(2) ok by (simp add: refs)
          next
            case False
            then have "c_start_block c \<le> b" "b \<le> c_last_scanned_block c" using c2 by (simp_all add: c2' C(1))
            then show ?thesis using w1 unfolding watching_def no_gap_def refs by blast
          qed
        qed
        then have "watching ws ch c' s'" using w1 C(2) by (simp add: watching_def transfers_keyed_def fr)
        then show ?thesis using mono refs r(1) by (intro conjI exI [of _ c']) (simp_all add: C(1))
      qed
    qed
  qed
qed

text \<open>The watcher is a follower of the chain.\<close>

definition last_scanned :: "db \<Rightarrow> int" where
  "last_scanned s = (case cursor DEPOSIT_WATCHER s of None \<Rightarrow> 0 | Some c \<Rightarrow> c_last_scanned_block c)"

definition on_watch :: "watcher_settings \<Rightarrow> chain \<Rightarrow> db \<Rightarrow> bool" where
  "on_watch ws ch s \<longleftrightarrow> (\<exists>c. watching ws ch c s)"

definition records_grow :: "db \<Rightarrow> db \<Rightarrow> bool" where
  "records_grow s s' \<longleftrightarrow> recorded_refs s \<subseteq> recorded_refs s' \<and>
     map_option c_start_block (cursor DEPOSIT_WATCHER s) = map_option c_start_block (cursor DEPOSIT_WATCHER s')"

lemma scan_range_each: "scan_range ws ch ns sc s = each (scan_block ws ch) ns sc s"
  by (induction ns arbitrary: sc s) (auto split: prod.splits sum.splits)

interpretation deposits: block_follower "scan_block ws ch" last_scanned "on_watch ws ch" records_grow for ws ch
proof
  fix s sc r s' assume b: "scan_block ws ch (last_scanned s + 1) sc s = (r, s')" and "on_watch ws ch s"
  then obtain c where w: "watching ws ch c s" by (auto simp: on_watch_def)
  then have "scan_block ws ch (c_last_scanned_block c + 1) sc s = (r, s')"
    using b by (simp add: last_scanned_def watching_def)
  from scan_block_watching [OF this w]
  show "on_watch ws ch s' \<and> records_grow s s' \<and>
      last_scanned s' = (case r of Inl _ \<Rightarrow> last_scanned s | Inr _ \<Rightarrow> last_scanned s + 1)"
    using w by (cases r) (auto simp: on_watch_def records_grow_def last_scanned_def watching_def)
qed (auto simp: records_grow_def)

lemma scan_range_watching:
  assumes "scan_range ws ch [c_last_scanned_block c + 1..m] sc s = (r, s')" and "watching ws ch c s"
    and "c_last_scanned_block c \<le> m"
  shows "recorded_refs s \<subseteq> recorded_refs s' \<and> (\<exists>c'. watching ws ch c' s' \<and> c_start_block c' = c_start_block c \<and>
    c_last_scanned_block c \<le> c_last_scanned_block c' \<and>
    (case r of Inl _ \<Rightarrow> True | Inr _ \<Rightarrow> c_last_scanned_block c' = m))"
proof -
  have c: "cursor DEPOSIT_WATCHER s = Some c" "last_scanned s = c_last_scanned_block c"
    using assms(2) by (simp_all add: watching_def last_scanned_def)
  have "each (scan_block ws ch) [last_scanned s + 1..m] sc s = (r, s')" using assms(1) c by (simp add: scan_range_each)
  from deposits.scan_range [OF this] assms(2,3) c
  have "on_watch ws ch s' \<and> records_grow s s' \<and> last_scanned s \<le> last_scanned s' \<and>
      (case r of Inl _ \<Rightarrow> True | Inr _ \<Rightarrow> last_scanned s' = m)" by (auto simp: on_watch_def)
  then show ?thesis using c by (cases r) (auto simp: on_watch_def records_grow_def last_scanned_def watching_def)
qed

lemma scan_once_watching:
  assumes "scan_once ws ch s = (r, s')" and w: "watching ws ch c s"
  shows "recorded_refs s \<subseteq> recorded_refs s' \<and> (\<exists>c'. watching ws ch c' s' \<and> c_start_block c' = c_start_block c \<and>
    c_last_scanned_block c \<le> c_last_scanned_block c' \<and>
    (\<forall>head. finalized_head ch = Inr head \<longrightarrow> 0 < ws_batch_blocks ws \<longrightarrow> (case r of Inl _ \<Rightarrow> True
       | Inr None \<Rightarrow> head \<le> c_last_scanned_block c'
       | Inr (Some _) \<Rightarrow> min head (c_last_scanned_block c + ws_batch_blocks ws) \<le> c_last_scanned_block c')))"
proof -
  have c: "cursor DEPOSIT_WATCHER s = Some c" using w by (simp add: watching_def)
  let ?first = "c_last_scanned_block c + 1"
  consider (err) e where "finalized_head ch = Inl e" | (idle) head where "finalized_head ch = Inr head" "head < ?first"
    | (work) head where "finalized_head ch = Inr head" "?first \<le> head" by (metis sum.exhaust_sel not_le)
  then show ?thesis
  proof cases
    case (err e)
    then show ?thesis using assms c by (auto simp: scan_once_def)
  next
    case (idle head)
    then have "r = Inr None" "s' = s" using assms(1) c by (simp_all add: scan_once_def Let_def)
    then show ?thesis using w idle by (intro conjI exI [of _ c]) auto
  next
    case (work head)
    let ?last = "min head (?first + ws_batch_blocks ws - 1)"
    from work assms(1) c obtain sc r1 where b: "scan_range ws ch [?first..?last] sc s = (r1, s')"
      and r: "r = (case r1 of Inl e \<Rightarrow> Inl e | Inr sc' \<Rightarrow> Inr (Some sc'))"
      by (auto simp: scan_once_def Let_def split: sum.splits prod.splits)
    show ?thesis
    proof (cases "c_last_scanned_block c \<le> ?last")
      case True
      from scan_range_watching [OF b w True] obtain c' where
        c': "recorded_refs s \<subseteq> recorded_refs s'" "watching ws ch c' s'" "c_start_block c' = c_start_block c"
        "c_last_scanned_block c \<le> c_last_scanned_block c'"
        "case r1 of Inl _ \<Rightarrow> True | Inr _ \<Rightarrow> c_last_scanned_block c' = ?last" by blast
      then show ?thesis using work by (intro conjI exI [of _ c']) (auto simp: r split: sum.splits)
    next
      case False
      then have "[?first..?last] = []" by (intro upto_empty) linarith
      with b have "r1 = Inr sc" "s' = s" by simp_all
      then show ?thesis using w False work by (intro conjI exI [of _ c]) (auto simp: r min_def split: if_splits)
    qed
  qed
qed

text \<open>The row an arrival is recorded in, found again by its reference.\<close>

lemma find_reference_replaced:
  assumes "distinct (map t_id rows)" and "find_row t_extrinsic_reference v rows = Some t"
    and "t_id t' = t_id t" and "t_extrinsic_reference t' = t_extrinsic_reference t"
  shows "find_row t_extrinsic_reference v (replace_row t_id t' rows) = Some t'"
  using assms
proof (induction rows)
  case (Cons x rows)
  show ?case
  proof (cases "t_extrinsic_reference x = v")
    case True
    then show ?thesis using Cons.prems by (simp add: find_row_def replace_row_def)
  next
    case False
    then have t: "find_row t_extrinsic_reference v rows = Some t" using Cons.prems(2) by (simp add: find_row_def)
    then have "t_id x \<noteq> t_id t'" using Cons.prems(1,3) find_row_Some [OF t] by force
    then show ?thesis using Cons.IH [OF _ t] Cons.prems False by (simp add: find_row_def replace_row_def)
  qed
qed (simp add: find_row_def)

lemma recorded_row:
  assumes "record_transfer a s = Inr (r, s')" and "transfers_keyed s"
  shows "find_row t_extrinsic_reference (ar_reference a) (transfers s') = Some (rt_transfer r)"
    and "find_row t_id (t_id (rt_transfer r)) (transfers s') = Some (rt_transfer r)"
    and "\<forall>c \<in> set (transfer_checks (new_transfer_row s m a)). snd c"
proof -
  show "\<forall>c \<in> set (transfer_checks (new_transfer_row s m a)). snd c"
    using assms(1) by (auto simp: record_transfer_def tx_simps transfer_checks_def new_transfer_row_def)
  have d: "distinct (map t_id (transfers s'))"
    using record_transfer_keeps(1) [OF assms] by (simp add: keeps_records_def transfers_keyed_def)
  show f: "find_row t_extrinsic_reference (ar_reference a) (transfers s') = Some (rt_transfer r)"
    using assms(1)
  proof (cases rule: record_transfer_Inr)
    case new
    then have "find_row t_extrinsic_reference (ar_reference a) (transfers s) = None" by (simp add: find_row_None)
    then show ?thesis using new(3,4) by (simp add: find_row_def find_append)
  qed simp
  show "find_row t_id (t_id (rt_transfer r)) (transfers s') = Some (rt_transfer r)"
    using find_row_unique [OF d] find_row_Some [OF f] by blast
qed

lemma record_transfer_known:
  assumes "find_row t_extrinsic_reference (ar_reference a) (transfers s) = Some t"
    and "\<forall>c \<in> set (transfer_checks (new_transfer_row s0 m a)). snd c"
  shows "record_transfer a s = Inr (\<lparr>rt_transfer = t, rt_created = False\<rparr>, s\<lparr>next_transfer_id := Suc (next_transfer_id s)\<rparr>)"
proof -
  let ?s = "s\<lparr>next_transfer_id := Suc (next_transfer_id s)\<rparr>"
  have "insert_transfer (new_transfer_row ?s (next_transfer_id s) a) ?s = Inr (False, ?s)"
    unfolding insert_transfer_Inr using assms find_row_Some [OF assms(1)]
    by (auto simp: transfer_checks_def new_transfer_row_def intro: rev_image_eqI)
  then show ?thesis using assms(1) by (simp add: record_transfer_def bindT_def new_transfer_id_def reads_def)
qed

text \<open>A deposit that is credited holds a reference no other deposit holds.\<close>

lemma credit_deposit_reference:
  assumes "credit_deposit d ref sndr obs blk sch by s = Inr (e, s')"
    and "x \<in> set (deposits s)" and "d_id x \<noteq> d_id d"
  shows "d_extrinsic_reference x \<noteq> Some ref"
proof -
  let ?d = "d\<lparr>d_status := D_CREDITED, d_extrinsic_reference := Some ref, d_sender_coldkey := Some sndr,
     d_observed_amount_rao := Some obs, d_block := Some blk, d_credited_ledger_id := Some (l_id e)\<rparr>"
  from assms(1) have "\<exists>s2. update_deposit ?d s2 = Inr ((), s') \<and> deposits s2 = deposits s"
    unfolding credit_deposit_def
    by (fastforce simp: bindT_Inr_iff thenT_Inr_iff split: if_splits dest: record_entry_Inr(1))
  then obtain d' s2 where d': "d_id d' = d_id d" "d_extrinsic_reference d' = Some ref"
    and u: "update_deposit d' s2 = Inr ((), s')" and s2: "deposits s2 = deposits s" by (auto intro: that [of ?d])
  then have "unique_on d_id d_extrinsic_reference (d'\<lparr>d_updated_at := clock s2\<rparr>) (deposits s)"
    by (auto simp: update_deposit_Inr Let_def deposit_keys_def)
  from unique_onD [OF this _ assms(2)] show ?thesis using d' assms(3) by simp
qed

lemma credit_reference:
  assumes "credit t a price expi by sch s = Inr (r, s')" and "x \<in> set (deposits s)"
    and "distinct (map d_id (deposits s))" and "d_id x < next_uuid s"
    and "d_account_id x \<noteq> a \<or> d_amount_rao x \<noteq> t_amount_rao t"
  shows "d_extrinsic_reference x \<noteq> Some (t_extrinsic_reference t)"
proof -
  from assms(1) obtain d s1 e s2 where d: "(case matching_open_deposit s a (t_amount_rao t) (t_recipient t) of Some d \<Rightarrow> ret d
            | None \<Rightarrow> create_deposit a (t_amount_rao t) (t_recipient t) price expi) s = Inr (d, s1)"
    and cd: "credit_deposit d (t_extrinsic_reference t) (t_sender_coldkey t) (t_amount_rao t) (t_block t) sch by s1
             = Inr (e, s2)"
    by (auto simp: credit_def bindT_Inr_iff thenT_Inr_iff lock_account_Inr Let_def)
  have "x \<in> set (deposits s1) \<and> d_id x \<noteq> d_id d"
  proof (cases "matching_open_deposit s a (t_amount_rao t) (t_recipient t)")
    case None
    with d have "create_deposit a (t_amount_rao t) (t_recipient t) price expi s = Inr (d, s1)" by simp
    from create_deposit_Inr(1,2) [OF this] show ?thesis using assms(2,4) by simp
  next
    case (Some d0)
    then have "d = d0" "s1 = s" using d by simp_all
    moreover have "d0 \<in> set (deposits s)" "x \<noteq> d0" using matching_open_deposit_Some [OF Some] assms(5) by auto
    ultimately show ?thesis using assms(2,3) by (metis find_row_unique option.inject)
  qed
  then show ?thesis using credit_deposit_reference [OF cd] by blast
qed

section \<open>Properties\<close>

text \<open>
  C23.  No arrival is missed.  If every transfer of every block up to the cursor is on record, then so
  it is after a pass, however the pass ends: a chain read that fails, a settlement that conflicts
  and a transaction that raises all leave the cursor at a block whose transfers are recorded.  The
  cursor never moves back and no record is lost.
\<close>

theorem scan_once_misses_nothing:
  assumes "transfers_keyed s" and "no_gap ws ch s" and "scan_once ws ch s = (r, s')"
  shows "transfers_keyed s' \<and> no_gap ws ch s' \<and> recorded_refs s \<subseteq> recorded_refs s' \<and>
    (\<forall>c. cursor DEPOSIT_WATCHER s = Some c \<longrightarrow>
       (\<exists>c'. cursor DEPOSIT_WATCHER s' = Some c' \<and> c_last_scanned_block c \<le> c_last_scanned_block c'))"
proof (cases "cursor DEPOSIT_WATCHER s")
  case None
  then show ?thesis using assms by (simp add: scan_once_def)
next
  case (Some c)
  with assms have "watching ws ch c s" by (simp add: watching_def)
  from scan_once_watching [OF assms(3) this] Some show ?thesis unfolding watching_def by auto
qed

lemma sample_watch_ok: "transfers_keyed sample_watch" "no_gap sample_settings sample_chain sample_watch"
  "cursor DEPOSIT_WATCHER sample_watch = Some (hd (cursors sample_watch))"
  "c_start_block (hd (cursors sample_watch)) = 5" "c_last_scanned_block (hd (cursors sample_watch)) = 4"
  by (auto simp: transfers_keyed_def no_gap_def sample_watch_def empty_db_def cursor_def find_row_def)

theorem scan_once_misses_nothing_witness:
  "\<exists>r s'. scan_once sample_settings sample_chain sample_watch = (r, s') \<and> no_gap sample_settings sample_chain s' \<and>
     ''5-1-2'' \<in> recorded_refs s'"
proof -
  obtain r s' where s: "scan_once sample_settings sample_chain sample_watch = (r, s')" by (cases "scan_once sample_settings sample_chain sample_watch")
  have "list_ex (\<lambda>t. t_extrinsic_reference t = ''5-1-2'') (transfers (snd (scan_once sample_settings sample_chain sample_watch)))"
    by code_simp
  then have "''5-1-2'' \<in> recorded_refs s'" using s by (force simp: recorded_refs_def list_ex_iff)
  with scan_once_misses_nothing [OF sample_watch_ok(1,2) s] s show ?thesis by blast
qed

text \<open>
  C24.  Catching up catches up: with as many passes as the batch size needs to cover the distance to
  the finalized head, \<open>catch_up\<close> either reports the error a read or a write raised, or returns with the
  cursor at the head and every transfer of every watched block on record.
\<close>

theorem catch_up_reaches_head:
  assumes "transfers_keyed s" and "no_gap ws ch s" and "cursor DEPOSIT_WATCHER s = Some c"
    and "finalized_head ch = Inr head" and "0 < ws_batch_blocks ws"
    and "head \<le> c_last_scanned_block c + int n * ws_batch_blocks ws"
    and "catch_up ws ch n s = (r, s')"
  shows "(\<exists>e. r = Inl e) \<or> (\<exists>c'. cursor DEPOSIT_WATCHER s' = Some c' \<and> head \<le> c_last_scanned_block c' \<and>
    (\<forall>b. c_start_block c \<le> b \<and> b \<le> head \<longrightarrow>
       (\<exists>as. transfers_to ch (ws_recipient ws) b = Inr as \<and> ar_reference ` set as \<subseteq> recorded_refs s')))"
proof -
  have fin: "\<exists>c'. cursor DEPOSIT_WATCHER t = Some c' \<and> head \<le> c_last_scanned_block c' \<and>
      (\<forall>b. c_start_block c0 \<le> b \<and> b \<le> head \<longrightarrow>
         (\<exists>as. transfers_to ch (ws_recipient ws) b = Inr as \<and> ar_reference ` set as \<subseteq> recorded_refs t))"
    if "watching ws ch c' t" "c_start_block c' = c_start_block c0" "head \<le> c_last_scanned_block c'" for c' c0 t
    using that unfolding watching_def no_gap_def by (intro exI [of _ c']) (metis order_trans)
  have "(\<exists>e. r = Inl e) \<or> (\<exists>c'. cursor DEPOSIT_WATCHER s' = Some c' \<and> head \<le> c_last_scanned_block c' \<and>
    (\<forall>b. c_start_block c \<le> b \<and> b \<le> head \<longrightarrow>
       (\<exists>as. transfers_to ch (ws_recipient ws) b = Inr as \<and> ar_reference ` set as \<subseteq> recorded_refs s')))"
    if "watching ws ch c s" "head \<le> c_last_scanned_block c + int n * ws_batch_blocks ws" "catch_up ws ch n s = (r, s')"
    using that
  proof (induction n arbitrary: s c r)
    case 0
    then show ?case using fin [of c s c] by simp
  next
    case (Suc n)
    obtain r1 s1 where o: "scan_once ws ch s = (r1, s1)" by (cases "scan_once ws ch s")
    from scan_once_watching [OF o Suc.prems(1)] assms(4,5) obtain c1 where
      c1: "watching ws ch c1 s1" "c_start_block c1 = c_start_block c" "c_last_scanned_block c \<le> c_last_scanned_block c1"
      "case r1 of Inl _ \<Rightarrow> True | Inr None \<Rightarrow> head \<le> c_last_scanned_block c1
         | Inr (Some _) \<Rightarrow> min head (c_last_scanned_block c + ws_batch_blocks ws) \<le> c_last_scanned_block c1" by blast
    consider (err) e where "r1 = Inl e" | (idle) "r1 = Inr None" | (more) sc where "r1 = Inr (Some sc)"
      by (metis not_Some_eq sum.exhaust_sel)
    then show ?case
    proof cases
      case (more sc)
      obtain r2 s2 where r2: "catch_up ws ch n s1 = (r2, s2)" by (cases "catch_up ws ch n s1")
      have "catch_up ws ch (Suc n) s = ((case r2 of Inl e \<Rightarrow> Inl e | Inr ps \<Rightarrow> Inr (sc # ps)), s2)"
        using o more r2 by (cases r2) simp_all
      then have s2: "s2 = s'" and r: "r = (case r2 of Inl e \<Rightarrow> Inl e | Inr ps \<Rightarrow> Inr (sc # ps))"
        using Suc.prems(3) by simp_all
      have "0 \<le> int n * ws_batch_blocks ws" using assms(5) by simp
      then have "head \<le> c_last_scanned_block c1 + int n * ws_batch_blocks ws"
        using c1(4) Suc.prems(2) by (auto simp: more algebra_simps min_def split: if_splits)
      from Suc.IH [OF c1(1) this r2 [unfolded s2]] c1(2) show ?thesis by (auto simp: r)
    qed (use Suc.prems(3) o c1 fin [of c1 s1 c] in auto)
  qed
  then show ?thesis using assms by (simp add: watching_def)
qed

theorem catch_up_reaches_head_witness:
  "\<exists>ps s'. catch_up sample_settings sample_chain 2 sample_watch = (Inr ps, s') \<and>
     (\<exists>c'. cursor DEPOSIT_WATCHER s' = Some c' \<and> 6 \<le> c_last_scanned_block c')"
proof -
  have "case fst (catch_up sample_settings sample_chain 2 sample_watch) of Inl _ \<Rightarrow> False | Inr _ \<Rightarrow> True" by code_simp
  then obtain ps s' where c: "catch_up sample_settings sample_chain 2 sample_watch = (Inr ps, s')"
    by (cases "catch_up sample_settings sample_chain 2 sample_watch") (auto simp: succeeds_iff)
  have "finalized_head sample_chain = Inr 6" "0 < ws_batch_blocks sample_settings"
    "6 \<le> c_last_scanned_block (hd (cursors sample_watch)) + int 2 * ws_batch_blocks sample_settings"
    by (simp_all add: sample_chain_def sample_settings_def sample_watch_ok(5))
  from catch_up_reaches_head [OF sample_watch_ok(1-3) this c] c show ?thesis by auto
qed

text \<open>
  A settled arrival is settled once.  Reading again an arrival that was credited or ignored
  decides nothing and writes nothing but the number the row's sequence gave away: no entry, no
  deposit and no transfer row changes, so a watcher that restarts or overlaps itself cannot credit
  a transfer twice.
\<close>

theorem admit_again:
  assumes "admit ws a s = (Inr ad, s1)" and "ad_credited ad \<or> ad_ignored ad" and "transfers_keyed s"
  shows "admit ws a s1 = (Inr (Admitted False), s1\<lparr>next_transfer_id := Suc (next_transfer_id s1)\<rparr>)"
proof -
  from assms(1) obtain rt s0 where rec: "record_transfer a s = Inr (rt, s0)"
    by (auto simp: admit_def split: sum.splits)
  note R = recorded_row [OF rec assms(3)]
  have k0: "transfers_keyed s0" using record_transfer_keeps(1) [OF rec assms(3)] by (simp add: keeps_records_def)
  from assms(1,2) rec have st: "settle ws (t_id (rt_transfer rt)) a (rt_created rt) s0 = Inr (ad, s1)"
    by (auto simp: admit_def Admitted_def split: sum.splits if_splits option.splits)
  obtain t' where t': "find_row t_extrinsic_reference (ar_reference a) (transfers s1) = Some t'" "t_status t' \<noteq> UNATTRIBUTED"
    using st
  proof (cases rule: settle_Inr)
    case (noted t t')
    have t: "t = rt_transfer rt" using noted(1) R(2) by simp
    have "t_id t' = t_id t" "t_extrinsic_reference t' = t_extrinsic_reference t" by (subst noted(3), simp)+
    then have "find_row t_extrinsic_reference (ar_reference a) (transfers s1) = Some t'"
      using find_reference_replaced [OF _ R(1), of t'] k0 by (simp add: transfers_keyed_def t noted(6))
    moreover have "t_status t' = T_IGNORED" using noted(5,7) assms(2) by simp
    ultimately show ?thesis using that by simp
  next
    case (credited t acct e t')
    have t: "t = rt_transfer rt" using credited(1) R(2) by simp
    from credited(4) show ?thesis
    proof (cases rule: credit_Inr)
      case (1 es)
      have "transfers s1 = replace_row t_id (t'\<lparr>t_updated_at := clock s0\<rparr>) (transfers s0)" by (subst 1(13), simp)
      then have "find_row t_extrinsic_reference (ar_reference a) (transfers s1) = Some (t'\<lparr>t_updated_at := clock s0\<rparr>)"
        using find_reference_replaced [OF _ R(1), of "t'\<lparr>t_updated_at := clock s0\<rparr>"] k0 1(9,11)
        by (simp add: transfers_keyed_def t)
      then show ?thesis using that 1(7) by simp
    qed
  qed (use assms(2) in \<open>simp add: Admitted_def\<close>)
  show ?thesis unfolding admit_def record_transfer_known [OF t'(1) R(3) [of 0]] using t'(2) by simp
qed

theorem admit_again_witness:
  "\<exists>ad s1. admit sample_settings sample_arrival sample_watch = (Inr ad, s1) \<and> ad_credited ad \<and> balance_rao s1 0 = 7 \<and>
     admit sample_settings sample_arrival s1 = (Inr (Admitted False), s1\<lparr>next_transfer_id := Suc (next_transfer_id s1)\<rparr>)"
proof -
  have "case admit sample_settings sample_arrival sample_watch of (r, s1) \<Rightarrow>
     (case r of Inl _ \<Rightarrow> False | Inr ad \<Rightarrow> ad_credited ad) \<and> balance_rao s1 0 = 7" by code_simp
  then obtain ad s1 where a: "admit sample_settings sample_arrival sample_watch = (Inr ad, s1)" "ad_credited ad"
    "balance_rao s1 0 = 7"
    by (cases "admit sample_settings sample_arrival sample_watch") (auto simp: succeeds_iff)
  from admit_again [OF a(1) _ sample_watch_ok(1)] a show ?thesis by blast
qed

text \<open>
  A claimed reference blocks the credit it announces.  If some deposit already carries the
  reference of an arrival but is not a declaration of the sender's account for exactly this amount,
  because another account quoted the reference or the amount differs, then the arrival is credited
  to nobody: the pass leaves the ledger as it was and the transfer uncredited, whoever sent it.
\<close>

theorem claimed_reference_blocks_credit:
  assumes "find_row t_extrinsic_reference (ar_reference a) (transfers s) = Some t" and "t_status t = UNATTRIBUTED"
    and "transfers_keyed s" and "distinct (map d_id (deposits s))"
    and "d \<in> set (deposits s)" and "d_id d < next_uuid s" and "d_extrinsic_reference d = Some (ar_reference a)"
    and "account_for_coldkey s (ar_sender a) \<noteq> Some (d_account_id d) \<or> d_amount_rao d \<noteq> t_amount_rao t"
    and "admit ws a s = (r, s')"
  shows "ledger s' = ledger s \<and>
    (\<exists>t'. find_row t_extrinsic_reference (ar_reference a) (transfers s') = Some t' \<and> t_status t' \<noteq> T_CREDITED)"
proof (cases "record_transfer a s")
  case (Inl e)
  then show ?thesis using assms by (auto simp: admit_def)
next
  case (Inr q)
  then obtain rt s1 where rec: "record_transfer a s = Inr (rt, s1)" by (cases q) simp
  note R = recorded_row [OF rec assms(3)]
  have s1: "s1 = s\<lparr>next_transfer_id := Suc (next_transfer_id s)\<rparr>" "rt_transfer rt = t"
    using rec by (cases rule: record_transfer_Inr; use assms(1) find_row_Some [OF assms(1)] in force)+
  have d1: "distinct (map t_id (transfers s1))" using assms(3) by (simp add: s1 transfers_keyed_def)
  have ref: "t_extrinsic_reference t = ar_reference a" using find_row_Some [OF assms(1)] by simp
  have same: ?thesis if "s' = s1" using that R(1) assms(2) by (auto simp: s1)
  have replaced: ?thesis if "s' = s1\<lparr>transfers := replace_row t_id t' (transfers s1)\<rparr>" "t_id t' = t_id t"
      "t_extrinsic_reference t' = t_extrinsic_reference t" "t_status t' \<noteq> T_CREDITED" for t'
    using that find_reference_replaced [OF d1 R(1), of t'] by (simp add: s1)
  show ?thesis
  proof (cases "settle ws (t_id t) a (rt_created rt) s1")
    case (Inr q2)
    then obtain ad s2 where st: "settle ws (t_id t) a (rt_created rt) s1 = Inr (ad, s2)" by (cases q2) simp
    then have s2: "s2 = s'" using assms(2,9) rec by (simp add: admit_def s1)
    from st show ?thesis
    proof (cases rule: settle_Inr)
      case (decided t0)
      then show ?thesis using same s2 by simp
    next
      case (noted t0 t')
      have "t0 = t" using noted(1) R(2) by (simp add: s1)
      moreover have "t_id t' = t_id t0" "t_extrinsic_reference t' = t_extrinsic_reference t0" by (subst noted(3), simp)+
      ultimately show ?thesis using noted(4) noted(6) [unfolded s2] by (intro replaced [of t']) simp_all
    next
      case (credited t0 acct e t')
      have "t0 = t" using credited(1) R(2) by (simp add: s1)
      moreover have "account_for_coldkey s1 (ar_sender a) = account_for_coldkey s (ar_sender a)"
        by (simp add: s1 account_for_coldkey_def cong: list.case_cong)
      ultimately have "d_extrinsic_reference d \<noteq> Some (t_extrinsic_reference t)"
        using credit_reference [OF credited(4)] credited(3) assms(4-6,8) by (auto simp: s1)
      then show ?thesis using assms(7) ref by simp
    qed
  next
    case (Inl e)
    show ?thesis
    proof (cases "conflict_message e")
      case None
      then show ?thesis using Inl assms(2,9) rec by (intro same) (auto simp: admit_def s1(2))
    next
      case (Some msg)
      show ?thesis
      proof (cases "note_conflict (t_id t) msg s1")
        case e2: (Inl e2)
        then show ?thesis using Inl Some assms(2,9) rec by (intro same) (auto simp: admit_def s1(2))
      next
        case n: (Inr q3)
        then obtain u s2 where nc: "note_conflict (t_id t) msg s1 = Inr (u, s2)" by (cases q3) simp
        then have s2: "s2 = s'" using Inl Some assms(2,9) rec by (simp add: admit_def s1)
        from nc show ?thesis
        proof (cases rule: note_conflict_Inr)
          case (noted t0)
          have "t0 = t" using noted(1) R(2) by (simp add: s1)
          then show ?thesis using noted(2) [unfolded s2] assms(2)
            by (intro replaced [of "t\<lparr>t_note := Some (take 500 (CONFLICT_NOTE @ '' '' @ msg)), t_updated_at := clock s1\<rparr>"]) simp_all
        qed (use same s2 in simp)
      qed
    qed
  qed
qed

theorem claimed_reference_blocks_credit_witness:
  "\<exists>r s' t'. admit sample_settings sample_arrival sample_quoted = (r, s') \<and> ledger s' = [] \<and>
     find_row t_extrinsic_reference ''5-1-2'' (transfers s') = Some t' \<and> t_status t' \<noteq> T_CREDITED"
proof -
  obtain r s' where a: "admit sample_settings sample_arrival sample_quoted = (r, s')"
    by (cases "admit sample_settings sample_arrival sample_quoted")
  have "find_row t_extrinsic_reference (ar_reference sample_arrival) (transfers sample_quoted)
      = Some (new_transfer_row sample_watch 1 sample_arrival)"
    "account_for_coldkey sample_quoted (ar_sender sample_arrival) \<noteq> Some (d_account_id sample_claim)" by code_simp+
  from claimed_reference_blocks_credit [OF this(1) _ _ _ _ _ _ disjI1 [OF this(2)] a]
  show ?thesis using a
    by (auto simp: sample_quoted_def sample_claim_def sample_arrival_def transfers_keyed_def sample_watch_def empty_db_def)
qed

end
