(* ===== verification/Digests.thy ===== *)
theory Digests
  imports Schema
begin

text \<open>
  The edge between the digest strings \<open>sha256:<hex>\<close> of the verifier and the raw 32 bytes of the
  schema: \<open>conjectures_subnet/db/digests.py\<close>.
\<close>

section \<open>The model\<close>

definition DIGEST_BYTES :: nat where "DIGEST_BYTES = 32"

definition PREFIX :: string where "PREFIX = ''sha256:''"

definition hex_chars :: string where "hex_chars = ''0123456789abcdef''"

text \<open>\<open>HEX.fullmatch\<close>: exactly 64 lowercase hexadecimal digits.\<close>

definition HEX :: "string \<Rightarrow> bool" where
  "HEX s \<longleftrightarrow> length s = 64 \<and> list_all (\<lambda>c. c \<in> set hex_chars) s"

text \<open>\<open>str.removeprefix\<close>\<close>

definition removeprefix :: "string \<Rightarrow> string \<Rightarrow> string" where
  "removeprefix p s = (if take (length p) s = p then drop (length p) s else s)"

fun index_of :: "'a \<Rightarrow> 'a list \<Rightarrow> nat" where
  "index_of x [] = 0"
| "index_of x (y # ys) = (if x = y then 0 else Suc (index_of x ys))"

definition hex_value :: "char \<Rightarrow> nat" where
  "hex_value c = index_of c hex_chars"

text \<open>\<open>bytes.fromhex\<close> of an even number of digits, and \<open>bytes.hex\<close>.\<close>

fun fromhex :: "string \<Rightarrow> bytes" where
  "fromhex (a # b # cs) = of_nat (16 * hex_value a + hex_value b) # fromhex cs"
| "fromhex _ = []"

definition hex_byte :: "8 word \<Rightarrow> string" where
  "hex_byte b = [hex_chars ! (unat b div 16), hex_chars ! (unat b mod 16)]"

definition hex_of :: "bytes \<Rightarrow> string" where
  "hex_of bs = concat (map hex_byte bs)"

definition to_bytes :: "string \<Rightarrow> db_error + bytes" where
  "to_bytes digest =
     (let candidate = removeprefix PREFIX digest in
      if \<not> HEX candidate then Inl (DigestError ''not a lowercase sha256 digest'')
      else Inr (fromhex candidate))"

definition to_prefixed :: "bytes \<Rightarrow> db_error + string" where
  "to_prefixed raw =
     (if length raw \<noteq> DIGEST_BYTES then Inl (DigestError ''stored digest has the wrong length'')
      else Inr (PREFIX @ hex_of raw))"

definition to_hex :: "bytes \<Rightarrow> db_error + string" where
  "to_hex raw = (case to_prefixed raw of Inl e \<Rightarrow> Inl e | Inr s \<Rightarrow> Inr (drop (length PREFIX) s))"

text \<open>A digest conversion inside a transaction.\<close>

definition lift_digest :: "db_error + 'a \<Rightarrow> 'a dbtx" where
  "lift_digest r s = (case r of Inl e \<Rightarrow> Inl e | Inr x \<Rightarrow> Inr (x, s))"

section \<open>Round trips\<close>

lemma lift_digest_Inr [simp, tx_simps]: "lift_digest r s = Inr (x, s') \<longleftrightarrow> r = Inr x \<and> s' = s"
  by (auto simp: lift_digest_def split: sum.splits)

lemma hex_chars_props: "length hex_chars = 16" "distinct hex_chars"
  by (simp_all add: hex_chars_def)

lemma index_of_nth: "distinct xs \<Longrightarrow> i < length xs \<Longrightarrow> index_of (xs ! i) xs = i"
proof (induction xs arbitrary: i)
  case (Cons x xs)
  then show ?case by (cases i) (auto simp: nth_mem)
qed simp

lemma nth_index_of: "x \<in> set xs \<Longrightarrow> xs ! index_of x xs = x \<and> index_of x xs < length xs"
  by (induction xs) auto

lemma hex_value_nth: "n < 16 \<Longrightarrow> hex_value (hex_chars ! n) = n"
  by (simp add: hex_value_def index_of_nth hex_chars_props)

lemma hex_value_less: "c \<in> set hex_chars \<Longrightarrow> hex_value c < 16 \<and> hex_chars ! hex_value c = c"
  using nth_index_of [of c hex_chars] by (simp add: hex_value_def hex_chars_props)

lemma unat_byte: "unat (b :: 8 word) < 256"
proof -
  have "unat b < 2 ^ LENGTH(8)" by (rule unsigned_less)
  then show ?thesis by simp
qed

lemma fromhex_hex_of: "fromhex (hex_of bs) = bs"
proof (induction bs)
  case (Cons b bs)
  have "unat b div 16 < 16" using unat_byte [of b] by (simp add: less_mult_imp_div_less)
  then have "fromhex (hex_byte b @ xs) = b # fromhex xs" for xs
    by (simp add: hex_byte_def hex_value_nth)
  with Cons show ?case by (simp add: hex_of_def)
qed (simp add: hex_of_def)

lemma hex_of_fromhex:
  "even (length cs) \<Longrightarrow> list_all (\<lambda>c. c \<in> set hex_chars) cs \<Longrightarrow> hex_of (fromhex cs) = cs"
proof (induction cs rule: fromhex.induct)
  case (1 a b cs)
  have a: "hex_value a < 16" "hex_chars ! hex_value a = a"
    and b: "hex_value b < 16" "hex_chars ! hex_value b = b"
    using 1 hex_value_less by auto
  have "unat (of_nat (16 * hex_value a + hex_value b) :: 8 word) = 16 * hex_value a + hex_value b"
    using a b by (simp only: unat_of_nat) simp
  with a b 1 show ?case by (simp add: hex_of_def hex_byte_def)
qed (simp_all add: hex_of_def)

lemma length_hex_of: "length (hex_of bs) = 2 * length bs"
  by (induction bs) (simp_all add: hex_of_def hex_byte_def)

lemma hex_of_chars: "list_all (\<lambda>c. c \<in> set hex_chars) (hex_of bs)"
proof (induction bs)
  case (Cons b bs)
  have "unat b div 16 < length hex_chars" "unat b mod 16 < length hex_chars"
    using unat_byte [of b] by (simp_all add: less_mult_imp_div_less hex_chars_props)
  with Cons show ?case by (simp add: hex_of_def hex_byte_def nth_mem)
qed (simp add: hex_of_def)

lemma to_prefixed_Inr: "to_prefixed raw = Inr d \<longleftrightarrow> length raw = 32 \<and> d = PREFIX @ hex_of raw"
  by (auto simp: to_prefixed_def DIGEST_BYTES_def)

lemma to_bytes_prefixed: "to_prefixed raw = Inr d \<Longrightarrow> to_bytes d = Inr raw"
  by (auto simp: to_prefixed_Inr to_bytes_def removeprefix_def HEX_def length_hex_of hex_of_chars
      fromhex_hex_of Let_def)

section \<open>Properties\<close>

text \<open>
  The conversion at the database edge loses nothing in either direction: a stored digest
  printed by \<open>to_prefixed\<close> is read back by \<open>to_bytes\<close> as the same bytes, and any string \<open>to_bytes\<close>
  accepts denotes 32 bytes whose printed form is the canonical spelling of the same digest.
\<close>

theorem digest_roundtrip:
  "(to_prefixed raw = Inr d \<longrightarrow> to_bytes d = Inr raw) \<and>
   (to_bytes t = Inr b \<longrightarrow> length b = 32 \<and> to_prefixed b = Inr (PREFIX @ removeprefix PREFIX t))"
proof (intro conjI impI)
  show "to_prefixed raw = Inr d \<Longrightarrow> to_bytes d = Inr raw" by (rule to_bytes_prefixed)
next
  assume t: "to_bytes t = Inr b"
  let ?c = "removeprefix PREFIX t"
  from t have c: "HEX ?c" "b = fromhex ?c" by (auto simp: to_bytes_def Let_def split: if_splits)
  then have hex: "hex_of b = ?c" by (auto simp: HEX_def intro: hex_of_fromhex)
  with c length_hex_of [of b] show "length b = 32" by (simp add: HEX_def)
  then show "to_prefixed b = Inr (PREFIX @ ?c)" using hex by (simp add: to_prefixed_Inr)
qed

theorem digest_roundtrip_witness:
  "to_bytes (PREFIX @ hex_of (replicate 32 255)) = Inr (replicate 32 255) \<and>
   length (replicate 32 (255 :: 8 word)) = 32"
proof -
  have p: "to_prefixed (replicate 32 255) = Inr (PREFIX @ hex_of (replicate 32 255))"
    by (simp add: to_prefixed_Inr)
  have "to_bytes (PREFIX @ hex_of (replicate 32 255)) = Inr (replicate 32 255)"
    using digest_roundtrip [of "replicate 32 255" _ "[]" "[]"] p by blast
  then show ?thesis using digest_roundtrip [of "[]" "[]" "PREFIX @ hex_of (replicate 32 255)" "replicate 32 255"] by blast
qed

end
