(* ===== verification/Submissions.thy ===== *)
theory Submissions
  imports Digests "HOL-Library.Char_ord" "HOL-Library.List_Lexorder"
begin

text \<open>
  The submission seam, \<open>conjectures_subnet/db/submissions.py\<close>: intake, the verdict, the automatic
  and the human review decision and its correction, with the reads behind them, in the order of the
  module.  An ORM object that a function mutates is returned with its new column values.

  \<open>hashlib.sha256\<close> is the parameter \<open>sha\<close>.  A submission's UUID is printed by \<open>str_uuid\<close>, the
  decimal text of the number that stands for it.
\<close>

section \<open>Constants and data\<close>

definition IDEMPOTENCY_CONSTRAINT :: string where
  "IDEMPOTENCY_CONSTRAINT = ''submissions_idempotency_unique''"

definition PAYMENT_CONSTRAINT :: string where
  "PAYMENT_CONSTRAINT = ''submissions_payment_reference_unique''"

definition PROOF_CONSTRAINT :: string where
  "PROOF_CONSTRAINT = ''submissions_proof_digest_key''"

definition SUPERSEDES_CONSTRAINT :: string where
  "SUPERSEDES_CONSTRAINT = ''review_decisions_supersedes_unique''"

record new_submission =
  n_signer_coldkey :: ss58
  n_idempotency_key :: uuid
  n_request_digest :: string
  n_task_id :: string
  n_task_bundle_sha256 :: string
  n_problem_id :: string
  n_reward_target_id :: string
  n_task_mode :: task_mode
  n_proof_content :: bytes
  n_proof_sha256 :: string
  n_payment_reference :: string
  n_payment_sender :: ss58
  n_payment_amount_rao :: rao
  n_payment_block :: int
  n_signer_signature :: bytes
  n_manual_review_required :: bool
  n_review_policy_version :: string
  n_bounty_amount_rao :: rao
  n_bounty_policy_version :: string
  n_bounty_inputs :: "(string \<times> detail) list option"
  n_public_credit_name :: "string option"
  n_public_credit_url :: "string option"
  n_public_credit_orcid :: "string option"

record submission_view =
  sv_submission :: submission_row
  sv_verification :: "run_row option"
  sv_replayed :: bool

record recorded_verdict =
  rv_run :: run_row
  rv_applied :: bool

definition str_uuid :: "uuid \<Rightarrow> string" where
  "str_uuid u = digits_of u"

definition review_name :: "manual_review_state \<Rightarrow> string" where
  "review_name m = (case m of UNREVIEWED \<Rightarrow> ''UNREVIEWED'' | R_REJECTED \<Rightarrow> ''REJECTED'' | APPROVED \<Rightarrow> ''APPROVED'')"

definition reward_name :: "reward_state \<Rightarrow> string" where
  "reward_name r = (case r of INELIGIBLE \<Rightarrow> ''INELIGIBLE'' | ELIGIBLE \<Rightarrow> ''ELIGIBLE''
     | REWARDED \<Rightarrow> ''REWARDED'' | RW_FAILED \<Rightarrow> ''FAILED'')"

definition outcome_name :: "review_outcome \<Rightarrow> string" where
  "outcome_name d = (case d of O_APPROVED \<Rightarrow> ''APPROVED'' | O_REJECTED \<Rightarrow> ''REJECTED'')"

definition mode_value :: "task_mode \<Rightarrow> string" where
  "mode_value m = (case m of FORMALIZED \<Rightarrow> ''formalized'' | COUNTEREXAMPLE \<Rightarrow> ''counterexample'')"

text \<open>Python's \<open>in\<close> on strings.\<close>

fun substring :: "string \<Rightarrow> string \<Rightarrow> bool" where
  "substring p [] \<longleftrightarrow> p = []"
| "substring p (c # cs) \<longleftrightarrow> take (length p) (c # cs) = p \<or> substring p cs"

text \<open>The driver's message is represented by the name of the constraint it reports.\<close>

definition violates :: "string \<Rightarrow> string \<Rightarrow> bool" where
  "violates exc constraint \<longleftrightarrow> substring constraint exc"

definition sha256_bytes :: "(bytes \<Rightarrow> bytes) \<Rightarrow> bytes \<Rightarrow> string" where
  "sha256_bytes sha v = ''sha256:'' @ hex_of (sha v)"

section \<open>Lookups\<close>

definition find_by_idempotency_key :: "db \<Rightarrow> ss58 \<Rightarrow> uuid \<Rightarrow> submission_row option" where
  "find_by_idempotency_key s signer key =
     List.find (\<lambda>x. s_signer_coldkey x = Some signer \<and> s_idempotency_key x = key) (submissions s)"

definition find_session_submission_by_idempotency_key :: "db \<Rightarrow> uuid \<Rightarrow> uuid \<Rightarrow> submission_row option" where
  "find_session_submission_by_idempotency_key s account key =
     List.find (\<lambda>x. s_account_id x = Some account \<and> s_hotkey x = None \<and> s_idempotency_key x = key)
       (submissions s)"

text \<open>\<open>ORDER BY id DESC LIMIT 1\<close>\<close>

definition newest :: "('r \<Rightarrow> serial) \<Rightarrow> 'r list \<Rightarrow> 'r option" where
  "newest key rows = (case rev (sort_key key rows) of [] \<Rightarrow> None | r # _ \<Rightarrow> Some r)"

definition latest_verification_run :: "db \<Rightarrow> uuid \<Rightarrow> run_row option" where
  "latest_verification_run s submission_id = newest v_id (filter (\<lambda>v. v_submission_id v = submission_id) (runs s))"

definition load_view :: "db \<Rightarrow> submission_row \<Rightarrow> submission_view" where
  "load_view s sub = \<lparr>sv_submission = sub, sv_verification = latest_verification_run s (s_id sub), sv_replayed = False\<rparr>"

definition get_for_miner :: "uuid \<Rightarrow> ss58 \<Rightarrow> submission_view dbtx" where
  "get_for_miner submission_id signer s =
     (case find_row s_id submission_id (submissions s) of
        None \<Rightarrow> Inl (RecordNotFound ''submission not found'')
      | Some sub \<Rightarrow> if s_signer_coldkey sub \<noteq> Some signer then Inl (RecordNotFound ''submission not found'')
                    else Inr (load_view s sub, s))"

section \<open>Intake\<close>

definition ensure_proof :: "bytes \<Rightarrow> string \<Rightarrow> unit dbtx" where
  "ensure_proof content digest =
     bindT (lift_digest (to_bytes digest)) (\<lambda>d s.
       thenT (insert_proof \<lparr>p_digest = d, p_content = content, p_byte_length = int (length content),
                p_created_at = clock s\<rparr>) (ret ()) s)"

text \<open>The columns of a new row that intake leaves to their defaults.\<close>

definition blank_submission :: "db \<Rightarrow> uuid \<Rightarrow> submission_row" where
  "blank_submission s new_id =
     \<lparr>s_id = new_id, s_hotkey = None, s_public_credit_name = None, s_public_credit_url = None,
      s_public_credit_orcid = None, s_idempotency_key = 0, s_request_digest = [], s_task_id = [],
      s_task_bundle_sha256 = [], s_problem_id = [], s_reward_target_id = [], s_task_mode = FORMALIZED,
      s_proof_digest = [], s_payment_reference = None, s_payment_sender = None,
      s_payment_amount_rao = None, s_payment_block = None, s_hotkey_signature = None,
      s_signer_coldkey = None, s_signer_signature = None, s_account_id = None,
      s_credit_ledger_id = None, s_intent_id = None, s_verification_status = UNVERIFIED,
      s_manual_review_status = UNREVIEWED, s_reward_status = INELIGIBLE, s_failure_reason = None,
      s_manual_review_required = True, s_review_policy_version = [], s_bounty_amount_rao = 0,
      s_bounty_policy_version = [], s_bounty_inputs = None, s_bounty_locked_at = Some (clock s),
      s_verification_lease_until = None, s_verification_lease_owner = None,
      s_verification_attempts = 0, s_created_at = clock s, s_updated_at = clock s\<rparr>"

definition intake_conflict :: "new_submission \<Rightarrow> string \<Rightarrow> db_error" where
  "intake_conflict q c =
     (if violates c PROOF_CONSTRAINT \<or> substring ''proof_digest'' c then
        DuplicateProof ''these proof bytes have already been submitted''
          [(''proof_sha256'', DStr (n_proof_sha256 q))]
      else if violates c PAYMENT_CONSTRAINT then
        DuplicatePayment ''payment reference already backs another submission''
          [(''payment_reference'', DStr (n_payment_reference q))]
      else if violates c IDEMPOTENCY_CONSTRAINT then
        IdempotencyConflict ''a submission for this idempotency key is already being created''
          [(''idempotency_key'', DUuid (Some (n_idempotency_key q)))]
      else IntegrityError c)"

definition create_submission :: "new_submission \<Rightarrow> submission_view dbtx" where
  "create_submission q =
     bindT (reads (\<lambda>s. find_by_idempotency_key s (n_signer_coldkey q) (n_idempotency_key q))) (\<lambda>existing.
     case existing of
       Some x \<Rightarrow>
         bindT (lift_digest (to_bytes (n_request_digest q))) (\<lambda>digest.
         thenT (raise_if (s_request_digest x \<noteq> digest)
                  (IdempotencyConflict ''idempotency key was already used with different submission data''
                     [(''idempotency_key'', DUuid (Some (n_idempotency_key q)))]))
           (reads (\<lambda>s. (load_view s x)\<lparr>sv_replayed := True\<rparr>)))
     | None \<Rightarrow>
         thenT (ensure_proof (n_proof_content q) (n_proof_sha256 q))
        (bindT (lift_digest (to_bytes (n_request_digest q))) (\<lambda>digest.
         bindT (lift_digest (to_bytes (n_task_bundle_sha256 q))) (\<lambda>bundle.
         bindT (lift_digest (to_bytes (n_proof_sha256 q))) (\<lambda>proof.
         bindT new_uuid (\<lambda>new_id s.
           (let row = (blank_submission s new_id)
                  \<lparr>s_signer_coldkey := Some (n_signer_coldkey q),
                   s_public_credit_name := n_public_credit_name q,
                   s_public_credit_url := n_public_credit_url q,
                   s_public_credit_orcid := n_public_credit_orcid q,
                   s_idempotency_key := n_idempotency_key q, s_request_digest := digest,
                   s_task_id := n_task_id q, s_task_bundle_sha256 := bundle,
                   s_problem_id := n_problem_id q, s_reward_target_id := n_reward_target_id q,
                   s_task_mode := n_task_mode q, s_proof_digest := proof,
                   s_payment_reference := Some (n_payment_reference q),
                   s_payment_sender := Some (n_payment_sender q),
                   s_payment_amount_rao := Some (n_payment_amount_rao q),
                   s_payment_block := Some (n_payment_block q),
                   s_signer_signature := Some (n_signer_signature q),
                   s_manual_review_required := n_manual_review_required q,
                   s_review_policy_version := n_review_policy_version q,
                   s_bounty_amount_rao := n_bounty_amount_rao q,
                   s_bounty_policy_version := n_bounty_policy_version q,
                   s_bounty_inputs := n_bounty_inputs q\<rparr>
            in thenT (on_integrity (intake_conflict q) (insert_submission row))
                 (ret \<lparr>sv_submission = row, sv_verification = None, sv_replayed = False\<rparr>) s)))))))"

section \<open>Decisions\<close>

definition reward_target_holder :: "db \<Rightarrow> submission_row \<Rightarrow> uuid option" where
  "reward_target_holder s sub =
     map_option s_id (List.find (\<lambda>x. s_reward_target_id x = s_reward_target_id sub \<and> s_id x \<noteq> s_id sub \<and>
       s_reward_status x \<noteq> INELIGIBLE) (submissions s))"

definition problem_verified_modes :: "db \<Rightarrow> submission_row \<Rightarrow> task_mode list" where
  "problem_verified_modes s sub =
     remdups (map s_task_mode (filter (\<lambda>x. s_problem_id x = s_problem_id sub \<and>
       s_verification_status x = VERIFIED) (submissions s)))"

text \<open>\<open>', '.join(...)\<close>\<close>

fun comma_join :: "string list \<Rightarrow> string" where
  "comma_join [] = []"
| "comma_join [x] = x"
| "comma_join (x # y # ys) = x @ '', '' @ comma_join (y # ys)"

definition add_decision ::
  "submission_row \<Rightarrow> review_outcome \<Rightarrow> reviewer_kind \<Rightarrow> string \<Rightarrow> string \<Rightarrow> string option \<Rightarrow>
   string option \<Rightarrow> serial option \<Rightarrow> decision_row dbtx" where
  "add_decision sub outcome kind reviewer reason notes notes_public supersedes =
     bindT new_decision_id (\<lambda>new_id s.
       (let row = \<lparr>r_id = new_id, r_submission_id = s_id sub, r_decision = outcome, r_kind = kind,
              r_reviewer = reviewer, r_policy_version = s_review_policy_version sub,
              r_reason_code = reason, r_notes = notes, r_notes_public = notes_public,
              r_supersedes_id = supersedes, r_created_at = clock s\<rparr>
        in thenT (insert_decision row) (ret row) s))"

definition approve_automatically :: "submission_row \<Rightarrow> (decision_row \<times> submission_row) dbtx" where
  "approve_automatically sub =
     bindT (reads (\<lambda>s. problem_verified_modes s sub)) (\<lambda>modes.
     if length modes > 1 then
       bindT (add_decision sub O_REJECTED ADVISORY ''system'' ''PROBLEM_VERIFIED_IN_BOTH_MODES''
                (Some (''problem verified in both modes: '' @ comma_join (sort (map mode_value modes))))
                None None) (\<lambda>advisory. ret (advisory, sub))
     else
       bindT (reads (\<lambda>s. reward_target_holder s sub)) (\<lambda>holder.
       case holder of
         Some h \<Rightarrow>
           bindT (add_decision sub O_REJECTED AUTOMATIC ''system'' ''PROBLEM_ALREADY_AWARDED''
                    (Some (''reward target '' @ s_reward_target_id sub @ '' is already held by '' @ str_uuid h))
                    None None) (\<lambda>superseded.
             (let sub' = sub\<lparr>s_manual_review_status := R_REJECTED\<rparr>
              in thenT (update_submission sub') (ret (superseded, sub'))))
       | None \<Rightarrow>
           bindT (add_decision sub O_APPROVED AUTOMATIC ''system'' ''AUTO_REVIEW_DISABLED'' None None None)
             (\<lambda>decision.
             (let sub' = sub\<lparr>s_manual_review_status := APPROVED, s_reward_status := ELIGIBLE\<rparr>
              in thenT (update_submission sub') (ret (decision, sub'))))))"

record verdict =
  vd_accepted :: bool
  vd_reason_code :: string
  vd_stage :: string
  vd_verifier_version :: string
  vd_container_digest :: string
  vd_sandbox_mode :: string
  vd_checks :: "(string \<times> bool) list option"
  vd_report :: "bytes option"
  vd_started_at :: time
  vd_finished_at :: time

text \<open>The part of \<open>record_verification_result\<close> that rules on a submission nobody has ruled on.\<close>

definition apply_verdict :: "submission_row \<Rightarrow> verdict \<Rightarrow> submission_row dbtx" where
  "apply_verdict sub v =
     (if s_verification_status sub \<noteq> UNVERIFIED then ret sub
      else let ruled = (if vd_accepted v then sub\<lparr>s_verification_status := VERIFIED\<rparr>
             else sub\<lparr>s_verification_status := V_REJECTED, s_failure_reason := Some (vd_reason_code v)\<rparr>)
           in thenT (update_submission ruled)
             (if vd_accepted v \<and> \<not> s_manual_review_required ruled
              then bindT (approve_automatically ruled) (\<lambda>r. ret (snd r))
              else ret ruled))"

definition report_digest_of :: "(bytes \<Rightarrow> bytes) \<Rightarrow> bytes option \<Rightarrow> db_error + bytes option" where
  "report_digest_of sha rep =
     (case rep of None \<Rightarrow> Inr None
      | Some b \<Rightarrow> (case to_bytes (sha256_bytes sha b) of Inl e \<Rightarrow> Inl e | Inr d \<Rightarrow> Inr (Some d)))"

definition record_verification_result ::
  "(bytes \<Rightarrow> bytes) \<Rightarrow> submission_row \<Rightarrow> verdict \<Rightarrow> recorded_verdict dbtx" where
  "record_verification_result sha sub v =
     bindT (lift_digest (to_bytes (vd_container_digest v))) (\<lambda>container.
     bindT (lift_digest (report_digest_of sha (vd_report v))) (\<lambda>report_digest.
     bindT new_run_id (\<lambda>new_id.
       (let run = \<lparr>v_id = new_id, v_submission_id = s_id sub, v_task_bundle_sha256 = s_task_bundle_sha256 sub,
              v_proof_digest = s_proof_digest sub, v_verifier_version = vd_verifier_version v,
              v_container_digest = container, v_sandbox_mode = vd_sandbox_mode v,
              v_accepted = vd_accepted v, v_reason_code = vd_reason_code v, v_stage = vd_stage v,
              v_checks = vd_checks v, v_report = vd_report v, v_report_digest = report_digest,
              v_started_at = vd_started_at v, v_finished_at = vd_finished_at v\<rparr>
        in thenT (insert_run run)
          (bindT (apply_verdict sub v) (\<lambda>sub'.
           thenT (update_submission (sub'\<lparr>s_verification_lease_until := None, s_verification_lease_owner := None\<rparr>))
             (ret \<lparr>rv_run = run, rv_applied = (s_verification_status sub = UNVERIFIED)\<rparr>)))))))"

definition record_human_decision ::
  "uuid \<Rightarrow> review_outcome \<Rightarrow> string \<Rightarrow> string \<Rightarrow> string option \<Rightarrow> string option \<Rightarrow> decision_row dbtx" where
  "record_human_decision submission_id decision reason_code reviewer notes notes_public =
     bindT (reads (\<lambda>s. find_row s_id submission_id (submissions s))) (\<lambda>found.
     case found of
       None \<Rightarrow> raise (RecordNotFound ''no such submission'')
     | Some sub \<Rightarrow>
         thenT (raise_if (s_verification_status sub \<noteq> VERIFIED) (RecordNotFound ''no such submission''))
        (thenT (raise_if (s_manual_review_status sub \<noteq> UNREVIEWED)
                 (RecordConflict ''this submission has already been decided'' ''REVIEW_ALREADY_DECIDED''
                    [(''manual_review_status'', DStr (review_name (s_manual_review_status sub)))]))
        (thenT (raise_if (s_reward_status sub \<noteq> INELIGIBLE)
                 (RecordConflict ''this submission's reward is already in flight; it cannot be decided now''
                    ''REWARD_ALREADY_IN_FLIGHT''
                    [(''reward_status'', DStr (reward_name (s_reward_status sub)))]))
        (thenT (if decision = O_APPROVED then
                  bindT (reads (\<lambda>s. reward_target_holder s sub)) (\<lambda>holder.
                    case holder of None \<Rightarrow> ret ()
                    | Some h \<Rightarrow> raise (RecordConflict
                        (''another submission already holds this reward target's reward; reject this one ''
                         @ ''as DUPLICATE_OF_EARLIER_SUBMISSION instead'')
                        ''REWARD_TARGET_ALREADY_HELD''
                        [(''reward_target_id'', DStr (s_reward_target_id sub)), (''held_by'', DUuid (Some h))]))
                else ret ())
        (bindT (add_decision sub decision HUMAN reviewer reason_code notes notes_public None) (\<lambda>recorded.
         thenT (update_submission (if decision = O_APPROVED
                  then sub\<lparr>s_manual_review_status := APPROVED, s_reward_status := ELIGIBLE\<rparr>
                  else sub\<lparr>s_manual_review_status := R_REJECTED\<rparr>))
           (ret recorded)))))))"

definition latest_binding_decision :: "db \<Rightarrow> uuid \<Rightarrow> decision_row option" where
  "latest_binding_decision s submission_id =
     newest r_id (filter (\<lambda>r. r_submission_id r = submission_id \<and> r_kind r \<noteq> ADVISORY) (decisions s))"

text \<open>\<open>db/payout_instructions.py\<close>: an untouched instruction, and whether it is still in force.\<close>

definition unsigned_event :: "reward_row \<Rightarrow> bool" where
  "unsigned_event e \<longleftrightarrow> rw_status e = PENDING \<and> \<not> rw_chain_observed e \<and>
     rw_extrinsic_reference e = None \<and> rw_submitted_block e = None \<and> rw_finalized_block e = None \<and>
     rw_submitted_at e = None \<and> rw_confirmed_at e = None \<and> rw_failure_reason e = None"

definition instruction_enabled :: "db \<Rightarrow> reward_row \<Rightarrow> bool" where
  "instruction_enabled s e \<longleftrightarrow>
     (case newest ac_id (filter (\<lambda>a. ac_reward_event_id a = rw_id e) (instruction_actions s)) of
        None \<Rightarrow> ''RESTORE'' | Some a \<Rightarrow> ac_action a) \<noteq> ''CANCEL''"

definition reward_event_exists :: "db \<Rightarrow> uuid \<Rightarrow> bool" where
  "reward_event_exists s submission_id =
     list_ex (\<lambda>e. \<not> unsigned_event e \<or> instruction_enabled s e)
       (filter (\<lambda>e. rw_submission_id e = submission_id) (reward_events s))"

definition correct_human_decision ::
  "uuid \<Rightarrow> serial \<Rightarrow> review_outcome \<Rightarrow> string \<Rightarrow> string \<Rightarrow> string \<Rightarrow> string \<Rightarrow> decision_row dbtx" where
  "correct_human_decision submission_id supersedes_id decision reason_code reviewer notes notes_public =
     bindT (reads (\<lambda>s. find_row s_id submission_id (submissions s))) (\<lambda>found.
     case found of
       None \<Rightarrow> raise (RecordNotFound ''no such submission'')
     | Some sub \<Rightarrow>
         thenT (raise_if (s_verification_status sub \<noteq> VERIFIED) (RecordNotFound ''no such submission''))
        (bindT (reads (\<lambda>s. latest_binding_decision s submission_id)) (\<lambda>latest.
         case latest of
           None \<Rightarrow> raise (RecordConflict ''this submission has no binding decision to correct''
                    ''REVIEW_NOT_DECIDED''
                    [(''manual_review_status'', DStr (review_name (s_manual_review_status sub)))])
         | Some current \<Rightarrow>
             thenT (raise_if (r_id current \<noteq> supersedes_id)
                      (RecordConflict ''this decision is no longer the current one; re-read it and correct that''
                         ''REVIEW_CORRECTION_STALE''
                         [(''review_decision_id'', DInt (int (r_id current))),
                          (''current_decision'', DStr (outcome_name (r_decision current))),
                          (''current_reason_code'', DStr (r_reason_code current))]))
            (let was_approved = (r_decision current = O_APPROVED); now_approved = (decision = O_APPROVED) in
             bindT (reads (\<lambda>s. s_reward_status sub \<in> {REWARDED, RW_FAILED} \<or> reward_event_exists s submission_id))
               (\<lambda>paid.
             thenT (raise_if (was_approved \<and> \<not> now_approved \<and> paid)
                      (RecordConflict (''a payout already exists for this submission; the approval cannot be ''
                          @ ''withdrawn here'') ''REWARD_ALREADY_PAID''
                         [(''reward_status'', DStr (reward_name (s_reward_status sub)))]))
            (thenT (if \<not> was_approved \<and> now_approved then
                      bindT (reads (\<lambda>s. reward_target_holder s sub)) (\<lambda>holder.
                        case holder of None \<Rightarrow> ret ()
                        | Some h \<Rightarrow> raise (RecordConflict
                            (''another submission already holds this reward target's reward; this rejection ''
                             @ ''cannot be corrected to an approval'') ''REWARD_TARGET_ALREADY_HELD''
                            [(''reward_target_id'', DStr (s_reward_target_id sub)), (''held_by'', DUuid (Some h))]))
                    else ret ())
            (bindT (on_integrity (\<lambda>c. if \<not> violates c SUPERSEDES_CONSTRAINT then IntegrityError c
                      else RecordConflict ''this decision is no longer the current one; re-read it and correct that''
                             ''REVIEW_CORRECTION_STALE'' [(''review_decision_id'', DInt (int (r_id current)))])
                      (add_decision sub decision HUMAN reviewer reason_code (Some notes) (Some notes_public)
                         (Some (r_id current)))) (\<lambda>corrected.
             thenT (update_submission (if now_approved
                      then sub\<lparr>s_manual_review_status := APPROVED, s_reward_status := ELIGIBLE\<rparr>
                      else sub\<lparr>s_manual_review_status := R_REJECTED, s_reward_status := INELIGIBLE\<rparr>))
               (ret corrected)))))))))"

section \<open>Reads for the worker and the account pages\<close>

definition proof_bytes :: "db \<Rightarrow> bytes \<Rightarrow> bytes option" where
  "proof_bytes s digest = map_option p_content (find_row p_digest digest (proofs s))"

text \<open>\<open>ORDER BY created_at DESC, id DESC LIMIT n\<close>, strictly below the cursor when there is one.\<close>

definition for_account :: "db \<Rightarrow> uuid \<Rightarrow> nat \<Rightarrow> (time \<times> uuid) option \<Rightarrow> submission_row list" where
  "for_account s account_id lmt after =
     take lmt (rev (sort_key s_created_at (sort_key s_id
       (filter (\<lambda>x. s_account_id x = Some account_id \<and>
          (case after of None \<Rightarrow> True
           | Some (t, i) \<Rightarrow> s_created_at x < t \<or> s_created_at x = t \<and> s_id x < i)) (submissions s)))))"

definition account_total :: "db \<Rightarrow> uuid \<Rightarrow> int" where
  "account_total s account_id = int (length (filter (\<lambda>x. s_account_id x = Some account_id) (submissions s)))"

definition get_for_account :: "uuid \<Rightarrow> uuid \<Rightarrow> submission_view dbtx" where
  "get_for_account submission_id account_id s =
     (case find_row s_id submission_id (submissions s) of
        None \<Rightarrow> Inl (RecordNotFound ''submission not found'')
      | Some sub \<Rightarrow> if s_account_id sub \<noteq> Some account_id then Inl (RecordNotFound ''submission not found'')
                    else Inr (load_view s sub, s))"

record account_counts =
  submissions_total :: int
  submissions_in_review :: int
  rewards_unclaimed :: int

definition counts_for_account :: "db \<Rightarrow> uuid \<Rightarrow> account_counts" where
  "counts_for_account s account_id =
     (let rows = filter (\<lambda>x. s_account_id x = Some account_id) (submissions s) in
      \<lparr>submissions_total = int (length rows),
       submissions_in_review = int (length (filter (\<lambda>x. s_verification_status x = VERIFIED \<and>
          s_manual_review_status x = UNREVIEWED) rows)),
       rewards_unclaimed = int (length (filter (\<lambda>x. s_reward_status x = ELIGIBLE) rows))\<rparr>)"

text \<open>A paid request and the database it is taken into, used by the examples.\<close>

definition zero_digest :: string where
  "zero_digest = ''sha256:'' @ replicate 64 (CHR ''0'')"

definition sample_request :: new_submission where
  "sample_request = \<lparr>n_signer_coldkey = ''C'', n_idempotency_key = 7, n_request_digest = zero_digest,
     n_task_id = ''task'', n_task_bundle_sha256 = zero_digest, n_problem_id = ''p'', n_reward_target_id = ''r'',
     n_task_mode = FORMALIZED, n_proof_content = [1, 2, 3], n_proof_sha256 = zero_digest,
     n_payment_reference = ''5-1-2'', n_payment_sender = ''C'', n_payment_amount_rao = 10,
     n_payment_block = 5, n_signer_signature = replicate 64 0, n_manual_review_required = True,
     n_review_policy_version = ''v4'', n_bounty_amount_rao = 1000, n_bounty_policy_version = ''b1'',
     n_bounty_inputs = None, n_public_credit_name = None, n_public_credit_url = None,
     n_public_credit_orcid = None\<rparr>"

definition sample_submitted :: "db_error + submission_view \<times> db" where
  "sample_submitted = create_submission sample_request (empty_db (\<lambda>_. replicate 32 0) 100)"

section \<open>What one operation does\<close>

lemma ensure_proof_Inr:
  assumes "ensure_proof content digest s = Inr (u, s')"
  obtains d where "to_bytes digest = Inr d" and "d = pg_sha256 s content"
    and "s' = s\<lparr>proofs := proofs s'\<rparr>" and "d \<in> p_digest ` set (proofs s')"
    and "set (proofs s) \<subseteq> set (proofs s')"
proof -
  from assms obtain d b where d: "to_bytes digest = Inr d"
    and ins: "insert_proof \<lparr>p_digest = d, p_content = content, p_byte_length = int (length content),
                p_created_at = clock s\<rparr> s = Inr (b, s')"
    by (auto simp: ensure_proof_def tx_simps)
  then show thesis by (intro that [of d]) (auto simp: tx_simps proof_checks_def split: if_splits)
qed

lemma create_submission_Inr:
  assumes "create_submission q s = Inr (v, s')"
  obtains
    (replay) x d where "find_by_idempotency_key s (n_signer_coldkey q) (n_idempotency_key q) = Some x"
      "to_bytes (n_request_digest q) = Inr d" "s_request_digest x = d" "s' = s"
      "v = (load_view s x)\<lparr>sv_replayed := True\<rparr>"
  | (new) x ps where "find_by_idempotency_key s (n_signer_coldkey q) (n_idempotency_key q) = None"
      "s' = s\<lparr>proofs := ps, next_uuid := Suc (next_uuid s), submissions := submissions s @ [x]\<rparr>"
      "v = \<lparr>sv_submission = x, sv_verification = None, sv_replayed = False\<rparr>"
      "s_id x = next_uuid s" "s_verification_status x = UNVERIFIED" "s_manual_review_status x = UNREVIEWED"
      "s_reward_status x = INELIGIBLE" "s_payment_reference x = Some (n_payment_reference q)"
      "s_credit_ledger_id x = None" "s_intent_id x = None" "s_account_id x = None"
      "s_verification_lease_until x = None" "s_verification_lease_owner x = None" "s_verification_attempts x = 0"
      "\<forall>c \<in> set (submission_unique s x). snd c" "s_signer_coldkey x = Some (n_signer_coldkey q)"
      "s_idempotency_key x = n_idempotency_key q" "to_bytes (n_request_digest q) = Inr (s_request_digest x)"
      "s_bounty_amount_rao x = n_bounty_amount_rao q" "s_reward_target_id x = n_reward_target_id q"
proof (cases "find_by_idempotency_key s (n_signer_coldkey q) (n_idempotency_key q)")
  case (Some x)
  with assms show thesis by (auto simp: create_submission_def tx_simps intro: replay)
next
  case None
  with assms obtain s1 x where p: "ensure_proof (n_proof_content q) (n_proof_sha256 q) s = Inr ((), s1)"
    and ins: "insert_submission x (s1\<lparr>next_uuid := Suc (next_uuid s1)\<rparr>) = Inr ((), s')"
    and v: "v = \<lparr>sv_submission = x, sv_verification = None, sv_replayed = False\<rparr>"
    and x: "s_id x = next_uuid s1" "s_verification_status x = UNVERIFIED" "s_manual_review_status x = UNREVIEWED"
      "s_reward_status x = INELIGIBLE" "s_payment_reference x = Some (n_payment_reference q)"
      "s_credit_ledger_id x = None" "s_intent_id x = None" "s_account_id x = None"
      "s_verification_lease_until x = None" "s_verification_lease_owner x = None" "s_verification_attempts x = 0"
      "s_signer_coldkey x = Some (n_signer_coldkey q)" "s_idempotency_key x = n_idempotency_key q"
      "to_bytes (n_request_digest q) = Inr (s_request_digest x)"
      "s_bounty_amount_rao x = n_bounty_amount_rao q" "s_reward_target_id x = n_reward_target_id q"
    by (auto simp: create_submission_def bindT_Inr_iff thenT_Inr_iff Let_def blank_submission_def)
  from p obtain ps where s1: "s1 = s\<lparr>proofs := ps\<rparr>" by (rule ensure_proof_Inr) blast
  have "submission_unique (s1\<lparr>next_uuid := Suc (next_uuid s1)\<rparr>) x = submission_unique s x"
    by (simp add: s1 submission_unique_def)
  then show thesis using None ins v x by (intro new [of x ps]) (simp_all add: tx_simps s1)
qed

section \<open>Properties\<close>

text \<open>
  Intake is idempotent per signer and key: once a request has been taken in, any request of the
  same signer with the same key stores nothing; it is answered with the first submission when its
  request digest is the same, and refused as an idempotency conflict when it is not.
\<close>

theorem create_submission_idempotent:
  assumes "create_submission q s = Inr (v, s')" and "n_signer_coldkey q2 = n_signer_coldkey q"
    and "n_idempotency_key q2 = n_idempotency_key q" and "to_bytes (n_request_digest q2) = Inr d2"
  shows "create_submission q2 s' =
    (if d2 = s_request_digest (sv_submission v)
     then Inr ((load_view s' (sv_submission v))\<lparr>sv_replayed := True\<rparr>, s')
     else Inl (IdempotencyConflict ''idempotency key was already used with different submission data''
                 [(''idempotency_key'', DUuid (Some (n_idempotency_key q)))]))"
proof -
  have "find_by_idempotency_key s' (n_signer_coldkey q) (n_idempotency_key q) = Some (sv_submission v)"
    using assms(1)
    by (cases rule: create_submission_Inr) (auto simp: find_by_idempotency_key_def find_append load_view_def)
  then show ?thesis using assms(2-4)
    by (simp add: create_submission_def bindT_def thenT_def reads_def lift_digest_def raise_if_def ret_def raise_def)
qed

lemma sample_submitted_ok:
  "\<exists>v s'. sample_submitted = Inr (v, s') \<and> s_id (sv_submission v) = 0 \<and> distinct (map s_id (submissions s'))"
proof -
  have "case sample_submitted of Inl _ \<Rightarrow> False | Inr (v, s') \<Rightarrow> s_id (sv_submission v) = 0 \<and>
      distinct (map s_id (submissions s'))" by code_simp
  then show ?thesis by (auto simp: succeeds_iff)
qed

theorem create_submission_idempotent_witness:
  "\<exists>v s'. sample_submitted = Inr (v, s') \<and>
     (\<exists>v2. create_submission sample_request s' = Inr (v2, s') \<and> sv_replayed v2) \<and>
     create_submission (sample_request\<lparr>n_request_digest := ''sha256:'' @ replicate 64 (CHR ''1'')\<rparr>) s' =
       Inl (IdempotencyConflict ''idempotency key was already used with different submission data''
                 [(''idempotency_key'', DUuid (Some 7))])"
proof -
  obtain v s' where s: "sample_submitted = Inr (v, s')" using sample_submitted_ok by blast
  note c = s [unfolded sample_submitted_def]
  have b: "to_bytes zero_digest = Inr (replicate 32 0)"
    "to_bytes (''sha256:'' @ replicate 64 (CHR ''1'')) = Inr (replicate 32 17)" by code_simp+
  have d: "s_request_digest (sv_submission v) = replicate 32 0"
    using c by (cases rule: create_submission_Inr)
      (simp_all add: sample_request_def b empty_db_def find_by_idempotency_key_def)
  have "create_submission sample_request s' = Inr ((load_view s' (sv_submission v))\<lparr>sv_replayed := True\<rparr>, s')"
    using create_submission_idempotent [OF c refl refl, of "replicate 32 0"] d b(1) by (simp add: sample_request_def)
  moreover have "create_submission (sample_request\<lparr>n_request_digest := ''sha256:'' @ replicate 64 (CHR ''1'')\<rparr>) s' =
       Inl (IdempotencyConflict ''idempotency key was already used with different submission data''
                 [(''idempotency_key'', DUuid (Some 7))])"
    using create_submission_idempotent [OF c, of "sample_request\<lparr>n_request_digest := ''sha256:'' @ replicate 64 (CHR ''1'')\<rparr>"
        "replicate 32 17"] d b(2) by (simp add: sample_request_def)
  moreover have "sv_replayed ((load_view s' (sv_submission v))\<lparr>sv_replayed := True\<rparr>)" by simp
  ultimately show ?thesis using s by blast
qed

end
