(* ===== verification/Intents.thy ===== *)
theory Intents
  imports Credits Submissions
begin

text \<open>
  Submission intents, \<open>conjectures_subnet/db/intents.py\<close>: hold a credit, attach a bundle, then spend
  and submit in one transaction; and the timeline of a submission.
\<close>

section \<open>The model\<close>

record public_credit =
  pc_name :: string
  pc_url :: "string option"
  pc_orcid :: "string option"

definition REASON_INSUFFICIENT_CREDITS :: string where
  "REASON_INSUFFICIENT_CREDITS = ''INSUFFICIENT_CREDITS''"

definition EVENT_ACCEPTED :: string where "EVENT_ACCEPTED = ''SUBMISSION_ACCEPTED''"

definition EVENT_QUEUED :: string where "EVENT_QUEUED = ''QUEUED_FOR_VERIFICATION''"

record confirmed_intent =
  ci_intent :: intent_row
  ci_submission :: submission_row
  ci_balance :: credit_balance

text \<open>\<open>credits.credit_balance\<close> with its default low-balance mark.\<close>

definition LOW_BALANCE_CREDITS :: int where "LOW_BALANCE_CREDITS = 1"

definition open_intent ::
  "uuid \<Rightarrow> string \<Rightarrow> string \<Rightarrow> rao \<Rightarrow> time \<Rightarrow> time \<Rightarrow> int \<Rightarrow> public_credit option \<Rightarrow> ss58 option \<Rightarrow>
   (intent_row \<times> credit_balance) dbtx" where
  "open_intent account_id task_id task_bundle_sha256 credit_price_rao expires_at now credits_held
       public_credit signer_coldkey =
     thenT (lock_account account_id)
    (bindT (get_credit_balance account_id credit_price_rao now LOW_BALANCE_CREDITS) (\<lambda>balance.
     thenT (raise_if (credits_available balance < credits_held)
              (RecordConflict ''not enough credits for another verification attempt''
                 REASON_INSUFFICIENT_CREDITS
                 [(''credits_available'', DInt (credits_available balance)),
                  (''credits_required'', DInt credits_held)]))
    (bindT (lift_digest (to_bytes task_bundle_sha256)) (\<lambda>bundle.
     bindT new_uuid (\<lambda>new_id s.
       (let itt = \<lparr>i_id = new_id, i_account_id = account_id, i_hotkey = None,
              i_signer_coldkey = signer_coldkey,
              i_public_credit_name = map_option pc_name public_credit,
              i_public_credit_url = Option.bind public_credit pc_url,
              i_public_credit_orcid = Option.bind public_credit pc_orcid,
              i_task_id = task_id, i_task_bundle_sha256 = bundle, i_status = OPEN,
              i_credits_held = credits_held, i_credit_price_rao = credit_price_rao,
              i_proof_content = None, i_proof_sha256 = None, i_request_digest = None,
              i_submission_id = None, i_expires_at = expires_at,
              i_created_at = clock s, i_updated_at = clock s\<rparr>
        in thenT (insert_intent itt)
          (bindT (get_credit_balance account_id credit_price_rao now LOW_BALANCE_CREDITS) (\<lambda>after.
             ret (itt, after))) s))))))"

definition get_intent :: "uuid \<Rightarrow> uuid \<Rightarrow> intent_row dbtx" where
  "get_intent intent_id account_id s =
     (case find_row i_id intent_id (intents s) of
        None \<Rightarrow> Inl (RecordNotFound ''intent not found'')
      | Some i \<Rightarrow> if i_account_id i \<noteq> account_id then Inl (RecordNotFound ''intent not found'')
                  else Inr (i, s))"

definition assert_usable :: "intent_row \<Rightarrow> time \<Rightarrow> unit dbtx" where
  "assert_usable itt now =
     thenT (raise_if (i_status itt = I_CONFIRMED)
              (RecordConflict ''that intent has already been confirmed'' ''INTENT_ALREADY_CONFIRMED''
                 [(''submission_id'', DUuid (i_submission_id itt))]))
    (thenT (raise_if (i_status itt \<in> {I_EXPIRED, I_CANCELLED})
              (RecordConflict (''that intent is '' @
                  (if i_status itt = I_EXPIRED then ''expired'' else ''cancelled''))
                 ''INTENT_NOT_OPEN'' []))
           (raise_if (i_expires_at itt \<le> now)
              (RecordConflict ''that intent has expired; open a new one'' ''INTENT_EXPIRED'' [])))"

definition attach_bundle :: "intent_row \<Rightarrow> bytes \<Rightarrow> string \<Rightarrow> string \<Rightarrow> time \<Rightarrow> intent_row dbtx" where
  "attach_bundle itt proof_content proof_sha256 request_digest now =
     thenT (assert_usable itt now)
    (bindT (lift_digest (to_bytes proof_sha256)) (\<lambda>proof.
     bindT (lift_digest (to_bytes request_digest)) (\<lambda>digest.
       (let i = itt\<lparr>i_proof_content := Some proof_content, i_proof_sha256 := Some proof,
                i_request_digest := Some digest, i_status := BUNDLE_ATTACHED\<rparr>
        in thenT (update_intent i) (ret i)))))"

definition record_event ::
  "uuid \<Rightarrow> string \<Rightarrow> string option \<Rightarrow> (string \<times> detail) list option \<Rightarrow> string \<Rightarrow> event_row dbtx" where
  "record_event submission_id kind detail context actor =
     bindT new_event_id (\<lambda>new_id s.
       (let ev = \<lparr>e_id = new_id, e_submission_id = submission_id, e_kind = kind, e_detail = detail,
              e_context = context, e_actor = actor, e_occurred_at = clock s\<rparr>
        in thenT (insert_event ev) (ret ev) s))"

text \<open>What the caller of \<open>confirm\<close> has resolved: the reward identity, the policy and the quote.\<close>

record confirmation =
  k_problem_id :: string
  k_reward_target_id :: string
  k_task_mode :: task_mode
  k_signer_signature :: "bytes option"
  k_manual_review_required :: bool
  k_review_policy_version :: string
  k_bounty_amount_rao :: rao
  k_bounty_policy_version :: string
  k_bounty_inputs :: "(string \<times> detail) list option"
  k_idempotency_key :: "uuid option"

definition confirmed_submission ::
  "db \<Rightarrow> uuid \<Rightarrow> intent_row \<Rightarrow> uuid \<Rightarrow> serial \<Rightarrow> bytes \<Rightarrow> bytes \<Rightarrow> confirmation \<Rightarrow> submission_row" where
  "confirmed_submission s new_id itt account_id spend_id proof digest k =
     (blank_submission s new_id)
       \<lparr>s_signer_coldkey := i_signer_coldkey itt,
        s_public_credit_name := i_public_credit_name itt,
        s_public_credit_url := i_public_credit_url itt,
        s_public_credit_orcid := i_public_credit_orcid itt,
        s_idempotency_key := (case k_idempotency_key k of None \<Rightarrow> i_id itt | Some key \<Rightarrow> key),
        s_request_digest := digest, s_task_id := i_task_id itt,
        s_task_bundle_sha256 := i_task_bundle_sha256 itt,
        s_problem_id := k_problem_id k, s_reward_target_id := k_reward_target_id k,
        s_task_mode := k_task_mode k, s_proof_digest := proof,
        s_signer_signature := k_signer_signature k,
        s_manual_review_required := k_manual_review_required k,
        s_review_policy_version := k_review_policy_version k,
        s_bounty_amount_rao := k_bounty_amount_rao k,
        s_bounty_policy_version := k_bounty_policy_version k,
        s_bounty_inputs := k_bounty_inputs k, s_account_id := Some account_id,
        s_credit_ledger_id := Some spend_id, s_intent_id := Some (i_id itt)\<rparr>"

definition confirm_conflict :: "string \<Rightarrow> confirmation \<Rightarrow> string \<Rightarrow> db_error" where
  "confirm_conflict proof_sha256 k c =
     (if violates c PROOF_CONSTRAINT then
        DuplicateProof ''these exact proof bytes have already been submitted''
          [(''proof_sha256'', DStr proof_sha256)]
      else if c = IDEMPOTENCY_CONSTRAINT then
        IdempotencyConflict ''that idempotency key has already been used for a submission''
          [(''idempotency_key'', DUuid (k_idempotency_key k))]
      else RecordConflict ''the submission could not be recorded'' ''CONFLICT'' [])"

definition closed_intent :: "intent_row \<Rightarrow> intent_state \<Rightarrow> intent_row" where
  "closed_intent itt status =
     itt\<lparr>i_status := status, i_proof_content := None, i_proof_sha256 := None,
         i_public_credit_name := None, i_public_credit_url := None, i_public_credit_orcid := None\<rparr>"

text \<open>
  The part of \<open>confirm\<close> that writes: the proof, the SPEND, the submission that names it, the closed
  intent and two timeline entries.  The CHECK \<open>intent_proof_is_paired\<close> makes the digest present
  whenever the content is; an absent one is read as the empty string, which \<open>to_prefixed\<close> refuses.
\<close>

definition spend_and_submit ::
  "uuid \<Rightarrow> intent_row \<Rightarrow> bytes \<Rightarrow> bytes \<Rightarrow> confirmation \<Rightarrow> time \<Rightarrow> confirmed_intent dbtx" where
  "spend_and_submit account_id itt content digest k now =
     (let proof = (case i_proof_sha256 itt of None \<Rightarrow> [] | Some d \<Rightarrow> d) in
      bindT (lift_digest (to_prefixed proof)) (\<lambda>proof_sha256.
      thenT (ensure_proof content proof_sha256)
     (bindT (record_entry account_id SPEND (- (i_credits_held itt * i_credit_price_rao itt))
               (Some (i_credit_price_rao itt)) None (Some (i_id itt)) None None None ''system'') (\<lambda>spend.
      bindT new_uuid (\<lambda>new_id.
      bindT (reads (\<lambda>s. confirmed_submission s new_id itt account_id (l_id spend) proof digest k)) (\<lambda>sub.
      thenT (on_integrity (confirm_conflict proof_sha256 k) (insert_submission sub))
     (let i = (closed_intent itt I_CONFIRMED)\<lparr>i_submission_id := Some new_id\<rparr> in
      thenT (update_intent i)
     (thenT (record_event new_id EVENT_ACCEPTED (Some ''Credit debited and submission recorded.'')
               (Some [(''intent_id'', DUuid (Some (i_id itt))),
                      (''credit_ledger_id'', DInt (int (l_id spend)))]) ''system'')
     (thenT (record_event new_id EVENT_QUEUED
               (Some ''Waiting for a verification worker to claim the proof.'') None ''system'')
     (bindT (get_credit_balance account_id (i_credit_price_rao itt) now LOW_BALANCE_CREDITS)
        (\<lambda>balance. ret \<lparr>ci_intent = i, ci_submission = sub, ci_balance = balance\<rparr>)))))))))))"

definition confirm :: "uuid \<Rightarrow> uuid \<Rightarrow> confirmation \<Rightarrow> time \<Rightarrow> confirmed_intent dbtx" where
  "confirm intent_id account_id k now =
     thenT (lock_account account_id)
    (bindT (get_intent intent_id account_id) (\<lambda>itt.
     thenT (assert_usable itt now)
    (if i_status itt \<noteq> BUNDLE_ATTACHED then
       raise (RecordConflict ''upload a bundle before confirming'' ''INTENT_HAS_NO_BUNDLE'' [])
     else case i_proof_content itt of
       None \<Rightarrow> raise (RecordConflict ''upload a bundle before confirming'' ''INTENT_HAS_NO_BUNDLE'' [])
     | Some content \<Rightarrow>
        (case i_request_digest itt of
           None \<Rightarrow> raise (RecordConflict ''intent has no request digest'' ''INTENT_HAS_NO_BUNDLE'' [])
         | Some digest \<Rightarrow> spend_and_submit account_id itt content digest k now))))"

definition cancel :: "intent_row \<Rightarrow> time \<Rightarrow> intent_row dbtx" where
  "cancel itt now =
     thenT (assert_usable itt now)
       (let i = closed_intent itt I_CANCELLED in thenT (update_intent i) (ret i))"

definition expire_lapsed :: "time \<Rightarrow> int dbtx" where
  "expire_lapsed now =
     update_where intents (\<lambda>rs. intents_update (\<lambda>_. rs)) intent_checks
       (\<lambda>i. i_status i \<in> set LIVE_INTENT_STATES \<and> i_expires_at i \<le> now)
       (\<lambda>s i. (closed_intent i I_EXPIRED)\<lparr>i_updated_at := clock s\<rparr>)"

definition submission_ids_for :: "db \<Rightarrow> uuid list \<Rightarrow> (uuid \<times> uuid) list" where
  "submission_ids_for s intent_ids =
     (if intent_ids = [] then []
      else List.map_filter (\<lambda>i. if i_id i \<in> set intent_ids then map_option (Pair (i_id i)) (i_submission_id i)
             else None) (intents s))"

definition intents_for :: "db \<Rightarrow> uuid \<Rightarrow> nat \<Rightarrow> intent_row list" where
  "intents_for s account_id lmt =
     take lmt (sort_key (\<lambda>i. - i_created_at i) (filter (\<lambda>i. i_account_id i = account_id) (intents s)))"

definition events_for :: "db \<Rightarrow> uuid \<Rightarrow> nat option \<Rightarrow> serial option \<Rightarrow> bool \<Rightarrow> event_row list" where
  "events_for s submission_id lmt after_id newest_first =
     (let rows = filter (\<lambda>e. e_submission_id e = submission_id \<and>
            (case after_id of None \<Rightarrow> True
             | Some c \<Rightarrow> if newest_first then e_id e < c else e_id e > c)) (events s);
          ordered = (if newest_first then rev (sort_key e_id rows) else sort_key e_id rows)
      in case lmt of None \<Rightarrow> ordered | Some n \<Rightarrow> take n ordered)"

definition events_total :: "db \<Rightarrow> uuid \<Rightarrow> int" where
  "events_total s submission_id = int (length (filter (\<lambda>e. e_submission_id e = submission_id) (events s)))"

text \<open>A run used by the examples: a credited account opens an intent and attaches a proof.\<close>

definition sample_attached :: "db_error + intent_row \<times> db" where
  "sample_attached =
     thenT (credit_deposit sample_deposit ''5-1-2'' ''A'' 30 5 (Some [(3, 1)]) ''watcher'')
    (bindT (open_intent 0 ''task'' zero_digest 10 900 100 2 None None) (\<lambda>r.
     attach_bundle (fst r) [1, 2, 3] zero_digest zero_digest 100)) sample_db"

definition sample_confirmation :: confirmation where
  "sample_confirmation = \<lparr>k_problem_id = ''p'', k_reward_target_id = ''r'', k_task_mode = FORMALIZED,
     k_signer_signature = None, k_manual_review_required = False, k_review_policy_version = ''v4'',
     k_bounty_amount_rao = 1000, k_bounty_policy_version = ''b1'', k_bounty_inputs = None,
     k_idempotency_key = None\<rparr>"

text \<open>The first intent confirmed, and a second one of the same account ready to be.\<close>

definition sample_confirmed :: "db_error + intent_row \<times> db" where
  "sample_confirmed =
     bindT (\<lambda>_. sample_attached) (\<lambda>_.
     thenT (confirm 2 0 sample_confirmation 100)
    (bindT (open_intent 0 ''task'' zero_digest 10 900 100 1 None None) (\<lambda>r.
     attach_bundle (fst r) [9] zero_digest zero_digest 100))) sample_db"

section \<open>What one operation does\<close>

lemma intent_live_simps:
  "intent_live now i \<longleftrightarrow> (i_status i = OPEN \<or> i_status i = BUNDLE_ATTACHED) \<and> now < i_expires_at i"
  by (auto simp: intent_live_def LIVE_INTENT_STATES_def)

lemma assert_usable_Inr [simp, tx_simps]:
  "assert_usable i now s = Inr (u, s') \<longleftrightarrow> intent_live now i \<and> s' = s"
  by (cases "i_status i") (auto simp: assert_usable_def tx_simps intent_live_simps)

lemma get_intent_Inr [simp, tx_simps]:
  "get_intent n a s = Inr (i, s') \<longleftrightarrow>
     find_row i_id n (intents s) = Some i \<and> i_account_id i = a \<and> s' = s"
  by (auto simp: get_intent_def split: option.splits)

lemma get_credit_balance_frame: "get_credit_balance a p now l s = Inr (b, s') \<Longrightarrow> s' = s"
  using get_credit_balance_Inr by blast

lemma record_event_Inr:
  assumes "record_event n kind dt ctx actor s = Inr (e, s')"
  shows "s' = s\<lparr>next_event_id := Suc (next_event_id s), events := events s @ [e]\<rparr>"
    and "e_id e = next_event_id s" and "e_submission_id e = n" and "e_kind e = kind"
  using assms by (auto simp: record_event_def tx_simps Let_def)

lemma open_intent_Inr:
  assumes "open_intent a task bundle price expi now held pc signer s = Inr ((i, after), s')"
  obtains b where "get_credit_balance a price now LOW_BALANCE_CREDITS s = Inr (b, s)"
    and "held \<le> credits_available b" and "a \<in> a_id ` set (accounts s)"
    and "s' = s\<lparr>next_uuid := Suc (next_uuid s), intents := intents s @ [i]\<rparr>"
    and "get_credit_balance a price now LOW_BALANCE_CREDITS s' = Inr (after, s')"
    and "i_id i = next_uuid s" and "i_account_id i = a" and "i_status i = OPEN"
    and "i_credits_held i = held" and "i_credit_price_rao i = price" and "i_expires_at i = expi"
    and "i_submission_id i = None" and "i_created_at i = clock s" and "0 < held" and "0 < price"
    and "clock s < expi"
proof -
  from assms obtain b s1 s2 where b: "get_credit_balance a price now LOW_BALANCE_CREDITS s = Inr (b, s1)"
    and af: "get_credit_balance a price now LOW_BALANCE_CREDITS s2 = Inr (after, s')"
    and r: "a \<in> a_id ` set (accounts s)" "held \<le> credits_available b"
    "s2 = s1\<lparr>next_uuid := Suc (next_uuid s1), intents := intents s1 @ [i]\<rparr>"
    "i_id i = next_uuid s1" "i_account_id i = a" "i_status i = OPEN" "i_credits_held i = held"
    "i_credit_price_rao i = price" "i_expires_at i = expi" "i_submission_id i = None"
    "i_created_at i = clock s1" "0 < held" "0 < price" "clock s1 < expi"
    by (auto simp: open_intent_def tx_simps Let_def intent_checks_def)
  have "s1 = s" "s2 = s'" using get_credit_balance_frame [OF b] get_credit_balance_frame [OF af] by simp_all
  with b af r show thesis by (intro that) simp_all
qed

lemma attach_bundle_Inr:
  assumes "attach_bundle i content sha digest now s = Inr (i', s')"
  obtains p d where "intent_live now i"
    and "i' = i\<lparr>i_proof_content := Some content, i_proof_sha256 := Some p, i_request_digest := Some d,
              i_status := BUNDLE_ATTACHED\<rparr>"
    and "s' = s\<lparr>intents := replace_row i_id (i'\<lparr>i_updated_at := clock s\<rparr>) (intents s)\<rparr>"
    and "to_bytes sha = Inr p" and "to_bytes digest = Inr d" and "p = pg_sha256 s content"
  using assms by (auto simp: attach_bundle_def tx_simps Let_def intent_checks_def)

lemma cancel_Inr:
  assumes "cancel i now s = Inr (i', s')"
  shows "intent_live now i" and "i' = closed_intent i I_CANCELLED"
    and "s' = s\<lparr>intents := replace_row i_id (i'\<lparr>i_updated_at := clock s\<rparr>) (intents s)\<rparr>"
  using assms by (auto simp: cancel_def tx_simps Let_def)

lemma closed_intent_simps [simp]:
  "i_id (closed_intent i st) = i_id i" "i_account_id (closed_intent i st) = i_account_id i"
  "i_status (closed_intent i st) = st" "i_credits_held (closed_intent i st) = i_credits_held i"
  "i_credit_price_rao (closed_intent i st) = i_credit_price_rao i"
  "i_expires_at (closed_intent i st) = i_expires_at i"
  "i_submission_id (closed_intent i st) = i_submission_id i"
  "i_created_at (closed_intent i st) = i_created_at i"
  "i_proof_content (closed_intent i st) = None" "i_proof_sha256 (closed_intent i st) = None"
  by (simp_all add: closed_intent_def)

lemma expire_lapsed_Inr:
  assumes "expire_lapsed now s = Inr (n, s')"
  shows "s' = s\<lparr>intents := map (\<lambda>i. if i_status i \<in> set LIVE_INTENT_STATES \<and> i_expires_at i \<le> now
           then (closed_intent i I_EXPIRED)\<lparr>i_updated_at := clock s\<rparr> else i) (intents s)\<rparr>"
  using assms by (simp add: expire_lapsed_def tx_simps)

text \<open>The effect of confirming: one SPEND of exactly the hold, one submission, the intent closed.\<close>

lemma confirmed_submission_frame [simp]:
  "confirmed_submission (s\<lparr>next_uuid := x1\<rparr>) = confirmed_submission s"
  "confirmed_submission (s\<lparr>next_ledger_id := x2\<rparr>) = confirmed_submission s"
  "confirmed_submission (s\<lparr>ledger := x3\<rparr>) = confirmed_submission s"
  "confirmed_submission (s\<lparr>proofs := x4\<rparr>) = confirmed_submission s"
  by (simp_all add: fun_eq_iff confirmed_submission_def blank_submission_def)

lemma spend_and_submit_Inr:
  assumes "spend_and_submit a i content digest k now s = Inr (c, s')"
  obtains sp where
    "l_id sp = next_ledger_id s" and "l_account_id sp = a" and "l_kind sp = SPEND"
    and "l_amount_rao sp = - intent_hold i" and "l_intent_id sp = Some (i_id i)" and "l_deposit_id sp = None"
    and "\<forall>c \<in> set (ledger_checks sp @ ledger_keys s sp). snd c"
    and "ci_submission c = confirmed_submission s (next_uuid s) i a (next_ledger_id s)
           (case i_proof_sha256 i of None \<Rightarrow> [] | Some d \<Rightarrow> d) digest k"
    and "ci_intent c = (closed_intent i I_CONFIRMED)\<lparr>i_submission_id := Some (next_uuid s)\<rparr>"
    and "s' = s\<lparr>next_uuid := Suc (next_uuid s), next_ledger_id := Suc (next_ledger_id s),
           next_event_id := next_event_id s', proofs := proofs s', ledger := ledger s @ [sp],
           submissions := submissions s @ [ci_submission c],
           intents := replace_row i_id ((ci_intent c)\<lparr>i_updated_at := clock s\<rparr>) (intents s),
           events := events s'\<rparr>"
    and "get_credit_balance a (i_credit_price_rao i) now LOW_BALANCE_CREDITS s' = Inr (ci_balance c, s')"
    and "chain_entry sp"
proof -
  let ?proof = "case i_proof_sha256 i of None \<Rightarrow> [] | Some d \<Rightarrow> d"
  from assms obtain ps s1 sp s2 s3 s4 e5 s5 e6 s6 where
    p: "ensure_proof content ps s = Inr ((), s1)"
    and sp: "record_entry a SPEND (- (i_credits_held i * i_credit_price_rao i))
               (Some (i_credit_price_rao i)) None (Some (i_id i)) None None None ''system'' s1 = Inr (sp, s2)"
    and sub: "ci_submission c = confirmed_submission s2 (next_uuid s2) i a (l_id sp) ?proof digest k"
    and ins: "insert_submission (ci_submission c) (s2\<lparr>next_uuid := Suc (next_uuid s2)\<rparr>) = Inr ((), s3)"
    and ci: "ci_intent c = (closed_intent i I_CONFIRMED)\<lparr>i_submission_id := Some (next_uuid s2)\<rparr>"
    and u: "update_intent (ci_intent c) s3 = Inr ((), s4)"
    and e5: "record_event (next_uuid s2) EVENT_ACCEPTED (Some ''Credit debited and submission recorded.'')
               (Some [(''intent_id'', DUuid (Some (i_id i))),
                      (''credit_ledger_id'', DInt (int (l_id sp)))]) ''system'' s4 = Inr (e5, s5)"
    and e6: "record_event (next_uuid s2) EVENT_QUEUED
               (Some ''Waiting for a verification worker to claim the proof.'') None ''system'' s5 = Inr (e6, s6)"
    and b: "get_credit_balance a (i_credit_price_rao i) now LOW_BALANCE_CREDITS s6 = Inr (ci_balance c, s')"
    unfolding spend_and_submit_def Let_def by (auto simp: bindT_Inr_iff thenT_Inr_iff)
  have s6: "s6 = s'" using get_credit_balance_frame [OF b] by simp
  note e6 = e6 [unfolded s6] and bal = b [unfolded s6]
  from p obtain s1': "s1 = s\<lparr>proofs := proofs s1\<rparr>" by (rule ensure_proof_Inr)
  note SP = record_entry_Inr [OF sp]
  have s2: "s2 = s\<lparr>proofs := proofs s1, next_ledger_id := Suc (next_ledger_id s), ledger := ledger s @ [sp]\<rparr>"
    unfolding SP(1) by (subst s1', subst (2) s1', subst (3) s1') simp
  have s3: "s3 = s2\<lparr>next_uuid := Suc (next_uuid s2), submissions := submissions s2 @ [ci_submission c]\<rparr>"
    using ins by (simp add: insert_submission_Inr)
  have s4: "s4 = s3\<lparr>intents := replace_row i_id ((ci_intent c)\<lparr>i_updated_at := clock s3\<rparr>) (intents s3)\<rparr>"
    using u by (simp add: update_intent_Inr Let_def)
  have fin: "s' = s4\<lparr>next_event_id := next_event_id s', events := events s'\<rparr>"
    unfolding record_event_Inr(1) [OF e6] record_event_Inr(1) [OF e5] by simp
  have id: "next_ledger_id s1 = next_ledger_id s" "next_uuid s2 = next_uuid s" by (subst s1', simp) (simp add: s2)
  have keys: "ledger_keys (s1\<lparr>next_ledger_id := Suc (next_ledger_id s1)\<rparr>) sp = ledger_keys s sp"
    by (subst s1', subst (2) s1') (simp add: ledger_keys_def)
  show thesis
  proof (rule that [of sp])
    show "s' = s\<lparr>next_uuid := Suc (next_uuid s), next_ledger_id := Suc (next_ledger_id s),
           next_event_id := next_event_id s', proofs := proofs s', ledger := ledger s @ [sp],
           submissions := submissions s @ [ci_submission c],
           intents := replace_row i_id ((ci_intent c)\<lparr>i_updated_at := clock s\<rparr>) (intents s),
           events := events s'\<rparr>"
      by (subst fin, subst fin) (simp add: s4 s3 s2)
    show "\<forall>c \<in> set (ledger_checks sp @ ledger_keys s sp). snd c" using SP(14) keys by simp
    show "ci_submission c = confirmed_submission s (next_uuid s) i a (next_ledger_id s)
           (case i_proof_sha256 i of None \<Rightarrow> [] | Some d \<Rightarrow> d) digest k"
      unfolding sub id SP(2) by (simp add: s2)
  qed (use SP id ci bal in \<open>simp_all add: intent_hold_def chain_entry_def\<close>)
qed

lemma spend_and_submit_submission:
  assumes "spend_and_submit a i content digest k now s = Inr (c, s')"
  obtains l p s2 s3 where
    "insert_submission (confirmed_submission s2 (next_uuid s) i a l p digest k) s2 = Inr ((), s3)"
    and "submissions s2 = submissions s" and "ci_submission c = confirmed_submission s2 (next_uuid s) i a l p digest k"
proof -
  from assms obtain ps s1 sp s2 p s3 where
    p: "ensure_proof content ps s = Inr ((), s1)"
    and sp: "record_entry a SPEND (- (i_credits_held i * i_credit_price_rao i))
               (Some (i_credit_price_rao i)) None (Some (i_id i)) None None None ''system'' s1 = Inr (sp, s2)"
    and ins: "insert_submission (confirmed_submission s2 (next_uuid s2) i a (l_id sp) p digest k)
               (s2\<lparr>next_uuid := Suc (next_uuid s2)\<rparr>) = Inr ((), s3)"
    and sub: "ci_submission c = confirmed_submission s2 (next_uuid s2) i a (l_id sp) p digest k"
    unfolding spend_and_submit_def Let_def by (auto simp: bindT_Inr_iff thenT_Inr_iff)
  let ?s2 = "s2\<lparr>next_uuid := Suc (next_uuid s2)\<rparr>"
  from p obtain s1': "s1 = s\<lparr>proofs := proofs s1\<rparr>" by (rule ensure_proof_Inr)
  have "next_uuid s2 = next_uuid s" "submissions ?s2 = submissions s"
    unfolding record_entry_Inr(1) [OF sp] by (subst s1', simp)+
  with ins sub show thesis by (intro that [of ?s2]) simp_all
qed

lemma confirm_Inr:
  assumes "confirm n a k now s = Inr (c, s')"
  obtains i content digest where
    "find_row i_id n (intents s) = Some i" and "i_account_id i = a" and "intent_live now i"
    and "i_status i = BUNDLE_ATTACHED" and "a \<in> a_id ` set (accounts s)"
    and "i_proof_content i = Some content" and "i_request_digest i = Some digest"
    and "spend_and_submit a i content digest k now s = Inr (c, s')"
  using assms unfolding confirm_def by (auto simp: tx_simps split: if_splits option.splits)

section \<open>Sums over intents\<close>

lemma held_rao_replace:
  assumes "distinct (map i_id (intents s))" and "find_row i_id n (intents s) = Some i" and "i_id i' = n"
    and "intents s' = replace_row i_id i' (intents s)"
  shows "held_rao s' a now = held_rao s a now
      - (if i_account_id i = a \<and> intent_live now i then intent_hold i else 0)
      + (if i_account_id i' = a \<and> intent_live now i' then intent_hold i' else 0)"
  using assms(1) find_row_Some [OF assms(2)]
  by (simp add: held_rao_def assms(3,4) sum_where_replace_row [OF assms(1), of i])

lemma sample_attached_ok:
  "\<exists>i s. sample_attached = Inr (i, s) \<and> i_id i = 2 \<and> distinct (map i_id (intents s)) \<and> clock s = 100 \<and>
     (\<exists>c s'. confirm 2 0 sample_confirmation 100 s = Inr (c, s'))"
proof -
  have "case sample_attached of Inl _ \<Rightarrow> False | Inr (i, s) \<Rightarrow> i_id i = 2 \<and> distinct (map i_id (intents s)) \<and>
      clock s = 100 \<and>
      (case confirm 2 0 sample_confirmation 100 s of Inl _ \<Rightarrow> False | Inr _ \<Rightarrow> True)" by code_simp
  then show ?thesis by (auto simp: succeeds_iff)
qed

text \<open>
  A confirmed submission carries no hotkey, so the index on \<open>(hotkey, idempotency_key)\<close> has no key
  for it and cannot refuse it.
\<close>

lemma confirmed_submission_never_violates_idempotency:
  assumes "insert_submission (confirmed_submission s0 nid i a l p d k) s = Inl e"
  shows "\<exists>c. e = IntegrityError c \<and> c \<noteq> IDEMPOTENCY_CONSTRAINT"
proof -
  let ?r = "confirmed_submission s0 nid i a l p d k"
  let ?cs = "submission_insert_guard ?r @ submission_checks ?r @ submission_funding_checks ?r @
        submission_unique s ?r @ submission_fkeys s ?r"
  have none: "s_hotkey ?r = None" by (simp add: confirmed_submission_def blank_submission_def)
  from assms obtain c where c: "violated ?cs = Some c" "e = IntegrityError c"
    by (auto simp: insert_submission_def insert_into_Inl)
  have "c \<noteq> IDEMPOTENCY_CONSTRAINT"
  proof
    assume "c = IDEMPOTENCY_CONSTRAINT"
    with violated_SomeD [OF c(1)] have "(''submissions_idempotency_unique'', False) \<in> set ?cs"
      by (simp add: IDEMPOTENCY_CONSTRAINT_def)
    then have "\<not> unique_on s_id (\<lambda>x. both (s_hotkey x) (s_idempotency_key x)) ?r (submissions s)"
      by (simp add: submission_insert_guard_def submission_checks_def submission_funding_checks_def
          submission_unique_def submission_fkeys_def)
    then show False by (simp add: unique_on_def both_def none)
  qed
  with c(2) show ?thesis by blast
qed

lemma no_idempotency_error:
  "lock_account a s \<noteq> Inl (IdempotencyConflict m d)"
  "get_intent n a s \<noteq> Inl (IdempotencyConflict m d)"
  "assert_usable i now s \<noteq> Inl (IdempotencyConflict m d)"
  "lift_digest (to_prefixed bs) s \<noteq> Inl (IdempotencyConflict m d)"
  "ensure_proof content sha s \<noteq> Inl (IdempotencyConflict m d)"
  "record_entry a kind amount price dep itt tmc red reason by s \<noteq> Inl (IdempotencyConflict m d)"
  "update_intent i s \<noteq> Inl (IdempotencyConflict m d)"
  "record_event n ek dt ctx actor s \<noteq> Inl (IdempotencyConflict m d)"
  "get_credit_balance a unit_price now low s \<noteq> Inl (IdempotencyConflict m d)"
  "new_uuid s \<noteq> Inl (IdempotencyConflict m d)"
  by (auto simp: lock_account_def get_intent_def assert_usable_def lift_digest_def to_prefixed_def
      ensure_proof_def to_bytes_def insert_proof_def insert_or_skip_def record_entry_def insert_ledger_def
      update_intent_def update_in_def record_event_def insert_event_def get_credit_balance_def
      py_divmod_def new_uuid_def new_ledger_id_def new_event_id_def bindT_Inl_iff thenT_Inl_iff
      on_integrity_Inl insert_into_Inl Let_def split: option.splits if_splits sum.splits)

lemma confirm_conflict_not_idempotency:
  "c \<noteq> IDEMPOTENCY_CONSTRAINT \<Longrightarrow> confirm_conflict sha k c \<noteq> IdempotencyConflict m d"
  by (simp add: confirm_conflict_def)

lemma spend_and_submit_not_idempotency:
  "spend_and_submit a i content digest k now s \<noteq> Inl (IdempotencyConflict m d)"
proof
  assume "spend_and_submit a i content digest k now s = Inl (IdempotencyConflict m d)"
  then obtain sha s0 nid l p s1 where
    "on_integrity (confirm_conflict sha k) (insert_submission (confirmed_submission s0 nid i a l p digest k)) s1
       = Inl (IdempotencyConflict m d)"
    unfolding spend_and_submit_def Let_def
    by (auto simp: bindT_Inl_iff thenT_Inl_iff no_idempotency_error)
  then show False unfolding on_integrity_Inl
    by (auto dest!: confirmed_submission_never_violates_idempotency)
      (metis confirm_conflict_not_idempotency)
qed

lemma confirm_not_idempotency: "confirm n a k now s \<noteq> Inl (IdempotencyConflict m d)"
proof
  assume "confirm n a k now s = Inl (IdempotencyConflict m d)"
  then show False unfolding confirm_def
    by (auto simp: bindT_Inl_iff thenT_Inl_iff no_idempotency_error spend_and_submit_not_idempotency
        split: if_splits option.splits)
qed

section \<open>Properties\<close>

text \<open>
  Opening an intent reserves exactly its price and only what the account has: the balance is
  untouched, the live holds of the account grow by the credits held times the locked price, those of
  every other account stay, and what is left available is not negative and is what the returned
  balance reports.
\<close>

theorem open_intent_holds:
  assumes "open_intent a task bdl price expi now held pc signer s = Inr ((i, after), s')" and "now < expi"
  shows "balance_rao s' b = balance_rao s b \<and>
    held_rao s' b now = held_rao s b now + (if b = a then held * price else 0) \<and>
    available_rao after = balance_rao s a - held_rao s a now - held * price \<and> 0 \<le> available_rao after \<and>
    find_row i_id (i_id i) (intents s') \<noteq> None \<and> intent_live now i"
  using assms(1)
proof (cases rule: open_intent_Inr)
  case (1 b0)
  note B = get_credit_balance_Inr [OF 1(1)] and A = get_credit_balance_Inr [OF 1(5)]
  have live: "intent_live now i" using 1 assms(2) by (simp add: intent_live_simps)
  have held: "held_rao s' c now = held_rao s c now + (if c = a then held * price else 0)" for c
    using 1 live by (simp add: held_rao_def intent_hold_def)
  have bal: "balance_rao s' c = balance_rao s c" for c using 1(4) by (simp add: balance_rao_def)
  have av: "0 < available_rao b0" "credits_available b0 = available_rao b0 div price"
    using B 1(2,14) by (auto split: if_splits)
  have "held * price \<le> available_rao b0 div price * price"
    using 1(2,15) av(2) by (intro mult_right_mono) simp_all
  also have "\<dots> \<le> available_rao b0"
    using 1(15) by (metis add.right_neutral div_mult_mod_eq add_left_mono pos_mod_sign)
  finally have enough: "held * price \<le> balance_rao s a - held_rao s a now" using B by (simp add: available_rao_def)
  have mem: "i \<in> set (intents s')" using 1(4) by simp
  show ?thesis using A bal held live enough mem by (auto simp: available_rao_def find_row_None)
qed

theorem open_intent_holds_witness:
  "\<exists>i after s0 e s'. sample_credited = Inr (e, s0) \<and>
    open_intent 0 ''task'' zero_digest 10 900 100 2 None None s0 = Inr ((i, after), s') \<and>
    held_rao s' 0 100 = held_rao s0 0 100 + 2 * 10 \<and> available_rao after = 20"
proof -
  have "case sample_credited of Inl _ \<Rightarrow> False | Inr (e, s0) \<Rightarrow>
     (case open_intent 0 ''task'' zero_digest 10 900 100 2 None None s0 of Inl _ \<Rightarrow> False | Inr _ \<Rightarrow> True) \<and>
     balance_rao s0 0 = 40 \<and> held_rao s0 0 100 = 0" by code_simp
  then obtain e s0 i after s' where s0: "sample_credited = Inr (e, s0)" "balance_rao s0 0 = 40" "held_rao s0 0 100 = 0"
    and o: "open_intent 0 ''task'' zero_digest 10 900 100 2 None None s0 = Inr ((i, after), s')"
    by (auto simp: succeeds_iff)
  have "held_rao s' 0 100 = held_rao s0 0 100 + 2 * 10" "available_rao after = 20"
    using open_intent_holds [OF o, of 0] s0 by simp_all
  with s0 o show ?thesis by blast
qed

text \<open>
  Confirming an intent spends exactly what it held: one SPEND of the hold is appended to the
  ledger, the new submission names that entry and the intent as its funding, and what every account
  has available is what it was, since the hold is released by the same transaction.
\<close>

theorem confirm_keeps_available:
  assumes "confirm n a k now s = Inr (c, s')" and "distinct (map i_id (intents s))"
  shows "\<exists>i sp. find_row i_id n (intents s) = Some i \<and> ledger s' = ledger s @ [sp] \<and> l_kind sp = SPEND \<and>
    l_account_id sp = a \<and> l_amount_rao sp = - intent_hold i \<and>
    s_credit_ledger_id (ci_submission c) = Some (l_id sp) \<and> s_intent_id (ci_submission c) = Some n \<and>
    submissions s' = submissions s @ [ci_submission c] \<and>
    (\<forall>b. balance_rao s' b - held_rao s' b now = balance_rao s b - held_rao s b now)"
  using assms(1)
proof (cases rule: confirm_Inr)
  case (1 i content digest)
  from 1(8) show ?thesis
  proof (cases rule: spend_and_submit_Inr)
    case S: (1 sp)
    have id: "i_id i = n" using find_row_Some [OF 1(1)] by simp
    have ledger: "ledger s' = ledger s @ [sp]" and subs: "submissions s' = submissions s @ [ci_submission c]"
      and itts: "intents s' = replace_row i_id ((ci_intent c)\<lparr>i_updated_at := clock s\<rparr>) (intents s)"
      by (subst S(10), simp)+
    have "held_rao s' b now = held_rao s b now - (if b = a then intent_hold i else 0)" for b
      using held_rao_replace [OF assms(2) 1(1) _ itts, of b now] 1(2,3) S(9) id by (simp add: intent_live_simps)
    moreover have "balance_rao s' b = balance_rao s b - (if b = a then intent_hold i else 0)" for b
      using S(2,4) by (simp add: balance_rao_def ledger)
    ultimately show ?thesis using 1(1) S id ledger subs by (simp add: confirmed_submission_def)
  qed
qed

theorem confirm_keeps_available_witness:
  "\<exists>i s c s'. sample_attached = Inr (i, s) \<and> confirm 2 0 sample_confirmation 100 s = Inr (c, s') \<and>
    (\<exists>sp. ledger s' = ledger s @ [sp] \<and> l_kind sp = SPEND) \<and>
    balance_rao s' 0 - held_rao s' 0 100 = balance_rao s 0 - held_rao s 0 100"
proof -
  obtain i s c s' where s: "sample_attached = Inr (i, s)" "distinct (map i_id (intents s))"
    "confirm 2 0 sample_confirmation 100 s = Inr (c, s')" using sample_attached_ok by blast
  from confirm_keeps_available [OF s(3,2)] s show ?thesis by blast
qed

text \<open>
  An intent is confirmed once: after a confirmation every further attempt, whatever it carries
  and whenever it comes, is refused as already confirmed and told which submission the first one
  made; it is not charged again.
\<close>

theorem confirm_once:
  assumes "confirm n a k now s = Inr (c, s')"
  shows "confirm n a k2 now2 s' = Inl (RecordConflict ''that intent has already been confirmed''
    ''INTENT_ALREADY_CONFIRMED'' [(''submission_id'', DUuid (Some (s_id (ci_submission c))))])"
  using assms
proof (cases rule: confirm_Inr)
  case (1 i content digest)
  from 1(8) show ?thesis
  proof (cases rule: spend_and_submit_Inr)
    case S: (1 sp)
    let ?i = "(ci_intent c)\<lparr>i_updated_at := clock s\<rparr>"
    have itts: "intents s' = replace_row i_id ?i (intents s)" and accs: "accounts s' = accounts s"
      by (subst S(10), simp)+
    have "find_row i_id n (intents s') = Some ?i"
      unfolding itts using 1(1) S(9) find_row_Some [OF 1(1)] by (intro find_after_replace) simp_all
    then have itt: "get_intent n a s' = Inr (?i, s')" using 1(2) S(9) by simp
    have lock: "lock_account a s' = Inr ((), s')" using 1(5) accs by (simp add: lock_account_Inr)
    have "s_id (ci_submission c) = next_uuid s"
      by (simp add: S(8) confirmed_submission_def blank_submission_def)
    then show ?thesis unfolding confirm_def thenT_step [of "lock_account a", OF lock] bindT_step [of "get_intent n a", OF itt]
      by (simp add: assert_usable_def S(9) thenT_Inl_iff)
  qed
qed

theorem confirm_once_witness:
  "\<exists>i s c s'. sample_attached = Inr (i, s) \<and> confirm 2 0 sample_confirmation 100 s = Inr (c, s') \<and>
    confirm 2 0 sample_confirmation 101 s' = Inl (RecordConflict ''that intent has already been confirmed''
      ''INTENT_ALREADY_CONFIRMED'' [(''submission_id'', DUuid (Some (s_id (ci_submission c))))])"
proof -
  obtain i s c s' where s: "sample_attached = Inr (i, s)" "confirm 2 0 sample_confirmation 100 s = Inr (c, s')"
    using sample_attached_ok by blast
  from confirm_once [OF s(2)] s show ?thesis by blast
qed

text \<open>
  Sweeping lapsed intents takes credit from nobody and leaves none behind: the balance and, from
  that instant on, the holds of every account are what they were, and no intent whose deadline has
  passed is left live.
\<close>

theorem expire_lapsed_neutral:
  assumes "expire_lapsed now s = Inr (m, s')" and "now \<le> later"
  shows "balance_rao s' a = balance_rao s a \<and> held_rao s' a later = held_rao s a later \<and>
    (\<forall>i \<in> set (intents s'). i_status i \<in> set LIVE_INTENT_STATES \<longrightarrow> now < i_expires_at i) \<and>
    (\<forall>i \<in> set (intents s). intent_live now i \<longrightarrow> i \<in> set (intents s'))"
proof -
  note E = expire_lapsed_Inr [OF assms(1)]
  let ?f = "\<lambda>i. if i_status i \<in> set LIVE_INTENT_STATES \<and> i_expires_at i \<le> now
           then (closed_intent i I_EXPIRED)\<lparr>i_updated_at := clock s\<rparr> else i"
  have itts: "intents s' = map ?f (intents s)" by (subst E, simp)
  have "sum_where (\<lambda>i. i_account_id i = a \<and> intent_live later i) intent_hold (map ?f xs)
      = sum_where (\<lambda>i. i_account_id i = a \<and> intent_live later i) intent_hold xs" for xs
    using assms(2) by (induction xs) (auto simp: intent_live_def LIVE_INTENT_STATES_def)
  then have "held_rao s' a later = held_rao s a later" by (simp add: held_rao_def itts)
  moreover have "balance_rao s' a = balance_rao s a" by (subst E) simp
  moreover have "\<forall>i \<in> set (intents s'). i_status i \<in> set LIVE_INTENT_STATES \<longrightarrow> now < i_expires_at i"
    by (auto simp: itts LIVE_INTENT_STATES_def)
  moreover have "\<forall>i \<in> set (intents s). intent_live now i \<longrightarrow> i \<in> set (intents s')"
    by (force simp: itts intent_live_def)
  ultimately show ?thesis by blast
qed

theorem expire_lapsed_neutral_witness:
  "\<exists>i s m s'. sample_attached = Inr (i, s) \<and> expire_lapsed 900 s = Inr (m, s') \<and>
    held_rao s' 0 900 = held_rao s 0 900 \<and> balance_rao s' 0 = balance_rao s 0"
proof -
  have "case sample_attached of Inl _ \<Rightarrow> False | Inr (i, s) \<Rightarrow>
      (case expire_lapsed 900 s of Inl _ \<Rightarrow> False | Inr (m, _) \<Rightarrow> m = 1)" by code_simp
  then obtain i s m s' where s: "sample_attached = Inr (i, s)" and e: "expire_lapsed 900 s = Inr (m, s')"
    by (auto simp: succeeds_iff)
  from expire_lapsed_neutral [OF e, of 900] e s show ?thesis by blast
qed

text \<open>
  C37.  An account that has already used an idempotency key cannot confirm with it again, so the key
  does keep a raced double request from being charged twice; but the refusal is never the
  IdempotencyConflict the handler prepares for that race, because the constraint it tests for is the
  one on the hotkey, which no new submission carries.
\<close>

theorem confirm_reused_key:
  assumes "x \<in> set (submissions s)" and "s_hotkey x = None" and "s_account_id x = Some a"
    and "k_idempotency_key k = Some (s_idempotency_key x)" and "s_id x \<noteq> next_uuid s"
  shows "\<exists>e. confirm n a k now s = Inl e \<and> (\<forall>m d. e \<noteq> IdempotencyConflict m d)"
proof (cases "confirm n a k now s")
  case (Inr r)
  obtain c s' where r: "r = (c, s')" by (cases r)
  from Inr [unfolded r] obtain i content digest where
    "spend_and_submit a i content digest k now s = Inr (c, s')" by (rule confirm_Inr)
  then obtain l p s2 s3 where i: "insert_submission (confirmed_submission s2 (next_uuid s) i a l p digest k) s2 = Inr ((), s3)"
    and s2: "submissions s2 = submissions s"
    by (rule spend_and_submit_submission)
  let ?r = "confirmed_submission s2 (next_uuid s) i a l p digest k"
  from i have "snd (''submissions_session_idempotency_unique'', unique_on s_id (\<lambda>x. if s_hotkey x = None
      then both (s_account_id x) (s_idempotency_key x) else None) ?r (submissions s2))"
    unfolding insert_submission_Inr by (auto simp: submission_unique_def)
  then have "unique_on s_id (\<lambda>x. if s_hotkey x = None then both (s_account_id x) (s_idempotency_key x) else None) ?r
      (submissions s)" by (simp add: s2)
  from unique_onD [OF this _ assms(1), of "(a, s_idempotency_key x)"] have False
    using assms by (simp add: both_def confirmed_submission_def blank_submission_def)
  then show ?thesis ..
next
  case (Inl e)
  then show ?thesis using confirm_not_idempotency by blast
qed

theorem confirm_reused_key_witness:
  "\<exists>i s e. sample_confirmed = Inr (i, s) \<and> i_status i = BUNDLE_ATTACHED \<and>
     confirm (i_id i) 0 (sample_confirmation\<lparr>k_idempotency_key := Some 2\<rparr>) 100 s = Inl e \<and>
     (\<forall>m d. e \<noteq> IdempotencyConflict m d)"
proof -
  have "case sample_confirmed of Inl _ \<Rightarrow> False | Inr (i, s) \<Rightarrow> i_status i = BUNDLE_ATTACHED \<and>
      list_ex (\<lambda>x. s_hotkey x = None \<and> s_account_id x = Some 0 \<and> s_idempotency_key x = 2 \<and>
        s_id x \<noteq> next_uuid s) (submissions s)" by code_simp
  then obtain i s x where s: "sample_confirmed = Inr (i, s)" "i_status i = BUNDLE_ATTACHED"
    and x: "x \<in> set (submissions s)" "s_hotkey x = None" "s_account_id x = Some 0" "s_idempotency_key x = 2"
      "s_id x \<noteq> next_uuid s" by (auto simp: succeeds_iff list_ex_iff)
  from confirm_reused_key [OF x(1-3) _ x(5), of "sample_confirmation\<lparr>k_idempotency_key := Some 2\<rparr>" "i_id i" 100] s x(4)
  show ?thesis by simp blast
qed

end
