(* ===== verification/Accounts.thy ===== *)
theory Accounts
  imports Credits "HOL-Library.Char_ord" "HOL-Library.List_Lexorder"
begin

text \<open>
  Accounts, linked coldkeys and identities, sessions and login challenges:
  \<open>conjectures_subnet/db/accounts.py\<close>, with the constraints of its five tables.  The definitions
  follow the module top to bottom.  Text is ASCII: \<open>strip\<close>, \<open>upper\<close>, \<open>casefold\<close> and \<open>lower()\<close> are those
  of ASCII text.  \<open>hashlib.sha256\<close> is the parameter \<open>sha\<close>.  The machine \<open>account_step\<close> at the end has one
  rule per operation that writes.
\<close>

section \<open>Text\<close>

definition is_py_space :: "char \<Rightarrow> bool" where
  "is_py_space c \<longleftrightarrow> (let n = of_char c :: nat in 9 \<le> n \<and> n \<le> 13 \<or> 28 \<le> n \<and> n \<le> 32)"

definition py_strip :: "string \<Rightarrow> string" where
  "py_strip s = rev (dropWhile is_py_space (rev (dropWhile is_py_space s)))"

definition to_lower :: "char \<Rightarrow> char" where
  "to_lower c = (case map_of (zip upper_chars lower_chars) c of None \<Rightarrow> c | Some d \<Rightarrow> d)"

definition to_upper :: "char \<Rightarrow> char" where
  "to_upper c = (case map_of (zip lower_chars upper_chars) c of None \<Rightarrow> c | Some d \<Rightarrow> d)"

abbreviation py_lower :: "string \<Rightarrow> string" where
  "py_lower \<equiv> map to_lower"

abbreviation py_upper :: "string \<Rightarrow> string" where
  "py_upper \<equiv> map to_upper"

definition utf8 :: "string \<Rightarrow> bytes" where
  "utf8 s = map of_char s"

fun join_text :: "string \<Rightarrow> string list \<Rightarrow> string" where
  "join_text sep [] = []"
| "join_text sep [x] = x"
| "join_text sep (x # xs) = x @ sep @ join_text sep xs"

text \<open>\<open>scalar_one_or_none\<close>\<close>

definition scalar_one_or_none :: "'a list \<Rightarrow> 'a option dbtx" where
  "scalar_one_or_none xs s =
     (case xs of [] \<Rightarrow> Inr (None, s) | [x] \<Rightarrow> Inr (Some x, s)
      | _ \<Rightarrow> Inl (PyError (RuntimeError ''MultipleResultsFound'')))"

section \<open>Constraints\<close>

text \<open>\<open>^[^@[:space:]]+@[^@[:space:]]+\.[^@[:space:]]+$\<close>: one at sign, a dot inside what follows it.\<close>

definition is_sql_space :: "char \<Rightarrow> bool" where
  "is_sql_space c \<longleftrightarrow> (let n = of_char c :: nat in 9 \<le> n \<and> n \<le> 13 \<or> n = 32)"

definition is_email :: "string \<Rightarrow> bool" where
  "is_email s \<longleftrightarrow>
     (let user = takeWhile (\<lambda>c. c \<noteq> CHR ''@'') s; domain = drop (Suc (length user)) s in
      user \<noteq> [] \<and> length user < length s \<and> list_all (\<lambda>c. \<not> is_sql_space c) s \<and>
      CHR ''@'' \<notin> set domain \<and> CHR ''.'' \<in> set (butlast (tl domain)))"

abbreviation "MINER_ROLE \<equiv> ''MINER''"

definition ACCOUNT_ROLES :: "string list" where
  "ACCOUNT_ROLES = [MINER_ROLE, ''REVIEWER'', ''ADMIN'']"

definition account_checks :: "account_row \<Rightarrow> (string \<times> bool) list" where
  "account_checks r =
    [(''account_email_shape'', pred_option is_email (a_email r)),
     (''display_name_length'', pred_option (length_between 1 64) (a_display_name r)),
     (''account_roles_are_known'', set (a_roles r) \<subseteq> set ACCOUNT_ROLES),
     (''password_hash_is_dated'', (a_password_hash r = None) = (a_password_updated_at r = None)),
     (''password_requires_an_email'', a_password_hash r = None \<or> a_email r \<noteq> None),
     (''password_attempts_not_negative'', a_failed_password_attempts r \<ge> 0),
     (''accounts_updated_not_before_created'', a_updated_at r \<ge> a_created_at r)]"

definition account_keys :: "db \<Rightarrow> account_row \<Rightarrow> (string \<times> bool) list" where
  "account_keys s r =
    [(''accounts_email_idx'', unique_on a_id (\<lambda>a. map_option py_lower (a_email a)) r (accounts s)),
     (''account_submission_coldkey_is_linked'',
        references (both (a_submission_coldkey r) (a_id r)) (\<lambda>w. (w_coldkey w, w_account_id w)) (wallets s))]"

definition insert_account :: "account_row \<Rightarrow> unit dbtx" where
  "insert_account = insert_into accounts (\<lambda>rs. accounts_update (\<lambda>_. rs)) (\<lambda>s r. account_checks r @ account_keys s r)"

text \<open>A changed account is flushed, and the trigger sets \<open>updated_at\<close>; an unchanged one writes nothing.\<close>

definition flush_account :: "account_row \<Rightarrow> account_row \<Rightarrow> unit dbtx" where
  "flush_account old r s =
     (if r = old then Inr ((), s)
      else update_in accounts (\<lambda>rs. accounts_update (\<lambda>_. rs)) a_id (\<lambda>s r. account_checks r @ account_keys s r)
             (r\<lparr>a_updated_at := clock s\<rparr>) s)"

definition update_accounts :: "(account_row \<Rightarrow> bool) \<Rightarrow> (account_row \<Rightarrow> account_row) \<Rightarrow> int dbtx" where
  "update_accounts cond f =
     update_where accounts (\<lambda>rs. accounts_update (\<lambda>_. rs)) (\<lambda>s r. account_checks r @ account_keys s r)
       cond (\<lambda>s r. (f r)\<lparr>a_updated_at := clock s\<rparr>)"

definition identity_checks :: "db \<Rightarrow> identity_row \<Rightarrow> (string \<times> bool) list" where
  "identity_checks s r =
    [(''account_identity_provider_known'', ai_provider r = ''google''),
     (''account_identity_subject_length'', length_between 1 255 (ai_subject r)),
     (''account_identity_email_shape'', is_email (ai_email r)),
     (''account_identity_used_after_link'', ai_last_used_at r \<ge> ai_linked_at r),
     (''account_identities_provider_subject_key'',
        unique_on ai_id (\<lambda>x. Some (ai_provider x, ai_subject x)) r (identities s)),
     (''account_identities_account_provider_key'',
        unique_on ai_id (\<lambda>x. Some (ai_account_id x, ai_provider x)) r (identities s)),
     (''account_identities_account_id_fkey'', references (Some (ai_account_id r)) a_id (accounts s))]"

definition wallet_checks :: "db \<Rightarrow> wallet_row \<Rightarrow> (string \<times> bool) list" where
  "wallet_checks s r =
    [(''wallet_signature_len'', length (w_signature r) = 64),
     (''account_wallets_pkey'', list_all (\<lambda>x. w_coldkey x \<noteq> w_coldkey r) (wallets s)),
     (''account_wallets_account_id_fkey'', references (Some (w_account_id r)) a_id (accounts s))]"

definition session_checks :: "db \<Rightarrow> session_row \<Rightarrow> (string \<times> bool) list" where
  "session_checks s r =
    [(''session_expires_after_issue'', se_expires_at r > se_issued_at r),
     (''session_scope_belongs_to_bearer_sessions'', (se_kind r = BEARER) = (se_coldkey_scope r \<noteq> None)),
     (''account_sessions_token_sha256_key'', unique_on se_id (\<lambda>x. Some (se_token_sha256 x)) r (sessions s)),
     (''account_sessions_account_id_fkey'', references (Some (se_account_id r)) a_id (accounts s))]"

definition challenge_insert_guard :: "challenge_row \<Rightarrow> (string \<times> bool) list" where
  "challenge_insert_guard r =
    [(''challenge_kind_is_not_retired'', ch_kind r \<notin> {C_HOTKEY_LINK, C_HOTKEY_SESSION})]"

definition challenge_checks :: "db \<Rightarrow> challenge_row \<Rightarrow> (string \<times> bool) list" where
  "challenge_checks s r =
    [(''challenge_email_present'',
        ch_kind r \<notin> {C_EMAIL, C_PASSWORD_SIGNUP, C_PASSWORD_RESET} \<or> ch_email r \<noteq> None),
     (''challenge_password_hash_is_signup_only'', (ch_kind r = C_PASSWORD_SIGNUP) = (ch_password_hash r \<noteq> None)),
     (''challenge_reset_has_account'', ch_kind r \<noteq> C_PASSWORD_RESET \<or> ch_account_id r \<noteq> None),
     (''challenge_attempts_not_negative'', ch_attempts r \<ge> 0),
     (''challenge_wallet_present'',
        ch_kind r \<notin> {C_WALLET, C_HOTKEY_LINK, C_HOTKEY_SESSION, C_COLDKEY_LINK, C_COLDKEY_SESSION} \<or>
        ch_ss58 r \<noteq> None \<and> ch_message r \<noteq> None),
     (''challenge_link_has_account'', ch_kind r \<notin> {C_HOTKEY_LINK, C_COLDKEY_LINK} \<or> ch_account_id r \<noteq> None),
     (''challenge_expires_after_creation'', ch_expires_at r > ch_created_at r),
     (''login_challenges_secret_sha256_key'',
        unique_on ch_id (\<lambda>x. Some (ch_secret_sha256 x)) r (challenges s)),
     (''login_challenges_account_id_fkey'', references (ch_account_id r) a_id (accounts s))]"

definition update_sessions :: "(session_row \<Rightarrow> bool) \<Rightarrow> (session_row \<Rightarrow> session_row) \<Rightarrow> int dbtx" where
  "update_sessions cond f =
     update_where sessions (\<lambda>rs. sessions_update (\<lambda>_. rs)) session_checks cond (\<lambda>s. f)"

definition update_challenges :: "(challenge_row \<Rightarrow> bool) \<Rightarrow> (challenge_row \<Rightarrow> challenge_row) \<Rightarrow> int dbtx" where
  "update_challenges cond f =
     update_where challenges (\<lambda>rs. challenges_update (\<lambda>_. rs)) challenge_checks cond (\<lambda>s. f)"

text \<open>The tables updated by key.\<close>

interpretation account_table: table accounts "\<lambda>rs. accounts_update (\<lambda>_. rs)" a_id
  by unfold_locales simp
interpretation identity_table: table identities "\<lambda>rs. identities_update (\<lambda>_. rs)" ai_id
  by unfold_locales simp

section \<open>Accounts\<close>

definition digest_of :: "(bytes \<Rightarrow> bytes) \<Rightarrow> string \<Rightarrow> bytes" where
  "digest_of sha secret = sha (utf8 secret)"

definition normalise_email :: "string \<Rightarrow> string" where
  "normalise_email v = py_lower (py_strip v)"

text \<open>\<open>... if email else None\<close>: an empty string counts as none.\<close>

definition given :: "string option \<Rightarrow> string option" where
  "given v = (case v of None \<Rightarrow> None | Some x \<Rightarrow> if x = [] then None else Some x)"

definition get_account :: "uuid \<Rightarrow> account_row dbtx" where
  "get_account account_id s =
     (case find_row a_id account_id (accounts s) of
        None \<Rightarrow> Inl (RecordNotFound ''account not found'') | Some a \<Rightarrow> Inr (a, s))"

definition find_by_email :: "string \<Rightarrow> account_row option dbtx" where
  "find_by_email email s =
     scalar_one_or_none (filter (\<lambda>a. map_option py_lower (a_email a) = Some (normalise_email email)) (accounts s)) s"

definition find_by_coldkey :: "ss58 \<Rightarrow> account_row option dbtx" where
  "find_by_coldkey coldkey s =
     scalar_one_or_none [a. a \<leftarrow> accounts s, w \<leftarrow> wallets s, w_account_id w = a_id a \<and> w_coldkey w = coldkey] s"

definition find_by_submission_coldkey :: "ss58 \<Rightarrow> account_row option dbtx" where
  "find_by_submission_coldkey coldkey s =
     scalar_one_or_none (filter (\<lambda>a. a_submission_coldkey a = Some coldkey) (accounts s)) s"

definition find_by_identity :: "string \<Rightarrow> string \<Rightarrow> (account_row \<times> identity_row) option dbtx" where
  "find_by_identity provider subject s =
     scalar_one_or_none [(a, i). a \<leftarrow> accounts s, i \<leftarrow> identities s,
       ai_account_id i = a_id a \<and> ai_provider i = provider \<and> ai_subject i = subject] s"

definition create_account ::
  "string option \<Rightarrow> bool \<Rightarrow> string option \<Rightarrow> string option \<Rightarrow> time option \<Rightarrow> account_row dbtx" where
  "create_account email email_verified display_name password_hash now =
     bindT new_uuid (\<lambda>n s.
       (let account = (account_defaults n (clock s))\<lparr>a_email := map_option normalise_email (given email),
              a_email_verified := email_verified, a_display_name := display_name,
              a_password_hash := password_hash,
              a_password_updated_at :=
                (if given password_hash = None then None
                 else Some (case now of None \<Rightarrow> clock s | Some t \<Rightarrow> t)),
              a_roles := [MINER_ROLE]\<rparr>
        in thenT (on_integrity (\<lambda>_. RecordConflict ''an account already exists for that email'' ''EMAIL_IN_USE'' [])
                    (insert_account account))
             (ret account) s))"

definition set_display_name :: "account_row \<Rightarrow> string option \<Rightarrow> account_row dbtx" where
  "set_display_name account name =
     (let a = account\<lparr>a_display_name := name\<rparr> in thenT (flush_account account a) (ret a))"

definition requested_roles :: "string list \<Rightarrow> string list" where
  "requested_roles roles = map (\<lambda>r. py_upper (py_strip r)) (filter (\<lambda>r. r \<noteq> [] \<and> py_strip r \<noteq> []) roles)"

definition set_roles :: "account_row \<Rightarrow> string list \<Rightarrow> account_row dbtx" where
  "set_roles account roles =
     (let requested = requested_roles roles;
          unknown = sort (remdups (filter (\<lambda>r. r \<notin> set ACCOUNT_ROLES) requested));
          a = account\<lparr>a_roles := sort (remdups (MINER_ROLE # requested))\<rparr>
      in thenT (raise_if (unknown \<noteq> [])
                  (RecordConflict (''unknown roles: '' @ join_text '', '' unknown) ''UNKNOWN_ROLE''
                     [(''roles'', DList (map DStr unknown))]))
        (thenT (flush_account account a) (ret a)))"

definition set_payout_coldkey :: "account_row \<Rightarrow> ss58 option \<Rightarrow> account_row dbtx" where
  "set_payout_coldkey account coldkey =
     (let a = account\<lparr>a_payout_coldkey := coldkey\<rparr> in thenT (flush_account account a) (ret a))"

section \<open>Passwords\<close>

definition set_password :: "account_row \<Rightarrow> string \<Rightarrow> time \<Rightarrow> account_row dbtx" where
  "set_password account password_hash now =
     (let a = account\<lparr>a_password_hash := Some password_hash, a_password_updated_at := Some now,
                a_failed_password_attempts := 0, a_password_throttled_until := None\<rparr>
      in thenT (flush_account account a) (ret a))"

definition rehash_password :: "account_row \<Rightarrow> string \<Rightarrow> account_row dbtx" where
  "rehash_password account password_hash =
     (let a = account\<lparr>a_password_hash := Some password_hash,
                a_failed_password_attempts := 0, a_password_throttled_until := None\<rparr>
      in thenT (flush_account account a) (ret a))"

definition clear_password_failures :: "account_row \<Rightarrow> unit dbtx" where
  "clear_password_failures account =
     (if a_failed_password_attempts account = 0 \<and> a_password_throttled_until account = None then ret ()
      else flush_account account (account\<lparr>a_failed_password_attempts := 0, a_password_throttled_until := None\<rparr>))"

text \<open>\<open>UPDATE ... SET failed = failed + 1 ... RETURNING failed\<close>, then the pause when the ceiling is reached.\<close>

definition record_password_failure :: "account_row \<Rightarrow> time \<Rightarrow> int \<Rightarrow> time \<Rightarrow> time option dbtx" where
  "record_password_failure account now attempts throttle =
     thenT (update_accounts (\<lambda>a. a_id a = a_id account)
              (\<lambda>a. a\<lparr>a_failed_password_attempts := a_failed_password_attempts a + 1\<rparr>))
    (\<lambda>s. case find_row a_id (a_id account) (accounts s) of
           None \<Rightarrow> Inl NoResultFound
         | Some a \<Rightarrow>
             if a_failed_password_attempts a \<ge> attempts then
               thenT (update_accounts (\<lambda>a. a_id a = a_id account)
                        (\<lambda>a. a\<lparr>a_failed_password_attempts := 0, a_password_throttled_until := Some (now + throttle)\<rparr>))
                 (ret (Some (now + throttle))) s
             else ret None s)"

definition password_pause_remaining :: "account_row \<Rightarrow> time \<Rightarrow> time option" where
  "password_pause_remaining account now =
     (case a_password_throttled_until account of
        None \<Rightarrow> None
      | Some until \<Rightarrow> let remaining = until - now in if remaining > 0 then Some remaining else None)"

definition set_submission_coldkey :: "account_row \<Rightarrow> ss58 option \<Rightarrow> account_row dbtx" where
  "set_submission_coldkey account coldkey =
     (let a = account\<lparr>a_submission_coldkey := coldkey\<rparr>
      in thenT (on_integrity (\<lambda>c.
                  case coldkey of
                    Some k \<Rightarrow>
                      if c = ''account_submission_coldkey_is_linked'' then
                        RecordConflict ''link that coldkey to your account before submitting with it''
                          ''COLDKEY_NOT_LINKED'' [(''coldkey'', DStr k)]
                      else IntegrityError c
                  | None \<Rightarrow> IntegrityError c)
                (flush_account account a))
           (ret a))"

section \<open>Identities and coldkeys\<close>

definition identity_conflict :: "string \<Rightarrow> db_error" where
  "identity_conflict c =
     RecordConflict ''that external identity cannot be linked to this account''
       (if c = ''account_identities_provider_subject_key'' then ''IDENTITY_ALREADY_LINKED''
        else if c = ''account_identities_account_provider_key'' then ''PROVIDER_ALREADY_LINKED''
        else ''IDENTITY_LINK_CONFLICT'') []"

definition link_identity :: "account_row \<Rightarrow> string \<Rightarrow> string \<Rightarrow> string \<Rightarrow> identity_row dbtx" where
  "link_identity account provider subject email s =
     (let identity = \<lparr>ai_id = next_identity_id s, ai_account_id = a_id account, ai_provider = provider,
            ai_subject = subject, ai_email = normalise_email email, ai_linked_at = clock s,
            ai_last_used_at = clock s\<rparr>
      in thenT (on_integrity identity_conflict
                 (insert_into identities (\<lambda>rs. identities_update (\<lambda>_. rs)) identity_checks identity))
           (ret identity) (s\<lparr>next_identity_id := Suc (next_identity_id s)\<rparr>))"

definition touch_identity :: "identity_row \<Rightarrow> string \<Rightarrow> time \<Rightarrow> identity_row dbtx" where
  "touch_identity identity email now =
     (let i = identity\<lparr>ai_email := normalise_email email, ai_last_used_at := now\<rparr>
      in thenT (update_in identities (\<lambda>rs. identities_update (\<lambda>_. rs)) ai_id identity_checks i) (ret i))"

definition identities_for :: "db \<Rightarrow> uuid \<Rightarrow> identity_row list" where
  "identities_for s account_id = sort_key ai_linked_at (filter (\<lambda>i. ai_account_id i = account_id) (identities s))"

definition link_wallet :: "account_row \<Rightarrow> ss58 \<Rightarrow> bytes \<Rightarrow> wallet_row dbtx" where
  "link_wallet account coldkey signature s =
     (let wallet = \<lparr>w_account_id = a_id account, w_coldkey = coldkey, w_signature = signature, w_linked_at = clock s\<rparr>
      in thenT (on_integrity (\<lambda>_. RecordConflict ''that wallet is already linked to an account''
                  ''WALLET_ALREADY_LINKED'' [])
                 (insert_into wallets (\<lambda>rs. wallets_update (\<lambda>_. rs)) wallet_checks wallet))
           (ret wallet) s)"

definition wallets_for :: "db \<Rightarrow> uuid \<Rightarrow> wallet_row list" where
  "wallets_for s account_id = filter (\<lambda>w. w_account_id w = account_id) (wallets s)"

definition owns_wallet :: "db \<Rightarrow> uuid \<Rightarrow> ss58 \<Rightarrow> bool" where
  "owns_wallet s account_id coldkey \<longleftrightarrow>
     list_ex (\<lambda>w. w_account_id w = account_id \<and> w_coldkey w = coldkey) (wallets s)"

section \<open>Sessions\<close>

record authenticated =
  au_account :: account_row
  au_session_row :: session_row

definition create_session ::
  "account_row \<Rightarrow> bytes \<Rightarrow> time \<Rightarrow> session_kind \<Rightarrow> ss58 option \<Rightarrow> string option \<Rightarrow> string option \<Rightarrow>
   session_row dbtx" where
  "create_session account token_digest expires_at kind coldkey_scope user_agent source_ip =
     bindT new_uuid (\<lambda>n s.
       (let row = \<lparr>se_id = n, se_account_id = a_id account, se_kind = kind, se_token_sha256 = token_digest,
              se_coldkey_scope = coldkey_scope, se_issued_at = clock s, se_last_seen_at = clock s,
              se_expires_at = expires_at, se_revoked_at = None, se_user_agent = user_agent,
              se_source_ip = source_ip\<rparr>
        in thenT (insert_into sessions (\<lambda>rs. sessions_update (\<lambda>_. rs)) session_checks row) (ret row) s))"

text \<open>A live session: neither revoked nor expired.\<close>

definition session_live :: "time \<Rightarrow> session_row \<Rightarrow> bool" where
  "session_live now r \<longleftrightarrow> se_revoked_at r = None \<and> se_expires_at r > now"

definition authenticate :: "db \<Rightarrow> bytes \<Rightarrow> session_kind \<Rightarrow> time \<Rightarrow> authenticated option" where
  "authenticate s token_digest kind now =
     (case [\<lparr>au_account = a, au_session_row = r\<rparr>. r \<leftarrow> sessions s, a \<leftarrow> accounts s,
              a_id a = se_account_id r \<and> se_token_sha256 r = token_digest \<and> se_kind r = kind \<and> session_live now r] of
        [] \<Rightarrow> None | x # _ \<Rightarrow> Some x)"

definition touch_session :: "uuid \<Rightarrow> time \<Rightarrow> time \<Rightarrow> time \<Rightarrow> time option \<Rightarrow> bool dbtx" where
  "touch_session session_id now expires_at refresh_after max_lifetime =
     bindT (update_sessions
              (\<lambda>r. se_id r = session_id \<and> session_live now r \<and> se_last_seen_at r < now - refresh_after)
              (\<lambda>r. r\<lparr>se_last_seen_at := now,
                  se_expires_at := (case max_lifetime of None \<Rightarrow> expires_at
                                    | Some m \<Rightarrow> min expires_at (se_issued_at r + m))\<rparr>))
       (\<lambda>n. ret (n > 0))"

text \<open>\<open>UPDATE account_sessions SET revoked_at = now() WHERE ...\<close> over unrevoked sessions.\<close>

definition revoke_where :: "(session_row \<Rightarrow> bool) \<Rightarrow> int dbtx" where
  "revoke_where cond s =
     update_sessions (\<lambda>r. cond r \<and> se_revoked_at r = None) (\<lambda>r. r\<lparr>se_revoked_at := Some (clock s)\<rparr>) s"

definition revoke_session :: "uuid \<Rightarrow> unit dbtx" where
  "revoke_session session_id = thenT (revoke_where (\<lambda>r. se_id r = session_id)) (ret ())"

definition revoke_session_for_account :: "uuid \<Rightarrow> uuid \<Rightarrow> bool dbtx" where
  "revoke_session_for_account session_id account_id =
     bindT (revoke_where (\<lambda>r. se_id r = session_id \<and> se_account_id r = account_id)) (\<lambda>n. ret (n > 0))"

definition revoke_all_sessions :: "uuid \<Rightarrow> session_kind option \<Rightarrow> uuid option \<Rightarrow> int dbtx" where
  "revoke_all_sessions account_id kind except_session_id =
     revoke_where (\<lambda>r. se_account_id r = account_id \<and> pred_option (\<lambda>k. se_kind r = k) kind \<and>
       pred_option (\<lambda>e. se_id r \<noteq> e) except_session_id)"

definition revoke_sessions_for_coldkey :: "ss58 \<Rightarrow> int dbtx" where
  "revoke_sessions_for_coldkey coldkey =
     revoke_where (\<lambda>r. se_kind r = BEARER \<and> se_coldkey_scope r = Some coldkey)"

text \<open>The sessions the listing, the count and the eviction range over.\<close>

definition lives_for :: "db \<Rightarrow> uuid \<Rightarrow> session_kind option \<Rightarrow> time \<Rightarrow> session_row list" where
  "lives_for s account_id kind now =
     filter (\<lambda>r. se_account_id r = account_id \<and> session_live now r \<and> pred_option (\<lambda>k. se_kind r = k) kind)
       (sessions s)"

definition limited :: "nat option \<Rightarrow> 'a list \<Rightarrow> 'a list" where
  "limited n xs = (case n of None \<Rightarrow> xs | Some k \<Rightarrow> take k xs)"

text \<open>\<open>ORDER BY t DESC, id DESC\<close>, and the keyset condition \<open>(t, id) < after\<close>.\<close>

definition newest_first :: "('r \<Rightarrow> time) \<Rightarrow> ('r \<Rightarrow> nat) \<Rightarrow> 'r list \<Rightarrow> 'r list" where
  "newest_first t n rows = rev (sort_key t (sort_key n rows))"

definition before_cursor :: "('r \<Rightarrow> time) \<Rightarrow> ('r \<Rightarrow> nat) \<Rightarrow> (time \<times> nat) option \<Rightarrow> 'r \<Rightarrow> bool" where
  "before_cursor t n after r \<longleftrightarrow>
     (case after of None \<Rightarrow> True | Some (t0, n0) \<Rightarrow> t r < t0 \<or> t r = t0 \<and> n r < n0)"

definition live_sessions_for ::
  "db \<Rightarrow> uuid \<Rightarrow> time \<Rightarrow> session_kind option \<Rightarrow> nat option \<Rightarrow> (time \<times> uuid) option \<Rightarrow> session_row list" where
  "live_sessions_for s account_id now kind limit after =
     limited limit (newest_first se_issued_at se_id
       (filter (before_cursor se_issued_at se_id after) (lives_for s account_id kind now)))"

definition live_session_count :: "db \<Rightarrow> uuid \<Rightarrow> session_kind option \<Rightarrow> time \<Rightarrow> int" where
  "live_session_count s account_id kind now = int (length (lives_for s account_id kind now))"

definition oldest_live_session :: "db \<Rightarrow> uuid \<Rightarrow> session_kind \<Rightarrow> time \<Rightarrow> session_row option" where
  "oldest_live_session s account_id kind now =
     (case sort_key se_issued_at (lives_for s account_id (Some kind) now) of [] \<Rightarrow> None | r # _ \<Rightarrow> Some r)"

section \<open>Login challenges\<close>

definition create_challenge ::
  "challenge_kind \<Rightarrow> bytes \<Rightarrow> time \<Rightarrow> uuid option \<Rightarrow> string option \<Rightarrow> ss58 option \<Rightarrow> string option \<Rightarrow>
   string option \<Rightarrow> challenge_row dbtx" where
  "create_challenge kind secret_digest expires_at account_id email ss58 message password_hash =
     bindT new_uuid (\<lambda>n s.
       (let challenge = \<lparr>ch_id = n, ch_kind = kind, ch_account_id = account_id,
              ch_email = map_option normalise_email (given email), ch_ss58 = ss58,
              ch_secret_sha256 = secret_digest, ch_message = message, ch_password_hash = password_hash,
              ch_expires_at = expires_at, ch_consumed_at = None, ch_created_at = clock s, ch_attempts = 0\<rparr>
        in thenT (insert_into challenges (\<lambda>rs. challenges_update (\<lambda>_. rs))
                    (\<lambda>s r. challenge_insert_guard r @ challenge_checks s r) challenge)
             (ret challenge) s))"

text \<open>An open challenge of a kind: neither consumed nor expired.\<close>

definition challenge_open :: "challenge_kind \<Rightarrow> time \<Rightarrow> challenge_row \<Rightarrow> bool" where
  "challenge_open kind now r \<longleftrightarrow> ch_kind r = kind \<and> ch_consumed_at r = None \<and> ch_expires_at r > now"

text \<open>One conditional \<open>UPDATE ... RETURNING\<close>: the rows it changed, of which there may be one.\<close>

definition consume_challenge :: "challenge_kind \<Rightarrow> bytes \<Rightarrow> time \<Rightarrow> challenge_row option dbtx" where
  "consume_challenge kind secret_digest now s =
     (let taken = (\<lambda>r. ch_secret_sha256 r = secret_digest \<and> challenge_open kind now r) in
      thenT (update_challenges taken (\<lambda>r. r\<lparr>ch_consumed_at := Some now\<rparr>))
        (scalar_one_or_none (map (\<lambda>r. r\<lparr>ch_consumed_at := Some now\<rparr>) (filter taken (challenges s)))) s)"

definition latest_open_challenge :: "db \<Rightarrow> challenge_kind \<Rightarrow> ss58 \<Rightarrow> time \<Rightarrow> uuid option \<Rightarrow> challenge_row option" where
  "latest_open_challenge s kind ss58 now account_id =
     (case sort_key (\<lambda>r. - ch_created_at r)
        (filter (\<lambda>r. challenge_open kind now r \<and> ch_ss58 r = Some ss58 \<and>
           pred_option (\<lambda>a. ch_account_id r = Some a) account_id) (challenges s)) of
        [] \<Rightarrow> None | r # _ \<Rightarrow> Some r)"

definition open_challenge_by_nonce ::
  "challenge_kind \<Rightarrow> ss58 \<Rightarrow> bytes \<Rightarrow> time \<Rightarrow> int \<Rightarrow> uuid option \<Rightarrow> challenge_row option dbtx" where
  "open_challenge_by_nonce kind ss58 secret_digest now max_attempts account_id s =
     scalar_one_or_none (filter (\<lambda>r. ch_secret_sha256 r = secret_digest \<and> challenge_open kind now r \<and>
       ch_ss58 r = Some ss58 \<and> ch_attempts r < max_attempts \<and>
       pred_option (\<lambda>a. ch_account_id r = Some a) account_id) (challenges s)) s"

definition record_failed_attempt :: "uuid \<Rightarrow> int dbtx" where
  "record_failed_attempt challenge_id =
     thenT (update_challenges (\<lambda>r. ch_id r = challenge_id) (\<lambda>r. r\<lparr>ch_attempts := ch_attempts r + 1\<rparr>))
    (\<lambda>s. case find_row ch_id challenge_id (challenges s) of
           None \<Rightarrow> Inl NoResultFound | Some r \<Rightarrow> Inr (ch_attempts r, s))"

definition coldkey_still_linked :: "db \<Rightarrow> ss58 \<Rightarrow> uuid \<Rightarrow> bool" where
  "coldkey_still_linked s coldkey account_id \<longleftrightarrow>
     list_ex (\<lambda>w. w_coldkey w = coldkey \<and> w_account_id w = account_id) (wallets s)"

definition recent_challenge_count ::
  "db \<Rightarrow> challenge_kind list \<Rightarrow> time \<Rightarrow> string option \<Rightarrow> ss58 option \<Rightarrow> int" where
  "recent_challenge_count s kinds since email ss58 =
     int (length (filter (\<lambda>r. ch_kind r \<in> set kinds \<and> ch_created_at r \<ge> since \<and>
       pred_option (\<lambda>e. map_option py_lower (ch_email r) = Some (normalise_email e)) email \<and>
       pred_option (\<lambda>k. ch_ss58 r = Some k) ss58) (challenges s)))"

section \<open>The machine\<close>

text \<open>
  Every operation that writes, on the rows it was handed as they are in the database.  An account is
  given its coldkey, its password or its roles one transaction at a time, in any order, and the clock
  moves in between.
\<close>

inductive account_step :: "db \<Rightarrow> db \<Rightarrow> bool" where
  later: "clock s \<le> t \<Longrightarrow> account_step s (s\<lparr>clock := t\<rparr>)"
| created: "create_account e v d h n s = Inr (a, s') \<Longrightarrow> account_step s s'"
| named: "find_row a_id n (accounts s) = Some a \<Longrightarrow> set_display_name a d s = Inr (a', s') \<Longrightarrow> account_step s s'"
| roles_set: "find_row a_id n (accounts s) = Some a \<Longrightarrow> set_roles a rs s = Inr (a', s') \<Longrightarrow> account_step s s'"
| payout_set: "find_row a_id n (accounts s) = Some a \<Longrightarrow> set_payout_coldkey a k s = Inr (a', s') \<Longrightarrow> account_step s s'"
| password_set: "find_row a_id n (accounts s) = Some a \<Longrightarrow> set_password a h now s = Inr (a', s') \<Longrightarrow> account_step s s'"
| rehashed: "find_row a_id n (accounts s) = Some a \<Longrightarrow> rehash_password a h s = Inr (a', s') \<Longrightarrow> account_step s s'"
| forgiven: "find_row a_id n (accounts s) = Some a \<Longrightarrow> clear_password_failures a s = Inr (u, s') \<Longrightarrow> account_step s s'"
| guessed: "record_password_failure a now tries pause s = Inr (p, s') \<Longrightarrow> account_step s s'"
| submission_set: "find_row a_id n (accounts s) = Some a \<Longrightarrow> set_submission_coldkey a k s = Inr (a', s') \<Longrightarrow>
    account_step s s'"
| identified: "link_identity a p sub e s = Inr (i, s') \<Longrightarrow> account_step s s'"
| identity_used: "find_row ai_id n (identities s) = Some i \<Longrightarrow> touch_identity i e now s = Inr (i', s') \<Longrightarrow> account_step s s'"
| wallet_linked: "link_wallet a ck sig s = Inr (w, s') \<Longrightarrow> account_step s s'"
| signed_in: "create_session a tok ends kind scope ua ip s = Inr (r, s') \<Longrightarrow> account_step s s'"
| extended: "touch_session n now ends refresh most s = Inr (b, s') \<Longrightarrow> account_step s s'"
| signed_out: "revoke_where cond s = Inr (m, s') \<Longrightarrow> account_step s s'"
| challenged: "create_challenge kind dg ends acc e k m h s = Inr (c, s') \<Longrightarrow> account_step s s'"
| answered: "consume_challenge kind dg now s = Inr (c, s') \<Longrightarrow> account_step s s'"
| missed: "record_failed_attempt n s = Inr (m, s') \<Longrightarrow> account_step s s'"

text \<open>Every revocation is a \<open>revoke_where\<close>.\<close>

lemma revocations:
  "revoke_session n s = Inr (u, s') \<Longrightarrow> account_step s s'"
  "revoke_session_for_account n a s = Inr (b, s') \<Longrightarrow> account_step s s'"
  "revoke_all_sessions a k e s = Inr (m, s') \<Longrightarrow> account_step s s'"
  "revoke_sessions_for_coldkey ck s = Inr (m, s') \<Longrightarrow> account_step s s'"
  by (auto simp: revoke_session_def revoke_session_for_account_def revoke_all_sessions_def
      revoke_sessions_for_coldkey_def tx_simps dest: signed_out)

section \<open>What one operation does\<close>

lemma flush_account_Inr [tx_simps]:
  "flush_account old r s = Inr (u, s') \<longleftrightarrow>
     (if r = old then s' = s
      else (\<forall>c \<in> set (account_checks (r\<lparr>a_updated_at := clock s\<rparr>) @ account_keys s (r\<lparr>a_updated_at := clock s\<rparr>)). snd c) \<and>
        s' = s\<lparr>accounts := replace_row a_id (r\<lparr>a_updated_at := clock s\<rparr>) (accounts s)\<rparr>)"
  by (auto simp: flush_account_def update_in_Inr)

lemma insert_account_Inr [tx_simps]:
  "insert_account r s = Inr (u, s') \<longleftrightarrow>
     (\<forall>c \<in> set (account_checks r @ account_keys s r). snd c) \<and> s' = s\<lparr>accounts := accounts s @ [r]\<rparr>"
  by (auto simp: insert_account_def insert_into_Inr)

lemma update_accounts_Inr [tx_simps]:
  "update_accounts cond f s = Inr (n, s') \<longleftrightarrow>
     (\<forall>r \<in> set (accounts s). cond r \<longrightarrow> (\<forall>c \<in> set (account_checks ((f r)\<lparr>a_updated_at := clock s\<rparr>) @
        account_keys s ((f r)\<lparr>a_updated_at := clock s\<rparr>)). snd c)) \<and>
     n = int (length (filter cond (accounts s))) \<and>
     s' = s\<lparr>accounts := map (\<lambda>r. if cond r then (f r)\<lparr>a_updated_at := clock s\<rparr> else r) (accounts s)\<rparr>"
  by (simp add: update_accounts_def update_where_Inr)

lemma update_sessions_Inr [tx_simps]:
  "update_sessions cond f s = Inr (n, s') \<longleftrightarrow>
     (\<forall>r \<in> set (sessions s). cond r \<longrightarrow> (\<forall>c \<in> set (session_checks s (f r)). snd c)) \<and>
     n = int (length (filter cond (sessions s))) \<and>
     s' = s\<lparr>sessions := map (\<lambda>r. if cond r then f r else r) (sessions s)\<rparr>"
  by (simp add: update_sessions_def update_where_Inr)

lemma update_challenges_Inr [tx_simps]:
  "update_challenges cond f s = Inr (n, s') \<longleftrightarrow>
     (\<forall>r \<in> set (challenges s). cond r \<longrightarrow> (\<forall>c \<in> set (challenge_checks s (f r)). snd c)) \<and>
     n = int (length (filter cond (challenges s))) \<and>
     s' = s\<lparr>challenges := map (\<lambda>r. if cond r then f r else r) (challenges s)\<rparr>"
  by (simp add: update_challenges_def update_where_Inr)

lemma scalar_one_or_none_Inr [tx_simps]:
  "scalar_one_or_none xs s = Inr (r, s') \<longleftrightarrow>
     s' = s \<and> (case r of None \<Rightarrow> xs = [] | Some x \<Rightarrow> xs = [x])"
  by (auto simp: scalar_one_or_none_def split: list.splits option.splits)

lemmas account_ops = set_display_name_def set_roles_def set_payout_coldkey_def set_password_def rehash_password_def
  clear_password_failures_def set_submission_coldkey_def

text \<open>The tables of this component, the clock and two counters are all a step can change.\<close>

definition accounts_frame :: "db \<Rightarrow> db \<Rightarrow> bool" where
  "accounts_frame s s' \<longleftrightarrow> clock s \<le> clock s' \<and> next_uuid s \<le> next_uuid s' \<and>
     s' = s\<lparr>clock := clock s', next_uuid := next_uuid s', next_identity_id := next_identity_id s',
       accounts := accounts s', identities := identities s', wallets := wallets s', sessions := sessions s',
       challenges := challenges s'\<rparr>"

lemma accounts_frameD:
  assumes "accounts_frame s s'"
  shows "ledger s' = ledger s" "deposits s' = deposits s" "intents s' = intents s" "transfers s' = transfers s"
    "submissions s' = submissions s" "orders s' = orders s" "invitations s' = invitations s"
    "redemptions s' = redemptions s" "runs s' = runs s" "decisions s' = decisions s" "reward_events s' = reward_events s"
    "treasury_payouts s' = treasury_payouts s" "bonuses s' = bonuses s" "next_ledger_id s' = next_ledger_id s"
    "next_transfer_id s' = next_transfer_id s" "next_decision_id s' = next_decision_id s"
    "next_reward_id s' = next_reward_id s" "next_payout_id s' = next_payout_id s"
    "clock s \<le> clock s'" "next_uuid s \<le> next_uuid s'"
proof -
  from assms have s': "s' = s\<lparr>clock := clock s', next_uuid := next_uuid s', next_identity_id := next_identity_id s',
       accounts := accounts s', identities := identities s', wallets := wallets s', sessions := sessions s',
       challenges := challenges s'\<rparr>" by (simp add: accounts_frame_def)
  show "ledger s' = ledger s" "deposits s' = deposits s" "intents s' = intents s" "transfers s' = transfers s"
    "submissions s' = submissions s" "orders s' = orders s" "invitations s' = invitations s"
    "redemptions s' = redemptions s" "runs s' = runs s" "decisions s' = decisions s" "reward_events s' = reward_events s"
    "treasury_payouts s' = treasury_payouts s" "bonuses s' = bonuses s" "next_ledger_id s' = next_ledger_id s"
    "next_transfer_id s' = next_transfer_id s" "next_decision_id s' = next_decision_id s"
    "next_reward_id s' = next_reward_id s" "next_payout_id s' = next_payout_id s" by (subst s', simp)+
  show "clock s \<le> clock s'" "next_uuid s \<le> next_uuid s'" using assms by (simp_all add: accounts_frame_def)
qed

lemma accounts_frame_updates:
  "accounts_frame s (s\<lparr>accounts := x1\<rparr>)" "accounts_frame s (s\<lparr>sessions := x2\<rparr>)"
  "accounts_frame s (s\<lparr>challenges := x3\<rparr>)" "accounts_frame s (s\<lparr>identities := x4\<rparr>)"
  "accounts_frame s (s\<lparr>wallets := x5\<rparr>)" "accounts_frame s s"
  "accounts_frame s (s\<lparr>next_identity_id := x6, identities := x4\<rparr>)"
  "accounts_frame s (s\<lparr>next_uuid := Suc (next_uuid s), accounts := x1\<rparr>)"
  "accounts_frame s (s\<lparr>next_uuid := Suc (next_uuid s), sessions := x2\<rparr>)"
  "accounts_frame s (s\<lparr>next_uuid := Suc (next_uuid s), challenges := x3\<rparr>)"
  "clock s \<le> x7 \<Longrightarrow> accounts_frame s (s\<lparr>clock := x7\<rparr>)"
  by (simp_all add: accounts_frame_def)

lemma account_step_frame: "account_step s s' \<Longrightarrow> accounts_frame s s'"
proof (induction rule: account_step.induct)
  case (guessed a now tries pause s p s')
  then show ?case
    by (auto simp: record_password_failure_def tx_simps accounts_frame_updates split: option.splits if_splits)
qed (auto simp: account_ops create_account_def link_identity_def touch_identity_def link_wallet_def create_session_def
    touch_session_def revoke_where_def create_challenge_def consume_challenge_def record_failed_attempt_def
    tx_simps accounts_frame_updates Let_def split: if_splits option.splits)

section \<open>Invariants\<close>

text \<open>Accounts: keyed, well typed, one per mailbox, and submitting only under a coldkey of their own.\<close>

definition account_ok :: "account_row \<Rightarrow> bool" where
  "account_ok a \<longleftrightarrow> (\<forall>c \<in> set (account_checks a). snd c) \<and> MINER_ROLE \<in> set (a_roles a)"

definition linked_to :: "db \<Rightarrow> account_row \<Rightarrow> bool" where
  "linked_to s a \<longleftrightarrow> references (both (a_submission_coldkey a) (a_id a)) (\<lambda>w. (w_coldkey w, w_account_id w)) (wallets s)"

definition accounts_ok :: "db \<Rightarrow> bool" where
  "accounts_ok s \<longleftrightarrow> distinct (map a_id (accounts s)) \<and> distinct (map w_coldkey (wallets s)) \<and>
     one_per a_id (\<lambda>a. map_option py_lower (a_email a)) (accounts s) \<and>
     (\<forall>a \<in> set (accounts s). a_id a < next_uuid s \<and> account_ok a \<and> linked_to s a)"

text \<open>Sessions and challenges: keyed, one per secret, and shaped as their kind requires.\<close>

definition secrets_ok :: "db \<Rightarrow> bool" where
  "secrets_ok s \<longleftrightarrow> distinct (map se_id (sessions s)) \<and> one_per se_id (\<lambda>r. Some (se_token_sha256 r)) (sessions s) \<and>
     (\<forall>r \<in> set (sessions s). se_id r < next_uuid s \<and> se_issued_at r < se_expires_at r \<and>
        (se_kind r = BEARER \<longleftrightarrow> se_coldkey_scope r \<noteq> None)) \<and>
     distinct (map ch_id (challenges s)) \<and> one_per ch_id (\<lambda>r. Some (ch_secret_sha256 r)) (challenges s) \<and>
     (\<forall>r \<in> set (challenges s). ch_id r < next_uuid s)"

lemma account_keysD:
  assumes "\<forall>c \<in> set (account_checks r @ account_keys s r). snd c"
  shows "\<forall>c \<in> set (account_checks r). snd c" and "unique_on a_id (\<lambda>a. map_option py_lower (a_email a)) r (accounts s)"
    and "linked_to s r"
  using assms by (simp_all add: account_keys_def linked_to_def)

lemma flush_account_ok:
  assumes inv: "accounts_ok s" and r: "flush_account old r s = Inr (u, s')" and "MINER_ROLE \<in> set (a_roles r)"
    and "find_row a_id n (accounts s) = Some old" and "a_id r = a_id old"
  shows "accounts_ok s'"
proof (cases "r = old")
  case False
  let ?r = "r\<lparr>a_updated_at := clock s\<rparr>"
  from r False have ck: "\<forall>c \<in> set (account_checks ?r @ account_keys s ?r). snd c"
    and s': "s' = s\<lparr>accounts := replace_row a_id ?r (accounts s)\<rparr>" by (simp_all add: flush_account_Inr)
  note k = account_keysD [OF ck]
  have "account_ok ?r" using k(1) assms(3) by (simp add: account_ok_def)
  then show ?thesis
    using inv k(3) one_per_replace [OF _ k(2)] set_replace_row [of a_id ?r "accounts s"] find_row_Some [OF assms(4)] assms(5)
    by (fastforce simp: accounts_ok_def s' linked_to_def)
qed (use r inv in \<open>simp add: flush_account_Inr\<close>)

lemma update_accounts_ok:
  assumes inv: "accounts_ok s" and r: "update_accounts cond f s = Inr (m, s')"
    and f: "\<And>a. a_id (f a) = a_id a \<and> a_email (f a) = a_email a \<and> a_roles (f a) = a_roles a \<and>
              a_submission_coldkey (f a) = a_submission_coldkey a"
  shows "accounts_ok s'"
proof -
  define g where "g a = (if cond a then (f a)\<lparr>a_updated_at := clock s\<rparr> else a)" for a
  from r have ck: "\<forall>a \<in> set (accounts s). cond a \<longrightarrow> (\<forall>c \<in> set (account_checks ((f a)\<lparr>a_updated_at := clock s\<rparr>)). snd c)"
    and s': "s' = s\<lparr>accounts := map g (accounts s)\<rparr>" by (auto simp: update_accounts_Inr g_def [abs_def])
  have g: "a_id (g a) = a_id a" "a_email (g a) = a_email a" "a_roles (g a) = a_roles a"
    "a_submission_coldkey (g a) = a_submission_coldkey a" for a using f by (auto simp: g_def)
  have "account_ok (g a)" if "a \<in> set (accounts s)" for a
  proof -
    have "account_ok a" using inv that by (simp add: accounts_ok_def)
    then have "MINER_ROLE \<in> set (a_roles (g a))" unfolding g(3) by (simp add: account_ok_def)
    moreover have "\<forall>c \<in> set (account_checks (g a)). snd c"
      using ck that \<open>account_ok a\<close> by (cases "cond a") (simp_all add: g_def account_ok_def)
    ultimately show ?thesis unfolding account_ok_def by blast
  qed
  moreover have "one_per a_id (\<lambda>a. map_option py_lower (a_email a)) (map g (accounts s))"
    using inv g by (subst one_per_map) (auto simp: accounts_ok_def)
  ultimately show ?thesis using inv unfolding accounts_ok_def linked_to_def s' by (simp add: g comp_def)
qed

lemma insert_account_ok:
  assumes inv: "accounts_ok s" and r: "insert_account r (s\<lparr>next_uuid := Suc (next_uuid s)\<rparr>) = Inr (u, s')"
    and "a_id r = next_uuid s" and "MINER_ROLE \<in> set (a_roles r)"
  shows "accounts_ok s'"
proof -
  from r have ck: "\<forall>c \<in> set (account_checks r @ account_keys (s\<lparr>next_uuid := Suc (next_uuid s)\<rparr>) r). snd c"
    and s': "s' = s\<lparr>next_uuid := Suc (next_uuid s), accounts := accounts s @ [r]\<rparr>" by (simp_all add: insert_account_Inr)
  note k = account_keysD [OF ck]
  have "one_per a_id (\<lambda>a. map_option py_lower (a_email a)) (accounts s @ [r])"
    using inv k(2) by (intro one_per_insert) (auto simp: accounts_ok_def)
  then show ?thesis using inv k(1,3) assms(3,4)
    by (fastforce simp: accounts_ok_def s' linked_to_def account_ok_def)
qed

lemma accounts_ok_frame:
  assumes "accounts_ok s" and "accounts s' = accounts s" and "wallets s' = wallets s" and "next_uuid s \<le> next_uuid s'"
  shows "accounts_ok s'"
  using assms by (fastforce simp: accounts_ok_def linked_to_def)

lemma set_roles_miner: "set_roles a rs s = Inr (a', s') \<Longrightarrow> \<exists>u.
    flush_account a a' s = Inr (u, s') \<and> a_id a' = a_id a \<and> MINER_ROLE \<in> set (a_roles a')"
  by (auto simp: set_roles_def tx_simps Let_def)

lemma link_wallet_ok:
  assumes inv: "accounts_ok s" and r: "link_wallet a ck sig s = Inr (w, s')"
  shows "accounts_ok s'"
proof -
  from r have w: "w_coldkey w \<notin> w_coldkey ` set (wallets s)" and s': "s' = s\<lparr>wallets := wallets s @ [w]\<rparr>"
    by (auto simp: link_wallet_def insert_into_Inr wallet_checks_def list_all_iff Let_def tx_simps)
  have "linked_to s x \<Longrightarrow> linked_to s' x" for x
    unfolding linked_to_def by (erule references_mono) (auto simp: s')
  then show ?thesis using inv w by (auto simp: accounts_ok_def s')
qed

text \<open>Writing one account with the roles it has.\<close>

lemma rewrite_account_ok:
  assumes inv: "accounts_ok s" and a: "find_row a_id n (accounts s) = Some a"
    and r: "\<exists>u. flush_account a r s = Inr (u, s')" and same: "a_id r = a_id a" "a_roles r = a_roles a"
  shows "accounts_ok s'"
proof -
  have "MINER_ROLE \<in> set (a_roles r)" using inv find_row_Some [OF a] same
    by (auto simp: accounts_ok_def account_ok_def)
  then show ?thesis using flush_account_ok [OF inv _ _ a same(1)] r by blast
qed

lemma accounts_ok_step: "account_step s s' \<Longrightarrow> accounts_ok s \<Longrightarrow> accounts_ok s'"
proof (induction rule: account_step.induct)
  case (created e v d h n s a s')
  from created(1) obtain u r where "insert_account r (s\<lparr>next_uuid := Suc (next_uuid s)\<rparr>) = Inr (u, s')"
    "a_id r = next_uuid s" "a_roles r = [MINER_ROLE]"
    by (auto simp: create_account_def Let_def thenT_Inr_iff bindT_Inr_iff)
  then show ?case using insert_account_ok [OF created(2)] by simp
next
  case (guessed a now tries pause s p s')
  from guessed(1) obtain m s1 where 1: "update_accounts (\<lambda>x. a_id x = a_id a)
      (\<lambda>x. x\<lparr>a_failed_password_attempts := a_failed_password_attempts x + 1\<rparr>) s = Inr (m, s1)"
    and 2: "s' = s1 \<or> (\<exists>m'. update_accounts (\<lambda>x. a_id x = a_id a)
      (\<lambda>x. x\<lparr>a_failed_password_attempts := 0, a_password_throttled_until := Some (now + pause)\<rparr>) s1 = Inr (m', s'))"
    unfolding record_password_failure_def thenT_Inr_iff by (auto split: option.splits if_splits simp: thenT_Inr_iff)
  have "accounts_ok s1" using update_accounts_ok [OF guessed(2) 1] by simp
  then show ?case using 2 update_accounts_ok by auto
next
  case (wallet_linked a ck sig s w s')
  then show ?case using link_wallet_ok by blast
next
  case (roles_set n s a rs a' s')
  then show ?case using set_roles_miner flush_account_ok by metis
next
  case (later s t) then show ?case by (auto intro: accounts_ok_frame)
next
  case (identified a p sub e s i s')
  then show ?case by (auto simp: link_identity_def tx_simps Let_def insert_into_Inr intro: accounts_ok_frame)
next
  case (identity_used n s i e now i' s')
  then show ?case by (auto simp: touch_identity_def tx_simps Let_def update_in_Inr intro: accounts_ok_frame)
next
  case (signed_in a tok ends kind scope ua ip s r s')
  then show ?case by (auto simp: create_session_def tx_simps Let_def insert_into_Inr intro: accounts_ok_frame)
next
  case (challenged kind dg ends acc e k m h s c s')
  then show ?case by (auto simp: create_challenge_def tx_simps Let_def insert_into_Inr intro: accounts_ok_frame)
next
  case (extended n now ends refresh most s b s')
  then show ?case by (auto simp: touch_session_def tx_simps intro: accounts_ok_frame)
next
  case (signed_out cond s m s')
  then show ?case by (auto simp: revoke_where_def tx_simps intro: accounts_ok_frame)
next
  case (answered kind dg now s c s')
  then show ?case by (auto simp: consume_challenge_def tx_simps Let_def intro: accounts_ok_frame)
next
  case (missed n s m s')
  then show ?case by (auto simp: record_failed_attempt_def tx_simps split: option.splits intro: accounts_ok_frame)
next
  case (forgiven n s a u s')
  show ?case
  proof (cases "a_failed_password_attempts a = 0 \<and> a_password_throttled_until a = None")
    case False
    then show ?thesis using forgiven(2)
      by (intro rewrite_account_ok [OF forgiven(3,1), where
            r = "a\<lparr>a_failed_password_attempts := 0, a_password_throttled_until := None\<rparr>"])
        (auto simp: clear_password_failures_def)
  qed (use forgiven in \<open>simp add: clear_password_failures_def\<close>)
next
  case (named n s a d a' s')
  then show ?case by (intro rewrite_account_ok [OF named(3,1), where r = a'])
      (auto simp: set_display_name_def thenT_Inr_iff Let_def)
next
  case (payout_set n s a k a' s')
  then show ?case by (intro rewrite_account_ok [OF payout_set(3,1), where r = a'])
      (auto simp: set_payout_coldkey_def thenT_Inr_iff Let_def)
next
  case (password_set n s a h now a' s')
  then show ?case by (intro rewrite_account_ok [OF password_set(3,1), where r = a'])
      (auto simp: set_password_def thenT_Inr_iff Let_def)
next
  case (rehashed n s a h a' s')
  then show ?case by (intro rewrite_account_ok [OF rehashed(3,1), where r = a'])
      (auto simp: rehash_password_def thenT_Inr_iff Let_def)
next
  case (submission_set n s a k a' s')
  then show ?case by (intro rewrite_account_ok [OF submission_set(3,1), where r = a'])
      (auto simp: set_submission_coldkey_def thenT_Inr_iff Let_def)
qed

text \<open>A run remembers every session and challenge: a revocation and a consumption are for ever.\<close>

definition session_kept :: "session_row \<Rightarrow> session_row \<Rightarrow> bool" where
  "session_kept r r' \<longleftrightarrow> se_id r' = se_id r \<and> se_token_sha256 r' = se_token_sha256 r \<and> se_kind r' = se_kind r \<and>
     se_account_id r' = se_account_id r \<and> se_coldkey_scope r' = se_coldkey_scope r \<and>
     se_issued_at r' = se_issued_at r \<and> (se_revoked_at r \<noteq> None \<longrightarrow> se_revoked_at r' = se_revoked_at r)"

definition challenge_kept :: "challenge_row \<Rightarrow> challenge_row \<Rightarrow> bool" where
  "challenge_kept c c' \<longleftrightarrow> ch_id c' = ch_id c \<and> ch_secret_sha256 c' = ch_secret_sha256 c \<and> ch_kind c' = ch_kind c \<and>
     (ch_consumed_at c \<noteq> None \<longrightarrow> ch_consumed_at c' = ch_consumed_at c)"

definition remembers :: "db \<Rightarrow> db \<Rightarrow> bool" where
  "remembers s s' \<longleftrightarrow> (\<forall>r \<in> set (sessions s). \<exists>r' \<in> set (sessions s'). session_kept r r') \<and>
     (\<forall>c \<in> set (challenges s). \<exists>c' \<in> set (challenges s'). challenge_kept c c')"

lemma kept_refl: "session_kept r r" "challenge_kept c c"
  by (simp_all add: session_kept_def challenge_kept_def)

lemma remembers_same: "sessions s' = sessions s \<Longrightarrow> challenges s' = challenges s \<Longrightarrow> remembers s s'"
  using kept_refl by (auto simp: remembers_def)

lemma remembers_refl: "remembers s s"
  by (rule remembers_same) simp_all

lemma remembers_trans:
  assumes "remembers s s1" and "remembers s1 s2"
  shows "remembers s s2"
proof -
  have "session_kept a c" if "session_kept a b" "session_kept b c" for a b c
    using that by (simp add: session_kept_def)
  moreover have "challenge_kept a c" if "challenge_kept a b" "challenge_kept b c" for a b c
    using that by (simp add: challenge_kept_def)
  ultimately show ?thesis using assms unfolding remembers_def by meson
qed

text \<open>The writes to the two tables: what they keep of the invariant, and what they remember.\<close>

definition secrets_kept :: "db \<Rightarrow> db \<Rightarrow> bool" where
  "secrets_kept s s' \<longleftrightarrow> (secrets_ok s \<longrightarrow> secrets_ok s') \<and> remembers s s'"

lemma secrets_same:
  "sessions s' = sessions s \<Longrightarrow> challenges s' = challenges s \<Longrightarrow> next_uuid s \<le> next_uuid s' \<Longrightarrow> secrets_kept s s'"
  by (fastforce simp: secrets_kept_def secrets_ok_def intro: remembers_same)

lemma update_sessions_kept:
  assumes "update_sessions cond f s = Inr (m, s')" and f: "\<And>r. cond r \<Longrightarrow> session_kept r (f r)"
  shows "secrets_kept s s'"
proof -
  define g where "g r = (if cond r then f r else r)" for r
  have ck: "\<forall>r \<in> set (sessions s). cond r \<longrightarrow> se_issued_at (f r) < se_expires_at (f r)"
    and s': "s' = s\<lparr>sessions := map g (sessions s)\<rparr>"
    using assms(1) by (auto simp: update_sessions_Inr session_checks_def g_def [abs_def])
  have g: "session_kept r (g r)" for r using f kept_refl by (simp add: g_def)
  then have eq: "se_id (g r) = se_id r" "se_token_sha256 (g r) = se_token_sha256 r" "se_kind (g r) = se_kind r"
    "se_coldkey_scope (g r) = se_coldkey_scope r" for r by (simp_all add: session_kept_def)
  have "se_issued_at (g r) < se_expires_at (g r)" if "secrets_ok s" "r \<in> set (sessions s)" for r
    using that ck by (auto simp: g_def secrets_ok_def)
  then have "secrets_ok s \<Longrightarrow> secrets_ok s'"
    using one_per_map [of "sessions s" se_id g "\<lambda>r. Some (se_token_sha256 r)"] by (simp add: secrets_ok_def s' eq comp_def)
  moreover have "remembers s s'" using g kept_refl by (auto simp: remembers_def s')
  ultimately show ?thesis by (simp add: secrets_kept_def)
qed

lemma update_challenges_kept:
  assumes "update_challenges cond f s = Inr (m, s')" and f: "\<And>c. cond c \<Longrightarrow> challenge_kept c (f c)"
  shows "secrets_kept s s'"
proof -
  define g where "g c = (if cond c then f c else c)" for c
  have s': "s' = s\<lparr>challenges := map g (challenges s)\<rparr>"
    using assms(1) by (auto simp: update_challenges_Inr g_def [abs_def])
  have g: "challenge_kept c (g c)" for c using f kept_refl by (simp add: g_def)
  then have eq: "ch_id (g c) = ch_id c" "ch_secret_sha256 (g c) = ch_secret_sha256 c" for c
    by (simp_all add: challenge_kept_def)
  have "secrets_ok s \<Longrightarrow> secrets_ok s'"
    using one_per_map [of "challenges s" ch_id g "\<lambda>r. Some (ch_secret_sha256 r)"] by (simp add: secrets_ok_def s' eq comp_def)
  moreover have "remembers s s'" using g kept_refl by (auto simp: remembers_def s')
  ultimately show ?thesis by (simp add: secrets_kept_def)
qed

lemma create_session_kept:
  assumes "create_session a tok ends kind scope ua ip s = Inr (r, s')"
  shows "secrets_kept s s'"
proof -
  from assms have s': "s' = s\<lparr>next_uuid := Suc (next_uuid s), sessions := sessions s @ [r]\<rparr>"
    and r: "se_id r = next_uuid s" "se_issued_at r < se_expires_at r" "se_kind r = BEARER \<longleftrightarrow> se_coldkey_scope r \<noteq> None"
      "unique_on se_id (\<lambda>x. Some (se_token_sha256 x)) r (sessions s)"
    by (auto simp: create_session_def tx_simps Let_def insert_into_Inr session_checks_def)
  have "secrets_ok s \<Longrightarrow> secrets_ok s'"
    using r one_per_insert [OF _ r(4)] by (fastforce simp: secrets_ok_def s')
  moreover have "remembers s s'" using kept_refl by (auto simp: remembers_def s')
  ultimately show ?thesis by (simp add: secrets_kept_def)
qed

lemma create_challenge_kept:
  assumes "create_challenge kind dg ends acc e k m h s = Inr (c, s')"
  shows "secrets_kept s s'"
proof -
  from assms have s': "s' = s\<lparr>next_uuid := Suc (next_uuid s), challenges := challenges s @ [c]\<rparr>"
    and c: "ch_id c = next_uuid s" "unique_on ch_id (\<lambda>x. Some (ch_secret_sha256 x)) c (challenges s)"
    by (auto simp: create_challenge_def tx_simps Let_def insert_into_Inr challenge_checks_def)
  have "secrets_ok s \<Longrightarrow> secrets_ok s'"
    using c one_per_insert [OF _ c(2)] by (fastforce simp: secrets_ok_def s')
  moreover have "remembers s s'" using kept_refl by (auto simp: remembers_def s')
  ultimately show ?thesis by (simp add: secrets_kept_def)
qed

lemma account_step_secrets: "account_step s s' \<Longrightarrow> secrets_kept s s'"
proof (induction rule: account_step.induct)
  case (extended n now ends refresh most s b s')
  then obtain m where "update_sessions (\<lambda>r. se_id r = n \<and> session_live now r \<and> se_last_seen_at r < now - refresh)
      (\<lambda>r. r\<lparr>se_last_seen_at := now, se_expires_at := (case most of None \<Rightarrow> ends | Some m \<Rightarrow> min ends (se_issued_at r + m))\<rparr>)
      s = Inr (m, s')" by (auto simp: touch_session_def bindT_Inr_iff)
  then show ?case by (rule update_sessions_kept) (auto simp: session_kept_def)
next
  case (signed_out cond s m s')
  then show ?case unfolding revoke_where_def by (rule update_sessions_kept) (auto simp: session_kept_def)
next
  case (answered kind dg now s c s')
  then obtain m where "update_challenges (\<lambda>r. ch_secret_sha256 r = dg \<and> challenge_open kind now r)
      (\<lambda>r. r\<lparr>ch_consumed_at := Some now\<rparr>) s = Inr (m, s')"
    by (auto simp: consume_challenge_def Let_def thenT_Inr_iff scalar_one_or_none_Inr)
  then show ?case by (rule update_challenges_kept) (auto simp: challenge_kept_def challenge_open_def)
next
  case (missed n s m s')
  then obtain k where "update_challenges (\<lambda>r. ch_id r = n) (\<lambda>r. r\<lparr>ch_attempts := ch_attempts r + 1\<rparr>) s = Inr (k, s')"
    by (auto simp: record_failed_attempt_def thenT_Inr_iff split: option.splits)
  then show ?case by (rule update_challenges_kept) (auto simp: challenge_kept_def)
next
  case (guessed a now tries pause s p s')
  then show ?case
    by (auto simp: record_password_failure_def tx_simps intro!: secrets_same split: option.splits if_splits)
next
  case (signed_in a tok ends kind scope ua ip s r s')
  then show ?case by (rule create_session_kept)
next
  case (challenged kind dg ends acc e k m h s c s')
  then show ?case by (rule create_challenge_kept)
qed (auto simp: account_ops create_account_def link_identity_def touch_identity_def link_wallet_def insert_into_Inr
    update_in_Inr tx_simps Let_def intro!: secrets_same split: if_splits option.splits)

lemma same_key: "distinct (map key rows) \<Longrightarrow> x \<in> set rows \<Longrightarrow> y \<in> set rows \<Longrightarrow> key x = key y \<Longrightarrow> x = y"
  by (auto simp: distinct_map dest: inj_onD)

text \<open>What a consumed challenge and a revoked session can no longer do.\<close>

lemma consume_challenge_Some:
  assumes "consume_challenge kind dg now s = Inr (Some c, s')"
  obtains d where "d \<in> set (challenges s)" "ch_secret_sha256 d = dg" "challenge_open kind now d"
    "c = d\<lparr>ch_consumed_at := Some now\<rparr>" "c \<in> set (challenges s')"
proof -
  let ?taken = "\<lambda>r. ch_secret_sha256 r = dg \<and> challenge_open kind now r"
  from assms have m: "map (\<lambda>r. r\<lparr>ch_consumed_at := Some now\<rparr>) (filter ?taken (challenges s)) = [c]"
    and s': "s' = s\<lparr>challenges := map (\<lambda>r. if ?taken r then r\<lparr>ch_consumed_at := Some now\<rparr> else r) (challenges s)\<rparr>"
    by (auto simp: consume_challenge_def Let_def thenT_Inr_iff scalar_one_or_none_Inr update_challenges_Inr)
  from m obtain d where f: "filter ?taken (challenges s) = [d]" and c: "c = d\<lparr>ch_consumed_at := Some now\<rparr>"
    by (auto simp: map_eq_Cons_conv)
  have "d \<in> set (filter ?taken (challenges s))" unfolding f by simp
  then have d: "d \<in> set (challenges s)" "?taken d" by simp_all
  then have "c \<in> set (challenges s')" unfolding s' c by force
  with d c show thesis using that by blast
qed

lemma consumed_stays_consumed:
  assumes c: "consume_challenge kind dg now s = Inr (Some c, s1)" and ok: "secrets_ok s2" and mem: "remembers s1 s2"
    and again: "consume_challenge kind' dg now' s2 = Inr (r, s3)"
  shows "r = None"
proof (cases r)
  case (Some c2)
  obtain d where d: "d \<in> set (challenges s2)" "ch_secret_sha256 d = dg" "ch_consumed_at d = None"
    using consume_challenge_Some [OF again [unfolded Some]] by (auto simp: challenge_open_def)
  obtain d0 where d0: "ch_secret_sha256 d0 = dg" "c = d0\<lparr>ch_consumed_at := Some now\<rparr>" "c \<in> set (challenges s1)"
    by (rule consume_challenge_Some [OF c])
  then obtain c' where c': "c' \<in> set (challenges s2)" "challenge_kept c c'" using mem by (auto simp: remembers_def)
  then have c': "c' \<in> set (challenges s2)" "ch_secret_sha256 c' = dg" "ch_consumed_at c' = Some now"
    using d0(1,2) by (simp_all add: challenge_kept_def)
  have "ch_id c' = ch_id d"
    using ok one_perD [of ch_id "\<lambda>r. Some (ch_secret_sha256 r)" "challenges s2" c' d dg] c' d by (simp add: secrets_ok_def)
  moreover have "distinct (map ch_id (challenges s2))" using ok by (simp add: secrets_ok_def)
  ultimately have "c' = d" using c'(1) d(1) by (intro same_key [of ch_id "challenges s2"])
  then show ?thesis using d(3) c'(3) by simp
qed

lemma authenticate_Some:
  assumes "authenticate s tok kind now = Some x"
  shows "au_session_row x \<in> set (sessions s)" and "au_account x \<in> set (accounts s)"
    and "a_id (au_account x) = se_account_id (au_session_row x)" and "se_token_sha256 (au_session_row x) = tok"
    and "se_kind (au_session_row x) = kind" and "session_live now (au_session_row x)"
proof -
  obtain xs where e: "[\<lparr>au_account = a, au_session_row = r\<rparr>. r \<leftarrow> sessions s, a \<leftarrow> accounts s,
      a_id a = se_account_id r \<and> se_token_sha256 r = tok \<and> se_kind r = kind \<and> session_live now r] = x # xs"
    using assms unfolding authenticate_def by (auto split: list.splits)
  have "x \<in> set [\<lparr>au_account = a, au_session_row = r\<rparr>. r \<leftarrow> sessions s, a \<leftarrow> accounts s,
      a_id a = se_account_id r \<and> se_token_sha256 r = tok \<and> se_kind r = kind \<and> session_live now r]"
    unfolding e by simp
  then show "au_session_row x \<in> set (sessions s)" and "au_account x \<in> set (accounts s)"
    and "a_id (au_account x) = se_account_id (au_session_row x)" and "se_token_sha256 (au_session_row x) = tok"
    and "se_kind (au_session_row x) = kind" and "session_live now (au_session_row x)" by auto
qed

lemma revoked_stays_revoked:
  assumes r: "revoke_where cond s = Inr (m, s1)" and ok: "secrets_ok s2" and mem: "remembers s1 s2"
    and old: "r0 \<in> set (sessions s)" "cond r0" and a: "authenticate s2 tok kind now = Some x"
  shows "se_id (au_session_row x) \<noteq> se_id r0"
proof
  assume eq: "se_id (au_session_row x) = se_id r0"
  from r have s1: "s1 = s\<lparr>sessions := map (\<lambda>r. if cond r \<and> se_revoked_at r = None
      then r\<lparr>se_revoked_at := Some (clock s)\<rparr> else r) (sessions s)\<rparr>" by (simp add: revoke_where_def update_sessions_Inr)
  let ?r1 = "if cond r0 \<and> se_revoked_at r0 = None then r0\<lparr>se_revoked_at := Some (clock s)\<rparr> else r0"
  have "?r1 \<in> set (sessions s1)" using old by (force simp: s1)
  moreover have "se_id ?r1 = se_id r0" "se_revoked_at ?r1 \<noteq> None" using old(2) by auto
  moreover obtain r2 where "r2 \<in> set (sessions s2)" "session_kept ?r1 r2"
    using mem \<open>?r1 \<in> set (sessions s1)\<close> by (auto simp: remembers_def simp del: if_split)
  ultimately have r2: "r2 \<in> set (sessions s2)" "se_id r2 = se_id r0" "se_revoked_at r2 \<noteq> None"
    by (auto simp: session_kept_def)
  have "distinct (map se_id (sessions s2))" using ok by (simp add: secrets_ok_def)
  then have "r2 = au_session_row x" using r2 eq authenticate_Some(1) [OF a]
    by (intro same_key [of se_id "sessions s2"]) simp_all
  then show False using r2(3) authenticate_Some(6) [OF a] by (simp add: session_live_def)
qed

end
