(* ===== verification/Purchases.thy ===== *)
theory Purchases
  imports Accounts
begin

text \<open>
  Credit purchases settled by the card processor: \<open>conjectures_subnet/db/tmc_pay.py\<close>, with the
  constraints of \<open>tmc_pay_orders\<close> and \<open>tmc_pay_webhook_deliveries\<close>.  The definitions follow the module
  top to bottom.  The keyword arguments of \<open>attach_invoice\<close> are the record \<open>invoice_terms\<close>.  The
  machine \<open>order_step\<close> at the end has one rule per operation that writes.
\<close>

section \<open>Constraints\<close>

abbreviation "TAO_CURRENCY \<equiv> ''TAO''"
abbreviation "TAO_NETWORK \<equiv> ''bittensor''"

definition required_rao :: "order_row \<Rightarrow> rao" where
  "required_rao o' = o_credits o' * o_credit_price_rao o'"

text \<open>\<open>crypto_currency <> 'TAO'\<close>, which is NULL for a NULL currency.\<close>

definition known_foreign :: "order_row \<Rightarrow> bool" where
  "known_foreign r \<longleftrightarrow> (case o_crypto_currency r of None \<Rightarrow> False | Some c \<Rightarrow> c \<noteq> TAO_CURRENCY)"

definition order_checks :: "order_row \<Rightarrow> (string \<times> bool) list" where
  "order_checks r =
    [(''tmc_pay_credits_positive'', o_credits r > 0),
     (''tmc_pay_price_positive'', o_credit_price_rao r > 0),
     (''tmc_pay_external_id_length'', length_between 1 128 (o_external_id r)),
     (''tmc_pay_invoice_id_length'', pred_option (length_between 1 64) (o_invoice_id r)),
     (''tmc_pay_merchant_id_length'', pred_option (length_between 1 64) (o_merchant_id r)),
     (''tmc_pay_hosted_invoice_url_length'', pred_option (length_between 1 2048) (o_hosted_invoice_url r)),
     (''tmc_pay_fiat_amount_length'', pred_option (length_between 1 64) (o_fiat_amount r)),
     (''tmc_pay_fiat_currency_shape'',
        pred_option (\<lambda>c. length c = 3 \<and> list_all (in_chars upper_chars) c) (o_fiat_currency r)),
     (''tmc_pay_exchange_rate_length'', pred_option (length_between 1 64) (o_exchange_rate r)),
     (''tmc_pay_commission_length'', pred_option (length_between 1 64) (o_commission_amount r)),
     (''tmc_pay_crypto_amount_positive'', pred_option (\<lambda>v. v > 0) (o_crypto_amount_rao r)),
     (''tmc_pay_last_event_length'', pred_option (length_between 1 64) (o_last_event_id r)),
     (''tmc_pay_invoiced_rows_are_complete'',
        o_status r \<in> {TP_NEW, TP_FAILED} \<or>
        o_invoice_id r \<noteq> None \<and> (o_crypto_amount_rao r \<noteq> None \<or> o_crypto_amount r \<noteq> None) \<and>
        o_deposit_address r \<noteq> None \<and> o_fiat_amount r \<noteq> None \<and> o_fiat_currency r \<noteq> None),
     (''tmc_pay_invoice_covers_the_credits'', pred_option (\<lambda>v. v \<ge> required_rao r) (o_crypto_amount_rao r)),
     (''tmc_pay_rao_is_tao_only'', \<not> known_foreign r \<or> o_crypto_amount_rao r = None),
     (''tmc_pay_crypto_amount_length'', pred_option (length_between 1 64) (o_crypto_amount r)),
     (''tmc_pay_crypto_currency_length'', pred_option (length_between 1 16) (o_crypto_currency r)),
     (''tmc_pay_crypto_network_length'', pred_option (length_between 1 32) (o_crypto_network r)),
     (''tmc_pay_deposit_address_length'', pred_option (length_between 1 128) (o_deposit_address r)),
     (''tmc_pay_credited_needs_an_invoice'',
        o_credited_ledger_id r = None \<or>
        o_invoice_id r \<noteq> None \<and> (o_crypto_amount_rao r \<noteq> None \<or> known_foreign r)),
     (''tmc_pay_failed_needs_a_reason'', o_status r \<noteq> TP_FAILED \<or> o_failure_reason r \<noteq> None),
     (''tmc_pay_orders_updated_not_before_created'', o_updated_at r \<ge> o_created_at r)]"

definition order_keys :: "db \<Rightarrow> order_row \<Rightarrow> (string \<times> bool) list" where
  "order_keys s r =
    [(''tmc_pay_orders_credited_ledger_id_key'', unique_on o_id o_credited_ledger_id r (orders s)),
     (''tmc_pay_orders_external_idx'', unique_on o_id (\<lambda>x. Some (o_external_id x)) r (orders s)),
     (''tmc_pay_orders_invoice_idx'', unique_on o_id o_invoice_id r (orders s)),
     (''tmc_pay_orders_account_id_fkey'', references (Some (o_account_id r)) a_id (accounts s)),
     (''tmc_pay_orders_credited_ledger_id_fkey'', references (o_credited_ledger_id r) l_id (ledger s))]"

definition insert_order :: "order_row \<Rightarrow> unit dbtx" where
  "insert_order = insert_into orders (\<lambda>rs. orders_update (\<lambda>_. rs)) (\<lambda>s r. order_checks r @ order_keys s r)"

text \<open>A changed order is flushed, and the trigger sets \<open>updated_at\<close>; an unchanged one writes nothing.\<close>

definition flush_order :: "order_row \<Rightarrow> order_row \<Rightarrow> unit dbtx" where
  "flush_order old r s =
     (if r = old then Inr ((), s)
      else update_in orders (\<lambda>rs. orders_update (\<lambda>_. rs)) o_id (\<lambda>s r. order_checks r @ order_keys s r)
             (r\<lparr>o_updated_at := clock s\<rparr>) s)"

definition update_orders :: "(order_row \<Rightarrow> bool) \<Rightarrow> (order_row \<Rightarrow> order_row) \<Rightarrow> int dbtx" where
  "update_orders cond f =
     update_where orders (\<lambda>rs. orders_update (\<lambda>_. rs)) (\<lambda>s r. order_checks r @ order_keys s r)
       cond (\<lambda>s r. (f r)\<lparr>o_updated_at := clock s\<rparr>)"

definition webhook_checks :: "db \<Rightarrow> webhook_row \<Rightarrow> (string \<times> bool) list" where
  "webhook_checks s r =
    [(''tmc_pay_delivery_id_length'', length_between 1 64 (wd_webhook_id r)),
     (''tmc_pay_delivery_invoice_length'', pred_option (length_between 1 64) (wd_invoice_id r)),
     (''tmc_pay_delivery_event_length'', pred_option (length_between 1 64) (wd_event r)),
     (''tmc_pay_delivery_status_length'', pred_option (length_between 1 32) (wd_status r)),
     (''tmc_pay_delivery_outcome_length'', length_between 1 32 (wd_outcome r))]"

definition webhook_fkeys :: "db \<Rightarrow> webhook_row \<Rightarrow> (string \<times> bool) list" where
  "webhook_fkeys s r =
    [(''tmc_pay_webhook_deliveries_order_id_fkey'', references (wd_order_id r) o_id (orders s))]"

definition update_webhooks :: "(webhook_row \<Rightarrow> bool) \<Rightarrow> (webhook_row \<Rightarrow> webhook_row) \<Rightarrow> int dbtx" where
  "update_webhooks cond f =
     update_where webhook_deliveries (\<lambda>rs. webhook_deliveries_update (\<lambda>_. rs))
       (\<lambda>s r. webhook_checks s r @ webhook_fkeys s r) cond (\<lambda>s. f)"

interpretation order_table: table orders "\<lambda>rs. orders_update (\<lambda>_. rs)" o_id
  by unfold_locales simp

section \<open>Constants\<close>

abbreviation "ORDER_EXTERNAL_ID_INDEX \<equiv> ''tmc_pay_orders_external_idx''"
abbreviation "ORDER_INVOICE_ID_INDEX \<equiv> ''tmc_pay_orders_invoice_idx''"
abbreviation "DELIVERY_ID_INDEX \<equiv> ''tmc_pay_webhook_deliveries_pkey''"

definition CREDITED_INDEXES :: "string list" where
  "CREDITED_INDEXES = [''tmc_pay_orders_credited_ledger_id_key'', ''credit_ledger_tmc_pay_idx'']"

definition OPEN_ORDER_STATES :: "order_state list" where
  "OPEN_ORDER_STATES = [TP_NEW, TP_CREATED, TP_PENDING, TP_CONFIRMING, TP_UNDERPAID]"

definition LIVE_ORDER_STATES :: "order_state list" where
  "LIVE_ORDER_STATES = OPEN_ORDER_STATES"

abbreviation "OUTCOME_CREDITED \<equiv> ''CREDITED''"
abbreviation "OUTCOME_RECORDED \<equiv> ''RECORDED''"
abbreviation "OUTCOME_IGNORED \<equiv> ''IGNORED''"
abbreviation "OUTCOME_UNKNOWN \<equiv> ''UNKNOWN''"
abbreviation "OUTCOME_SUPERSEDED \<equiv> ''SUPERSEDED''"
abbreviation "OUTCOME_FAILED \<equiv> ''FAILED''"

section \<open>Orders\<close>

record observed_rate =
  or_exchange_rate :: string
  or_observed_at :: time
  or_invoice_id :: "string option"

definition latest_exchange_rate :: "db \<Rightarrow> string \<Rightarrow> observed_rate option" where
  "latest_exchange_rate s fiat_currency =
     (case sort_key (\<lambda>r. - o_created_at r)
        (filter (\<lambda>r. o_exchange_rate r \<noteq> None \<and> o_fiat_currency r = Some fiat_currency \<and>
           o_crypto_currency r = Some TAO_CURRENCY) (orders s)) of
        [] \<Rightarrow> None
      | r # _ \<Rightarrow> map_option (\<lambda>x. \<lparr>or_exchange_rate = x, or_observed_at = o_created_at r,
                               or_invoice_id = o_invoice_id r\<rparr>) (o_exchange_rate r))"

definition create_order :: "uuid \<Rightarrow> int \<Rightarrow> rao \<Rightarrow> string \<Rightarrow> order_row dbtx" where
  "create_order account_id credits_requested credit_price_rao external_id =
     thenT (raise_if (credits_requested \<le> 0)
              (PyError (ValueError ''a credit purchase must be for at least one credit'')))
    (bindT new_uuid (\<lambda>n s.
       (let order = \<lparr>o_id = n, o_account_id = account_id, o_credits = credits_requested,
              o_credit_price_rao = credit_price_rao, o_status = TP_NEW, o_external_id = external_id,
              o_invoice_id = None, o_merchant_id = None, o_fiat_amount = None, o_fiat_currency = None,
              o_exchange_rate = None, o_commission_amount = None, o_crypto_amount_rao = None,
              o_crypto_amount = None, o_crypto_currency = None, o_crypto_network = None,
              o_deposit_address = None, o_hosted_invoice_url = None, o_credited_ledger_id = None,
              o_needs_review = False, o_failure_reason = None, o_last_event_id = None,
              o_last_polled_at = None, o_invoice_expires_at = None, o_confirmed_at = None,
              o_created_at = clock s, o_updated_at = clock s\<rparr>
        in thenT (on_integrity (\<lambda>c. if c \<noteq> ORDER_EXTERNAL_ID_INDEX then IntegrityError c
                      else RecordConflict ''that purchase reference has already been used''
                             ''DUPLICATE_TMC_PAY_ORDER'' [(''external_id'', DStr external_id)])
                    (insert_order order))
             (ret order) s)))"

text \<open>What the order is worth: the TAO that arrived, or the price of its credits in any other currency.\<close>

definition paid_rao :: "order_row \<Rightarrow> rao option" where
  "paid_rao r =
     (if o_invoice_id r = None then None
      else if o_crypto_currency r = None \<or> o_crypto_currency r = Some TAO_CURRENCY then o_crypto_amount_rao r
      else Some (o_credits r * o_credit_price_rao r))"

record invoice_terms =
  it_invoice_id :: string
  it_merchant_id :: string
  it_status :: order_state
  it_fiat_amount :: string
  it_fiat_currency :: string
  it_exchange_rate :: string
  it_commission_amount :: "string option"
  it_crypto_amount_rao :: "rao option"
  it_deposit_address :: string
  it_invoice_expires_at :: "time option"
  it_hosted_invoice_url :: "string option"
  it_crypto_amount :: "string option"
  it_crypto_currency :: string
  it_crypto_network :: string

text \<open>The refusals before anything is written.\<close>

definition check_terms :: "order_row \<Rightarrow> invoice_terms \<Rightarrow> unit dbtx" where
  "check_terms order t =
     (let required = o_credits order * o_credit_price_rao order in
      if it_crypto_currency t = TAO_CURRENCY then
        (case it_crypto_amount_rao t of
           None \<Rightarrow> raise (PyError (ValueError ''a TAO invoice must carry an amount in rao''))
         | Some a \<Rightarrow> raise_if (a < required)
             (PyError (ValueError (''invoice locks '' @ str_int a @ '' rao, which is less than the ''
                @ str_int required @ '' rao the credits cost''))))
      else raise_if (it_crypto_amount_rao t \<noteq> None)
             (PyError (ValueError (''an invoice in '' @ it_crypto_currency t
                @ '' must not carry a rao amount; rao is TAO's unit''))))"

definition invoiced :: "order_row \<Rightarrow> invoice_terms \<Rightarrow> order_row" where
  "invoiced order t = order\<lparr>
     o_invoice_id := Some (it_invoice_id t), o_merchant_id := Some (it_merchant_id t),
     o_status := it_status t, o_fiat_amount := Some (it_fiat_amount t),
     o_fiat_currency := Some (it_fiat_currency t), o_exchange_rate := Some (it_exchange_rate t),
     o_crypto_amount_rao := it_crypto_amount_rao t, o_crypto_amount := it_crypto_amount t,
     o_crypto_currency := Some (it_crypto_currency t), o_crypto_network := Some (it_crypto_network t),
     o_deposit_address := Some (it_deposit_address t), o_invoice_expires_at := it_invoice_expires_at t,
     o_hosted_invoice_url :=
       (case it_hosted_invoice_url t of None \<Rightarrow> o_hosted_invoice_url order | Some u \<Rightarrow> Some u),
     o_commission_amount :=
       (case it_commission_amount t of None \<Rightarrow> o_commission_amount order | Some c \<Rightarrow> Some c)\<rparr>"

definition attach_invoice :: "order_row \<Rightarrow> invoice_terms \<Rightarrow> order_row dbtx" where
  "attach_invoice order t =
     thenT (check_terms order t)
    (thenT (on_integrity (\<lambda>c. if c \<noteq> ORDER_INVOICE_ID_INDEX then IntegrityError c
              else RecordConflict ''that invoice already belongs to another order''
                     ''DUPLICATE_TMC_PAY_INVOICE'' [(''invoice_id'', DStr (it_invoice_id t))])
            (flush_order order (invoiced order t)))
     (ret (invoiced order t)))"

definition fail_order :: "order_row \<Rightarrow> string \<Rightarrow> order_row dbtx" where
  "fail_order order reason =
     (let r = order\<lparr>o_status := TP_FAILED, o_failure_reason := Some reason\<rparr>
      in thenT (flush_order order r) (ret r))"

definition fail_order_by_id :: "uuid \<Rightarrow> string \<Rightarrow> bool dbtx" where
  "fail_order_by_id order_id reason =
     bindT (update_orders (\<lambda>r. o_id r = order_id \<and> o_status r = TP_NEW)
              (\<lambda>r. r\<lparr>o_status := TP_FAILED, o_failure_reason := Some reason\<rparr>))
       (\<lambda>n. ret (n \<noteq> 0))"

definition get_order :: "uuid \<Rightarrow> uuid \<Rightarrow> order_row dbtx" where
  "get_order order_id account_id s =
     (case find_row o_id order_id (orders s) of
        None \<Rightarrow> Inl (RecordNotFound ''order not found'')
      | Some r \<Rightarrow> if o_account_id r \<noteq> account_id then Inl (RecordNotFound ''order not found'') else Inr (r, s))"

definition find_by_invoice :: "string \<Rightarrow> order_row option dbtx" where
  "find_by_invoice invoice_id s = scalar_one_or_none (filter (\<lambda>r. o_invoice_id r = Some invoice_id) (orders s)) s"

definition find_by_external_id :: "string \<Rightarrow> order_row option dbtx" where
  "find_by_external_id external_id s = scalar_one_or_none (filter (\<lambda>r. o_external_id r = external_id) (orders s)) s"

definition orders_for :: "db \<Rightarrow> uuid \<Rightarrow> nat \<Rightarrow> (time \<times> uuid) option \<Rightarrow> order_row list" where
  "orders_for s account_id limit after =
     take limit (newest_first o_created_at o_id
       (filter (\<lambda>r. o_account_id r = account_id \<and> before_cursor o_created_at o_id after r) (orders s)))"

definition orders_total :: "db \<Rightarrow> uuid \<Rightarrow> int" where
  "orders_total s account_id = int (length (filter (\<lambda>r. o_account_id r = account_id) (orders s)))"

definition count_live_orders :: "db \<Rightarrow> uuid \<Rightarrow> time \<Rightarrow> int" where
  "count_live_orders s account_id now =
     int (length (filter (\<lambda>r. o_account_id r = account_id \<and> o_status r \<in> set LIVE_ORDER_STATES \<and>
       pred_option (\<lambda>t. t > now) (o_invoice_expires_at r)) (orders s)))"

definition open_orders :: "db \<Rightarrow> nat \<Rightarrow> time option \<Rightarrow> order_row list" where
  "open_orders s limit before =
     take limit (sort_key o_created_at
       (filter (\<lambda>r. o_status r \<in> set OPEN_ORDER_STATES \<and>
          (case before of None \<Rightarrow> True | Some b \<Rightarrow> pred_option (\<lambda>t. t < b) (o_last_polled_at r))) (orders s)))"

text \<open>The fields a caller may leave out: an event id and a poll time are only ever set.\<close>

definition stamped :: "string option \<Rightarrow> time option \<Rightarrow> order_row \<Rightarrow> order_row" where
  "stamped event_id polled_at r = r\<lparr>
     o_last_event_id := (case event_id of None \<Rightarrow> o_last_event_id r | Some e \<Rightarrow> Some e),
     o_last_polled_at := (case polled_at of None \<Rightarrow> o_last_polled_at r | Some t \<Rightarrow> Some t)\<rparr>"

definition with_status :: "order_row \<Rightarrow> order_state \<Rightarrow> time option \<Rightarrow> bool \<Rightarrow> order_row" where
  "with_status order status confirmed_at needs_review =
     (if o_credited_ledger_id order \<noteq> None \<and> status \<notin> {TP_CONFIRMED, TP_OVERPAID, TP_LATE_PAYMENT}
      then order\<lparr>o_needs_review := True\<rparr>
      else order\<lparr>o_status := status,
             o_confirmed_at := (case confirmed_at of None \<Rightarrow> o_confirmed_at order | Some t \<Rightarrow> Some t),
             o_needs_review := (o_needs_review order \<or> needs_review)\<rparr>)"

definition record_status ::
  "order_row \<Rightarrow> order_state \<Rightarrow> time option \<Rightarrow> bool \<Rightarrow> string option \<Rightarrow> time option \<Rightarrow> order_row dbtx" where
  "record_status order status confirmed_at needs_review event_id polled_at =
     (let r = stamped event_id polled_at (with_status order status confirmed_at needs_review)
      in thenT (flush_order order r) (ret r))"

record settled_order =
  so_order :: order_row
  so_entry :: ledger_row
  so_balance :: credit_balance

definition not_invoiced :: "order_row \<Rightarrow> db_error" where
  "not_invoiced r = RecordConflict ''that order has no invoice to settle'' ''TMC_PAY_ORDER_NOT_INVOICED''
     [(''order_id'', DUuid (Some (o_id r)))]"

definition already_credited :: "order_row \<Rightarrow> db_error" where
  "already_credited r = RecordConflict ''that order has already been credited'' ''TMC_PAY_ORDER_ALREADY_CREDITED''
     [(''order_id'', DUuid (Some (o_id r)))]"

text \<open>\<open>SELECT ... WHERE id = ... FOR UPDATE\<close>, and \<open>scalar_one\<close>.\<close>

definition locked_order :: "order_row \<Rightarrow> order_row dbtx" where
  "locked_order order s =
     (case find_row o_id (o_id order) (orders s) of None \<Rightarrow> Inl NoResultFound | Some r \<Rightarrow> Inr (r, s))"

definition order_bonus :: "order_row \<Rightarrow> bonus_schedule \<Rightarrow> string \<Rightarrow> unit dbtx" where
  "order_bonus locked schedule created_by =
     (let bonus = bonus_rao_for_credits (o_credits locked) (o_credit_price_rao locked) schedule in
      if bonus \<noteq> 0 then
        bindT (lift_py (bonus_reason (o_credits locked) bonus (o_credit_price_rao locked))) (\<lambda>reason.
        thenT (record_entry (o_account_id locked) BONUS bonus None None None None None (Some reason) created_by)
          (ret ()))
      else ret ())"

definition credited_order ::
  "order_row \<Rightarrow> serial \<Rightarrow> order_state \<Rightarrow> time \<Rightarrow> bool \<Rightarrow> string option \<Rightarrow> time option \<Rightarrow> order_row" where
  "credited_order locked entry status confirmed needs_review event_id polled_at =
     stamped event_id polled_at (locked\<lparr>o_status := status, o_confirmed_at := Some confirmed,
       o_credited_ledger_id := Some entry, o_needs_review := (o_needs_review locked \<or> needs_review)\<rparr>)"

definition settle_order ::
  "order_row \<Rightarrow> order_state \<Rightarrow> time option \<Rightarrow> bool \<Rightarrow> string option \<Rightarrow> time option \<Rightarrow> time \<Rightarrow>
   bonus_schedule \<Rightarrow> string \<Rightarrow> settled_order dbtx" where
  "settle_order order status confirmed_at needs_review event_id polled_at now schedule created_by =
     thenT (raise_if (paid_rao order = None) (not_invoiced order))
    (thenT (lock_account (o_account_id order))
    (bindT (locked_order order) (\<lambda>locked.
     thenT (raise_if (o_credited_ledger_id locked \<noteq> None) (already_credited locked))
    (case paid_rao locked of
       None \<Rightarrow> raise (not_invoiced locked)
     | Some amount \<Rightarrow>
    bindT (record_entry (o_account_id locked) DEPOSIT amount None None None (Some (o_id locked)) None None created_by)
      (\<lambda>entry.
     thenT (order_bonus locked schedule created_by)
    (let r = credited_order locked (l_id entry) status (case confirmed_at of None \<Rightarrow> now | Some t \<Rightarrow> t)
               needs_review event_id polled_at
     in thenT (on_integrity (\<lambda>c. if c \<notin> set CREDITED_INDEXES then IntegrityError c else already_credited order)
                (flush_order locked r))
       (bindT (get_credit_balance (o_account_id locked) (o_credit_price_rao locked) now 1) (\<lambda>b.
        ret \<lparr>so_order = r, so_entry = entry, so_balance = b\<rparr>))))))))"

definition expire_lapsed_orders :: "time \<Rightarrow> int dbtx" where
  "expire_lapsed_orders now =
     update_orders (\<lambda>r. o_status r \<in> {TP_NEW, TP_CREATED} \<and>
         (case o_invoice_expires_at r of None \<Rightarrow> False | Some t \<Rightarrow> t \<le> now))
       (\<lambda>r. r\<lparr>o_status := TP_EXPIRED\<rparr>)"

section \<open>Webhook deliveries\<close>

text \<open>
  The insert in a savepoint: a collision on the delivery id falls through to the conditional update,
  any other violation is raised.
\<close>

definition claim_delivery :: "string \<Rightarrow> string option \<Rightarrow> string option \<Rightarrow> string option \<Rightarrow> bool dbtx" where
  "claim_delivery webhook_id invoice_id event status s =
     (let delivery = \<lparr>wd_webhook_id = webhook_id, wd_order_id = None, wd_invoice_id = invoice_id,
            wd_event = event, wd_status = status, wd_outcome = OUTCOME_IGNORED, wd_received_at = clock s\<rparr>
      in case insert_into webhook_deliveries (\<lambda>rs. webhook_deliveries_update (\<lambda>_. rs))
                (\<lambda>s r. webhook_checks s r @
                   [(DELIVERY_ID_INDEX, list_all (\<lambda>x. wd_webhook_id x \<noteq> wd_webhook_id r) (webhook_deliveries s))] @
                   webhook_fkeys s r) delivery s of
           Inr (_, s') \<Rightarrow> Inr (True, s')
         | Inl e \<Rightarrow>
             if e \<noteq> IntegrityError DELIVERY_ID_INDEX then Inl e
             else bindT (update_webhooks (\<lambda>r. wd_webhook_id r = webhook_id \<and> wd_outcome r = OUTCOME_FAILED)
                          (\<lambda>r. r\<lparr>wd_outcome := OUTCOME_IGNORED, wd_invoice_id := invoice_id, wd_event := event,
                              wd_status := status\<rparr>))
                    (\<lambda>n. ret (n \<noteq> 0)) s)"

definition note_delivery_outcome :: "string \<Rightarrow> string \<Rightarrow> uuid option \<Rightarrow> unit dbtx" where
  "note_delivery_outcome webhook_id outcome order_id =
     thenT (update_webhooks (\<lambda>r. wd_webhook_id r = webhook_id)
              (\<lambda>r. r\<lparr>wd_outcome := outcome,
                  wd_order_id := (case order_id of None \<Rightarrow> wd_order_id r | Some n \<Rightarrow> Some n)\<rparr>))
       (ret ())"

definition flag_for_review :: "uuid \<Rightarrow> unit dbtx" where
  "flag_for_review order_id =
     thenT (update_orders (\<lambda>r. o_id r = order_id) (\<lambda>r. r\<lparr>o_needs_review := True\<rparr>)) (ret ())"

definition deliveries_for :: "db \<Rightarrow> uuid \<Rightarrow> nat \<Rightarrow> webhook_row list" where
  "deliveries_for s order_id limit =
     take limit (sort_key (\<lambda>r. - wd_received_at r) (filter (\<lambda>r. wd_order_id r = Some order_id) (webhook_deliveries s)))"

section \<open>The machine\<close>

text \<open>
  Every operation that writes.  An invoice is attached to an order that has not been credited: the
  purchase attaches the one it created, and the webhook attaches one to an order that has none.
  \<open>settle_order\<close> may be handed any copy of the order, however old.
\<close>

inductive order_step :: "db \<Rightarrow> db \<Rightarrow> bool" where
  ordered: "create_order a c p e s = Inr (r, s') \<Longrightarrow> order_step s s'"
| attached: "find_row o_id n (orders s) = Some r \<Longrightarrow> o_credited_ledger_id r = None \<Longrightarrow>
    attach_invoice r t s = Inr (r', s') \<Longrightarrow> order_step s s'"
| failed: "find_row o_id n (orders s) = Some r \<Longrightarrow> fail_order r why s = Inr (r', s') \<Longrightarrow> order_step s s'"
| closed: "fail_order_by_id n why s = Inr (b, s') \<Longrightarrow> order_step s s'"
| status_recorded: "find_row o_id n (orders s) = Some r \<Longrightarrow> record_status r st cf review ev poll s = Inr (r', s') \<Longrightarrow>
    order_step s s'"
| settled: "settle_order r st cf review ev poll now sch who s = Inr (so, s') \<Longrightarrow> order_step s s'"
| lapsed: "expire_lapsed_orders now s = Inr (m, s') \<Longrightarrow> order_step s s'"
| delivery_claimed: "claim_delivery w i e st s = Inr (b, s') \<Longrightarrow> order_step s s'"
| outcome_noted: "note_delivery_outcome w out n s = Inr (u, s') \<Longrightarrow> order_step s s'"
| flagged: "flag_for_review n s = Inr (u, s') \<Longrightarrow> order_step s s'"

section \<open>What one operation does\<close>

lemma insert_order_Inr [tx_simps]:
  "insert_order r s = Inr (u, s') \<longleftrightarrow>
     (\<forall>c \<in> set (order_checks r @ order_keys s r). snd c) \<and> s' = s\<lparr>orders := orders s @ [r]\<rparr>"
  by (auto simp: insert_order_def insert_into_Inr)

lemma flush_order_Inr [tx_simps]:
  "flush_order old r s = Inr (u, s') \<longleftrightarrow>
     (if r = old then s' = s
      else (\<forall>c \<in> set (order_checks (r\<lparr>o_updated_at := clock s\<rparr>) @ order_keys s (r\<lparr>o_updated_at := clock s\<rparr>)). snd c) \<and>
        s' = s\<lparr>orders := replace_row o_id (r\<lparr>o_updated_at := clock s\<rparr>) (orders s)\<rparr>)"
  by (auto simp: flush_order_def update_in_Inr)

lemma update_orders_Inr [tx_simps]:
  "update_orders cond f s = Inr (n, s') \<longleftrightarrow>
     (\<forall>r \<in> set (orders s). cond r \<longrightarrow> (\<forall>c \<in> set (order_checks ((f r)\<lparr>o_updated_at := clock s\<rparr>) @
        order_keys s ((f r)\<lparr>o_updated_at := clock s\<rparr>)). snd c)) \<and>
     n = int (length (filter cond (orders s))) \<and>
     s' = s\<lparr>orders := map (\<lambda>r. if cond r then (f r)\<lparr>o_updated_at := clock s\<rparr> else r) (orders s)\<rparr>"
  by (simp add: update_orders_def update_where_Inr)

lemma update_webhooks_Inr [tx_simps]:
  "update_webhooks cond f s = Inr (n, s') \<longleftrightarrow>
     (\<forall>r \<in> set (webhook_deliveries s). cond r \<longrightarrow> (\<forall>c \<in> set (webhook_checks s (f r) @ webhook_fkeys s (f r)). snd c)) \<and>
     n = int (length (filter cond (webhook_deliveries s))) \<and>
     s' = s\<lparr>webhook_deliveries := map (\<lambda>r. if cond r then f r else r) (webhook_deliveries s)\<rparr>"
  by (simp add: update_webhooks_def update_where_Inr)

lemma claim_delivery_frame: "claim_delivery w i e st s = Inr (b, s') \<Longrightarrow> \<exists>ds. s' = s\<lparr>webhook_deliveries := ds\<rparr>"
  unfolding claim_delivery_def Let_def
  by (auto simp: tx_simps insert_into_def split: sum.splits option.splits if_splits)

lemma order_bonus_Inr:
  assumes "order_bonus r sch who s = Inr (u, s')"
  obtains es where "s' = s\<lparr>next_ledger_id := next_ledger_id s + length es, ledger := ledger s @ es\<rparr>"
    "map l_id es = [next_ledger_id s..<next_ledger_id s + length es]"
    "\<forall>x \<in> set es. l_account_id x = o_account_id r \<and> l_kind x = BONUS \<and> l_intent_id x = None \<and> l_deposit_id x = None \<and>
       l_tmc_pay_order_id x = None \<and> l_invitation_redemption_id x = None \<and> 0 < l_amount_rao x"
    "sum_list (map l_amount_rao es) = bonus_rao_for_credits (o_credits r) (o_credit_price_rao r) sch"
proof (cases "bonus_rao_for_credits (o_credits r) (o_credit_price_rao r) sch = 0")
  case True
  then show thesis using assms by (intro that [of "[]"]) (simp_all add: order_bonus_def)
next
  case False
  then obtain e reason where r: "record_entry (o_account_id r) BONUS
      (bonus_rao_for_credits (o_credits r) (o_credit_price_rao r) sch) None None None None None (Some reason) who s = Inr (e, s')"
    using assms by (auto simp: order_bonus_def Let_def tx_simps)
  note e = record_entry_Inr [OF r]
  have "0 < l_amount_rao e" using record_entry_positive [OF r] e(5) by simp
  then show thesis using e by (intro that [of "[e]"]) simp_all
qed

text \<open>The columns of an order that decide what it is worth and whose it is.\<close>

definition order_value :: "order_row \<Rightarrow> uuid \<times> uuid \<times> int \<times> rao \<times> string option \<times> rao option \<times> string option" where
  "order_value r = (o_id r, o_account_id r, o_credits r, o_credit_price_rao r, o_invoice_id r, o_crypto_amount_rao r,
     o_crypto_currency r)"

lemma paid_rao_cong: "order_value r = order_value r' \<Longrightarrow> paid_rao r = paid_rao r'"
  by (simp add: paid_rao_def order_value_def)

lemma settle_order_Inr:
  assumes "settle_order r st cf review ev poll now sch who s = Inr (so, s')"
  obtains locked amount bs where
    "find_row o_id (o_id r) (orders s) = Some locked" "o_credited_ledger_id locked = None"
    "paid_rao locked = Some amount" "0 < amount"
    "l_id (so_entry so) = next_ledger_id s" "l_account_id (so_entry so) = o_account_id locked"
    "l_kind (so_entry so) = DEPOSIT" "l_amount_rao (so_entry so) = amount" "l_deposit_id (so_entry so) = None"
    "l_tmc_pay_order_id (so_entry so) = Some (o_id locked)" "l_invitation_redemption_id (so_entry so) = None"
    "map l_id bs = [Suc (next_ledger_id s)..<Suc (next_ledger_id s) + length bs]"
    "\<forall>x \<in> set bs. l_account_id x = o_account_id locked \<and> l_kind x = BONUS \<and> l_intent_id x = None \<and>
       l_deposit_id x = None \<and> l_tmc_pay_order_id x = None \<and> l_invitation_redemption_id x = None \<and> 0 < l_amount_rao x"
    "sum_list (map l_amount_rao bs) = bonus_rao_for_credits (o_credits locked) (o_credit_price_rao locked) sch"
    "so_order so = credited_order locked (next_ledger_id s) st (case cf of None \<Rightarrow> now | Some t \<Rightarrow> t) review ev poll"
    "s' = s\<lparr>next_ledger_id := Suc (next_ledger_id s) + length bs, ledger := ledger s @ so_entry so # bs,
       orders := replace_row o_id ((so_order so)\<lparr>o_updated_at := clock s\<rparr>) (orders s)\<rparr>"
    "\<forall>c \<in> set (order_checks ((so_order so)\<lparr>o_updated_at := clock s\<rparr>)). snd c"
    "cb_balance_rao (so_balance so) = balance_rao s' (o_account_id locked)"
proof -
  let ?t = "case cf of None \<Rightarrow> now | Some t \<Rightarrow> t"
  obtain locked where l1: "find_row o_id (o_id r) (orders s) = Some locked"
    using assms by (cases "find_row o_id (o_id r) (orders s)") (auto simp: settle_order_def locked_order_def tx_simps)
  have l2: "o_credited_ledger_id locked = None"
    using assms l1 by (auto simp: settle_order_def locked_order_def thenT_Inr_iff bindT_Inr_iff lock_account_Inr)
  obtain amount where l3: "paid_rao locked = Some amount"
    using assms l1 by (cases "paid_rao locked") (auto simp: settle_order_def locked_order_def thenT_Inr_iff bindT_Inr_iff lock_account_Inr)
  note l = l1 l2 l3
  from assms obtain e s1 s2 u s3 b where
    e: "record_entry (o_account_id locked) DEPOSIT amount None None None (Some (o_id locked)) None None who s = Inr (e, s1)"
    and bo: "order_bonus locked sch who s1 = Inr (u, s2)"
    and f: "flush_order locked (credited_order locked (l_id e) st ?t review ev poll) s2 = Inr ((), s3)"
    and ba: "get_credit_balance (o_account_id locked) (o_credit_price_rao locked) now 1 s3 = Inr (b, s')"
    and so: "so = \<lparr>so_order = credited_order locked (l_id e) st ?t review ev poll, so_entry = e, so_balance = b\<rparr>"
    using l unfolding settle_order_def locked_order_def
    by (auto simp: thenT_Inr_iff bindT_Inr_iff lock_account_Inr Let_def simp del: flush_order_Inr)
  note E = record_entry_Inr [OF e]
  have pos: "0 < amount" using record_entry_positive [OF e] by simp
  obtain bs where bs: "s2 = s1\<lparr>next_ledger_id := next_ledger_id s1 + length bs, ledger := ledger s1 @ bs\<rparr>"
    "map l_id bs = [next_ledger_id s1..<next_ledger_id s1 + length bs]"
    "\<forall>x \<in> set bs. l_account_id x = o_account_id locked \<and> l_kind x = BONUS \<and> l_intent_id x = None \<and> l_deposit_id x = None \<and>
       l_tmc_pay_order_id x = None \<and> l_invitation_redemption_id x = None \<and> 0 < l_amount_rao x"
    "sum_list (map l_amount_rao bs) = bonus_rao_for_credits (o_credits locked) (o_credit_price_rao locked) sch"
    by (rule order_bonus_Inr [OF bo])
  let ?r = "credited_order locked (l_id e) st ?t review ev poll"
  have ne: "?r \<noteq> locked"
  proof
    assume "?r = locked"
    then have "o_credited_ledger_id ?r = o_credited_ledger_id locked" by simp
    then show False using l(2) by (simp add: credited_order_def stamped_def)
  qed
  note B = get_credit_balance_Inr [OF ba]
  show thesis
    using l pos E bs f [unfolded flush_order_Inr] ne so B by (intro that [of locked amount bs]) simp_all
qed

section \<open>Invariants\<close>

text \<open>
  An order that says it was credited is paired with one DEPOSIT entry, of its account and of what it
  is worth, and every entry that names an order is the one that order points at.  So what the ledger
  says was purchased is what the credited orders collected.
\<close>

definition entry_for :: "order_row \<Rightarrow> ledger_row \<Rightarrow> bool" where
  "entry_for r l \<longleftrightarrow> l_kind l = DEPOSIT \<and> l_account_id l = o_account_id r \<and>
     l_tmc_pay_order_id l = Some (o_id r) \<and> paid_rao r = Some (l_amount_rao l)"

definition order_worth :: "order_row \<Rightarrow> rao" where
  "order_worth r = (case paid_rao r of None \<Rightarrow> 0 | Some v \<Rightarrow> v)"

definition purchased_rao :: "db \<Rightarrow> uuid \<Rightarrow> rao" where
  "purchased_rao s a = sum_where (\<lambda>l. l_account_id l = a \<and> l_tmc_pay_order_id l \<noteq> None) l_amount_rao (ledger s)"

definition collected_rao :: "db \<Rightarrow> uuid \<Rightarrow> rao" where
  "collected_rao s a = sum_where (\<lambda>r. o_account_id r = a \<and> o_credited_ledger_id r \<noteq> None) order_worth (orders s)"

definition orders_keyed :: "db \<Rightarrow> bool" where
  "orders_keyed s \<longleftrightarrow> distinct (map o_id (orders s)) \<and>
     one_per o_id (\<lambda>r. Some (o_external_id r)) (orders s) \<and> one_per o_id o_invoice_id (orders s) \<and>
     (\<forall>r \<in> set (orders s). o_id r < next_uuid s \<and> (\<forall>c \<in> set (order_checks r). snd c))"

definition orders_paired :: "db \<Rightarrow> bool" where
  "orders_paired s \<longleftrightarrow>
     (\<forall>r \<in> set (orders s). \<forall>n. o_credited_ledger_id r = Some n \<longrightarrow> (\<exists>l \<in> set (ledger s). l_id l = n \<and> entry_for r l)) \<and>
     (\<forall>l \<in> set (ledger s). \<forall>n. l_tmc_pay_order_id l = Some n \<longrightarrow>
        (\<exists>r \<in> set (orders s). o_id r = n \<and> o_credited_ledger_id r = Some (l_id l)))"

definition orders_ok :: "db \<Rightarrow> bool" where
  "orders_ok s \<longleftrightarrow> orders_keyed s \<and> orders_paired s \<and> (\<forall>a. purchased_rao s a = collected_rao s a)"

text \<open>A row rewritten so: whose it is, what was asked and whether it was credited stay; once credited, all of its value stays.\<close>

definition order_kept :: "order_row \<Rightarrow> order_row \<Rightarrow> bool" where
  "order_kept r r' \<longleftrightarrow> o_id r' = o_id r \<and> o_account_id r' = o_account_id r \<and> o_external_id r' = o_external_id r \<and>
     o_credited_ledger_id r' = o_credited_ledger_id r \<and>
     (o_credited_ledger_id r \<noteq> None \<longrightarrow> order_value r' = order_value r)"

lemma order_keptD:
  assumes "order_kept r r'"
  shows "o_id r' = o_id r" and "o_external_id r' = o_external_id r" and "o_credited_ledger_id r' = o_credited_ledger_id r"
    and "o_account_id r' = o_account_id r"
    and "o_credited_ledger_id r \<noteq> None \<Longrightarrow> entry_for r' l = entry_for r l \<and> order_worth r' = order_worth r"
  using assms paid_rao_cong [of r' r] by (auto simp: order_kept_def entry_for_def order_worth_def)

lemma rewrite_orders_ok:
  assumes inv: "orders_ok s" and s': "orders s' = map f (orders s)" "ledger s' = ledger s" "next_uuid s' = next_uuid s"
    and f: "\<And>r. r \<in> set (orders s) \<Longrightarrow> order_kept r (f r) \<and> (\<forall>c \<in> set (order_checks (f r)). snd c)"
    and u: "one_per o_id o_invoice_id (map f (orders s))"
  shows "orders_ok s'"
proof -
  note k = order_keptD [OF conjunct1 [OF f]]
  have ids: "map o_id (map f (orders s)) = map o_id (orders s)" using k(1) by simp
  have "one_per o_id (\<lambda>r. Some (o_external_id r)) (orders s')"
    using inv one_per_map [of "orders s" o_id f "\<lambda>r. Some (o_external_id r)"] k(1,2) by (simp add: s' orders_ok_def orders_keyed_def)
  then have "orders_keyed s'"
    using inv u f k(1) unfolding orders_ok_def orders_keyed_def s' ids by simp
  moreover have "orders_paired s'" unfolding orders_paired_def
  proof (intro conjI ballI allI impI)
    fix r' n assume "r' \<in> set (orders s')" "o_credited_ledger_id r' = Some n"
    then obtain r where r: "r \<in> set (orders s)" "r' = f r" by (auto simp: s')
    with k(3) \<open>o_credited_ledger_id r' = Some n\<close> have "o_credited_ledger_id r = Some n" by simp
    then show "\<exists>l \<in> set (ledger s'). l_id l = n \<and> entry_for r' l"
      using inv r k(5) by (simp add: orders_ok_def orders_paired_def s')
  next
    fix l n assume "l \<in> set (ledger s')" "l_tmc_pay_order_id l = Some n"
    then obtain r where "r \<in> set (orders s)" "o_id r = n" "o_credited_ledger_id r = Some (l_id l)"
      using inv unfolding orders_ok_def orders_paired_def s' by blast
    then show "\<exists>r \<in> set (orders s'). o_id r = n \<and> o_credited_ledger_id r = Some (l_id l)"
      using k(1,3) by (auto simp: s' intro!: bexI [of _ r])
  qed
  moreover have "collected_rao s' a = collected_rao s a" for a
  proof -
    have "sum_where p order_worth (map f xs) = sum_where q order_worth xs"
      if "\<And>r. r \<in> set xs \<Longrightarrow> p (f r) = q r \<and> (q r \<longrightarrow> order_worth (f r) = order_worth r)" for p q xs
      using that by (induction xs) auto
    then show ?thesis using k by (simp add: collected_rao_def s')
  qed
  moreover have "purchased_rao s' a = purchased_rao s a" for a by (simp add: purchased_rao_def s')
  ultimately show ?thesis using inv by (simp add: orders_ok_def)
qed

lemma flush_order_ok:
  assumes inv: "orders_ok s" and o': "find_row o_id n (orders s) = Some old" and k: "order_kept old r"
    and w: "flush_order old r s = Inr (u, s')"
  shows "orders_ok s'"
proof (cases "r = old")
  case False
  let ?r = "r\<lparr>o_updated_at := clock s\<rparr>"
  from w False have ck: "\<forall>c \<in> set (order_checks ?r). snd c" and ky: "unique_on o_id o_invoice_id ?r (orders s)"
    and s': "s' = s\<lparr>orders := replace_row o_id ?r (orders s)\<rparr>" by (simp_all add: flush_order_Inr order_keys_def)
  note old = find_row_Some [OF o']
  have "order_kept old ?r" using k by (simp add: order_kept_def order_value_def)
  moreover have "x = old" if "x \<in> set (orders s)" "o_id x = o_id ?r" for x
    using inv that old k by (intro same_key [of o_id "orders s"]) (simp_all add: orders_ok_def orders_keyed_def order_kept_def)
  ultimately have "order_kept x (if o_id x = o_id ?r then ?r else x)" if "x \<in> set (orders s)" for x
    using that by (auto simp: order_kept_def)
  then show ?thesis
    using inv ck one_per_replace [OF _ ky]
    by (intro rewrite_orders_ok [OF inv, of s' "\<lambda>x. if o_id x = o_id ?r then ?r else x"])
      (auto simp: s' replace_row_def orders_ok_def orders_keyed_def)
qed (use w inv in \<open>simp add: flush_order_Inr\<close>)

lemma update_orders_ok:
  assumes inv: "orders_ok s" and w: "update_orders cond f s = Inr (m, s')"
    and f: "\<And>r. order_value (f r) = order_value r \<and> o_external_id (f r) = o_external_id r \<and>
      o_credited_ledger_id (f r) = o_credited_ledger_id r"
  shows "orders_ok s'"
proof -
  define g where "g r = (if cond r then (f r)\<lparr>o_updated_at := clock s\<rparr> else r)" for r
  from w have ck: "\<forall>r \<in> set (orders s). cond r \<longrightarrow> (\<forall>c \<in> set (order_checks ((f r)\<lparr>o_updated_at := clock s\<rparr>)). snd c)"
    and s': "s' = s\<lparr>orders := map g (orders s)\<rparr>" by (auto simp: update_orders_Inr g_def [abs_def])
  have kept: "order_kept r (g r)" "o_invoice_id (g r) = o_invoice_id r" for r
    using f [of r] by (auto simp: g_def order_kept_def order_value_def)
  have "\<forall>c \<in> set (order_checks (g r)). snd c" if "r \<in> set (orders s)" for r
    using inv ck that by (cases "cond r") (simp_all add: g_def orders_ok_def orders_keyed_def)
  moreover have "one_per o_id o_invoice_id (map g (orders s))"
    using inv kept order_keptD(1) by (subst one_per_map) (auto simp: orders_ok_def orders_keyed_def)
  ultimately show ?thesis using kept(1) by (intro rewrite_orders_ok [OF inv, of s' g]) (auto simp: s')
qed

text \<open>Other components write the ledger too, but name no order.\<close>

lemma orders_ok_outside:
  assumes inv: "orders_ok s" and s': "orders s' = orders s" "ledger s' = ledger s @ es" "next_uuid s \<le> next_uuid s'"
    and es: "\<forall>l \<in> set es. l_tmc_pay_order_id l = None"
  shows "orders_ok s'"
proof -
  have "orders_keyed s'" using inv s'(3) by (fastforce simp: orders_ok_def orders_keyed_def s'(1))
  moreover have "orders_paired s'" using inv es by (fastforce simp: orders_ok_def orders_paired_def s'(1,2))
  moreover have "sum_where (\<lambda>l. l_account_id l = a \<and> l_tmc_pay_order_id l \<noteq> None) l_amount_rao es = 0" for a
    using es by (induction es) auto
  then have "purchased_rao s' a = purchased_rao s a" for a by (simp add: purchased_rao_def s'(2))
  ultimately show ?thesis using inv by (simp add: orders_ok_def collected_rao_def s'(1))
qed

lemma settle_order_ok:
  assumes inv: "orders_ok s" and w: "settle_order r st cf review ev poll now sch who s = Inr (so, s')"
  shows "orders_ok s'"
  using w
proof (cases rule: settle_order_Inr)
  case (1 locked amount bs)
  let ?r = "(so_order so)\<lparr>o_updated_at := clock s\<rparr>"
  have l: "locked \<in> set (orders s)" "o_id locked = o_id r" using find_row_Some [OF 1(1)] by simp_all
  have s': "orders s' = replace_row o_id ?r (orders s)" "ledger s' = ledger s @ so_entry so # bs" "next_uuid s' = next_uuid s"
    by (subst 1(16), simp)+
  have r: "order_value ?r = order_value locked" "o_external_id ?r = o_external_id locked"
    "o_credited_ledger_id ?r = Some (next_ledger_id s)" "o_invoice_id ?r = o_invoice_id locked"
    by (simp_all add: 1(15) credited_order_def stamped_def order_value_def)
  then have id: "o_id ?r = o_id locked" "o_account_id ?r = o_account_id locked" "paid_rao ?r = Some amount"
    using paid_rao_cong [OF r(1)] 1(3) by (simp_all add: order_value_def)
  from inv have k: "orders_keyed s" "orders_paired s" by (simp_all add: orders_ok_def)
  have d: "distinct (map o_id (orders s))" using k(1) by (simp add: orders_keyed_def)
  have one: "one_per o_id col (orders s')" if "one_per o_id col (orders s)" "col ?r = col locked" for col :: "order_row \<Rightarrow> 'c option"
  proof (rule one_per_add [OF that(1), of ?r])
    show "unique_on o_id col ?r (orders s)"
      using one_perD [OF that(1) _ l(1)] that(2) id(1)
      by (auto simp: unique_on_def list_all_iff split: option.splits)
    show "x \<in> set (orders s') \<Longrightarrow> x = ?r \<or> x \<in> set (orders s)" for x using set_replace_row [of o_id ?r "orders s"] by (auto simp: s')
  qed
  have "\<forall>x \<in> set (orders s'). o_id x < next_uuid s' \<and> (\<forall>c \<in> set (order_checks x). snd c)"
  proof
    fix x assume "x \<in> set (orders s')"
    then have "x = ?r \<or> x \<in> set (orders s)" using set_replace_row [of o_id ?r "orders s"] by (auto simp: s'(1))
    then show "o_id x < next_uuid s' \<and> (\<forall>c \<in> set (order_checks x). snd c)"
      using k(1) 1(17) id(1) l(1) by (auto simp: orders_keyed_def s'(3))
  qed
  moreover have "one_per o_id (\<lambda>r. Some (o_external_id r)) (orders s')" "one_per o_id o_invoice_id (orders s')"
    using k(1) r(2,4) by (auto intro!: one simp: orders_keyed_def)
  ultimately have "orders_keyed s'" using d by (simp add: orders_keyed_def s'(1))
  moreover have "orders_paired s'" unfolding orders_paired_def
  proof (intro conjI ballI allI impI)
    fix x n assume x: "x \<in> set (orders s')" "o_credited_ledger_id x = Some n"
    show "\<exists>y \<in> set (ledger s'). l_id y = n \<and> entry_for x y"
    proof (cases "x = ?r")
      case True
      then have "n = next_ledger_id s" "entry_for x (so_entry so)"
        using x(2) r(3) id 1(6-11) by (simp_all add: entry_for_def)
      then show ?thesis using 1(5) by (intro bexI [of _ "so_entry so"]) (simp_all add: s'(2))
    next
      case False
      then have "x \<in> set (orders s)" using x(1) set_replace_row [of o_id ?r "orders s"] by (auto simp: s'(1))
      then show ?thesis using k(2) x(2) by (fastforce simp: orders_paired_def s'(2))
    qed
  next
    fix y n assume y: "y \<in> set (ledger s')" "l_tmc_pay_order_id y = Some n"
    have new: "?r \<in> set (orders s')" unfolding s'(1) using l(1) id(1) by (intro replace_row_mem [of locked]) simp_all
    consider "y \<in> set (ledger s)" | "y = so_entry so" using y 1(13) by (auto simp: s'(2))
    then show "\<exists>x \<in> set (orders s'). o_id x = n \<and> o_credited_ledger_id x = Some (l_id y)"
    proof cases
      case 1
      then obtain x where x: "x \<in> set (orders s)" "o_id x = n" "o_credited_ledger_id x = Some (l_id y)"
        using k(2) y(2) unfolding orders_paired_def by blast
      then have "x \<noteq> locked" using \<open>o_credited_ledger_id locked = None\<close> by auto
      then have "x \<in> set (orders s')" unfolding s'(1) using d l(1) id(1) x(1) by (intro mem_replace_row [of o_id _ locked]) simp_all
      then show ?thesis using x by blast
    next
      case 2
      then show ?thesis using new r(3) id(1) y(2) 1(5,10) by (intro bexI [of _ ?r]) simp_all
    qed
  qed
  moreover have "purchased_rao s' a = collected_rao s' a" for a
  proof -
    have "sum_where (\<lambda>l. l_account_id l = a \<and> l_tmc_pay_order_id l \<noteq> None) l_amount_rao bs = 0"
      using 1(13) by (induction bs) auto
    then have "purchased_rao s' a = purchased_rao s a + (if o_account_id locked = a then amount else 0)"
      using 1(6,8,10) by (simp add: purchased_rao_def s'(2))
    moreover have "collected_rao s' a = collected_rao s a + (if o_account_id locked = a then amount else 0)"
      unfolding collected_rao_def s'(1) using sum_where_replace_row [OF d l(1), of ?r] id r(3) 1(2)
      by (simp add: order_worth_def)
    ultimately show ?thesis using inv by (simp add: orders_ok_def)
  qed
  ultimately show ?thesis by (simp add: orders_ok_def)
qed

lemma order_step_ok: "order_step s s' \<Longrightarrow> orders_ok s \<Longrightarrow> orders_ok s'"
proof (induction rule: order_step.induct)
  case (ordered a c p e s r s')
  from ordered(1) have s': "s' = s\<lparr>next_uuid := Suc (next_uuid s), orders := orders s @ [r]\<rparr>"
    and ck: "\<forall>c \<in> set (order_checks r). snd c" "unique_on o_id (\<lambda>x. Some (o_external_id x)) r (orders s)"
      "unique_on o_id o_invoice_id r (orders s)"
    and r: "o_id r = next_uuid s" "o_credited_ledger_id r = None"
    by (auto simp: create_order_def tx_simps Let_def order_keys_def)
  from ordered(2) have k: "orders_keyed s" "orders_paired s" by (simp_all add: orders_ok_def)
  have "orders_keyed s'" using k(1) ck r(1) one_per_insert [OF _ ck(2)] one_per_insert [OF _ ck(3)]
    by (fastforce simp: orders_keyed_def s')
  moreover have "orders_paired s'" using k(2) r(2) by (fastforce simp: orders_paired_def s')
  moreover have "purchased_rao s' x = collected_rao s' x" for x
    using ordered(2) r(2) by (simp add: orders_ok_def purchased_rao_def collected_rao_def s')
  ultimately show ?case by (simp add: orders_ok_def)
next
  case (attached n s r t r' s')
  have "order_kept r (invoiced r t)" using attached(2) by (simp add: order_kept_def invoiced_def)
  moreover obtain u where "flush_order r (invoiced r t) s = Inr (u, s')"
    using attached(3) by (auto simp: attach_invoice_def check_terms_def thenT_Inr_iff Let_def split: if_splits option.splits)
  ultimately show ?case using flush_order_ok [OF attached(4,1)] by blast
next
  case (failed n s r why r' s')
  then show ?case using flush_order_ok [OF failed(3,1), of "r\<lparr>o_status := TP_FAILED, o_failure_reason := Some why\<rparr>"]
    by (auto simp: fail_order_def thenT_Inr_iff Let_def order_kept_def order_value_def)
next
  case (closed n why s b s')
  then obtain m where "update_orders (\<lambda>r. o_id r = n \<and> o_status r = TP_NEW)
      (\<lambda>r. r\<lparr>o_status := TP_FAILED, o_failure_reason := Some why\<rparr>) s = Inr (m, s')"
    by (auto simp: fail_order_by_id_def bindT_Inr_iff)
  then show ?case by (rule update_orders_ok [OF closed(2)]) (simp add: order_value_def)
next
  case (status_recorded n s r st cf review ev poll r' s')
  let ?r = "stamped ev poll (with_status r st cf review)"
  have "order_kept r ?r" by (simp add: order_kept_def stamped_def with_status_def order_value_def)
  moreover obtain u where "flush_order r ?r s = Inr (u, s')"
    using status_recorded(2) by (auto simp: record_status_def thenT_Inr_iff Let_def)
  ultimately show ?case using flush_order_ok [OF status_recorded(3,1)] by blast
next
  case (settled r st cf review ev poll now sch who s so s')
  then show ?case using settle_order_ok by blast
next
  case (lapsed now s m s')
  from lapsed(1) [unfolded expire_lapsed_orders_def] show ?case
    by (rule update_orders_ok [OF lapsed(2)]) (simp add: order_value_def)
next
  case (delivery_claimed w i e st s b s')
  then obtain ds where "s' = s\<lparr>webhook_deliveries := ds\<rparr>" using claim_delivery_frame by blast
  then show ?case using delivery_claimed(2) by (intro orders_ok_outside [of s s' "[]"]) simp_all
next
  case (outcome_noted w out n s u s')
  then obtain ds where "s' = s\<lparr>webhook_deliveries := ds\<rparr>" by (auto simp: note_delivery_outcome_def tx_simps)
  then show ?case using outcome_noted(2) by (intro orders_ok_outside [of s s' "[]"]) simp_all
next
  case (flagged n s u s')
  then obtain m where "update_orders (\<lambda>r. o_id r = n) (\<lambda>r. r\<lparr>o_needs_review := True\<rparr>) s = Inr (m, s')"
    by (auto simp: flag_for_review_def thenT_Inr_iff)
  then show ?case by (rule update_orders_ok [OF flagged(2)]) (simp add: order_value_def)
qed

section \<open>Frames\<close>

text \<open>What the rest of the system sees of a step: ledger entries appended, each a deposit that names an order or a bonus.\<close>

definition orders_frame :: "db \<Rightarrow> db \<Rightarrow> bool" where
  "orders_frame s s' \<longleftrightarrow> next_uuid s \<le> next_uuid s' \<and>
     s' = s\<lparr>next_uuid := next_uuid s', next_ledger_id := next_ledger_id s', ledger := ledger s', orders := orders s',
       webhook_deliveries := webhook_deliveries s'\<rparr>"

lemma orders_frameD:
  assumes "orders_frame s s'"
  shows "deposits s' = deposits s" "intents s' = intents s" "transfers s' = transfers s"
    "submissions s' = submissions s" "invitations s' = invitations s" "redemptions s' = redemptions s"
    "accounts s' = accounts s" "wallets s' = wallets s" "sessions s' = sessions s" "challenges s' = challenges s"
    "runs s' = runs s" "decisions s' = decisions s" "reward_events s' = reward_events s"
    "treasury_payouts s' = treasury_payouts s" "bonuses s' = bonuses s"
    "next_transfer_id s' = next_transfer_id s" "next_decision_id s' = next_decision_id s"
    "next_reward_id s' = next_reward_id s" "next_payout_id s' = next_payout_id s" "clock s' = clock s"
    "next_uuid s \<le> next_uuid s'"
proof -
  from assms have s': "s' = s\<lparr>next_uuid := next_uuid s', next_ledger_id := next_ledger_id s', ledger := ledger s',
       orders := orders s', webhook_deliveries := webhook_deliveries s'\<rparr>" by (simp add: orders_frame_def)
  show "deposits s' = deposits s" "intents s' = intents s" "transfers s' = transfers s"
    "submissions s' = submissions s" "invitations s' = invitations s" "redemptions s' = redemptions s"
    "accounts s' = accounts s" "wallets s' = wallets s" "sessions s' = sessions s" "challenges s' = challenges s"
    "runs s' = runs s" "decisions s' = decisions s" "reward_events s' = reward_events s"
    "treasury_payouts s' = treasury_payouts s" "bonuses s' = bonuses s"
    "next_transfer_id s' = next_transfer_id s" "next_decision_id s' = next_decision_id s"
    "next_reward_id s' = next_reward_id s" "next_payout_id s' = next_payout_id s" "clock s' = clock s"
    by (subst s', simp)+
  show "next_uuid s \<le> next_uuid s'" using assms by (simp add: orders_frame_def)
qed

definition order_entry :: "ledger_row \<Rightarrow> bool" where
  "order_entry l \<longleftrightarrow> 0 < l_amount_rao l \<and> l_kind l \<in> {DEPOSIT, BONUS} \<and>
     (l_kind l = DEPOSIT \<longleftrightarrow> l_tmc_pay_order_id l \<noteq> None) \<and> l_deposit_id l = None \<and>
     l_invitation_redemption_id l = None"

definition appends :: "(ledger_row \<Rightarrow> bool) \<Rightarrow> db \<Rightarrow> db \<Rightarrow> bool" where
  "appends ok s s' \<longleftrightarrow> (\<exists>es. ledger s' = ledger s @ es \<and> (\<forall>e \<in> set es. ok e) \<and>
     map l_id es = [next_ledger_id s..<next_ledger_id s + length es] \<and>
     next_ledger_id s' = next_ledger_id s + length es)"

lemma appends_none: "ledger s' = ledger s \<Longrightarrow> next_ledger_id s' = next_ledger_id s \<Longrightarrow> appends ok s s'"
  unfolding appends_def by (intro exI [of _ "[]"]) simp

lemma settle_order_appends:
  assumes "settle_order r st cf review ev poll now sch who s = Inr (so, s')"
  shows "orders_frame s s' \<and> appends order_entry s s'"
  using assms
proof (cases rule: settle_order_Inr)
  case (1 locked amount bs)
  have s': "ledger s' = ledger s @ so_entry so # bs" "next_ledger_id s' = Suc (next_ledger_id s) + length bs"
    by (subst 1(16), simp)+
  have "orders_frame s s'" by (subst 1(16)) (simp add: orders_frame_def)
  moreover have "appends order_entry s s'" unfolding appends_def s'
    using 1(4,5,7-13) by (intro exI [of _ "so_entry so # bs"]) (auto simp: order_entry_def upt_rec)
  ultimately show ?thesis by blast
qed

lemma order_step_frame: "order_step s s' \<Longrightarrow> orders_frame s s' \<and> appends order_entry s s'"
proof (induction rule: order_step.induct)
  case (settled r st cf review ev poll now sch who s so s')
  then show ?case by (rule settle_order_appends)
next
  case (delivery_claimed w i e st s b s')
  then obtain ds where "s' = s\<lparr>webhook_deliveries := ds\<rparr>" using claim_delivery_frame by blast
  then show ?case by (simp add: orders_frame_def appends_none)
next
  case (attached n s r t r' s')
  then obtain u where "flush_order r (invoiced r t) s = Inr (u, s')"
    by (auto simp: attach_invoice_def check_terms_def thenT_Inr_iff Let_def split: if_splits option.splits)
  then show ?case by (auto simp: flush_order_Inr orders_frame_def appends_none split: if_splits)
qed (auto simp: create_order_def fail_order_def fail_order_by_id_def record_status_def expire_lapsed_orders_def
    note_delivery_outcome_def flag_for_review_def tx_simps Let_def orders_frame_def appends_none split: if_splits)

end
