(* ===== verification/Invitations.thy ===== *)
theory Invitations
  imports Purchases
begin

text \<open>
  Invitation links and the grants they turn into: \<open>conjectures_subnet/db/invitations.py\<close>, with the
  constraints of \<open>invitations\<close> and \<open>invitation_redemptions\<close>.  The definitions follow the module top to
  bottom.  The random code of \<open>secrets.token_urlsafe\<close> and \<open>hashlib.sha256\<close> are the parameters \<open>code\<close> and
  \<open>sha\<close>.  The machine \<open>invite_step\<close> at the end has one rule per operation that writes.
\<close>

section \<open>Constraints\<close>

text \<open>\<open>btrim\<close> of SQL strips spaces only.\<close>

definition btrim :: "string \<Rightarrow> string" where
  "btrim s = rev (dropWhile (\<lambda>c. c = CHR '' '') (rev (dropWhile (\<lambda>c. c = CHR '' '') s)))"

fun split_on :: "char \<Rightarrow> string \<Rightarrow> string list" where
  "split_on d [] = [[]]"
| "split_on d (c # cs) =
     (if c = d then [] # split_on d cs
      else (case split_on d cs of [] \<Rightarrow> [[c]] | w # ws \<Rightarrow> (c # w) # ws))"

text \<open>\<open>^[a-z0-9]([a-z0-9-]*[a-z0-9])?(\.[a-z0-9]([a-z0-9-]*[a-z0-9])?)+$\<close>: two labels or more.\<close>

definition is_label :: "string \<Rightarrow> bool" where
  "is_label w \<longleftrightarrow> w \<noteq> [] \<and> list_all (in_chars (lower_chars @ digit_chars @ ''-'')) w \<and>
     hd w \<noteq> CHR ''-'' \<and> last w \<noteq> CHR ''-''"

definition is_domain :: "string \<Rightarrow> bool" where
  "is_domain s \<longleftrightarrow> (let ws = split_on (CHR ''.'') s in 2 \<le> length ws \<and> list_all is_label ws)"

definition invitation_checks :: "invitation_row \<Rightarrow> (string \<times> bool) list" where
  "invitation_checks r =
    [(''invitation_credits_in_range'', 1 \<le> iv_credits r \<and> iv_credits r \<le> 100),
     (''invitation_max_redemptions_positive'', iv_max_redemptions r \<ge> 1),
     (''invitation_redeemed_count_nonnegative'', iv_redeemed_count r \<ge> 0),
     (''invitation_email_domain_shape'', pred_option is_domain (iv_email_domain r)),
     (''invitation_note_present'', length_between 1 200 (btrim (iv_note r))),
     (''invitation_redemptions_within_max'', iv_redeemed_count r \<le> iv_max_redemptions r),
     (''invitation_revoked_after_created'', pred_option (\<lambda>t. t \<ge> iv_created_at r) (iv_revoked_at r))]"

definition invitation_keys :: "db \<Rightarrow> invitation_row \<Rightarrow> (string \<times> bool) list" where
  "invitation_keys s r =
    [(''invitations_code_sha256_key'', unique_on iv_id (\<lambda>x. Some (iv_code_sha256 x)) r (invitations s)),
     (''invitations_created_by_fkey'', references (Some (iv_created_by r)) a_id (accounts s))]"

definition redemption_checks :: "db \<Rightarrow> redemption_row \<Rightarrow> (string \<times> bool) list" where
  "redemption_checks s r =
    [(''invitation_redemption_once_per_account'',
        unique_on rd_id (\<lambda>x. Some (rd_invitation_id x, rd_account_id x)) r (redemptions s)),
     (''invitation_redemptions_invitation_id_fkey'', references (Some (rd_invitation_id r)) iv_id (invitations s)),
     (''invitation_redemptions_account_id_fkey'', references (Some (rd_account_id r)) a_id (accounts s))]"

definition insert_invitation :: "invitation_row \<Rightarrow> unit dbtx" where
  "insert_invitation = insert_into invitations (\<lambda>rs. invitations_update (\<lambda>_. rs))
     (\<lambda>s r. invitation_checks r @ invitation_keys s r)"

definition update_invitation :: "invitation_row \<Rightarrow> unit dbtx" where
  "update_invitation = update_in invitations (\<lambda>rs. invitations_update (\<lambda>_. rs)) iv_id
     (\<lambda>s r. invitation_checks r @ invitation_keys s r)"

definition insert_redemption :: "redemption_row \<Rightarrow> unit dbtx" where
  "insert_redemption = insert_into redemptions (\<lambda>rs. redemptions_update (\<lambda>_. rs)) redemption_checks"

interpretation invitation_table: table invitations "\<lambda>rs. invitations_update (\<lambda>_. rs)" iv_id
  by unfold_locales simp

section \<open>The module\<close>

definition MAX_GRANT_CREDITS :: int where "MAX_GRANT_CREDITS = 100"

definition code_digest :: "(bytes \<Rightarrow> bytes) \<Rightarrow> string \<Rightarrow> bytes" where
  "code_digest sha code = sha (utf8 code)"

record invitation_state =
  is_id :: uuid
  is_credits :: int
  is_max_redemptions :: int
  is_redeemed_count :: int
  is_email_domain :: "string option"
  is_expires_at :: "time option"
  is_revoked_at :: "time option"
  is_note :: string

definition remaining :: "invitation_state \<Rightarrow> int" where
  "remaining st = max (is_max_redemptions st - is_redeemed_count st) 0"

definition state_of :: "invitation_row \<Rightarrow> invitation_state" where
  "state_of r = \<lparr>is_id = iv_id r, is_credits = iv_credits r, is_max_redemptions = iv_max_redemptions r,
     is_redeemed_count = iv_redeemed_count r, is_email_domain = iv_email_domain r,
     is_expires_at = iv_expires_at r, is_revoked_at = iv_revoked_at r, is_note = iv_note r\<rparr>"

text \<open>\<open>InvitationUnusable\<close> is a \<open>RecordConflict\<close>.\<close>

definition unusable :: "string \<Rightarrow> string \<Rightarrow> db_error" where
  "unusable msg code = RecordConflict msg code []"

definition refuse_if_unusable :: "invitation_row \<Rightarrow> time \<Rightarrow> unit dbtx" where
  "refuse_if_unusable r now =
     thenT (raise_if (iv_revoked_at r \<noteq> None) (unusable ''this invitation has been withdrawn'' ''INVITATION_REVOKED''))
    (thenT (raise_if (case iv_expires_at r of None \<Rightarrow> False | Some t \<Rightarrow> t \<le> now)
              (unusable ''this invitation has expired'' ''INVITATION_EXPIRED''))
     (raise_if (iv_redeemed_count r \<ge> iv_max_redemptions r)
        (unusable ''this invitation has been fully redeemed'' ''INVITATION_EXHAUSTED'')))"

definition create_invitation ::
  "(bytes \<Rightarrow> bytes) \<Rightarrow> string \<Rightarrow> int \<Rightarrow> string \<Rightarrow> uuid \<Rightarrow> int \<Rightarrow> time option \<Rightarrow> string option \<Rightarrow>
   (invitation_row \<times> string) dbtx" where
  "create_invitation sha code credits nt created_by max_redemptions expires_at email_domain =
     thenT (raise_if (\<not> (1 \<le> credits \<and> credits \<le> MAX_GRANT_CREDITS))
              (PyError (ValueError (''credits must be between 1 and '' @ str_int MAX_GRANT_CREDITS))))
    (thenT (raise_if (max_redemptions < 1) (PyError (ValueError ''max_redemptions must be at least 1'')))
    (bindT new_uuid (\<lambda>n s.
       (let row = \<lparr>iv_id = n, iv_code_sha256 = code_digest sha code, iv_credits = credits,
              iv_max_redemptions = max_redemptions, iv_redeemed_count = 0,
              iv_email_domain = map_option (\<lambda>d. py_lower (py_strip d)) (given email_domain),
              iv_expires_at = expires_at, iv_revoked_at = None, iv_note = py_strip nt,
              iv_created_by = created_by, iv_created_at = clock s\<rparr>
        in thenT (insert_invitation row) (ret (row, code)) s))))"

definition by_code :: "(bytes \<Rightarrow> bytes) \<Rightarrow> string \<Rightarrow> invitation_row dbtx" where
  "by_code sha code s =
     bindT (scalar_one_or_none (filter (\<lambda>r. iv_code_sha256 r = code_digest sha code) (invitations s))) (\<lambda>r.
       case r of None \<Rightarrow> raise (RecordNotFound ''no such invitation'') | Some row \<Rightarrow> ret row) s"

definition read_invitation :: "(bytes \<Rightarrow> bytes) \<Rightarrow> string \<Rightarrow> invitation_state dbtx" where
  "read_invitation sha code = bindT (by_code sha code) (\<lambda>row. ret (state_of row))"

record redemption =
  re_redemption_id :: uuid
  re_invitation_id :: uuid
  re_credit_ledger_id :: serial
  re_credits :: int
  re_amount_rao :: rao

definition ends_with :: "string \<Rightarrow> string \<Rightarrow> bool" where
  "ends_with s suffix \<longleftrightarrow> drop (length s - length suffix) s = suffix"

definition require_email_domain :: "uuid \<Rightarrow> string \<Rightarrow> unit dbtx" where
  "require_email_domain account_id domain s =
     (let found = find_row a_id account_id (accounts s);
          email = (case found of None \<Rightarrow> [] | Some a \<Rightarrow> (case a_email a of None \<Rightarrow> [] | Some e \<Rightarrow> e));
          verified = (case found of None \<Rightarrow> False | Some a \<Rightarrow> a_email_verified a)
      in raise_if (\<not> verified \<or> \<not> ends_with (py_lower email) (''@'' @ domain))
           (RecordConflict (''this invitation is limited to verified '' @ domain @ '' addresses'')
              ''INVITATION_EMAIL_DOMAIN_REQUIRED'' [(''email_domain'', DStr domain)]) s)"

text \<open>The conditional \<open>UPDATE ... SET redeemed_count = redeemed_count + 1\<close>.\<close>

definition count_redemption :: "uuid \<Rightarrow> int dbtx" where
  "count_redemption n =
     update_where invitations (\<lambda>rs. invitations_update (\<lambda>_. rs)) (\<lambda>s r. invitation_checks r @ invitation_keys s r)
       (\<lambda>r. iv_id r = n \<and> iv_redeemed_count r < iv_max_redemptions r)
       (\<lambda>s r. r\<lparr>iv_redeemed_count := iv_redeemed_count r + 1\<rparr>)"

definition redeem :: "(bytes \<Rightarrow> bytes) \<Rightarrow> string \<Rightarrow> uuid \<Rightarrow> rao \<Rightarrow> time \<Rightarrow> redemption dbtx" where
  "redeem sha code account_id credit_price_rao now =
     bindT (by_code sha code) (\<lambda>row.
     thenT (refuse_if_unusable row now)
    (thenT (case iv_email_domain row of None \<Rightarrow> ret () | Some d \<Rightarrow> require_email_domain account_id d)
    (thenT (lock_account account_id)
    (bindT new_uuid (\<lambda>n.
     thenT (\<lambda>s. on_integrity (\<lambda>c.
                if c = ''invitation_redemption_once_per_account'' then
                  RecordConflict ''this account has already redeemed that invitation''
                    ''INVITATION_ALREADY_REDEEMED'' []
                else IntegrityError c)
              (insert_redemption \<lparr>rd_id = n, rd_invitation_id = iv_id row, rd_account_id = account_id,
                 rd_created_at = clock s\<rparr>) s)
    (bindT (record_entry account_id GRANT (iv_credits row * credit_price_rao) (Some credit_price_rao)
              None None None (Some n) None ''invitation'') (\<lambda>entry.
     bindT (count_redemption (iv_id row)) (\<lambda>m.
     thenT (raise_if (m \<noteq> 1) (RecordConflict ''this invitation has been fully redeemed'' ''INVITATION_EXHAUSTED'' []))
       (ret \<lparr>re_redemption_id = n, re_invitation_id = iv_id row, re_credit_ledger_id = l_id entry,
              re_credits = iv_credits row, re_amount_rao = iv_credits row * credit_price_rao\<rparr>)))))))))"

text \<open>The reason code the module gives its \<open>RecordNotFound\<close> is left out, as it is everywhere.\<close>

record redemption_record =
  rr_id :: uuid
  rr_account_id :: uuid
  rr_credit_ledger_id :: "serial option"
  rr_created_at :: time

definition get_invitation :: "uuid \<Rightarrow> invitation_row dbtx" where
  "get_invitation invitation_id s =
     (case find_row iv_id invitation_id (invitations s) of
        None \<Rightarrow> Inl (RecordNotFound ''no such invitation'') | Some r \<Rightarrow> Inr (r, s))"

text \<open>The outer join with the ledger: a redemption no entry names is listed once, without one.\<close>

definition redemptions_for :: "db \<Rightarrow> uuid \<Rightarrow> redemption_record list" where
  "redemptions_for s invitation_id =
     concat (map (\<lambda>r.
       (case filter (\<lambda>l. l_invitation_redemption_id l = Some (rd_id r)) (ledger s) of
          [] \<Rightarrow> [\<lparr>rr_id = rd_id r, rr_account_id = rd_account_id r, rr_credit_ledger_id = None,
                 rr_created_at = rd_created_at r\<rparr>]
        | ls \<Rightarrow> map (\<lambda>l. \<lparr>rr_id = rd_id r, rr_account_id = rd_account_id r, rr_credit_ledger_id = Some (l_id l),
                 rr_created_at = rd_created_at r\<rparr>) ls))
       (sort_key (\<lambda>r. - rd_created_at r) (filter (\<lambda>r. rd_invitation_id r = invitation_id) (redemptions s))))"

definition in_state :: "string option \<Rightarrow> time \<Rightarrow> invitation_row \<Rightarrow> bool" where
  "in_state state now r \<longleftrightarrow>
     (let live = iv_revoked_at r = None \<and> pred_option (\<lambda>t. t > now) (iv_expires_at r);
          exhausted = iv_redeemed_count r \<ge> iv_max_redemptions r
      in if state = Some ''revoked'' then iv_revoked_at r \<noteq> None
         else if state = Some ''expired'' then
           iv_revoked_at r = None \<and> (case iv_expires_at r of None \<Rightarrow> False | Some t \<Rightarrow> t \<le> now)
         else if state = Some ''exhausted'' then live \<and> exhausted
         else if state = Some ''active'' then live \<and> \<not> exhausted
         else True)"

definition listing :: "db \<Rightarrow> time \<Rightarrow> string option \<Rightarrow> nat \<Rightarrow> (time \<times> uuid) option \<Rightarrow> invitation_row list" where
  "listing s now state limit after =
     take limit (newest_first iv_created_at iv_id
       (filter (\<lambda>r. in_state state now r \<and> before_cursor iv_created_at iv_id after r) (invitations s)))"

definition listing_total :: "db \<Rightarrow> time \<Rightarrow> string option \<Rightarrow> int" where
  "listing_total s now state = int (length (filter (in_state state now) (invitations s)))"

definition revoke_invitation :: "uuid \<Rightarrow> time \<Rightarrow> invitation_row dbtx" where
  "revoke_invitation invitation_id now =
     bindT (get_invitation invitation_id) (\<lambda>row.
       if iv_revoked_at row = None then
         (let r = row\<lparr>iv_revoked_at := Some now\<rparr> in thenT (update_invitation r) (ret r))
       else ret row)"

definition granted_rao :: "db \<Rightarrow> rao" where
  "granted_rao s = sum_where (\<lambda>l. l_kind l = GRANT) l_amount_rao (ledger s)"

section \<open>The machine\<close>

inductive invite_step :: "db \<Rightarrow> db \<Rightarrow> bool" where
  issued: "create_invitation sha code c nt who most ends d s = Inr (r, s') \<Longrightarrow> invite_step s s'"
| redeemed: "redeem sha code a price now s = Inr (r, s') \<Longrightarrow> invite_step s s'"
| revoked: "revoke_invitation n now s = Inr (r, s') \<Longrightarrow> invite_step s s'"

section \<open>What one operation does\<close>

lemma insert_redemption_Inr [tx_simps]:
  "insert_redemption r s = Inr (u, s') \<longleftrightarrow>
     (\<forall>c \<in> set (redemption_checks s r). snd c) \<and> s' = s\<lparr>redemptions := redemptions s @ [r]\<rparr>"
  by (auto simp: insert_redemption_def insert_into_Inr)

lemma insert_invitation_Inr [tx_simps]:
  "insert_invitation r s = Inr (u, s') \<longleftrightarrow>
     (\<forall>c \<in> set (invitation_checks r @ invitation_keys s r). snd c) \<and> s' = s\<lparr>invitations := invitations s @ [r]\<rparr>"
  by (auto simp: insert_invitation_def insert_into_Inr)

lemma update_invitation_Inr [tx_simps]:
  "update_invitation r s = Inr (u, s') \<longleftrightarrow>
     (\<forall>c \<in> set (invitation_checks r @ invitation_keys s r). snd c) \<and>
     s' = s\<lparr>invitations := replace_row iv_id r (invitations s)\<rparr>"
  by (auto simp: update_invitation_def update_in_Inr)

lemma by_code_Inr [tx_simps]:
  "by_code sha code s = Inr (r, s') \<longleftrightarrow>
     s' = s \<and> filter (\<lambda>r. iv_code_sha256 r = code_digest sha code) (invitations s) = [r]"
  by (auto simp: by_code_def tx_simps split: option.splits)

lemma refuse_if_unusable_Inr [tx_simps]:
  "refuse_if_unusable r now s = Inr (u, s') \<longleftrightarrow>
     s' = s \<and> iv_revoked_at r = None \<and> pred_option (\<lambda>t. now < t) (iv_expires_at r) \<and>
     iv_redeemed_count r < iv_max_redemptions r"
  by (auto simp: refuse_if_unusable_def tx_simps split: option.splits)

text \<open>The account's address is verified and in the domain.\<close>

definition in_domain :: "db \<Rightarrow> uuid \<Rightarrow> string \<Rightarrow> bool" where
  "in_domain s a d \<longleftrightarrow>
     (case find_row a_id a (accounts s) of None \<Rightarrow> False
      | Some x \<Rightarrow> a_email_verified x \<and>
          ends_with (py_lower (case a_email x of None \<Rightarrow> [] | Some e \<Rightarrow> e)) (''@'' @ d))"

lemma require_email_domain_Inr [tx_simps]:
  "(case v of None \<Rightarrow> ret () | Some d \<Rightarrow> require_email_domain a d) s = Inr (u, s') \<longleftrightarrow>
     s' = s \<and> pred_option (in_domain s a) v"
  by (auto simp: require_email_domain_def in_domain_def tx_simps Let_def split: option.splits)

definition counted :: "uuid \<Rightarrow> invitation_row \<Rightarrow> invitation_row" where
  "counted n r = (if iv_id r = n \<and> iv_redeemed_count r < iv_max_redemptions r
     then r\<lparr>iv_redeemed_count := iv_redeemed_count r + 1\<rparr> else r)"

lemma count_redemption_Inr [tx_simps]:
  "count_redemption n s = Inr (m, s') \<longleftrightarrow>
     (\<forall>r \<in> set (invitations s). iv_id r = n \<and> iv_redeemed_count r < iv_max_redemptions r \<longrightarrow>
        (\<forall>c \<in> set (invitation_checks (counted n r) @ invitation_keys s (counted n r)). snd c)) \<and>
     m = int (length (filter (\<lambda>r. iv_id r = n \<and> iv_redeemed_count r < iv_max_redemptions r) (invitations s))) \<and>
     s' = s\<lparr>invitations := map (counted n) (invitations s)\<rparr>"
  by (auto simp: count_redemption_def update_where_Inr counted_def [abs_def])

text \<open>A redemption, in one statement: the row, the entry that names it, and the counter.\<close>

lemma redeem_Inr:
  assumes "redeem sha code a price now s = Inr (r, s')"
  obtains row e where
    "row \<in> set (invitations s)" "iv_code_sha256 row = code_digest sha code" "a \<in> a_id ` set (accounts s)"
    "iv_revoked_at row = None" "pred_option (\<lambda>t. now < t) (iv_expires_at row)"
    "iv_redeemed_count row < iv_max_redemptions row"
    "pred_option (in_domain s a) (iv_email_domain row)"
    "unique_on rd_id (\<lambda>x. Some (rd_invitation_id x, rd_account_id x))
       \<lparr>rd_id = next_uuid s, rd_invitation_id = iv_id row, rd_account_id = a, rd_created_at = clock s\<rparr> (redemptions s)"
    "l_id e = next_ledger_id s" "l_account_id e = a" "l_kind e = GRANT" "l_amount_rao e = iv_credits row * price"
    "0 < iv_credits row * price" "l_credit_price_rao e = Some price" "l_deposit_id e = None"
    "l_tmc_pay_order_id e = None" "l_invitation_redemption_id e = Some (next_uuid s)"
    "r = \<lparr>re_redemption_id = next_uuid s, re_invitation_id = iv_id row, re_credit_ledger_id = next_ledger_id s,
       re_credits = iv_credits row, re_amount_rao = iv_credits row * price\<rparr>"
    "s' = s\<lparr>next_uuid := Suc (next_uuid s), next_ledger_id := Suc (next_ledger_id s), ledger := ledger s @ [e],
       redemptions := redemptions s @ [\<lparr>rd_id = next_uuid s, rd_invitation_id = iv_id row, rd_account_id = a,
         rd_created_at = clock s\<rparr>], invitations := map (counted (iv_id row)) (invitations s)\<rparr>"
    "length (filter (\<lambda>r. iv_id r = iv_id row \<and> iv_redeemed_count r < iv_max_redemptions r) (invitations s)) = 1"
proof -
  let ?rd = "\<lambda>row. \<lparr>rd_id = next_uuid s, rd_invitation_id = iv_id row, rd_account_id = a, rd_created_at = clock s\<rparr>"
  let ?s1 = "s\<lparr>next_uuid := Suc (next_uuid s)\<rparr>"
  from assms obtain row where row: "by_code sha code s = Inr (row, s)" "refuse_if_unusable row now s = Inr ((), s)"
      "a \<in> a_id ` set (accounts s)"
    and domain: "pred_option (in_domain s a) (iv_email_domain row)"
    and rest: "\<exists>e s2 m s3. insert_redemption (?rd row) ?s1 = Inr ((), s2) \<and>
      record_entry a GRANT (iv_credits row * price) (Some price) None None None (Some (next_uuid s)) None ''invitation'' s2 = Inr (e, s3) \<and>
      count_redemption (iv_id row) s3 = Inr (1, s') \<and>
      r = \<lparr>re_redemption_id = next_uuid s, re_invitation_id = iv_id row, re_credit_ledger_id = l_id e,
              re_credits = iv_credits row, re_amount_rao = iv_credits row * price\<rparr>"
    unfolding redeem_def
    by (auto simp: bindT_Inr_iff thenT_Inr_iff lock_account_Inr by_code_Inr refuse_if_unusable_Inr require_email_domain_Inr)
  from rest obtain e s2 s3 where rd: "insert_redemption (?rd row) ?s1 = Inr ((), s2)"
    and e: "record_entry a GRANT (iv_credits row * price) (Some price) None None None (Some (next_uuid s)) None ''invitation'' s2 = Inr (e, s3)"
    and m: "count_redemption (iv_id row) s3 = Inr (1, s')"
    and r: "r = \<lparr>re_redemption_id = next_uuid s, re_invitation_id = iv_id row, re_credit_ledger_id = l_id e,
              re_credits = iv_credits row, re_amount_rao = iv_credits row * price\<rparr>" by blast
  note E = record_entry_Inr [OF e]
  have s2: "s2 = ?s1\<lparr>redemptions := redemptions s @ [?rd row]\<rparr>"
    and u: "unique_on rd_id (\<lambda>x. Some (rd_invitation_id x, rd_account_id x)) (?rd row) (redemptions s)"
    using rd by (simp_all add: insert_redemption_Inr redemption_checks_def)
  have mem: "row \<in> set (filter (\<lambda>r. iv_code_sha256 r = code_digest sha code) (invitations s))"
    using row(1) by (simp add: by_code_Inr del: set_filter)
  show thesis
    using row mem domain u E m r s2 record_entry_positive [OF e]
    by (intro that [of row e]) (simp_all add: refuse_if_unusable_Inr count_redemption_Inr)
qed

section \<open>Frames\<close>

definition invites_frame :: "db \<Rightarrow> db \<Rightarrow> bool" where
  "invites_frame s s' \<longleftrightarrow> next_uuid s \<le> next_uuid s' \<and>
     s' = s\<lparr>next_uuid := next_uuid s', next_ledger_id := next_ledger_id s', ledger := ledger s',
       invitations := invitations s', redemptions := redemptions s'\<rparr>"

lemma invites_frameD:
  assumes "invites_frame s s'"
  shows "deposits s' = deposits s" "intents s' = intents s" "transfers s' = transfers s"
    "submissions s' = submissions s" "orders s' = orders s"
    "accounts s' = accounts s" "wallets s' = wallets s" "sessions s' = sessions s" "challenges s' = challenges s"
    "runs s' = runs s" "decisions s' = decisions s" "reward_events s' = reward_events s"
    "treasury_payouts s' = treasury_payouts s" "bonuses s' = bonuses s"
    "next_transfer_id s' = next_transfer_id s" "next_decision_id s' = next_decision_id s"
    "next_reward_id s' = next_reward_id s" "next_payout_id s' = next_payout_id s" "clock s' = clock s"
    "next_uuid s \<le> next_uuid s'"
proof -
  from assms have s': "s' = s\<lparr>next_uuid := next_uuid s', next_ledger_id := next_ledger_id s', ledger := ledger s',
       invitations := invitations s', redemptions := redemptions s'\<rparr>" by (simp add: invites_frame_def)
  show "deposits s' = deposits s" "intents s' = intents s" "transfers s' = transfers s"
    "submissions s' = submissions s" "orders s' = orders s"
    "accounts s' = accounts s" "wallets s' = wallets s" "sessions s' = sessions s" "challenges s' = challenges s"
    "runs s' = runs s" "decisions s' = decisions s" "reward_events s' = reward_events s"
    "treasury_payouts s' = treasury_payouts s" "bonuses s' = bonuses s"
    "next_transfer_id s' = next_transfer_id s" "next_decision_id s' = next_decision_id s"
    "next_reward_id s' = next_reward_id s" "next_payout_id s' = next_payout_id s" "clock s' = clock s"
    by (subst s', simp)+
  show "next_uuid s \<le> next_uuid s'" using assms by (simp add: invites_frame_def)
qed

definition grant_entry :: "ledger_row \<Rightarrow> bool" where
  "grant_entry l \<longleftrightarrow> 0 < l_amount_rao l \<and> l_kind l = GRANT \<and> l_invitation_redemption_id l \<noteq> None \<and>
     l_tmc_pay_order_id l = None \<and> l_deposit_id l = None"

lemma create_invitation_Inr:
  assumes "create_invitation sha code c nt who most ends d s = Inr (r, s')"
  shows "s' = s\<lparr>next_uuid := Suc (next_uuid s), invitations := invitations s @ [fst r]\<rparr>"
    and "iv_id (fst r) = next_uuid s" and "iv_redeemed_count (fst r) = 0" and "iv_code_sha256 (fst r) = code_digest sha code"
    and "\<forall>c \<in> set (invitation_checks (fst r)). snd c"
    and "unique_on iv_id (\<lambda>x. Some (iv_code_sha256 x)) (fst r) (invitations s)"
    and "iv_credits (fst r) = c" and "iv_max_redemptions (fst r) = most" and "snd r = code"
  using assms by (auto simp: create_invitation_def tx_simps Let_def invitation_keys_def)

lemma revoke_invitation_Inr:
  assumes "revoke_invitation n now s = Inr (r, s')"
  obtains row where "find_row iv_id n (invitations s) = Some row"
    "iv_revoked_at row \<noteq> None \<and> r = row \<and> s' = s \<or>
     iv_revoked_at row = None \<and> r = row\<lparr>iv_revoked_at := Some now\<rparr> \<and>
       s' = s\<lparr>invitations := replace_row iv_id r (invitations s)\<rparr> \<and>
       (\<forall>c \<in> set (invitation_checks r @ invitation_keys s r). snd c)"
  using assms by (auto simp: revoke_invitation_def get_invitation_def tx_simps Let_def split: option.splits if_splits)

lemma invite_step_frame: "invite_step s s' \<Longrightarrow> invites_frame s s' \<and> appends grant_entry s s'"
proof (induction rule: invite_step.induct)
  case (issued sha code c nt who most ends d s r s')
  note i = create_invitation_Inr(1) [OF issued]
  show ?case by (simp add: i invites_frame_def appends_none)
next
  case (redeemed sha code a price now s r s')
  then show ?case
  proof (cases rule: redeem_Inr)
    case (1 row e)
    have s': "ledger s' = ledger s @ [e]" "next_ledger_id s' = Suc (next_ledger_id s)" by (subst 1(19), simp)+
    have "invites_frame s s'" by (subst 1(19)) (simp add: invites_frame_def)
    moreover have "appends grant_entry s s'" unfolding appends_def s'
      using 1(9-17) by (intro exI [of _ "[e]"]) (simp add: grant_entry_def)
    ultimately show ?thesis by blast
  qed
next
  case (revoked n now s r s')
  then show ?case by (cases rule: revoke_invitation_Inr) (auto simp: invites_frame_def appends_none)
qed

section \<open>Invariants\<close>

text \<open>
  An invitation's counter is the number of its redemptions, an account appears among them once, and
  every redemption is paired with one GRANT entry, of its account and worth the credits of the link at
  the price of the day.
\<close>

definition redeemed_times :: "db \<Rightarrow> uuid \<Rightarrow> int" where
  "redeemed_times s n = int (length (filter (\<lambda>r. rd_invitation_id r = n) (redemptions s)))"

definition grant_for :: "db \<Rightarrow> redemption_row \<Rightarrow> ledger_row \<Rightarrow> bool" where
  "grant_for s r l \<longleftrightarrow> l_invitation_redemption_id l = Some (rd_id r) \<and> l_kind l = GRANT \<and> l_account_id l = rd_account_id r \<and>
     (\<exists>v \<in> set (invitations s). \<exists>p. iv_id v = rd_invitation_id r \<and> l_credit_price_rao l = Some p \<and>
        l_amount_rao l = iv_credits v * p)"

definition invitations_keyed :: "db \<Rightarrow> bool" where
  "invitations_keyed s \<longleftrightarrow> distinct (map iv_id (invitations s)) \<and>
     one_per iv_id (\<lambda>r. Some (iv_code_sha256 r)) (invitations s) \<and>
     (\<forall>v \<in> set (invitations s). iv_id v < next_uuid s \<and> (\<forall>c \<in> set (invitation_checks v). snd c) \<and>
        redeemed_times s (iv_id v) = iv_redeemed_count v)"

definition redemptions_keyed :: "db \<Rightarrow> bool" where
  "redemptions_keyed s \<longleftrightarrow> distinct (map rd_id (redemptions s)) \<and>
     one_per rd_id (\<lambda>r. Some (rd_invitation_id r, rd_account_id r)) (redemptions s) \<and>
     (\<forall>r \<in> set (redemptions s). rd_id r < next_uuid s \<and> rd_invitation_id r < next_uuid s)"

definition grants_paired :: "db \<Rightarrow> bool" where
  "grants_paired s \<longleftrightarrow> (\<forall>r \<in> set (redemptions s). \<exists>l \<in> set (ledger s). grant_for s r l) \<and>
     (\<forall>l \<in> set (ledger s). \<forall>n. l_invitation_redemption_id l = Some n \<longrightarrow> n \<in> rd_id ` set (redemptions s))"

definition invitations_ok :: "db \<Rightarrow> bool" where
  "invitations_ok s \<longleftrightarrow> invitations_keyed s \<and> redemptions_keyed s \<and> grants_paired s"

lemma redeemed_times_same [simp]:
  "redeemed_times (s\<lparr>invitations := x1\<rparr>) n = redeemed_times s n"
  "redeemed_times (s\<lparr>next_uuid := x2\<rparr>) n = redeemed_times s n"
  by (simp_all add: redeemed_times_def)

lemma invitations_ok_outside:
  assumes inv: "invitations_ok s" and s': "invitations s' = invitations s" "redemptions s' = redemptions s"
      "ledger s' = ledger s @ es" "next_uuid s \<le> next_uuid s'"
    and es: "\<forall>l \<in> set es. l_invitation_redemption_id l = None"
  shows "invitations_ok s'"
proof -
  have "redeemed_times s' n = redeemed_times s n" for n by (simp add: redeemed_times_def s')
  then have "invitations_keyed s'" using inv s'(4) by (fastforce simp: invitations_ok_def invitations_keyed_def s'(1))
  moreover have "redemptions_keyed s'" using inv s'(4) by (fastforce simp: invitations_ok_def redemptions_keyed_def s'(2))
  moreover have "grant_for s' r l = grant_for s r l" for r l by (simp add: grant_for_def s'(1))
  then have "grants_paired s'" using inv es unfolding invitations_ok_def grants_paired_def s'(2,3) by fastforce
  ultimately show ?thesis by (simp add: invitations_ok_def)
qed

text \<open>Rewriting invitations without touching what was promised.\<close>

definition promise :: "invitation_row \<Rightarrow> uuid \<times> bytes \<times> int \<times> int" where
  "promise v = (iv_id v, iv_code_sha256 v, iv_credits v, iv_max_redemptions v)"

lemma grant_for_rewritten:
  assumes "grant_for s r l" and "invitations s' = map f (invitations s)" and "\<And>v. v \<in> set (invitations s) \<Longrightarrow> promise (f v) = promise v"
  shows "grant_for s' r l"
  using assms by (fastforce simp: grant_for_def promise_def)

lemma invite_step_ok: "invite_step s s' \<Longrightarrow> invitations_ok s \<Longrightarrow> invitations_ok s'"
proof (induction rule: invite_step.induct)
  case (issued sha code c nt who most ends d s r s')
  note i = create_invitation_Inr [OF issued(1)]
  from issued(2) have k: "invitations_keyed s" "redemptions_keyed s" "grants_paired s" by (simp_all add: invitations_ok_def)
  have "filter (\<lambda>x. rd_invitation_id x = next_uuid s) (redemptions s) = []"
    using k(2) by (auto simp: redemptions_keyed_def filter_empty_conv)
  then have "redeemed_times s (next_uuid s) = 0" by (simp add: redeemed_times_def)
  then have "invitations_keyed s'"
    using k(1) i(2,3,5) one_per_insert [OF _ i(6)] unfolding invitations_keyed_def i(1) by (fastforce simp: redeemed_times_def)
  moreover have "redemptions_keyed s'" using k(2) unfolding redemptions_keyed_def i(1) by fastforce
  moreover have "grant_for s x l \<Longrightarrow> grant_for s' x l" for x l unfolding grant_for_def i(1) by fastforce
  then have "grants_paired s'" using k(3) unfolding grants_paired_def i(1) by fastforce
  ultimately show ?case by (simp add: invitations_ok_def)
next
  case (redeemed sha code a price now s r s')
  from redeemed(2) have k: "invitations_keyed s" "redemptions_keyed s" "grants_paired s" by (simp_all add: invitations_ok_def)
  from redeemed(1) show ?case
  proof (cases rule: redeem_Inr)
    case (1 row e)
    let ?rd = "\<lparr>rd_id = next_uuid s, rd_invitation_id = iv_id row, rd_account_id = a, rd_created_at = clock s\<rparr>"
    have s': "redemptions s' = redemptions s @ [?rd]" "invitations s' = map (counted (iv_id row)) (invitations s)"
      "ledger s' = ledger s @ [e]" "next_uuid s' = Suc (next_uuid s)" by (subst 1(19), simp)+
    have same: "promise (counted n v) = promise v" "iv_id (counted n v) = iv_id v"
      "iv_code_sha256 (counted n v) = iv_code_sha256 v" for n v by (simp_all add: counted_def promise_def)
    have times: "redeemed_times s' n = redeemed_times s n + (if n = iv_id row then 1 else 0)" for n
      by (simp add: redeemed_times_def s'(1))
    let ?g = "counted (iv_id row)"
    have "iv_id (?g v) < next_uuid s' \<and> (\<forall>c \<in> set (invitation_checks (?g v)). snd c) \<and>
        redeemed_times s' (iv_id (?g v)) = iv_redeemed_count (?g v)" if "v \<in> set (invitations s)" for v
    proof -
      have v: "iv_id v < next_uuid s" "\<forall>c \<in> set (invitation_checks v). snd c"
        "redeemed_times s (iv_id v) = iv_redeemed_count v" using k(1) that by (simp_all add: invitations_keyed_def)
      have "iv_id v = iv_id row \<Longrightarrow> v = row"
        using that k(1) 1(1) same_key [of iv_id "invitations s" v row] by (auto simp: invitations_keyed_def)
      then have "iv_redeemed_count (?g v) = iv_redeemed_count v + (if iv_id v = iv_id row then 1 else 0)"
        using 1(6) by (auto simp: counted_def)
      moreover have "\<forall>c \<in> set (invitation_checks (?g v)). snd c"
        using v(2) by (auto simp: counted_def invitation_checks_def)
      ultimately show ?thesis using v(1,3) by (simp add: same(2) times s'(4))
    qed
    moreover have ids: "map iv_id (map ?g (invitations s)) = map iv_id (invitations s)" by (simp add: same(2))
    moreover have "one_per iv_id (\<lambda>r. Some (iv_code_sha256 r)) (map ?g (invitations s))"
      using k(1) one_per_map [of "invitations s" iv_id ?g "\<lambda>r. Some (iv_code_sha256 r)"]
      by (simp add: invitations_keyed_def same)
    ultimately have "invitations_keyed s'"
      using k(1) unfolding invitations_keyed_def s'(2) ids by simp
    moreover have "iv_id row < next_uuid s" using k(1) 1(1) by (simp add: invitations_keyed_def)
    then have "redemptions_keyed s'" using k(2) one_per_insert [OF _ 1(8)]
      by (fastforce simp: redemptions_keyed_def s'(1,4))
    moreover have grant: "grant_for s x l \<Longrightarrow> grant_for s' x l" for x l
      using grant_for_rewritten [OF _ s'(2)] same(1) by simp
    moreover have "grants_paired s'" unfolding grants_paired_def
    proof (intro conjI ballI allI impI)
      fix x assume "x \<in> set (redemptions s')"
      then consider "x \<in> set (redemptions s)" | "x = ?rd" by (auto simp: s'(1))
      then show "\<exists>l \<in> set (ledger s'). grant_for s' x l"
      proof cases
        case 1
        then obtain l where "l \<in> set (ledger s)" "grant_for s x l" using k(3) by (auto simp: grants_paired_def)
        then show ?thesis using grant by (auto simp: s'(3))
      next
        case 2
        have "grant_for s ?rd e" using 1(1,10-14,17) by (auto simp: grant_for_def)
        then show ?thesis using 2 grant by (auto simp: s'(3))
      qed
    next
      fix l n assume "l \<in> set (ledger s')" "l_invitation_redemption_id l = Some n"
      then show "n \<in> rd_id ` set (redemptions s')" using k(3) 1(17) by (auto simp: grants_paired_def s'(1,3))
    qed
    ultimately show ?thesis by (simp add: invitations_ok_def)
  qed
next
  case (revoked n now s r s')
  from revoked(2) have k: "invitations_keyed s" "redemptions_keyed s" "grants_paired s" by (simp_all add: invitations_ok_def)
  from revoked(1) show ?case
  proof (cases rule: revoke_invitation_Inr)
    case (1 row)
    note row = find_row_Some [OF 1(1)]
    from 1(2) show ?thesis
    proof
      assume w: "iv_revoked_at row = None \<and> r = row\<lparr>iv_revoked_at := Some now\<rparr> \<and>
       s' = s\<lparr>invitations := replace_row iv_id r (invitations s)\<rparr> \<and>
       (\<forall>c \<in> set (invitation_checks r @ invitation_keys s r). snd c)"
      define f where "f v = (if iv_id v = iv_id r then r else v)" for v
      have s': "invitations s' = map f (invitations s)" using w by (simp add: replace_row_def f_def [abs_def])
      have "v = row" if "v \<in> set (invitations s)" "iv_id v = iv_id r" for v
        using that row k(1) w same_key [of iv_id "invitations s" v row] by (simp add: invitations_keyed_def)
      then have keeps: "promise (f v) = promise v" "iv_redeemed_count (f v) = iv_redeemed_count v"
        if "v \<in> set (invitations s)" for v using that w by (auto simp: promise_def f_def)
      have u: "unique_on iv_id (\<lambda>x. Some (iv_code_sha256 x)) r (invitations s)" using w by (auto simp: invitation_keys_def)
      have "iv_id (f v) < next_uuid s' \<and> (\<forall>c \<in> set (invitation_checks (f v)). snd c) \<and>
          redeemed_times s' (iv_id (f v)) = iv_redeemed_count (f v)" if "v \<in> set (invitations s)" for v
      proof (cases "iv_id v = iv_id r")
        case True
        then show ?thesis using w row(1) k(1) that keeps [OF that] by (auto simp: invitations_keyed_def f_def)
      next
        case False
        then show ?thesis using w k(1) that by (auto simp: invitations_keyed_def f_def)
      qed
      moreover have ids: "map iv_id (map f (invitations s)) = map iv_id (invitations s)" by (simp add: f_def)
      moreover have "one_per iv_id (\<lambda>r. Some (iv_code_sha256 r)) (map f (invitations s))"
        using one_per_replace [OF _ u] k(1) by (simp add: invitations_keyed_def replace_row_def f_def [abs_def])
      ultimately have "invitations_keyed s'" using k(1) unfolding invitations_keyed_def s' ids by simp
      moreover have "redemptions_keyed s'" using k(2) w by (simp add: redemptions_keyed_def)
      moreover have "grants_paired s'" unfolding grants_paired_def
        using k(3) grant_for_rewritten [OF _ s' keeps(1)] w by (fastforce simp: grants_paired_def)
      ultimately show ?thesis by (simp add: invitations_ok_def)
    qed (use revoked(2) in simp)
  qed
qed

end
