(* ===== verification/Funding.thy ===== *)
theory Funding
  imports Watcher Intents Invitations
begin

text \<open>
  The money side of the system as a state machine: every transaction of the API, of the deposit
  watcher and of the housekeeping jobs that touches accounts, sessions, deposits, purchases,
  invitations, the ledger, intents or observed transfers is one step, in any order and interleaving,
  with the clock moving in between.  The invariants say that no account can be overdrawn, that every rao
  of a balance has a source (a transfer that arrived, an order that was paid, an invitation that was
  redeemed, a package bonus), that what was spent is what was held, and that nothing buys two things.
\<close>

section \<open>Steps\<close>

text \<open>
  The machines of \<open>Accounts\<close>, \<open>Purchases\<close> and \<open>Invitations\<close> take part with all their steps.
  \<open>paid_submission\<close> is the transaction of \<open>POST /v1/submissions\<close>, which records the submission and
  spends the transfer that funds it.
\<close>

inductive money_step :: "db \<Rightarrow> db \<Rightarrow> bool" where
  tick: "clock s \<le> t \<Longrightarrow> money_step s (s\<lparr>clock := t\<rparr>)"
| account_changed: "account_step s s' \<Longrightarrow> money_step s s'"
| order_changed: "order_step s s' \<Longrightarrow> money_step s s'"
| invitation_changed: "invite_step s s' \<Longrightarrow> money_step s s'"
| deposit_declared: "create_deposit a amount addr price expi s = Inr (d, s') \<Longrightarrow> money_step s s'"
| deposit_claimed: "find_row d_id n (deposits s) = Some d \<Longrightarrow> d_status d = AWAITING_TRANSFER \<Longrightarrow>
    mark_seen d ref sndr s = Inr (d', s') \<Longrightarrow> money_step s s'"
| deposits_expired: "expire_open_deposits (clock s) s = Inr (k, s') \<Longrightarrow> money_step s s'"
| transfer_recorded: "record_transfer arr s = Inr (rt, s') \<Longrightarrow> money_step s s'"
| transfer_settled: "settle ws n arr r s = Inr (ad, s') \<Longrightarrow> money_step s s'"
| conflict_noted: "note_conflict n msg s = Inr (u, s') \<Longrightarrow> money_step s s'"
| intent_opened: "open_intent a task bundle price expi (clock s) held pc signer s = Inr ((i, b), s') \<Longrightarrow>
    money_step s s'"
| bundle_attached: "find_row i_id n (intents s) = Some i \<Longrightarrow>
    attach_bundle i content sha digest (clock s) s = Inr (i', s') \<Longrightarrow> money_step s s'"
| intent_confirmed: "confirm n a k (clock s) s = Inr (c, s') \<Longrightarrow> money_step s s'"
| intent_cancelled: "find_row i_id n (intents s) = Some i \<Longrightarrow> cancel i (clock s) s = Inr (i', s') \<Longrightarrow>
    money_step s s'"
| intents_expired: "expire_lapsed (clock s) s = Inr (k, s') \<Longrightarrow> money_step s s'"
| paid_submission: "create_submission q s = Inr (v, s1) \<Longrightarrow> \<not> sv_replayed v \<Longrightarrow>
    ar_reference arr = n_payment_reference q \<Longrightarrow> claim_for_submission arr note s1 = Inr (t, s') \<Longrightarrow>
    money_step s s'"

section \<open>Invariants\<close>

text \<open>Identities are fresh, references are unique, and a hold is positive.\<close>

definition well_keyed :: "db \<Rightarrow> bool" where
  "well_keyed s \<longleftrightarrow>
     distinct (map l_id (ledger s)) \<and> (\<forall>x \<in> set (ledger s). l_id x < next_ledger_id s) \<and>
     distinct (map i_id (intents s)) \<and> (\<forall>x \<in> set (intents s). i_id x < next_uuid s \<and> 0 < intent_hold x) \<and>
     distinct (map t_id (transfers s)) \<and> (\<forall>x \<in> set (transfers s). t_id x < next_transfer_id s) \<and>
     distinct (map t_extrinsic_reference (transfers s))"

definition solvent :: "db \<Rightarrow> bool" where
  "solvent s \<longleftrightarrow> (\<forall>a. held_rao s a (clock s) \<le> balance_rao s a)"

text \<open>What the ledger says arrived for an account on chain, and what did.\<close>

definition deposited_rao :: "db \<Rightarrow> uuid \<Rightarrow> rao" where
  "deposited_rao s a = sum_where (\<lambda>l. l_account_id l = a \<and> l_kind l = DEPOSIT \<and> l_deposit_id l \<noteq> None)
     l_amount_rao (ledger s)"

definition arrived_rao :: "db \<Rightarrow> uuid \<Rightarrow> rao" where
  "arrived_rao s a = sum_where (\<lambda>t. t_status t = T_CREDITED \<and> t_account_id t = Some a) t_amount_rao (transfers s)"

text \<open>What the ledger says an account spent, and what its confirmed intents held.\<close>

definition spent_rao :: "db \<Rightarrow> uuid \<Rightarrow> rao" where
  "spent_rao s a = - sum_where (\<lambda>l. l_account_id l = a \<and> l_kind l = SPEND) l_amount_rao (ledger s)"

definition confirmed_rao :: "db \<Rightarrow> uuid \<Rightarrow> rao" where
  "confirmed_rao s a = sum_where (\<lambda>i. i_account_id i = a \<and> i_status i = I_CONFIRMED) intent_hold (intents s)"

definition conserved :: "db \<Rightarrow> bool" where
  "conserved s \<longleftrightarrow> (\<forall>a. deposited_rao s a = arrived_rao s a \<and> spent_rao s a = confirmed_rao s a)"

text \<open>A transfer that funds a submission was taken out of the credit path.\<close>

definition spent_once :: "db \<Rightarrow> bool" where
  "spent_once s \<longleftrightarrow> (\<forall>x \<in> set (submissions s). \<forall>ref. s_payment_reference x = Some ref \<longrightarrow>
     (\<exists>t \<in> set (transfers s). t_extrinsic_reference t = ref \<and> t_status t = T_IGNORED))"

text \<open>A credit-funded submission is paid by a SPEND of its own account for its own intent.\<close>

definition funded :: "db \<Rightarrow> bool" where
  "funded s \<longleftrightarrow> (\<forall>x \<in> set (submissions s). \<forall>n. s_credit_ledger_id x = Some n \<longrightarrow>
     (\<exists>l \<in> set (ledger s). l_id l = n \<and> l_kind l = SPEND \<and> Some (l_account_id l) = s_account_id x \<and>
        l_intent_id l = s_intent_id x \<and> l_amount_rao l < 0))"

definition funding_inv :: "db \<Rightarrow> bool" where
  "funding_inv s \<longleftrightarrow> well_keyed s \<and> solvent s \<and> conserved s \<and> spent_once s \<and> funded s"

lemma funding_inv_empty: "funding_inv (empty_db sha now)"
  by (simp add: funding_inv_def well_keyed_def solvent_def conserved_def spent_once_def funded_def empty_db_def
      held_rao_def balance_rao_def deposited_rao_def arrived_rao_def spent_rao_def confirmed_rao_def)

section \<open>How a step can change each table\<close>

text \<open>
  The tables the invariants read.  A step that changes none of them, or only the clock forwards,
  preserves every invariant.
\<close>

definition money_same :: "db \<Rightarrow> db \<Rightarrow> bool" where
  "money_same s s' \<longleftrightarrow> ledger s' = ledger s \<and> intents s' = intents s \<and> transfers s' = transfers s \<and>
     next_ledger_id s' = next_ledger_id s \<and> next_uuid s \<le> next_uuid s' \<and>
     next_transfer_id s \<le> next_transfer_id s' \<and> clock s \<le> clock s'"

lemma held_antimono:
  assumes "\<forall>x \<in> set (intents s). 0 < intent_hold x" and "now \<le> later" and "intents s' = intents s"
  shows "held_rao s' a later \<le> held_rao s a now"
  unfolding held_rao_def assms(3) using assms(1,2)
  by (intro sum_where_mono) (auto simp: intent_live_def less_imp_le)

lemma money_same_inv:
  assumes "funding_inv s" and "money_same s s'" and "submissions s' = submissions s"
  shows "funding_inv s'"
proof -
  from assms(2) have eq: "ledger s' = ledger s" "intents s' = intents s" "transfers s' = transfers s"
    "next_ledger_id s' = next_ledger_id s" "next_uuid s \<le> next_uuid s'"
    "next_transfer_id s \<le> next_transfer_id s'" "clock s \<le> clock s'" by (simp_all add: money_same_def)
  from assms(1) have inv: "well_keyed s" "solvent s" "conserved s" "spent_once s" "funded s"
    by (simp_all add: funding_inv_def)
  have "well_keyed s'" using inv(1) eq by (auto simp: well_keyed_def intro: less_le_trans)
  moreover have "solvent s'"
  proof -
    have "held_rao s' a (clock s') \<le> held_rao s a (clock s)" for a
      using inv(1) eq by (intro held_antimono) (auto simp: well_keyed_def)
    moreover have "balance_rao s' a = balance_rao s a" for a by (simp add: balance_rao_def eq)
    ultimately show ?thesis using inv(2) by (auto simp: solvent_def intro: order_trans)
  qed
  moreover have "conserved s'" using inv(3)
    by (simp add: conserved_def deposited_rao_def arrived_rao_def spent_rao_def confirmed_rao_def eq)
  moreover have "spent_once s'" "funded s'" using inv(4,5) by (simp_all add: spent_once_def funded_def eq assms(3))
  ultimately show ?thesis by (simp add: funding_inv_def)
qed

lemma inv_money_in:
  assumes inv: "funding_inv s"
    and l: "ledger s' = ledger s @ es" "map l_id es = [next_ledger_id s..<next_ledger_id s + length es]"
      "next_ledger_id s' = next_ledger_id s + length es" "\<forall>x \<in> set es. 0 < l_amount_rao x \<and> l_kind x \<noteq> SPEND"
    and same: "intents s' = intents s" "submissions s' = submissions s" "clock s' = clock s" "next_uuid s \<le> next_uuid s'"
    and t: "distinct (map t_id (transfers s'))" "\<forall>x \<in> set (transfers s'). t_id x < next_transfer_id s'"
      "distinct (map t_extrinsic_reference (transfers s'))"
    and arr: "\<forall>a. arrived_rao s' a = arrived_rao s a
        + sum_where (\<lambda>l. l_account_id l = a \<and> l_kind l = DEPOSIT \<and> l_deposit_id l \<noteq> None) l_amount_rao es"
    and ign: "\<forall>x \<in> set (transfers s). t_status x = T_IGNORED \<longrightarrow> x \<in> set (transfers s')"
  shows "funding_inv s'"
proof -
  from inv have i: "well_keyed s" "solvent s" "conserved s" "spent_once s" "funded s"
    by (simp_all add: funding_inv_def)
  have ids: "l_id ` set es = {next_ledger_id s..<next_ledger_id s + length es}"
    using l(2) by (metis set_map set_upt)
  have "distinct (map l_id es)" using l(2) by simp
  then have "distinct (map l_id (ledger s'))" "\<forall>x \<in> set (ledger s'). l_id x < next_ledger_id s'"
    using i(1) ids l by (auto simp: well_keyed_def)
  then have "well_keyed s'" using i(1) t same by (auto simp: well_keyed_def intro: less_le_trans)
  moreover have "solvent s'"
  proof -
    have "balance_rao s' a = balance_rao s a + sum_where (\<lambda>l. l_account_id l = a) l_amount_rao es" for a
      by (simp add: balance_rao_def l)
    moreover have "0 \<le> sum_where (\<lambda>l. l_account_id l = a) l_amount_rao es" for a
      using l(4) by (intro sum_where_nonneg) (simp add: less_imp_le)
    moreover have "held_rao s' a (clock s') = held_rao s a (clock s)" for a by (simp add: held_rao_def same)
    ultimately show ?thesis using i(2) by (auto simp: solvent_def intro: add_increasing2)
  qed
  moreover have "conserved s'"
  proof -
    have "sum_where (\<lambda>x. l_account_id x = a \<and> l_kind x = SPEND) l_amount_rao es = 0" for a
      using l(4) sum_where_cong [of es "\<lambda>x. l_account_id x = a \<and> l_kind x = SPEND" "\<lambda>_. False" l_amount_rao l_amount_rao]
      by (simp add: sum_where_def)
    then show ?thesis using i(3) arr
      by (simp add: conserved_def deposited_rao_def spent_rao_def confirmed_rao_def same l)
  qed
  moreover have "spent_once s'" using i(4) ign by (fastforce simp: spent_once_def same)
  moreover have "funded s'" using i(5) by (fastforce simp: funded_def same l)
  ultimately show ?thesis by (simp add: funding_inv_def)
qed

text \<open>Money that comes in by another way than the chain.\<close>

lemma inv_appended:
  assumes inv: "funding_inv s" and ap: "appends ok s s'"
    and ok: "\<And>l. ok l \<Longrightarrow> 0 < l_amount_rao l \<and> l_kind l \<noteq> SPEND \<and> l_deposit_id l = None"
    and same: "intents s' = intents s" "submissions s' = submissions s" "clock s' = clock s" "next_uuid s \<le> next_uuid s'"
      "transfers s' = transfers s" "next_transfer_id s' = next_transfer_id s"
  shows "funding_inv s'"
proof -
  obtain es where es: "ledger s' = ledger s @ es" "\<forall>e \<in> set es. ok e"
    "map l_id es = [next_ledger_id s..<next_ledger_id s + length es]" "next_ledger_id s' = next_ledger_id s + length es"
    using ap by (auto simp: appends_def)
  have "sum_where (\<lambda>l. l_account_id l = a \<and> l_kind l = DEPOSIT \<and> l_deposit_id l \<noteq> None) l_amount_rao es = 0" for a
    using es(2) ok by (induction es) auto
  moreover have "well_keyed s" using inv by (simp add: funding_inv_def)
  ultimately show ?thesis using es ok same
    by (intro inv_money_in [OF inv es(1,3,4)]) (auto simp: well_keyed_def arrived_rao_def)
qed

lemma inv_intents:
  assumes inv: "funding_inv s"
    and same: "ledger s' = ledger s" "transfers s' = transfers s" "submissions s' = submissions s"
      "clock s' = clock s" "next_ledger_id s' = next_ledger_id s" "next_transfer_id s' = next_transfer_id s"
    and k: "distinct (map i_id (intents s'))" "\<forall>x \<in> set (intents s'). i_id x < next_uuid s' \<and> 0 < intent_hold x"
    and held: "\<forall>a. held_rao s' a (clock s) \<le> balance_rao s a"
    and conf: "\<forall>a. confirmed_rao s' a = confirmed_rao s a"
  shows "funding_inv s'"
  using assms unfolding funding_inv_def well_keyed_def solvent_def conserved_def spent_once_def funded_def
    balance_rao_def deposited_rao_def arrived_rao_def spent_rao_def by simp

text \<open>Sums over the intents after one of them changed.\<close>

lemma held_replace:
  assumes "well_keyed s" and "find_row i_id n (intents s) = Some i" and "i_id i' = n"
    and "intents s' = replace_row i_id i' (intents s)"
  shows "held_rao s' a now = held_rao s a now
      - (if i_account_id i = a \<and> intent_live now i then intent_hold i else 0)
      + (if i_account_id i' = a \<and> intent_live now i' then intent_hold i' else 0)"
    and "confirmed_rao s' a = confirmed_rao s a
      - (if i_account_id i = a \<and> i_status i = I_CONFIRMED then intent_hold i else 0)
      + (if i_account_id i' = a \<and> i_status i' = I_CONFIRMED then intent_hold i' else 0)"
    and "0 < intent_hold i' \<Longrightarrow> distinct (map i_id (intents s')) \<and>
      (\<forall>x \<in> set (intents s'). i_id x < next_uuid s \<and> 0 < intent_hold x)"
  using assms(1) find_row_Some [OF assms(2)] set_replace_row [of i_id i' "intents s"]
  by (auto simp: held_rao_def confirmed_rao_def assms(3,4) well_keyed_def sum_where_replace_row)

text \<open>A transfer row rewritten without being credited.\<close>

lemma inv_transfer_noted:
  assumes inv: "funding_inv s" and t: "find_row t_id n (transfers s) = Some t"
    and t': "t' = t\<lparr>t_status := t_status t', t_note := t_note t', t_updated_at := t_updated_at t'\<rparr>"
    and st: "t_status t \<noteq> T_CREDITED \<and> t_status t' \<noteq> T_CREDITED \<or> t_status t' = t_status t"
      "t_status t = T_IGNORED \<longrightarrow> t_status t' = T_IGNORED"
  shows "funding_inv (s\<lparr>transfers := replace_row t_id t' (transfers s)\<rparr>)"
proof -
  have eq: "t_id t' = t_id t" "t_extrinsic_reference t' = t_extrinsic_reference t"
    "t_amount_rao t' = t_amount_rao t" "t_account_id t' = t_account_id t" by (subst t', simp)+
  note mem = find_row_Some [OF t]
  from inv have i: "well_keyed s" "solvent s" "conserved s" "spent_once s" "funded s"
    by (simp_all add: funding_inv_def)
  let ?s = "s\<lparr>transfers := replace_row t_id t' (transfers s)\<rparr>"
  have d: "distinct (map t_id (transfers s))" using i(1) by (simp add: well_keyed_def)
  have "well_keyed ?s" using i(1) mem eq map_replace_row [OF d, of t t' t_extrinsic_reference]
      replace_row_keys [of t_id t' "transfers s" "\<lambda>n. n < next_transfer_id s"]
    by (simp add: well_keyed_def)
  moreover have "arrived_rao ?s a = arrived_rao s a" for a
    using d mem eq st(1) by (auto simp: arrived_rao_def sum_where_replace_row)
  then have "conserved ?s" using i(3)
    by (simp add: conserved_def deposited_rao_def spent_rao_def confirmed_rao_def)
  moreover have "solvent ?s" "funded ?s" using i(2,5)
    by (simp_all add: solvent_def funded_def held_rao_def balance_rao_def)
  moreover have "spent_once ?s"
    unfolding spent_once_def
  proof (intro ballI allI impI)
    fix x ref assume "x \<in> set (submissions ?s)" "s_payment_reference x = Some ref"
    with i(4) obtain u where u: "u \<in> set (transfers s)" "t_extrinsic_reference u = ref" "t_status u = T_IGNORED"
      by (auto simp: spent_once_def)
    show "\<exists>t \<in> set (transfers ?s). t_extrinsic_reference t = ref \<and> t_status t = T_IGNORED"
    proof (cases "u = t")
      case True
      have "t' \<in> set (replace_row t_id t' (transfers s))" using mem eq by (intro replace_row_mem [of t]) auto
      then show ?thesis using True u eq st(2) by (intro bexI [of _ t']) simp_all
    next
      case False
      then have "u \<in> set (replace_row t_id t' (transfers s))"
        using d mem eq u by (intro mem_replace_row [of t_id _ t]) auto
      then show ?thesis using u by (intro bexI [of _ u]) simp_all
    qed
  qed
  ultimately show ?thesis by (simp add: funding_inv_def)
qed

section \<open>Every step preserves them\<close>

lemma inv_recorded:
  assumes inv: "funding_inv s" and r: "record_transfer arr s = Inr (rt, s')"
  shows "funding_inv s'"
  using r
proof (cases rule: record_transfer_Inr)
  case old
  then show ?thesis using inv by (intro money_same_inv [OF inv]) (simp_all add: money_same_def)
next
  case new
  from inv have k: "well_keyed s" by (simp add: funding_inv_def)
  let ?t = "rt_transfer rt"
  have t: "t_id ?t = next_transfer_id s" "t_extrinsic_reference ?t = ar_reference arr" "t_status ?t = UNATTRIBUTED"
    using new(3) by simp_all
  show ?thesis
  proof (rule inv_money_in [OF inv, where es = "[]"])
    show "distinct (map t_id (transfers s'))" "\<forall>x \<in> set (transfers s'). t_id x < next_transfer_id s'"
      "distinct (map t_extrinsic_reference (transfers s'))"
      using k t new(2) unfolding new(4) by (auto simp: well_keyed_def)
    show "\<forall>a. arrived_rao s' a = arrived_rao s a + sum_where (\<lambda>l. l_account_id l = a \<and> l_kind l = DEPOSIT \<and>
        l_deposit_id l \<noteq> None) l_amount_rao []" using t unfolding new(4) by (simp add: arrived_rao_def)
  qed (simp_all add: new(4))
qed

lemma inv_credit:
  assumes inv: "funding_inv s" and t: "find_row t_id n (transfers s) = Some t" and un: "t_status t = UNATTRIBUTED"
    and c: "credit t a price expi by sch s = Inr ((e, t'), s')"
  shows "funding_inv s'"
  using c
proof (cases rule: credit_Inr)
  case (1 es)
  from inv have k: "well_keyed s" by (simp add: funding_inv_def)
  note mem = find_row_Some [OF t]
  let ?t = "t'\<lparr>t_updated_at := clock s\<rparr>"
  have d: "distinct (map t_id (transfers s))" using k by (simp add: well_keyed_def)
  have tr: "transfers s' = replace_row t_id ?t (transfers s)" "intents s' = intents s" "submissions s' = submissions s"
    "clock s' = clock s" "next_transfer_id s' = next_transfer_id s" by (subst 1(13), simp)+
  show ?thesis
  proof (rule inv_money_in [OF inv 1(1) 1(3) 1(2)])
    show "\<forall>x \<in> set es. 0 < l_amount_rao x \<and> l_kind x \<noteq> SPEND" using 1(4) by auto
    show "distinct (map t_id (transfers s'))" "\<forall>x \<in> set (transfers s'). t_id x < next_transfer_id s'"
      using k replace_row_keys [of t_id ?t "transfers s" "\<lambda>n. n < next_transfer_id s"] by (simp_all add: tr well_keyed_def)
    show "distinct (map t_extrinsic_reference (transfers s'))"
      using k mem 1(9,11) map_replace_row [OF d, of t ?t t_extrinsic_reference] by (simp add: tr well_keyed_def)
    show "\<forall>b. arrived_rao s' b = arrived_rao s b + sum_where (\<lambda>l. l_account_id l = b \<and> l_kind l = DEPOSIT \<and>
        l_deposit_id l \<noteq> None) l_amount_rao es"
    proof
      fix b
      have "arrived_rao s' b = arrived_rao s b + (if a = b then t_amount_rao t else 0)"
        using d mem un 1(7-10) by (simp add: arrived_rao_def tr sum_where_replace_row [OF d, of t])
      moreover have "sum_where (\<lambda>l. l_account_id l = b \<and> l_kind l = DEPOSIT \<and> l_deposit_id l \<noteq> None) l_amount_rao es
          = (if a = b then t_amount_rao t else 0)"
      proof (cases "a = b")
        case True
        then show ?thesis unfolding 1(5) [symmetric] using 1(4) by (auto intro!: sum_where_cong)
      next
        case False
        then have "sum_where (\<lambda>l. l_account_id l = b \<and> l_kind l = DEPOSIT \<and> l_deposit_id l \<noteq> None) l_amount_rao es
            = sum_where (\<lambda>_. False) l_amount_rao es" using 1(4) by (intro sum_where_cong) auto
        then show ?thesis using False by (simp add: sum_where_def)
      qed
      ultimately show "arrived_rao s' b = arrived_rao s b + sum_where (\<lambda>l. l_account_id l = b \<and> l_kind l = DEPOSIT \<and>
        l_deposit_id l \<noteq> None) l_amount_rao es" by simp
    qed
    show "\<forall>x \<in> set (transfers s). t_status x = T_IGNORED \<longrightarrow> x \<in> set (transfers s')"
      using d mem un 1(9) by (auto simp: tr intro!: mem_replace_row [of t_id _ t])
  qed (use tr 1(14) in simp_all)
qed

lemma inv_settled:
  assumes inv: "funding_inv s" and r: "settle ws n arr r s = Inr (ad, s')"
  shows "funding_inv s'"
  using r
proof (cases rule: settle_Inr)
  case (noted t t')
  have "t_updated_at t' = clock s" by (subst noted(3)) simp
  then show ?thesis unfolding noted(6) using noted
    by (intro inv_transfer_noted [OF inv noted(1)]) simp_all
next
  case (credited t acct e t')
  then show ?thesis using inv_credit [OF inv] by blast
qed (use inv in simp)

lemma inv_conflict_noted:
  assumes inv: "funding_inv s" and r: "note_conflict n msg s = Inr (u, s')"
  shows "funding_inv s'"
  using r
proof (cases rule: note_conflict_Inr)
  case (noted t)
  show ?thesis unfolding noted(2) by (rule inv_transfer_noted [OF inv noted(1)]) simp_all
qed (use inv in simp)

lemma inv_opened:
  assumes inv: "funding_inv s"
    and r: "open_intent a task bundle price expi (clock s) held pc signer s = Inr ((i, b), s')"
  shows "funding_inv s'"
  using r
proof (cases rule: open_intent_Inr)
  case (1 b0)
  from inv have k: "well_keyed s" "solvent s" by (simp_all add: funding_inv_def)
  have hold: "intent_hold i = held * price" "0 < intent_hold i" using 1 by (simp_all add: intent_hold_def)
  have avail: "held * price \<le> balance_rao s a - held_rao s a (clock s)"
  proof -
    note b = get_credit_balance_Inr [OF 1(1)]
    have "0 < credits_available b0" using 1 by simp
    then have "credits_available b0 = available_rao b0 div price" using b by (auto split: if_splits)
    then have "held \<le> available_rao b0 div price" using 1(2) by simp
    then have "held * price \<le> available_rao b0 div price * price" using 1(15) by simp
    also have "\<dots> = available_rao b0 - available_rao b0 mod price" by (simp add: minus_mod_eq_div_mult)
    also have "\<dots> \<le> available_rao b0" using 1(15) by simp
    finally show ?thesis using b by (simp add: available_rao_def)
  qed
  show ?thesis
  proof (rule inv_intents [OF inv])
    show "distinct (map i_id (intents s'))" "\<forall>x \<in> set (intents s'). i_id x < next_uuid s' \<and> 0 < intent_hold x"
      using k(1) 1(6) hold(2) unfolding 1(4) by (auto simp: well_keyed_def)
    show "\<forall>c. held_rao s' c (clock s) \<le> balance_rao s c"
    proof
      fix c
      have "held_rao s' c (clock s) = held_rao s c (clock s) + (if c = a then held * price else 0)"
        using 1(7,8,11,16) hold(1) by (simp add: held_rao_def 1(4) intent_live_simps)
      then show "held_rao s' c (clock s) \<le> balance_rao s c" using avail k(2) by (simp add: solvent_def)
    qed
    show "\<forall>c. confirmed_rao s' c = confirmed_rao s c" using 1(8) by (simp add: confirmed_rao_def 1(4))
  qed (simp_all add: 1(4))
qed

text \<open>One intent rewritten: its hold may stay or go, and it is confirmed neither before nor after.\<close>

lemma inv_intent_rewritten:
  assumes inv: "funding_inv s" and i: "find_row i_id n (intents s) = Some i" and live: "intent_live (clock s) i"
    and i': "i_id i' = n" "i_account_id i' = i_account_id i" "intent_hold i' = intent_hold i"
      "i_expires_at i' = i_expires_at i" "i_status i' \<noteq> I_CONFIRMED"
  shows "funding_inv (s\<lparr>intents := replace_row i_id i' (intents s)\<rparr>)"
proof -
  from inv have k: "well_keyed s" "solvent s" by (simp_all add: funding_inv_def)
  let ?s = "s\<lparr>intents := replace_row i_id i' (intents s)\<rparr>"
  note h = held_replace [OF k(1) i i'(1), of ?s, simplified]
  have pos: "0 < intent_hold i" using k(1) find_row_Some [OF i] by (auto simp: well_keyed_def)
  have st: "i_status i \<noteq> I_CONFIRMED" using live by (auto simp: intent_live_simps)
  have held: "held_rao ?s a (clock s) \<le> held_rao s a (clock s)" for a
    using pos live i'(2,3) by (auto simp: h(1))
  show ?thesis
  proof (rule inv_intents [OF inv])
    show "\<forall>a. held_rao ?s a (clock s) \<le> balance_rao s a"
      using held k(2) by (auto simp: solvent_def intro: order_trans)
  qed (use h(2,3) pos i' st in simp_all)
qed

lemma inv_confirmed:
  assumes inv: "funding_inv s" and r: "confirm n a k (clock s) s = Inr (c, s')"
  shows "funding_inv s'"
  using r
proof (cases rule: confirm_Inr)
  case (1 i content digest)
  from 1(8) obtain sp where
    sp: "l_id sp = next_ledger_id s" "l_account_id sp = a" "l_kind sp = SPEND" "l_amount_rao sp = - intent_hold i"
      "l_intent_id sp = Some (i_id i)"
    and sub: "ci_submission c = confirmed_submission s (next_uuid s) i a (next_ledger_id s)
           (case i_proof_sha256 i of None \<Rightarrow> [] | Some d \<Rightarrow> d) digest k"
    and ci: "ci_intent c = (closed_intent i I_CONFIRMED)\<lparr>i_submission_id := Some (next_uuid s)\<rparr>"
    and s': "s' = s\<lparr>next_uuid := Suc (next_uuid s), next_ledger_id := Suc (next_ledger_id s),
           next_event_id := next_event_id s', proofs := proofs s', ledger := ledger s @ [sp],
           submissions := submissions s @ [ci_submission c],
           intents := replace_row i_id ((ci_intent c)\<lparr>i_updated_at := clock s\<rparr>) (intents s),
           events := events s'\<rparr>"
    by (rule spend_and_submit_Inr)
  let ?i = "(ci_intent c)\<lparr>i_updated_at := clock s\<rparr>"
  from inv have v: "well_keyed s" "solvent s" "conserved s" "spent_once s" "funded s" by (simp_all add: funding_inv_def)
  have f: "ledger s' = ledger s @ [sp]" "submissions s' = submissions s @ [ci_submission c]"
    "intents s' = replace_row i_id ?i (intents s)" "transfers s' = transfers s" "clock s' = clock s"
    "next_ledger_id s' = Suc (next_ledger_id s)" "next_transfer_id s' = next_transfer_id s"
    "next_uuid s' = Suc (next_uuid s)" by (subst s', simp)+
  have ii: "i_id ?i = n" "i_account_id ?i = a" "i_status ?i = I_CONFIRMED" "intent_hold ?i = intent_hold i"
    using find_row_Some [OF 1(1)] 1(2) by (simp_all add: ci intent_hold_def)
  note h = held_replace [OF v(1) 1(1) ii(1) f(3)]
  have pos: "0 < intent_hold i" using v(1) find_row_Some [OF 1(1)] by (auto simp: well_keyed_def)
  have "well_keyed s'" using v(1) h(3) pos ii(4) sp(1) by (auto simp: well_keyed_def f)
  moreover have "solvent s'"
  proof -
    have "held_rao s' b (clock s) = held_rao s b (clock s) - (if b = a then intent_hold i else 0)" for b
      using 1(2,3) ii by (auto simp: h(1) intent_live_simps)
    moreover have "balance_rao s' b = balance_rao s b - (if b = a then intent_hold i else 0)" for b
      using sp by (auto simp: balance_rao_def f)
    ultimately show ?thesis using v(2) by (simp add: solvent_def f)
  qed
  moreover have "conserved s'"
  proof -
    have "confirmed_rao s' b = confirmed_rao s b + (if b = a then intent_hold i else 0)" for b
      using 1(2,4) ii by (auto simp: h(2))
    then show ?thesis using v(3) sp
      by (auto simp: conserved_def deposited_rao_def arrived_rao_def spent_rao_def f)
  qed
  moreover have "spent_once s'" using v(4) by (auto simp: spent_once_def f sub confirmed_submission_def blank_submission_def)
  moreover have "funded s'"
    using v(5) sp pos by (fastforce simp: funded_def f sub confirmed_submission_def)
  ultimately show ?thesis by (simp add: funding_inv_def)
qed

lemma inv_intents_expired:
  assumes inv: "funding_inv s" and r: "expire_lapsed (clock s) s = Inr (m, s')"
  shows "funding_inv s'"
proof -
  let ?f = "\<lambda>i. if i_status i \<in> set LIVE_INTENT_STATES \<and> i_expires_at i \<le> clock s
           then (closed_intent i I_EXPIRED)\<lparr>i_updated_at := clock s\<rparr> else i"
  note s' = expire_lapsed_Inr [OF r]
  from inv have k: "well_keyed s" "solvent s" by (simp_all add: funding_inv_def)
  have f: "i_id (?f i) = i_id i" "intent_hold (?f i) = intent_hold i" "i_account_id (?f i) = i_account_id i"
    "intent_live (clock s) (?f i) = intent_live (clock s) i" "i_status (?f i) = I_CONFIRMED \<longleftrightarrow> i_status i = I_CONFIRMED" for i
    by (auto simp: intent_hold_def intent_live_def LIVE_INTENT_STATES_def)
  have sums: "sum_where p intent_hold (map ?f xs) = sum_where p intent_hold xs" if "\<And>i. p (?f i) = p i" for p xs
    using f(2) that by (induction xs) simp_all
  show ?thesis
  proof (rule inv_intents [OF inv])
    show "distinct (map i_id (intents s'))" "\<forall>x \<in> set (intents s'). i_id x < next_uuid s' \<and> 0 < intent_hold x"
      using k(1) f(1) unfolding s' by (auto simp: well_keyed_def comp_def intent_hold_def)
    show "\<forall>a. held_rao s' a (clock s) \<le> balance_rao s a"
      using k(2) f(3,4) sums [of "\<lambda>i. i_account_id i = a \<and> intent_live (clock s) i" for a]
      by (simp add: held_rao_def s' solvent_def)
    show "\<forall>a. confirmed_rao s' a = confirmed_rao s a"
      using f(3,5) sums [of "\<lambda>i. i_account_id i = a \<and> i_status i = I_CONFIRMED" for a]
      by (simp add: confirmed_rao_def s')
  qed (simp_all add: s')
qed

text \<open>Recording a transfer does not look at the submissions.\<close>

lemma record_transfer_submissions:
  assumes "record_transfer arr s = Inr (r, s')"
  shows "record_transfer arr (s\<lparr>submissions := xs\<rparr>) = Inr (r, s'\<lparr>submissions := xs\<rparr>)"
proof -
  have row: "new_transfer_row (s\<lparr>submissions := xs\<rparr>) n arr = new_transfer_row s n arr" for n
    by (simp add: new_transfer_row_def)
  have keys: "transfer_keys (s\<lparr>submissions := xs, next_transfer_id := m\<rparr>) = transfer_keys s"
    "transfer_keys (s\<lparr>next_transfer_id := m\<rparr>) = transfer_keys s" for m
    by (simp_all add: transfer_keys_def fun_eq_iff)
  show ?thesis using assms
    by (simp add: record_transfer_def bindT_def new_transfer_id_def reads_def insert_transfer_def insert_or_skip_def
        row keys split: option.splits if_splits) (auto simp: keys)
qed

lemma recorded_reference:
  assumes "record_transfer arr s = Inr (r, s')"
  shows "rt_transfer r \<in> set (transfers s') \<and> t_extrinsic_reference (rt_transfer r) = ar_reference arr"
  using assms by (cases rule: record_transfer_Inr) auto

lemma inv_add_submission:
  assumes "funding_inv (s\<lparr>submissions := xs\<rparr>)" and "submissions s = xs @ [x]" and "s_credit_ledger_id x = None"
    and "s_payment_reference x = Some ref" and "t \<in> set (transfers s)" and "t_extrinsic_reference t = ref"
    and "t_status t = T_IGNORED"
  shows "funding_inv s"
  using assms unfolding funding_inv_def well_keyed_def solvent_def conserved_def spent_once_def funded_def
    held_rao_def balance_rao_def deposited_rao_def arrived_rao_def spent_rao_def confirmed_rao_def by auto

lemma inv_paid_submission:
  assumes inv: "funding_inv s" and q: "create_submission q s = Inr (v, s1)" "\<not> sv_replayed v"
    and ref: "ar_reference arr = n_payment_reference q" and c: "claim_for_submission arr note s1 = Inr (t', s')"
  shows "funding_inv s'"
  using q(1)
proof (cases rule: create_submission_Inr)
  case (replay x d)
  then show ?thesis using q(2) by simp
next
  case (new x ps)
  from c obtain r s2 t where rec: "record_transfer arr s1 = Inr (r, s2)"
    and t: "find_row t_id (t_id (rt_transfer r)) (transfers s2) = Some t" "t_status t = UNATTRIBUTED"
    and t': "t' = t\<lparr>t_status := T_IGNORED, t_note := Some (take 500 note)\<rparr>"
    and s': "s' = s2\<lparr>transfers := replace_row t_id (t'\<lparr>t_updated_at := clock s2\<rparr>) (transfers s2)\<rparr>"
    by (rule claim_for_submission_Inr)
  let ?t = "t'\<lparr>t_updated_at := clock s2\<rparr>"
  have "funding_inv (s1\<lparr>submissions := submissions s\<rparr>)"
    by (rule money_same_inv [OF inv]) (simp_all add: new(2) money_same_def)
  then have inv2: "funding_inv (s2\<lparr>submissions := submissions s\<rparr>)"
    using record_transfer_submissions [OF rec] by (rule inv_recorded)
  have "distinct (map t_id (transfers s2))" using inv2 by (simp add: funding_inv_def well_keyed_def)
  with recorded_reference [OF rec] t(1) have tref: "t_extrinsic_reference t = ar_reference arr"
    by (metis find_row_unique option.inject)
  have "funding_inv ((s2\<lparr>submissions := submissions s\<rparr>)\<lparr>transfers := replace_row t_id ?t (transfers s2)\<rparr>)"
    using inv_transfer_noted [OF inv2, of _ t ?t] t by (simp add: t')
  moreover have "(s2\<lparr>submissions := submissions s\<rparr>)\<lparr>transfers := replace_row t_id ?t (transfers s2)\<rparr>
      = s'\<lparr>submissions := submissions s\<rparr>" by (simp add: s')
  ultimately have inv3: "funding_inv (s'\<lparr>submissions := submissions s\<rparr>)" by simp
  have "submissions s2 = submissions s1" using rec by (cases rule: record_transfer_Inr) auto
  then have "submissions s' = submissions s @ [x]" by (simp add: s' new(2))
  moreover have "?t \<in> set (transfers s')"
    using find_row_Some [OF t(1)] by (auto simp: s' t' intro!: replace_row_mem [of t])
  ultimately show ?thesis
    using new(8,9) ref tref by (intro inv_add_submission [OF inv3]) (auto simp: t')
qed

lemma funding_inv_step: "money_step s s' \<Longrightarrow> funding_inv s \<Longrightarrow> funding_inv s'"
proof (induction rule: money_step.induct)
  case (account_changed s s')
  note f = accounts_frameD [OF account_step_frame [OF account_changed(1)]]
  show ?case by (rule money_same_inv [OF account_changed(2)]) (simp_all add: money_same_def f)
next
  case (order_changed s s')
  note f = order_step_frame [OF order_changed(1)]
  show ?case using orders_frameD [OF conjunct1 [OF f]]
    by (intro inv_appended [OF order_changed(2) conjunct2 [OF f]]) (auto simp: order_entry_def)
next
  case (invitation_changed s s')
  note f = invite_step_frame [OF invitation_changed(1)]
  show ?case using invites_frameD [OF conjunct1 [OF f]]
    by (intro inv_appended [OF invitation_changed(2) conjunct2 [OF f]]) (auto simp: grant_entry_def)
next
  case (deposit_claimed n s d ref sndr d' s')
  then obtain ds where "s' = s\<lparr>deposits := ds\<rparr>" by (auto simp: mark_seen_def tx_simps Let_def)
  then show ?case by (intro money_same_inv [OF deposit_claimed(4)]) (simp_all add: money_same_def)
next
  case (deposits_expired s k s')
  then obtain ds where "s' = s\<lparr>deposits := ds\<rparr>" by (auto simp: expire_open_deposits_def tx_simps)
  then show ?case by (intro money_same_inv [OF deposits_expired(2)]) (simp_all add: money_same_def)
next
  case (deposit_declared a amount addr price expi s d s')
  show ?case unfolding create_deposit_Inr(1) [OF deposit_declared(1)]
    by (rule money_same_inv [OF deposit_declared(2)]) (simp_all add: money_same_def)
next
  case (bundle_attached n s i content sha digest i' s')
  from bundle_attached(2) show ?case
  proof (cases rule: attach_bundle_Inr)
    case (1 p d)
    show ?thesis unfolding 1(3) using find_row_Some [OF bundle_attached(1)]
      by (intro inv_intent_rewritten [OF bundle_attached(3,1) 1(1)]) (simp_all add: 1(2) intent_hold_def)
  qed
next
  case (intent_cancelled n s i i' s')
  note c = cancel_Inr [OF intent_cancelled(2)]
  show ?case unfolding c(3) using find_row_Some [OF intent_cancelled(1)]
    by (intro inv_intent_rewritten [OF intent_cancelled(3,1) c(1)]) (simp_all add: c(2) intent_hold_def)
qed (auto simp: money_same_def intro: inv_recorded inv_settled inv_conflict_noted inv_opened inv_confirmed
    inv_intents_expired inv_paid_submission money_same_inv)

end
