(* ===== verification/PayoutTables.thy ===== *)
theory PayoutTables
  imports Submissions
begin

text \<open>
  The tables of the paying side: payout attempts, the operators' actions on them, the treasury's
  finalized outbound ledger, the payout watcher's cursor and the notifier's outbox, with their CHECK
  constraints, unique indexes, foreign keys and triggers from \<open>db/models.py\<close>, \<open>db/bounty_policy.py\<close> and
  \<open>db/trajectory_fulfillment.py\<close>, and the writes that go through them.

  PostgreSQL's \<open>NUMERIC\<close> and Python's \<open>Decimal\<close> are exact rationals here, so the rounding of a quotient
  to their working precision is not modelled.
\<close>

section \<open>JSON and NUMERIC\<close>

text \<open>\<open>inputs ->> key\<close>: the text of a scalar, NULL where the key is missing or null.\<close>

fun json_scalar :: "detail \<Rightarrow> string option" where
  "json_scalar (DStr t) = Some t"
| "json_scalar (DInt n) = Some (str_int n)"
| "json_scalar (DUuid u) = map_option str_uuid u"
| "json_scalar (DBool b) = Some (if b then ''true'' else ''false'')"
| "json_scalar (DTime t) = Some (str_int t)"
| "json_scalar _ = None"

definition json_text :: "(string \<times> detail) list \<Rightarrow> string \<Rightarrow> string option" where
  "json_text inputs key = Option.bind (map_of inputs key) json_scalar"

text \<open>\<open>COALESCE(inputs ->> key, '') = ''\<close>\<close>

definition json_blank :: "(string \<times> detail) list \<Rightarrow> string \<Rightarrow> bool" where
  "json_blank inputs key \<longleftrightarrow> (case json_text inputs key of None \<Rightarrow> True | Some t \<Rightarrow> t = [])"

definition json_is_array :: "(string \<times> detail) list \<Rightarrow> string \<Rightarrow> bool" where
  "json_is_array inputs key \<longleftrightarrow> (case map_of inputs key of Some (DList _) \<Rightarrow> True | _ \<Rightarrow> False)"

definition digits_value :: "string \<Rightarrow> int" where
  "digits_value t = foldl (\<lambda>acc c. 10 * acc + (of_char c - 48)) 0 t"

definition all_digits :: "string \<Rightarrow> bool" where
  "all_digits t \<longleftrightarrow> t \<noteq> [] \<and> list_all (in_chars digit_chars) t"

text \<open>Sign, digits, fraction and exponent of a decimal number; \<open>NaN\<close> and the infinities are not values.\<close>

definition split_at :: "string \<Rightarrow> string \<Rightarrow> string \<times> string option" where
  "split_at seps t = (let a = takeWhile (\<lambda>c. \<not> in_chars seps c) t; r = drop (length a) t
     in (a, case r of [] \<Rightarrow> None | _ # u \<Rightarrow> Some u))"

definition signed :: "string \<Rightarrow> int \<times> string" where
  "signed t = (case t of [] \<Rightarrow> (1, []) | c # u \<Rightarrow> if c = CHR ''-'' then (- 1, u) else if c = CHR ''+'' then (1, u) else (1, t))"

definition exponent_value :: "string option \<Rightarrow> int option" where
  "exponent_value e = (case e of None \<Rightarrow> Some 0
     | Some t \<Rightarrow> (case signed t of (sg, u) \<Rightarrow> if all_digits u then Some (sg * digits_value u) else None))"

definition numeric_of :: "string \<Rightarrow> rat option" where
  "numeric_of t =
     (case signed t of (sg, u) \<Rightarrow>
       (case split_at ''eE'' u of (m, e) \<Rightarrow>
         (case split_at ''.'' m of (whole, fraction) \<Rightarrow>
           (let f = (case fraction of None \<Rightarrow> [] | Some x \<Rightarrow> x) in
            case exponent_value e of
              None \<Rightarrow> None
            | Some k \<Rightarrow> if \<not> all_digits (whole @ f) then None
                else let v = of_int (sg * digits_value (whole @ f)) / 10 ^ length f :: rat
                     in Some (if 0 \<le> k then v * 10 ^ nat k else v / 10 ^ nat (- k))))))"

text \<open>\<open>round(numeric)\<close> of a positive value, and \<open>ROUND_HALF_UP\<close>.\<close>

definition round_half_up :: "rat \<Rightarrow> int" where
  "round_half_up x = \<lfloor>x + 1 / 2\<rfloor>"

section \<open>\<open>reward_events\<close>\<close>

abbreviation "DEFECT_AWARD \<equiv> ''FORMALIZATION_DEFECT_AWARD''"

abbreviation "TREASURY_CHAT_POLICY \<equiv> ''linear-age-v3-chat-logs''"

definition reward_checks :: "reward_row \<Rightarrow> (string \<times> bool) list" where
  "reward_checks r =
    [(''reward_amount_positive'', rw_amount_rao r > 0),
     (''reward_pricing_policy_version_nonempty'', length_between 1 64 (rw_pricing_policy_version r)),
     (''reward_generation_key_nonempty'', pred_option (length_between 1 128) (rw_generation_key r)),
     (''reward_submitted_needs_reference'',
        rw_status r \<notin> {SUBMITTED, P_CONFIRMED} \<or> rw_extrinsic_reference r \<noteq> None \<and> rw_submitted_at r \<noteq> None),
     (''reward_chain_observation_needs_chain_state'',
        \<not> rw_chain_observed r \<or> rw_status r \<in> {SUBMITTED, P_CONFIRMED}),
     (''reward_confirmed_needs_finality'',
        rw_status r \<noteq> P_CONFIRMED \<or> rw_finalized_block r \<noteq> None \<and> rw_confirmed_at r \<noteq> None),
     (''reward_failed_needs_reason'', rw_status r \<noteq> P_FAILED \<or> rw_failure_reason r \<noteq> None),
     (''reward_blocks_positive'',
        pred_option (\<lambda>b. b > 0) (rw_submitted_block r) \<and> pred_option (\<lambda>b. b > 0) (rw_finalized_block r)),
     (''reward_finalized_not_before_submitted'',
        (case (rw_finalized_block r, rw_submitted_block r) of (Some f, Some b) \<Rightarrow> f \<ge> b | _ \<Rightarrow> True)),
     (''reward_submitted_not_before_created'', pred_option (\<lambda>t. t \<ge> rw_created_at r) (rw_submitted_at r)),
     (''reward_confirmed_after_submitted'',
        (case rw_confirmed_at r of None \<Rightarrow> True
         | Some c \<Rightarrow> (case rw_submitted_at r of None \<Rightarrow> False | Some t \<Rightarrow> c \<ge> t)))]"

definition reward_keys :: "db \<Rightarrow> reward_row \<Rightarrow> (string \<times> bool) list" where
  "reward_keys s r =
    [(''reward_events_extrinsic_idx'', unique_on rw_id rw_extrinsic_reference r (reward_events s)),
     (''reward_events_generation_key_idx'', unique_on rw_id rw_generation_key r (reward_events s)),
     (''reward_events_submission_id_fkey'', references (Some (rw_submission_id r)) s_id (submissions s))]"

text \<open>The two prices of an automatic instruction: the locked bounty, or the fixed award for a defect.\<close>

definition bounty_lock_checks :: "submission_row \<Rightarrow> reward_row \<Rightarrow> (string \<times> bool) list" where
  "bounty_lock_checks sub r =
    [(''reward_event_requires_bounty_lock'', s_bounty_locked_at sub \<noteq> None),
     (''reward_event_matches_bounty_lock'',
        rw_amount_rao r = s_bounty_amount_rao sub \<and>
        rw_pricing_policy_version r = s_bounty_policy_version sub \<and>
        rw_pricing_inputs r = s_bounty_inputs sub)]"

definition capped_policy :: "submission_row \<Rightarrow> bool" where
  "capped_policy sub \<longleftrightarrow> s_review_policy_version sub \<in> {''v3'', ''v4''}"

definition defect_inputs_ok :: "serial \<Rightarrow> (string \<times> detail) list option \<Rightarrow> bool" where
  "defect_inputs_ok decision_id inputs \<longleftrightarrow>
     (case inputs of None \<Rightarrow> False
      | Some j \<Rightarrow> json_text j ''award_code'' = Some DEFECT_AWARD \<and>
          json_text j ''review_decision_id'' = Some (str_int (int decision_id)) \<and>
          json_text j ''netuid'' = Some ''66'' \<and> \<not> json_blank j ''price_source'' \<and>
          \<not> json_blank j ''price_observed_at'' \<and> json_is_array j ''price_source_urls'' \<and>
          json_text j ''rounding'' = Some ''ROUND_HALF_UP to nearest integer Alpha rao'')"

definition json_numeric :: "(string \<times> detail) list option \<Rightarrow> string \<Rightarrow> rat option" where
  "json_numeric inputs key = Option.bind inputs (\<lambda>j. Option.bind (json_text j key) numeric_of)"

definition defect_rao :: "(string \<times> detail) list option \<Rightarrow> int" where
  "defect_rao inputs =
     (case (json_numeric inputs ''award_usd'', json_numeric inputs ''alpha_usd'') of
        (Some award, Some alpha) \<Rightarrow> round_half_up (award * 1000000000 / alpha)
      | _ \<Rightarrow> 0)"

definition defect_checks :: "decision_row \<Rightarrow> submission_row \<Rightarrow> reward_row \<Rightarrow> (string \<times> bool) list" where
  "defect_checks d sub r =
    [(''reward_event_matches_defect_decision'',
        r_decision d = O_APPROVED \<and> rw_eligibility_reason r = DEFECT_AWARD \<and>
        rw_pricing_policy_version r =
          (if capped_policy sub then ''formalization-defect-capped-v2'' else ''formalization-defect-usd-v1'')),
     (''reward_event_has_defect_pricing_inputs'', defect_inputs_ok (r_id d) (rw_pricing_inputs r)),
     (''reward_event_has_valid_defect_price'',
        json_numeric (rw_pricing_inputs r) ''award_usd'' = Some 750 \<and>
        (case json_numeric (rw_pricing_inputs r) ''alpha_usd'' of None \<Rightarrow> False | Some a \<Rightarrow> a > 0))] @
    (if \<not> capped_policy sub then [] else
      [(''reward_event_requires_bounty_lock'', s_bounty_locked_at sub \<noteq> None),
       (''reward_event_matches_defect_cap'',
          (case rw_pricing_inputs r of None \<Rightarrow> False | Some j \<Rightarrow>
            json_text j ''uncapped_amount_rao'' = Some (str_int (defect_rao (rw_pricing_inputs r))) \<and>
            json_text j ''bounty_cap_rao'' = Some (str_int (s_bounty_amount_rao sub))))]) @
    [(''reward_event_matches_defect_price'',
        rw_amount_rao r = (if capped_policy sub
          then min (defect_rao (rw_pricing_inputs r)) (s_bounty_amount_rao sub)
          else defect_rao (rw_pricing_inputs r)))]"

text \<open>\<open>enforce_locked_reward_event\<close>, before an insert; the updates of the payout path touch none of its columns.\<close>

definition enforce_locked_reward_event :: "db \<Rightarrow> reward_row \<Rightarrow> (string \<times> bool) list" where
  "enforce_locked_reward_event s r =
     (case rw_generation_key r of None \<Rightarrow> []
      | Some key \<Rightarrow>
          (case find_row s_id (rw_submission_id r) (submissions s) of
             None \<Rightarrow> [(''query returned no rows'', False)]
           | Some sub \<Rightarrow>
               [(''reward_event_requires_eligible_submission'', s_reward_status sub = ELIGIBLE),
                (''reward_event_generation_key_matches_submission'',
                   key = ''submission:'' @ str_uuid (rw_submission_id r))] @
               (case latest_binding_decision s (rw_submission_id r) of
                  Some d \<Rightarrow> if r_reason_code d = DEFECT_AWARD then defect_checks d sub r else bounty_lock_checks sub r
                | None \<Rightarrow> bounty_lock_checks sub r)))"

text \<open>
  \<open>bounty_trajectory_eligible\<close>: a bounty opened under the chat-log policy is payable only with a human
  approval and, unless it is a defect award, with the reviewed logs of exactly this proof.
\<close>

definition evidence_matches :: "submission_row \<Rightarrow> decision_row \<Rightarrow> claim_row \<Rightarrow> bool" where
  "evidence_matches sub d c \<longleftrightarrow>
     tc_status c = ''APPROVED_BOUNTY_EVIDENCE'' \<and> tc_amount_usd_cents c = 0 \<and>
     tc_proof_digest c = s_proof_digest sub \<and> tc_reward_target_id c = s_reward_target_id sub \<and>
     tc_proof_review_decision_id c = Some (r_id d) \<and>
     json_text (tc_proof_policy_snapshot c) ''bounty_policy_version'' = Some (s_bounty_policy_version sub) \<and>
     json_text (tc_proof_policy_snapshot c) ''review_policy_version'' = Some (s_review_policy_version sub)"

definition bounty_trajectory_eligible :: "db \<Rightarrow> uuid \<Rightarrow> string option \<Rightarrow> bool" where
  "bounty_trajectory_eligible s proof_id reward_reason =
     (case find_row s_id proof_id (submissions s) of None \<Rightarrow> False
      | Some sub \<Rightarrow>
          s_bounty_policy_version sub \<noteq> TREASURY_CHAT_POLICY \<or>
          s_verification_status sub = VERIFIED \<and> s_manual_review_status sub = APPROVED \<and>
          s_reward_status sub \<in> {ELIGIBLE, REWARDED, RW_FAILED} \<and>
          (case latest_binding_decision s proof_id of None \<Rightarrow> False
           | Some d \<Rightarrow>
               r_kind d = HUMAN \<and> r_decision d = O_APPROVED \<and> reward_reason = Some (r_reason_code d) \<and>
               (r_reason_code d = DEFECT_AWARD \<or>
                r_reason_code d = ''REVIEW_APPROVED'' \<and>
                (case List.find (\<lambda>c. tc_submission_id c = Some proof_id) (trajectory_claims s) of
                   None \<Rightarrow> False | Some c \<Rightarrow> evidence_matches sub d c))))"

definition require_bounty_trajectory :: "db \<Rightarrow> reward_row \<Rightarrow> (string \<times> bool) list" where
  "require_bounty_trajectory s r =
    [(''reward_requires_reviewed_chat_logs'',
        bounty_trajectory_eligible s (rw_submission_id r) (Some (rw_eligibility_reason r)))]"

definition insert_reward :: "reward_row \<Rightarrow> unit dbtx" where
  "insert_reward = insert_into reward_events (\<lambda>rs. reward_events_update (\<lambda>_. rs))
     (\<lambda>s r. enforce_locked_reward_event s r @ require_bounty_trajectory s r @ reward_checks r @ reward_keys s r)"

text \<open>\<open>INSERT ... ON CONFLICT (generation_key) DO NOTHING\<close>, which the notifier uses.\<close>

definition insert_reward_or_skip :: "reward_row \<Rightarrow> bool dbtx" where
  "insert_reward_or_skip = insert_or_skip reward_events (\<lambda>rs. reward_events_update (\<lambda>_. rs))
     (\<lambda>s r. enforce_locked_reward_event s r @ require_bounty_trajectory s r @ reward_checks r) reward_keys
     rw_generation_key"

definition update_reward :: "reward_row \<Rightarrow> unit dbtx" where
  "update_reward = update_in reward_events (\<lambda>rs. reward_events_update (\<lambda>_. rs)) rw_id
     (\<lambda>s r. reward_checks r @ reward_keys s r)"

section \<open>\<open>payout_instruction_actions\<close>\<close>

definition action_checks :: "db \<Rightarrow> action_row \<Rightarrow> (string \<times> bool) list" where
  "action_checks s r =
    [(''payout_instruction_action_valid'', ac_action r \<in> {''CANCEL'', ''RESTORE''}),
     (''payout_instruction_actor_nonempty'', length_between 1 256 (ac_actor r)),
     (''payout_instruction_reason_nonempty'', length_between 1 20000 (ac_reason r)),
     (''payout_instruction_actions_reward_event_id_fkey'',
        references (Some (ac_reward_event_id r)) rw_id (reward_events s)),
     (''payout_instruction_actions_review_decision_id_fkey'',
        references (Some (ac_review_decision_id r)) r_id (decisions s))]"

definition insert_action :: "action_row \<Rightarrow> unit dbtx" where
  "insert_action = insert_into instruction_actions (\<lambda>rs. instruction_actions_update (\<lambda>_. rs)) action_checks"

section \<open>\<open>treasury_payouts\<close>\<close>

definition payout_checks :: "payout_row \<Rightarrow> (string \<times> bool) list" where
  "payout_checks r =
    [(''treasury_payout_reference_length'', length_between 1 128 (tp_extrinsic_reference r)),
     (''treasury_payout_block_positive'', tp_block r > 0),
     (''treasury_payout_extrinsic_index_nonnegative'', tp_extrinsic_index r \<ge> 0),
     (''treasury_payout_event_index_nonnegative'', tp_event_index r \<ge> 0),
     (''treasury_payout_origin_netuid_nonnegative'', tp_origin_netuid r \<ge> 0),
     (''treasury_payout_destination_netuid_nonnegative'', tp_destination_netuid r \<ge> 0),
     (''treasury_payout_amount_positive'', tp_amount_rao r > 0),
     (''treasury_payout_tao_equivalent_positive'', pred_option (\<lambda>v. v > 0) (tp_tao_equivalent_rao r)),
     (''treasury_payout_alpha_usd_positive'', pred_option (\<lambda>v. v > 0) (tp_alpha_usd r)),
     (''treasury_payout_alpha_usd_observed'', (tp_alpha_usd r = None) = (tp_alpha_usd_observed_at r = None)),
     (''treasury_payout_note_length'', pred_option (length_between 1 500) (tp_note r)),
     (''treasury_payout_claimed_names_its_reward'', tp_status r \<noteq> CLAIMED \<or> tp_reward_event_id r \<noteq> None),
     (''treasury_payout_unbound_unless_claimed'', tp_status r = CLAIMED \<or> tp_reward_event_id r = None),
     (''treasury_payout_disregarded_needs_a_reason'', tp_status r \<noteq> DISREGARDED \<or> tp_note r \<noteq> None),
     (''treasury_payouts_updated_not_before_observed'', tp_updated_at r \<ge> tp_observed_at r)]"

definition payout_keys :: "db \<Rightarrow> payout_row \<Rightarrow> (string \<times> bool) list" where
  "payout_keys s r =
    [(''treasury_payouts_reward_event_id_key'', unique_on tp_id tp_reward_event_id r (treasury_payouts s)),
     (''treasury_payouts_reference_idx'',
        unique_on tp_id (\<lambda>x. Some (tp_extrinsic_reference x)) r (treasury_payouts s)),
     (''treasury_payouts_position_idx'',
        unique_on tp_id (\<lambda>x. Some (tp_block x, tp_extrinsic_index x, tp_event_index x)) r (treasury_payouts s)),
     (''treasury_payouts_reward_event_id_fkey'', references (tp_reward_event_id r) rw_id (reward_events s))]"

text \<open>\<open>protect_bonus_chain_binding\<close>, before every update: a transfer that paid a bonus pays no reward.\<close>

definition protect_bonus_chain_binding :: "db \<Rightarrow> payout_row \<Rightarrow> (string \<times> bool) list" where
  "protect_bonus_chain_binding s r =
    [(''this chain transfer already paid a historical bonus'',
        tp_reward_event_id r = None \<or> \<not> list_ex (\<lambda>b. tb_treasury_payout_id b = Some (tp_id r)) (bonuses s))]"

definition insert_payout :: "payout_row \<Rightarrow> bool dbtx" where
  "insert_payout = insert_or_skip treasury_payouts (\<lambda>rs. treasury_payouts_update (\<lambda>_. rs))
     (\<lambda>s. payout_checks) payout_keys tp_extrinsic_reference"

definition update_payout :: "payout_row \<Rightarrow> unit dbtx" where
  "update_payout r s = update_in treasury_payouts (\<lambda>rs. treasury_payouts_update (\<lambda>_. rs)) tp_id
     (\<lambda>s r. protect_bonus_chain_binding s r @ payout_checks r @ payout_keys s r) (r\<lparr>tp_updated_at := clock s\<rparr>) s"

section \<open>\<open>trajectory_payments\<close>\<close>

text \<open>
  The guard \<open>protect_trajectory_fulfillment\<close>: a bonus is prepared for an accepted claim at its converted
  amount; only a prepared bonus changes, only its completion, and confirming needs the exact finalized
  transfer, bound to no reward.
\<close>

definition bonus_preparation_ok :: "db \<Rightarrow> bonus_row \<Rightarrow> bool" where
  "bonus_preparation_ok s b \<longleftrightarrow> tb_status b = ''PREPARED'' \<and>
     list_ex (\<lambda>c. tc_id c = tb_claim_id b \<and> tc_status c = ''APPROVED_MANUAL_PAYMENT'' \<and>
       tc_amount_usd_cents c = tb_amount_usd_cents b \<and> tc_state_version c = tb_claim_state_version b \<and>
       tc_account_id c \<noteq> tb_prepared_by b) (trajectory_claims s) \<and>
     tb_amount_rao b = \<lceil>of_int (tb_amount_usd_cents b) * 10000000 / tb_alpha_usd b\<rceil>"

definition bonus_transfer_matches :: "bonus_row \<Rightarrow> payout_row \<Rightarrow> bool" where
  "bonus_transfer_matches b p \<longleftrightarrow>
     tp_reward_event_id p = None \<and> tp_status p \<noteq> CLAIMED \<and> tp_amount_rao p = tb_amount_rao b \<and>
     tp_destination_coldkey p = tb_destination_coldkey b \<and> tp_origin_coldkey p = tb_origin_coldkey b \<and>
     tp_origin_hotkey p = tb_origin_hotkey b \<and> tp_destination_hotkey p = tb_origin_hotkey b \<and>
     tp_origin_netuid p = 66 \<and> tp_destination_netuid p = 66 \<and>
     tp_block_timestamp p \<ge> tb_prepared_at b - 60"

definition protect_trajectory_payment :: "db \<Rightarrow> bonus_row \<Rightarrow> bonus_row \<Rightarrow> (string \<times> bool) list" where
  "protect_trajectory_payment s old new =
    [(''bonus instructions and completed records are immutable'',
        tb_status old = ''PREPARED'' \<and> tb_status new \<in> {''CONFIRMED'', ''CANCELLED''} \<and>
        new = old\<lparr>tb_status := tb_status new, tb_treasury_payout_id := tb_treasury_payout_id new,
                  tb_completed_at := tb_completed_at new, tb_completed_by := tb_completed_by new,
                  tb_completion_evidence := tb_completion_evidence new\<rparr>),
     (''bonus confirmation requires its exact finalized transfer'',
        tb_status new \<noteq> ''CONFIRMED'' \<or>
        list_ex (\<lambda>p. tb_treasury_payout_id new = Some (tp_id p) \<and> bonus_transfer_matches new p) (treasury_payouts s))]"

definition bonus_checks :: "bonus_row \<Rightarrow> (string \<times> bool) list" where
  "bonus_checks r =
    [(''trajectory_payment_status'', tb_status r \<in> {''PREPARED'', ''CONFIRMED'', ''CANCELLED''}),
     (''trajectory_payment_amount'',
        tb_amount_usd_cents r \<in> {25000, 50000} \<and> tb_amount_rao r > 0 \<and> tb_alpha_usd r > 0),
     (''trajectory_payment_version'', tb_claim_state_version r > 0),
     (''trajectory_payment_evidence'',
        length_between 1 1000 (tb_price_source r) \<and> length_between 10 2000 (tb_destination_evidence r)),
     (''trajectory_payment_price_time'',
        tb_price_observed_at r \<le> tb_prepared_at r \<and> tb_price_observed_at r \<ge> tb_prepared_at r - 600),
     (''trajectory_payment_chain'', (tb_status r = ''CONFIRMED'') = (tb_treasury_payout_id r \<noteq> None)),
     (''trajectory_payment_completion'',
        if tb_status r = ''PREPARED''
        then tb_completed_at r = None \<and> tb_completed_by r = None \<and> tb_completion_evidence r = None
        else (case tb_completed_at r of None \<Rightarrow> False | Some t \<Rightarrow> t \<ge> tb_prepared_at r) \<and>
             tb_completed_by r \<noteq> None \<and> tb_completion_evidence r \<noteq> None)]"

definition bonus_keys :: "db \<Rightarrow> bonus_row \<Rightarrow> (string \<times> bool) list" where
  "bonus_keys s r =
    [(''trajectory_payments_treasury_payout_id_key'', unique_on tb_id tb_treasury_payout_id r (bonuses s)),
     (''trajectory_payment_one_live_claim'',
        unique_on tb_id (\<lambda>x. if tb_status x \<noteq> ''CANCELLED'' then Some (tb_claim_id x) else None) r (bonuses s)),
     (''trajectory_payments_claim_id_fkey'', references (Some (tb_claim_id r)) tc_id (trajectory_claims s)),
     (''trajectory_payments_prepared_by_fkey'', references (Some (tb_prepared_by r)) a_id (accounts s)),
     (''trajectory_payments_treasury_payout_id_fkey'',
        references (tb_treasury_payout_id r) tp_id (treasury_payouts s)),
     (''trajectory_payments_completed_by_fkey'', references (tb_completed_by r) a_id (accounts s))]"

definition insert_bonus :: "bonus_row \<Rightarrow> unit dbtx" where
  "insert_bonus = insert_into bonuses (\<lambda>rs. bonuses_update (\<lambda>_. rs))
     (\<lambda>s r. (''bonus preparation must match the accepted claim and conversion'', bonus_preparation_ok s r) #
        bonus_checks r @ bonus_keys s r)"

definition update_bonus :: "bonus_row \<Rightarrow> unit dbtx" where
  "update_bonus r s =
     (case find_row tb_id (tb_id r) (bonuses s) of
        None \<Rightarrow> Inr ((), s)
      | Some old \<Rightarrow> update_in bonuses (\<lambda>rs. bonuses_update (\<lambda>_. rs)) tb_id
          (\<lambda>s r. protect_trajectory_payment s old r @ bonus_checks r @ bonus_keys s r) r s)"

text \<open>The two projections of the bonus ledger that the payout functions see.\<close>

definition trajectory_bonus_transfer_reserved :: "db \<Rightarrow> ss58 \<Rightarrow> ss58 \<Rightarrow> ss58 \<Rightarrow> rao \<Rightarrow> time \<Rightarrow> bool" where
  "trajectory_bonus_transfer_reserved s origin_key hotkey destination_key amount transferred_at \<longleftrightarrow>
     list_ex (\<lambda>b. tb_origin_coldkey b = origin_key \<and> tb_origin_hotkey b = hotkey \<and>
       tb_destination_coldkey b = destination_key \<and> tb_amount_rao b = amount \<and> tb_status b = ''PREPARED'' \<and>
       tb_prepared_at b \<le> transferred_at + 60) (bonuses s)"

definition min_option :: "int list \<Rightarrow> int option" where
  "min_option xs = (case xs of [] \<Rightarrow> None | x # ys \<Rightarrow> Some (foldl min x ys))"

definition trajectory_bonus_oldest_pending :: "db \<Rightarrow> ss58 \<Rightarrow> ss58 \<Rightarrow> time option" where
  "trajectory_bonus_oldest_pending s origin_key hotkey =
     min_option (map tb_prepared_at (filter (\<lambda>b. tb_status b = ''PREPARED'' \<and> tb_origin_coldkey b = origin_key \<and>
       tb_origin_hotkey b = hotkey) (bonuses s)))"

section \<open>\<open>payout_watch_cursor\<close>\<close>

definition payout_cursor_checks :: "payout_cursor_row \<Rightarrow> (string \<times> bool) list" where
  "payout_cursor_checks r =
    [(''payout_watcher_name_shape'', is_watcher_name (pc_watcher r)),
     (''payout_network_nonempty'', length_between 1 128 (pc_network r)),
     (''payout_cursor_netuid_nonnegative'', pc_netuid r \<ge> 0),
     (''payout_cursor_start_block_positive'', pc_start_block r > 0),
     (''payout_cursor_never_reads_before_start'', pc_last_scanned_block r \<ge> pc_start_block r - 1),
     (''payout_cursor_start_at_or_after_watch'', pc_start_block_timestamp r \<ge> pc_watch_from r)]"

definition insert_payout_cursor :: "payout_cursor_row \<Rightarrow> unit dbtx" where
  "insert_payout_cursor = insert_into payout_cursors (\<lambda>rs. payout_cursors_update (\<lambda>_. rs))
     (\<lambda>s r. payout_cursor_checks r @
        [(''payout_watch_cursor_pkey'', list_all (\<lambda>x. pc_watcher x \<noteq> pc_watcher r) (payout_cursors s))])"

definition update_payout_cursor :: "payout_cursor_row \<Rightarrow> unit dbtx" where
  "update_payout_cursor = update_in payout_cursors (\<lambda>rs. payout_cursors_update (\<lambda>_. rs)) pc_watcher
     (\<lambda>s r. payout_cursor_checks r)"

section \<open>\<open>payout_discord_deliveries\<close>\<close>

definition is_discord_user :: "string \<Rightarrow> bool" where
  "is_discord_user t \<longleftrightarrow> length_between 1 32 t \<and> list_all (in_chars digit_chars) t"

definition delivery_checks :: "db \<Rightarrow> delivery_row \<Rightarrow> (string \<times> bool) list" where
  "delivery_checks s r =
    [(''payout_discord_wallet_nonempty'', length_between 1 1024 (dl_signer_wallet r)),
     (''payout_discord_user_id_shape'', is_discord_user (dl_discord_user_id r)),
     (''payout_discord_status_known'', dl_status r \<in> {''PENDING'', ''SENDING'', ''SENT'', ''FAILED''}),
     (''payout_discord_attempt_nonnegative'', dl_attempt_count r \<ge> 0),
     (''payout_discord_lease_paired'',
        (dl_status r = ''SENDING'') = (dl_lease_owner r \<noteq> None \<and> dl_lease_until r \<noteq> None)),
     (''payout_discord_sent_paired'', (dl_status r = ''SENT'') = (dl_delivered_at r \<noteq> None)),
     (''payout_discord_updated_after_created'', dl_updated_at r \<ge> dl_created_at r),
     (''payout_discord_delivered_after_created'', pred_option (\<lambda>t. t \<ge> dl_created_at r) (dl_delivered_at r)),
     (''payout_discord_deliveries_reward_event_id_fkey'',
        references (Some (dl_reward_event_id r)) rw_id (reward_events s))]"

definition delivery_key :: "delivery_row \<Rightarrow> serial \<times> string" where
  "delivery_key r = (dl_reward_event_id r, dl_signer_wallet r)"

definition insert_delivery :: "delivery_row \<Rightarrow> bool dbtx" where
  "insert_delivery = insert_or_skip deliveries (\<lambda>rs. deliveries_update (\<lambda>_. rs)) delivery_checks (\<lambda>s r. []) delivery_key"

definition update_delivery :: "delivery_row \<Rightarrow> unit dbtx" where
  "update_delivery = update_in deliveries (\<lambda>rs. deliveries_update (\<lambda>_. rs)) delivery_key delivery_checks"

section \<open>Identities\<close>

definition new_reward_id :: "serial dbtx" where
  "new_reward_id s = Inr (next_reward_id s, s\<lparr>next_reward_id := Suc (next_reward_id s)\<rparr>)"

definition new_action_id :: "serial dbtx" where
  "new_action_id s = Inr (next_action_id s, s\<lparr>next_action_id := Suc (next_action_id s)\<rparr>)"

definition new_payout_id :: "serial dbtx" where
  "new_payout_id s = Inr (next_payout_id s, s\<lparr>next_payout_id := Suc (next_payout_id s)\<rparr>)"

section \<open>Laws\<close>

interpretation reward_table: table reward_events "\<lambda>rs. reward_events_update (\<lambda>_. rs)" rw_id
  by unfold_locales simp
interpretation payout_table: table treasury_payouts "\<lambda>rs. treasury_payouts_update (\<lambda>_. rs)" tp_id
  by unfold_locales simp
interpretation payout_cursor_table: table payout_cursors "\<lambda>rs. payout_cursors_update (\<lambda>_. rs)" pc_watcher
  by unfold_locales simp
interpretation delivery_table: table deliveries "\<lambda>rs. deliveries_update (\<lambda>_. rs)" delivery_key
  by unfold_locales simp
interpretation bonus_table: table bonuses "\<lambda>rs. bonuses_update (\<lambda>_. rs)" tb_id
  by unfold_locales simp

lemma payout_id_simps [simp, tx_simps]:
  "new_reward_id s = Inr (n, s') \<longleftrightarrow> n = next_reward_id s \<and> s' = s\<lparr>next_reward_id := Suc (next_reward_id s)\<rparr>"
  "new_action_id s = Inr (n, s') \<longleftrightarrow> n = next_action_id s \<and> s' = s\<lparr>next_action_id := Suc (next_action_id s)\<rparr>"
  "new_payout_id s = Inr (n, s') \<longleftrightarrow> n = next_payout_id s \<and> s' = s\<lparr>next_payout_id := Suc (next_payout_id s)\<rparr>"
  by (auto simp: new_reward_id_def new_action_id_def new_payout_id_def)

lemma insert_reward_Inr [tx_simps]:
  "insert_reward r s = Inr (u, s') \<longleftrightarrow>
     (\<forall>c \<in> set (enforce_locked_reward_event s r @ require_bounty_trajectory s r @ reward_checks r @ reward_keys s r). snd c) \<and>
     s' = s\<lparr>reward_events := reward_events s @ [r]\<rparr>"
  by (auto simp: insert_reward_def insert_into_Inr)

lemma insert_reward_or_skip_Inr [tx_simps]:
  "insert_reward_or_skip r s = Inr (b, s') \<longleftrightarrow>
     (\<forall>c \<in> set (enforce_locked_reward_event s r @ require_bounty_trajectory s r @ reward_checks r). snd c) \<and>
     (if rw_generation_key r \<in> rw_generation_key ` set (reward_events s) then \<not> b \<and> s' = s
      else b \<and> (\<forall>c \<in> set (reward_keys s r). snd c) \<and> s' = s\<lparr>reward_events := reward_events s @ [r]\<rparr>)"
  by (simp add: insert_reward_or_skip_def insert_or_skip_Inr)

lemma update_reward_Inr [tx_simps]:
  "update_reward r s = Inr (u, s') \<longleftrightarrow>
     (\<forall>c \<in> set (reward_checks r @ reward_keys s r). snd c) \<and>
     s' = s\<lparr>reward_events := replace_row rw_id r (reward_events s)\<rparr>"
  by (auto simp: update_reward_def update_in_Inr)

lemma insert_action_Inr [tx_simps]:
  "insert_action r s = Inr (u, s') \<longleftrightarrow>
     (\<forall>c \<in> set (action_checks s r). snd c) \<and> s' = s\<lparr>instruction_actions := instruction_actions s @ [r]\<rparr>"
  by (auto simp: insert_action_def insert_into_Inr)

lemma insert_payout_Inr [tx_simps]:
  "insert_payout r s = Inr (b, s') \<longleftrightarrow>
     (\<forall>c \<in> set (payout_checks r). snd c) \<and>
     (if tp_extrinsic_reference r \<in> tp_extrinsic_reference ` set (treasury_payouts s) then \<not> b \<and> s' = s
      else b \<and> (\<forall>c \<in> set (payout_keys s r). snd c) \<and> s' = s\<lparr>treasury_payouts := treasury_payouts s @ [r]\<rparr>)"
  by (simp add: insert_payout_def insert_or_skip_Inr)

lemma update_payout_Inr [tx_simps]:
  "update_payout r s = Inr (u, s') \<longleftrightarrow>
     (let r' = r\<lparr>tp_updated_at := clock s\<rparr> in
      (\<forall>c \<in> set (protect_bonus_chain_binding s r' @ payout_checks r' @ payout_keys s r'). snd c) \<and>
      s' = s\<lparr>treasury_payouts := replace_row tp_id r' (treasury_payouts s)\<rparr>)"
  by (auto simp: update_payout_def update_in_Inr Let_def)

lemma insert_bonus_Inr [tx_simps]:
  "insert_bonus r s = Inr (u, s') \<longleftrightarrow>
     bonus_preparation_ok s r \<and> (\<forall>c \<in> set (bonus_checks r @ bonus_keys s r). snd c) \<and> s' = s\<lparr>bonuses := bonuses s @ [r]\<rparr>"
  by (auto simp: insert_bonus_def insert_into_Inr)

lemma update_bonus_Inr [tx_simps]:
  "update_bonus r s = Inr (u, s') \<longleftrightarrow>
     (case find_row tb_id (tb_id r) (bonuses s) of None \<Rightarrow> s' = s
      | Some old \<Rightarrow> (\<forall>c \<in> set (protect_trajectory_payment s old r @ bonus_checks r @ bonus_keys s r). snd c) \<and>
          s' = s\<lparr>bonuses := replace_row tb_id r (bonuses s)\<rparr>)"
  by (auto simp: update_bonus_def update_in_Inr split: option.splits)

lemma insert_payout_cursor_Inr [tx_simps]:
  "insert_payout_cursor r s = Inr (u, s') \<longleftrightarrow>
     (\<forall>c \<in> set (payout_cursor_checks r). snd c) \<and> (\<forall>x \<in> set (payout_cursors s). pc_watcher x \<noteq> pc_watcher r) \<and>
     s' = s\<lparr>payout_cursors := payout_cursors s @ [r]\<rparr>"
  by (auto simp: insert_payout_cursor_def insert_into_Inr list_all_iff)

lemma update_payout_cursor_Inr [tx_simps]:
  "update_payout_cursor r s = Inr (u, s') \<longleftrightarrow>
     (\<forall>c \<in> set (payout_cursor_checks r). snd c) \<and>
     s' = s\<lparr>payout_cursors := replace_row pc_watcher r (payout_cursors s)\<rparr>"
  by (auto simp: update_payout_cursor_def update_in_Inr)

lemma insert_delivery_Inr [tx_simps]:
  "insert_delivery r s = Inr (b, s') \<longleftrightarrow>
     (\<forall>c \<in> set (delivery_checks s r). snd c) \<and>
     (if delivery_key r \<in> delivery_key ` set (deliveries s) then \<not> b \<and> s' = s
      else b \<and> s' = s\<lparr>deliveries := deliveries s @ [r]\<rparr>)"
  by (simp add: insert_delivery_def insert_or_skip_Inr)

lemma update_delivery_Inr [tx_simps]:
  "update_delivery r s = Inr (u, s') \<longleftrightarrow>
     (\<forall>c \<in> set (delivery_checks s r). snd c) \<and>
     s' = s\<lparr>deliveries := replace_row delivery_key r (deliveries s)\<rparr>"
  by (auto simp: update_delivery_def update_in_Inr)

end
