(* ===== verification/Notifier.thy ===== *)
theory Notifier
  imports PayoutTables
begin

text \<open>
  The payout notifier, \<open>payout_notifier/worker.py\<close>: turning every eligible submission into one locked
  payout instruction, and the outbox through which each signer is told about it once per attempt.

  The price of a formalization-defect award comes from an external quoter and the messages go out
  through a Discord webhook; both are parameters.
\<close>

section \<open>Instructions\<close>

record defect_quote =
  dq_amount_rao :: rao
  dq_pricing_inputs :: "(string \<times> detail) list"

record reward_candidate =
  cd_id :: uuid
  cd_review_decision_id :: "serial option"
  cd_eligibility_reason :: string
  cd_locked_amount_rao :: rao
  cd_locked_policy_version :: string
  cd_locked_pricing_inputs :: "(string \<times> detail) list option"
  cd_bounty_locked_at :: "time option"
  cd_review_policy_version :: string
  cd_destination_coldkey :: ss58

text \<open>\<open>coalesce(Account.payout_coldkey, Submission.signer_coldkey, Submission.payment_sender)\<close>\<close>

definition payout_destination :: "db \<Rightarrow> submission_row \<Rightarrow> ss58 option" where
  "payout_destination s sub =
     (case Option.bind (s_account_id sub) (\<lambda>n. Option.bind (find_row a_id n (accounts s)) a_payout_coldkey) of
        Some k \<Rightarrow> Some k
      | None \<Rightarrow> (case s_signer_coldkey sub of Some k \<Rightarrow> Some k | None \<Rightarrow> s_payment_sender sub))"

definition latest_reason :: "db \<Rightarrow> uuid \<Rightarrow> string option" where
  "latest_reason s n = map_option r_reason_code (latest_binding_decision s n)"

definition reward_candidates :: "db \<Rightarrow> reward_candidate list" where
  "reward_candidates s =
     List.map_filter (\<lambda>sub.
       case payout_destination s sub of
         None \<Rightarrow> None
       | Some k \<Rightarrow>
           if s_reward_status sub = ELIGIBLE \<and> \<not> list_ex (\<lambda>e. rw_submission_id e = s_id sub) (reward_events s) \<and>
              bounty_trajectory_eligible s (s_id sub) (latest_reason s (s_id sub)) \<and>
              (latest_reason s (s_id sub) = Some DEFECT_AWARD \<or> s_bounty_locked_at sub \<noteq> None)
           then Some \<lparr>cd_id = s_id sub, cd_review_decision_id = map_option r_id (latest_binding_decision s (s_id sub)),
               cd_eligibility_reason = (case latest_reason s (s_id sub) of None \<Rightarrow> ''REWARD_ELIGIBLE'' | Some r \<Rightarrow> r),
               cd_locked_amount_rao = s_bounty_amount_rao sub, cd_locked_policy_version = s_bounty_policy_version sub,
               cd_locked_pricing_inputs = s_bounty_inputs sub, cd_bounty_locked_at = s_bounty_locked_at sub,
               cd_review_policy_version = s_review_policy_version sub, cd_destination_coldkey = k\<rparr>
           else None) (submissions s)"

text \<open>\<open>dict.update\<close>\<close>

definition dict_update :: "(string \<times> detail) list \<Rightarrow> (string \<times> detail) list \<Rightarrow> (string \<times> detail) list" where
  "dict_update xs ys = filter (\<lambda>x. \<not> list_ex (\<lambda>y. fst y = fst x) ys) xs @ ys"

text \<open>The price of one candidate: \<open>None\<close> defers it to a later pass.\<close>

definition instruction_price ::
  "reward_candidate \<Rightarrow> defect_quote option \<Rightarrow> db_error + (rao \<times> string \<times> (string \<times> detail) list option) option" where
  "instruction_price c quote =
     (if cd_eligibility_reason c \<noteq> DEFECT_AWARD
      then Inr (Some (cd_locked_amount_rao c, cd_locked_policy_version c, cd_locked_pricing_inputs c))
      else case quote of
        None \<Rightarrow> Inr None
      | Some q \<Rightarrow>
          (let inputs = dict_update (dq_pricing_inputs q)
                 [(''award_code'', DStr DEFECT_AWARD),
                  (''review_decision_id'', (case cd_review_decision_id c of None \<Rightarrow> DUuid None | Some n \<Rightarrow> DInt (int n)))]
           in if cd_review_policy_version c \<notin> {''v3'', ''v4''}
              then Inr (Some (dq_amount_rao q, ''formalization-defect-usd-v1'', Some inputs))
              else if cd_bounty_locked_at c = None
                then Inl (PyError (ValueError ''a v3 defect award requires a submission bounty lock''))
                else Inr (Some (min (dq_amount_rao q) (cd_locked_amount_rao c), ''formalization-defect-capped-v2'',
                       Some (dict_update inputs
                         [(''uncapped_amount_rao'', DInt (dq_amount_rao q)),
                          (''bounty_cap_rao'', DInt (cd_locked_amount_rao c)),
                          (''calculation'', DStr ''min(round(750 * 1000000000 / alpha_usd), bounty_cap_rao)'')])))))"

definition seed_one :: "defect_quote option \<Rightarrow> reward_candidate \<Rightarrow> int dbtx" where
  "seed_one quote c =
     (case instruction_price c quote of
        Inl e \<Rightarrow> raise e
      | Inr None \<Rightarrow> ret 0
      | Inr (Some (amount, policy, inputs)) \<Rightarrow>
          bindT new_reward_id (\<lambda>new_id.
          bindT (\<lambda>s. insert_reward_or_skip
              \<lparr>rw_id = new_id, rw_submission_id = cd_id c, rw_eligibility_reason = cd_eligibility_reason c,
               rw_amount_rao = amount, rw_pricing_policy_version = policy, rw_pricing_inputs = inputs,
               rw_generation_key = Some (''submission:'' @ str_uuid (cd_id c)),
               rw_destination_coldkey = cd_destination_coldkey c, rw_destination_hotkey = None,
               rw_status = PENDING, rw_chain_observed = False, rw_extrinsic_reference = None,
               rw_submitted_block = None, rw_finalized_block = None, rw_failure_reason = None,
               rw_initiated_by = ''payout-notifier:auto'', rw_created_at = clock s, rw_submitted_at = None,
               rw_confirmed_at = None\<rparr> s) (\<lambda>written.
            ret (if written then 1 else 0))))"

text \<open>The second transaction of \<open>seed_reward_events\<close>: the candidates were read, and the award quoted, before it.\<close>

fun seed_instructions :: "defect_quote option \<Rightarrow> reward_candidate list \<Rightarrow> int dbtx" where
  "seed_instructions quote [] = ret 0"
| "seed_instructions quote (c # cs) =
     bindT (seed_one quote c) (\<lambda>n. bindT (seed_instructions quote cs) (\<lambda>k. ret (n + k)))"

text \<open>
  \<open>quoter\<close> is what the external quoter answers in this pass, \<open>None\<close> when it is missing or raises; a quote
  without a positive amount is refused.
\<close>

definition seed_reward_events :: "defect_quote option \<Rightarrow> int dbtx" where
  "seed_reward_events quoter s =
     (let cs = reward_candidates s;
          quote = (if list_ex (\<lambda>c. cd_eligibility_reason c = DEFECT_AWARD) cs
                   then Option.bind quoter (\<lambda>q. if dq_amount_rao q \<le> 0 then None else Some q) else None)
      in seed_instructions quote cs s)"

section \<open>The outbox\<close>

definition instruction_sendable :: "db \<Rightarrow> reward_row \<Rightarrow> bool" where
  "instruction_sendable s e \<longleftrightarrow> instruction_enabled s e \<and>
     bounty_trajectory_eligible s (rw_submission_id e) (Some (rw_eligibility_reason e))"

definition notifiable :: "db \<Rightarrow> reward_row \<Rightarrow> bool" where
  "notifiable s e \<longleftrightarrow> rw_status e = PENDING \<and> instruction_sendable s e \<and> rw_extrinsic_reference e = None"

definition new_delivery :: "db \<Rightarrow> string \<Rightarrow> string \<Rightarrow> reward_row \<Rightarrow> delivery_row" where
  "new_delivery s wallet user e =
     \<lparr>dl_reward_event_id = rw_id e, dl_signer_wallet = wallet, dl_discord_user_id = user, dl_status = ''PENDING'',
      dl_attempt_count = 0, dl_next_attempt_at = clock s, dl_lease_owner = None, dl_lease_until = None,
      dl_last_error = None, dl_created_at = clock s, dl_updated_at = clock s, dl_delivered_at = None\<rparr>"

fun insert_deliveries :: "delivery_row list \<Rightarrow> int dbtx" where
  "insert_deliveries [] = ret 0"
| "insert_deliveries (d # ds) =
     bindT (insert_delivery d) (\<lambda>b. bindT (insert_deliveries ds) (\<lambda>k. ret ((if b then 1 else 0) + k)))"

text \<open>\<open>seed\<close>, for the configured signers and their Discord users.\<close>

fun seed_deliveries :: "(string \<times> string) list \<Rightarrow> int dbtx" where
  "seed_deliveries [] = ret 0"
| "seed_deliveries ((wallet, user) # ms) =
     bindT (\<lambda>s. insert_deliveries (map (new_delivery s wallet user) (filter (notifiable s) (reward_events s))) s)
       (\<lambda>n. bindT (seed_deliveries ms) (\<lambda>k. ret (n + k)))"

record claimed_delivery =
  cl_reward_event_id :: serial
  cl_submission_id :: uuid
  cl_destination_coldkey :: ss58
  cl_amount_rao :: rao
  cl_signer_wallet :: string
  cl_discord_user_id :: string

definition delivery_due :: "time \<Rightarrow> delivery_row \<Rightarrow> bool" where
  "delivery_due now d \<longleftrightarrow>
     (dl_status d = ''PENDING'' \<or> dl_status d = ''FAILED'') \<and> dl_next_attempt_at d \<le> now \<or>
     dl_status d = ''SENDING'' \<and> (case dl_lease_until d of None \<Rightarrow> False | Some t \<Rightarrow> t \<le> now)"

text \<open>The join with the reward event, ordered as the statement orders it.\<close>

definition due_deliveries :: "db \<Rightarrow> (delivery_row \<times> reward_row) list" where
  "due_deliveries s =
     sort_key (\<lambda>x. dl_next_attempt_at (fst x)) (sort_key (\<lambda>x. dl_reward_event_id (fst x))
      (sort_key (\<lambda>x. dl_signer_wallet (fst x))
       (List.map_filter (\<lambda>d. case find_row rw_id (dl_reward_event_id d) (reward_events s) of
            None \<Rightarrow> None
          | Some e \<Rightarrow> if delivery_due (clock s) d \<and> notifiable s e then Some (d, e) else None) (deliveries s))))"

definition claim_delivery :: "string \<Rightarrow> int \<Rightarrow> claimed_delivery option dbtx" where
  "claim_delivery worker lease_seconds =
     bindT (reads (\<lambda>s. (clock s, due_deliveries s))) (\<lambda>(now, due).
     case due of
       [] \<Rightarrow> ret None
     | (d, e) # _ \<Rightarrow>
         thenT (update_delivery (d\<lparr>dl_status := ''SENDING'', dl_attempt_count := dl_attempt_count d + 1,
                  dl_lease_owner := Some worker, dl_lease_until := Some (now + lease_seconds), dl_updated_at := now\<rparr>))
           (ret (Some \<lparr>cl_reward_event_id = rw_id e, cl_submission_id = rw_submission_id e,
              cl_destination_coldkey = rw_destination_coldkey e, cl_amount_rao = rw_amount_rao e,
              cl_signer_wallet = dl_signer_wallet d, cl_discord_user_id = dl_discord_user_id d\<rparr>)))"

definition finish_delivery :: "string \<Rightarrow> int \<Rightarrow> claimed_delivery \<Rightarrow> string option \<Rightarrow> unit dbtx" where
  "finish_delivery worker retry_seconds c err =
     bindT (reads (\<lambda>s. (clock s, find_row delivery_key (cl_reward_event_id c, cl_signer_wallet c) (deliveries s)))) (\<lambda>(now, found).
     case found of
       None \<Rightarrow> ret ()
     | Some d \<Rightarrow>
         if dl_status d \<noteq> ''SENDING'' \<or> dl_lease_owner d \<noteq> Some worker then ret ()
         else let free = d\<lparr>dl_lease_owner := None, dl_lease_until := None, dl_updated_at := now\<rparr> in
           update_delivery (case err of
             None \<Rightarrow> free\<lparr>dl_status := ''SENT'', dl_delivered_at := Some now, dl_last_error := None\<rparr>
           | Some t \<Rightarrow> free\<lparr>dl_status := ''FAILED'', dl_next_attempt_at := now + retry_seconds,
                             dl_last_error := Some (take 2000 t)\<rparr>))"

end
