(* ===== verification/ChainEvents.thy ===== *)
theory ChainEvents
  imports ChainReader
begin

text \<open>
  Decoding a block's events, \<open>conjectures_subnet/transfers.py\<close>: balance transfers and the stake
  transfers by which the treasury pays.  A record is whatever the runtime decoder produced, so the
  functions read it through several envelopes and fail loudly on a shape they do not know.

  Values are those a decoder produces: text, bytes, integers, sequences, dictionaries, \<open>None\<close>, and an
  object that carries \<open>value_serialized\<close>.  The encoder \<open>ss58_encode\<close> of the bittensor package is
  the parameter \<open>encode\<close>.
\<close>

section \<open>Decoded values\<close>

datatype scale = SStr string | SBytes bytes | SInt int | SSeq "scale list" | SMap "(string \<times> scale) list" | SNone
  | SObject scale

datatype event_error = Unreadable string | Raised py_error

type_synonym 'a decoded = "event_error + 'a"

definition bindE :: "'a decoded \<Rightarrow> ('a \<Rightarrow> 'b decoded) \<Rightarrow> 'b decoded" where
  "bindE m f = (case m of Inl e \<Rightarrow> Inl e | Inr x \<Rightarrow> f x)"

lemma bindE_Inr [simp]: "bindE m f = Inr y \<longleftrightarrow> (\<exists>x. m = Inr x \<and> f x = Inr y)"
  by (auto simp: bindE_def split: sum.splits)

text \<open>\<open>int(value)\<close>; a text may hold single underscores between its digits.\<close>

definition digits_ok :: "string \<Rightarrow> bool" where
  "digits_ok t \<longleftrightarrow> t \<noteq> [] \<and> is_digit (hd t) \<and> is_digit (last t) \<and> list_all (\<lambda>c. is_digit c \<or> c = CHR ''_'') t \<and>
     list_all (\<lambda>(a, b). is_digit a \<or> is_digit b) (zip t (tl t))"

definition int_of_text :: "string \<Rightarrow> int option" where
  "int_of_text t =
     (let u = strip t;
          (sg, digits) = (case u of CHR ''-'' # r \<Rightarrow> (- 1, r) | CHR ''+'' # r \<Rightarrow> (1, r) | _ \<Rightarrow> (1, u))
      in if digits_ok digits then Some (sg * int_of_digits (filter is_digit digits)) else None)"

fun to_int :: "scale \<Rightarrow> int decoded" where
  "to_int (SInt n) = Inr n"
| "to_int (SStr t) = (case int_of_text t of None \<Rightarrow> Inl (Raised (ValueError ''invalid literal for int()'')) | Some n \<Rightarrow> Inr n)"
| "to_int (SBytes b) = Inl (Raised (ValueError ''invalid literal for int()''))"
| "to_int _ = Inl (Raised (TypeError ''int() argument must be a string or a number''))"

text \<open>\<open>bytes(inner)\<close> of a sequence of small integers.\<close>

fun bytes_of :: "scale list \<Rightarrow> bytes decoded" where
  "bytes_of [] = Inr []"
| "bytes_of (SInt n # xs) =
     (if 0 \<le> n \<and> n < 256 then bindE (bytes_of xs) (\<lambda>bs. Inr (word_of_int n # bs))
      else Inl (Raised (ValueError ''bytes must be in range(0, 256)'')))"
| "bytes_of (_ # xs) = Inl (Raised (TypeError ''object cannot be interpreted as an integer''))"

fun decode_ss58 :: "(bytes \<Rightarrow> ss58) \<Rightarrow> scale \<Rightarrow> ss58 decoded" where
  "decode_ss58 encode (SStr t) = Inr t"
| "decode_ss58 encode (SBytes b) = Inr (encode b)"
| "decode_ss58 encode (SSeq [SSeq inner]) = bindE (bytes_of inner) (\<lambda>b. Inr (encode b))"
| "decode_ss58 encode (SSeq xs) = bindE (bytes_of xs) (\<lambda>b. Inr (encode b))"
| "decode_ss58 encode _ = Inl (Unreadable ''cannot read an SS58 address'')"

definition dict_get :: "(string \<times> scale) list \<Rightarrow> string \<Rightarrow> scale" where
  "dict_get d key = (case map_of d key of None \<Rightarrow> SNone | Some v \<Rightarrow> v)"

definition unwrapped :: "scale \<Rightarrow> scale" where
  "unwrapped record = (case record of SObject r \<Rightarrow> r | _ \<Rightarrow> record)"

definition event_body :: "scale \<Rightarrow> (string \<times> scale) list decoded" where
  "event_body record =
     (case unwrapped record of
        SMap d \<Rightarrow>
          if map_of d ''module_id'' \<noteq> None \<and> map_of d ''event_id'' \<noteq> None then Inr d
          else (case dict_get d ''event'' of
                  SMap nested \<Rightarrow> Inr nested
                | _ \<Rightarrow> Inl (Unreadable ''event record carries no module_id/event_id''))
      | _ \<Rightarrow> Inl (Unreadable ''unexpected event record''))"

definition item_at :: "scale list \<Rightarrow> nat \<Rightarrow> scale decoded" where
  "item_at xs i = (if i < length xs then Inr (xs ! i) else Inl (Raised IndexError))"

definition attribute :: "scale \<Rightarrow> string \<Rightarrow> nat \<Rightarrow> scale decoded" where
  "attribute attributes key index =
     (case attributes of
        SMap d \<Rightarrow> (case map_of d key of None \<Rightarrow> Inl (Raised KeyError) | Some v \<Rightarrow> Inr v)
      | SSeq xs \<Rightarrow> item_at xs index
      | _ \<Rightarrow> Inl (Unreadable ''cannot read attribute''))"

definition attribute_one_of :: "scale \<Rightarrow> string list \<Rightarrow> nat \<Rightarrow> scale decoded" where
  "attribute_one_of attributes keys index =
     (case attributes of
        SMap d \<Rightarrow>
          (case List.find (\<lambda>k. map_of d k \<noteq> None) keys of
             None \<Rightarrow> Inl (Unreadable ''cannot read any of the keys from event attributes'')
           | Some k \<Rightarrow> Inr (dict_get d k))
      | SSeq xs \<Rightarrow> item_at xs index
      | _ \<Rightarrow> Inl (Unreadable ''cannot read attribute index''))"

definition extrinsic_index :: "scale \<Rightarrow> int decoded" where
  "extrinsic_index record =
     (case unwrapped record of
        SMap d \<Rightarrow>
          (case dict_get d ''extrinsic_idx'' of
             SNone \<Rightarrow> Inl (Unreadable ''payout event carries no extrinsic_idx'')
           | v \<Rightarrow> to_int v)
      | _ \<Rightarrow> Inl (Unreadable ''payout event carries no extrinsic_idx''))"

definition ss58_attribute :: "(bytes \<Rightarrow> ss58) \<Rightarrow> scale \<Rightarrow> string \<Rightarrow> nat \<Rightarrow> ss58 decoded" where
  "ss58_attribute encode attributes key index = bindE (attribute_one_of attributes [key] index) (decode_ss58 encode)"

definition int_attribute :: "scale \<Rightarrow> string list \<Rightarrow> nat \<Rightarrow> int decoded" where
  "int_attribute attributes keys index = bindE (attribute_one_of attributes keys index) to_int"

section \<open>Transfers\<close>

definition event_identity :: "(string \<times> scale) list \<Rightarrow> scale \<times> scale" where
  "event_identity body = (dict_get body ''module_id'', dict_get body ''event_id'')"

definition TRANSFER_EVENT :: "scale \<times> scale" where
  "TRANSFER_EVENT = (SStr ''Balances'', SStr ''Transfer'')"

definition outer_extrinsic :: "scale \<Rightarrow> int decoded" where
  "outer_extrinsic record =
     (case (case record of SMap d \<Rightarrow> dict_get d ''extrinsic_idx'' | _ \<Rightarrow> SNone) of
        SNone \<Rightarrow> Inr 0 | v \<Rightarrow> to_int v)"

text \<open>One round of the loop: the transfer the record is, if it is one to the recipient.\<close>

definition transfer_in_event ::
  "(bytes \<Rightarrow> ss58) \<Rightarrow> ss58 option \<Rightarrow> int \<Rightarrow> time \<Rightarrow> nat \<Rightarrow> scale \<Rightarrow> arrival option decoded" where
  "transfer_in_event encode recipient block block_timestamp position record =
     bindE (event_body record) (\<lambda>body.
     if event_identity body \<noteq> TRANSFER_EVENT then Inr None
     else let attributes = dict_get body ''attributes'' in
     bindE (bindE (attribute attributes ''to'' 1) (decode_ss58 encode)) (\<lambda>to.
     if recipient \<noteq> None \<and> recipient \<noteq> Some to then Inr None
     else
     bindE (bindE (attribute attributes ''from'' 0) (decode_ss58 encode)) (\<lambda>sender.
     bindE (bindE (attribute attributes ''amount'' 2) to_int) (\<lambda>amount.
     if amount \<le> 0 then Inr None
     else
     bindE (outer_extrinsic record) (\<lambda>x.
     Inr (Some \<lparr>ar_reference = canonical_reference block x (int position), ar_block = block,
       ar_block_timestamp = block_timestamp, ar_extrinsic_index = x, ar_event_index = int position,
       ar_sender = sender, ar_recipient = to, ar_amount_rao = amount\<rparr>))))))"

fun transfers_from_position ::
  "(bytes \<Rightarrow> ss58) \<Rightarrow> ss58 option \<Rightarrow> int \<Rightarrow> time \<Rightarrow> nat \<Rightarrow> scale list \<Rightarrow> arrival list decoded" where
  "transfers_from_position encode recipient block block_timestamp position [] = Inr []"
| "transfers_from_position encode recipient block block_timestamp position (record # records) =
     bindE (transfer_in_event encode recipient block block_timestamp position record) (\<lambda>found.
     bindE (transfers_from_position encode recipient block block_timestamp (Suc position) records) (\<lambda>others.
     Inr (case found of None \<Rightarrow> others | Some a \<Rightarrow> a # others)))"

definition transfers_in_events ::
  "(bytes \<Rightarrow> ss58) \<Rightarrow> scale list \<Rightarrow> ss58 option \<Rightarrow> int \<Rightarrow> time \<Rightarrow> arrival list decoded" where
  "transfers_in_events encode records recipient block block_timestamp =
     transfers_from_position encode recipient block block_timestamp 0 records"

section \<open>Payouts\<close>

record observed_payout =
  op_block :: int
  op_block_timestamp :: time
  op_extrinsic_index :: int
  op_event_index :: int
  op_origin_coldkey :: ss58
  op_destination_coldkey :: ss58
  op_origin_hotkey :: ss58
  op_destination_hotkey :: ss58
  op_origin_netuid :: int
  op_destination_netuid :: int
  op_amount_rao :: rao
  op_tao_equivalent_rao :: "rao option"

definition op_reference :: "observed_payout \<Rightarrow> string" where
  "op_reference p = canonical_reference (op_block p) (op_extrinsic_index p) (op_event_index p)"

definition PAYOUT_EVENT :: "scale \<times> scale" where
  "PAYOUT_EVENT = (SStr ''SubtensorModule'', SStr ''StakeTransferred'')"

definition LEGACY_PAYOUT_EVENT :: "scale \<times> scale" where
  "LEGACY_PAYOUT_EVENT = (SStr ''SubtensorModule'', SStr ''StakeAndHotkeyTransferred'')"

definition STAKE_ADDED_EVENT :: "scale \<times> scale" where
  "STAKE_ADDED_EVENT = (SStr ''SubtensorModule'', SStr ''StakeAdded'')"

record stake_addition =
  sa_position :: nat
  sa_extrinsic_index :: int
  sa_coldkey :: ss58
  sa_hotkey :: ss58
  sa_netuid :: int
  sa_alpha_rao :: int

record payout_event =
  pe_position :: nat
  pe_extrinsic_index :: int
  pe_attributes :: scale
  pe_legacy :: bool

text \<open>The first loop: what a record adds to the two lists.\<close>

definition stake_added :: "(bytes \<Rightarrow> ss58) \<Rightarrow> nat \<Rightarrow> scale \<Rightarrow> scale \<Rightarrow> stake_addition list decoded" where
  "stake_added encode position record attributes =
     bindE (int_attribute attributes [''alpha'', ''alpha_amount''] 3) (\<lambda>alpha_rao.
     if alpha_rao \<le> 0 then Inr []
     else
     bindE (extrinsic_index record) (\<lambda>x.
     bindE (ss58_attribute encode attributes ''coldkey'' 0) (\<lambda>coldkey.
     bindE (ss58_attribute encode attributes ''hotkey'' 1) (\<lambda>hotkey.
     bindE (int_attribute attributes [''netuid''] 4) (\<lambda>netuid.
     Inr [\<lparr>sa_position = position, sa_extrinsic_index = x, sa_coldkey = coldkey, sa_hotkey = hotkey,
           sa_netuid = netuid, sa_alpha_rao = alpha_rao\<rparr>])))))"

definition stake_event ::
  "(bytes \<Rightarrow> ss58) \<Rightarrow> nat \<Rightarrow> scale \<Rightarrow> (stake_addition list \<times> payout_event list) decoded" where
  "stake_event encode position record =
     bindE (event_body record) (\<lambda>body.
     if event_identity body = STAKE_ADDED_EVENT then
       bindE (stake_added encode position record (dict_get body ''attributes'')) (\<lambda>as. Inr (as, []))
     else if event_identity body \<in> {PAYOUT_EVENT, LEGACY_PAYOUT_EVENT} then
       bindE (extrinsic_index record) (\<lambda>x.
       Inr ([], [\<lparr>pe_position = position, pe_extrinsic_index = x, pe_attributes = dict_get body ''attributes'',
                 pe_legacy = (event_identity body = LEGACY_PAYOUT_EVENT)\<rparr>]))
     else Inr ([], []))"

fun stake_events ::
  "(bytes \<Rightarrow> ss58) \<Rightarrow> nat \<Rightarrow> scale list \<Rightarrow> (stake_addition list \<times> payout_event list) decoded" where
  "stake_events encode position [] = Inr ([], [])"
| "stake_events encode position (record # records) =
     bindE (stake_event encode position record) (\<lambda>(as, ps).
     bindE (stake_events encode (Suc position) records) (\<lambda>(as', ps'). Inr (as @ as', ps @ ps')))"

text \<open>What a payout event says, before its amount is known.\<close>

definition payout_shape :: "(bytes \<Rightarrow> ss58) \<Rightarrow> int \<Rightarrow> time \<Rightarrow> payout_event \<Rightarrow> observed_payout decoded" where
  "payout_shape encode block block_timestamp ev =
     (let attributes = pe_attributes ev in
     bindE (ss58_attribute encode attributes ''origin_coldkey'' 0) (\<lambda>origin_coldkey.
     bindE (ss58_attribute encode attributes ''destination_coldkey'' 1) (\<lambda>destination_coldkey.
     bindE (if pe_legacy ev
            then bindE (ss58_attribute encode attributes ''origin_hotkey'' 2) (\<lambda>oh.
                 bindE (ss58_attribute encode attributes ''destination_hotkey'' 3) (\<lambda>dh. Inr (oh, dh, 4)))
            else bindE (ss58_attribute encode attributes ''hotkey'' 2) (\<lambda>h. Inr (h, h, 3)))
       (\<lambda>(origin_hotkey, destination_hotkey, netuid_base).
     bindE (int_attribute attributes [''origin_netuid''] netuid_base) (\<lambda>origin_netuid.
     bindE (int_attribute attributes [''destination_netuid''] (netuid_base + 1)) (\<lambda>destination_netuid.
     bindE (int_attribute attributes [''amount''] (netuid_base + 2)) (\<lambda>tao_equivalent.
     if tao_equivalent \<le> 0 then Inl (Unreadable ''payout event reports a non-positive amount'')
     else Inr \<lparr>op_block = block, op_block_timestamp = block_timestamp, op_extrinsic_index = pe_extrinsic_index ev,
       op_event_index = int (pe_position ev), op_origin_coldkey = origin_coldkey,
       op_destination_coldkey = destination_coldkey, op_origin_hotkey = origin_hotkey,
       op_destination_hotkey = destination_hotkey, op_origin_netuid = origin_netuid,
       op_destination_netuid = destination_netuid, op_amount_rao = 0,
       op_tao_equivalent_rao = Some tao_equivalent\<rparr>)))))))"

definition companion :: "observed_payout \<Rightarrow> stake_addition \<Rightarrow> bool" where
  "companion p a \<longleftrightarrow> sa_extrinsic_index a = op_extrinsic_index p \<and> int (sa_position a) < op_event_index p \<and>
     sa_coldkey a = op_destination_coldkey p \<and> sa_hotkey a = op_destination_hotkey p \<and>
     sa_netuid a = op_destination_netuid p"

text \<open>\<open>max(matching, key=lambda item: item[1].position)\<close>: the first of the greatest.\<close>

fun nearest :: "(nat \<times> stake_addition) list \<Rightarrow> (nat \<times> stake_addition) option" where
  "nearest [] = None"
| "nearest (x # xs) =
     (case nearest xs of
        None \<Rightarrow> Some x
      | Some y \<Rightarrow> if sa_position (snd x) \<ge> sa_position (snd y) then Some x else Some y)"

text \<open>The second loop: \<open>used\<close> are the additions already paired.\<close>

fun pair_payouts ::
  "(bytes \<Rightarrow> ss58) \<Rightarrow> int \<Rightarrow> time \<Rightarrow> stake_addition list \<Rightarrow> nat list \<Rightarrow> payout_event list \<Rightarrow> observed_payout list decoded" where
  "pair_payouts encode block block_timestamp additions used [] = Inr []"
| "pair_payouts encode block block_timestamp additions used (ev # evs) =
     bindE (payout_shape encode block block_timestamp ev) (\<lambda>p.
     case nearest (filter (\<lambda>(i, a). i \<notin> set used \<and> companion p a) (enumerate 0 additions)) of
       None \<Rightarrow> Inl (Unreadable ''no matching preceding StakeAdded event'')
     | Some (i, a) \<Rightarrow>
         bindE (pair_payouts encode block block_timestamp additions (i # used) evs) (\<lambda>others.
         Inr (p\<lparr>op_amount_rao := sa_alpha_rao a\<rparr> # others)))"

definition payouts_in_events ::
  "(bytes \<Rightarrow> ss58) \<Rightarrow> scale list \<Rightarrow> int \<Rightarrow> time \<Rightarrow> observed_payout list decoded" where
  "payouts_in_events encode records block block_timestamp =
     bindE (stake_events encode 0 records) (\<lambda>(additions, transfers).
     pair_payouts encode block block_timestamp additions [] transfers)"

section \<open>Properties\<close>

lemma nearest_None: "nearest xs = None \<longleftrightarrow> xs = []"
  by (cases xs) (auto split: option.splits)

lemma nearest_Some:
  "nearest xs = Some x \<Longrightarrow> x \<in> set xs \<and> (\<forall>y \<in> set xs. sa_position (snd y) \<le> sa_position (snd x))"
  by (induction xs arbitrary: x) (fastforce simp: nearest_None split: option.splits if_splits)+

lemma companion_amount [simp]: "companion (p\<lparr>op_amount_rao := n\<rparr>) a = companion p a"
  by (simp add: companion_def)

lemma payout_shape_Inr:
  assumes "payout_shape encode block block_timestamp ev = Inr p"
  shows "op_event_index p = int (pe_position ev)"
  using assms by (auto simp: payout_shape_def Let_def split: if_splits)

lemma pair_payouts_Inr:
  assumes "pair_payouts encode block block_timestamp additions used evs = Inr found"
  shows "map op_event_index found = map (\<lambda>ev. int (pe_position ev)) evs \<and>
    (\<exists>is. length is = length found \<and> distinct is \<and> set is \<inter> set used = {} \<and>
      (\<forall>k < length found. is ! k < length additions \<and> companion (found ! k) (additions ! (is ! k)) \<and>
        op_amount_rao (found ! k) = sa_alpha_rao (additions ! (is ! k)) \<and>
        (\<forall>j < length additions. companion (found ! k) (additions ! j) \<longrightarrow> j \<notin> set used \<union> set (take k is) \<longrightarrow>
           sa_position (additions ! j) \<le> sa_position (additions ! (is ! k)))))"
  using assms
proof (induction evs arbitrary: used found)
  case Nil
  then show ?case by simp
next
  case (Cons ev evs)
  let ?cands = "\<lambda>p. filter (\<lambda>(i, a). i \<notin> set used \<and> companion p a) (enumerate 0 additions)"
  from Cons.prems obtain p i a others where p: "payout_shape encode block block_timestamp ev = Inr p"
    and n: "nearest (?cands p) = Some (i, a)"
    and o: "pair_payouts encode block block_timestamp additions (i # used) evs = Inr others"
    and found: "found = p\<lparr>op_amount_rao := sa_alpha_rao a\<rparr> # others"
    by (auto split: option.splits)
  have i: "i < length additions" "a = additions ! i" "i \<notin> set used" "companion p a"
    using nearest_Some [OF n] by (auto simp: in_set_enumerate_eq)
  have near: "sa_position (additions ! j) \<le> sa_position a"
    if "j < length additions" "companion p (additions ! j)" "j \<notin> set used" for j
  proof -
    have "(j, additions ! j) \<in> set (?cands p)" using that by (simp add: in_set_enumerate_eq)
    then show ?thesis using nearest_Some [OF n] by fastforce
  qed
  from Cons.IH [OF o] obtain "is" where IH: "map op_event_index others = map (\<lambda>ev. int (pe_position ev)) evs"
    "length is = length others" "distinct is" "set is \<inter> set (i # used) = {}"
    "\<forall>k < length others. is ! k < length additions \<and> companion (others ! k) (additions ! (is ! k)) \<and>
        op_amount_rao (others ! k) = sa_alpha_rao (additions ! (is ! k)) \<and>
        (\<forall>j < length additions. companion (others ! k) (additions ! j) \<longrightarrow> j \<notin> set (i # used) \<union> set (take k is) \<longrightarrow>
           sa_position (additions ! j) \<le> sa_position (additions ! (is ! k)))" by blast
  have "(i # is) ! k < length additions \<and> companion (found ! k) (additions ! ((i # is) ! k)) \<and>
        op_amount_rao (found ! k) = sa_alpha_rao (additions ! ((i # is) ! k)) \<and>
        (\<forall>j < length additions. companion (found ! k) (additions ! j) \<longrightarrow> j \<notin> set used \<union> set (take k (i # is)) \<longrightarrow>
           sa_position (additions ! j) \<le> sa_position (additions ! ((i # is) ! k)))" if "k < length found" for k
  proof (cases k)
    case 0
    then show ?thesis using i near by (simp add: found)
  next
    case (Suc m)
    then show ?thesis using IH(5) that by (simp add: found)
  qed
  moreover have "length (i # is) = length found" "distinct (i # is)" "set (i # is) \<inter> set used = {}"
    using IH(2-4) i(3) by (auto simp: found)
  moreover have "map op_event_index found = map (\<lambda>ev. int (pe_position ev)) (ev # evs)"
    using IH(1) payout_shape_Inr [OF p] by (simp add: found)
  ultimately show ?case by blast
qed

lemma stake_event_Inr:
  assumes "stake_event encode position record = Inr (as, ps)"
  shows "(\<forall>a \<in> set as. 0 < sa_alpha_rao a) \<and> (ps = [] \<or> (\<exists>ev. ps = [ev] \<and> pe_position ev = position))"
  using assms by (auto simp: stake_event_def stake_added_def split: if_splits)

lemma stake_events_Inr:
  assumes "stake_events encode n records = Inr (as, ps)"
  shows "(\<forall>a \<in> set as. 0 < sa_alpha_rao a) \<and> sorted_wrt (<) (map pe_position ps) \<and> (\<forall>ev \<in> set ps. n \<le> pe_position ev)"
  using assms
proof (induction records arbitrary: n as ps)
  case Nil
  then show ?case by simp
next
  case (Cons r records)
  from Cons.prems obtain a1 p1 a2 p2 where 1: "stake_event encode n r = Inr (a1, p1)"
    and 2: "stake_events encode (Suc n) records = Inr (a2, p2)" and eq: "as = a1 @ a2" "ps = p1 @ p2" by auto
  from stake_event_Inr [OF 1] Cons.IH [OF 2] show ?case by (fastforce simp: eq)
qed

text \<open>
  C26.  The payouts of a block are its stake transfers, one each and in order, and every amount comes
  from a stake addition of its own: of the same extrinsic, before the transfer, onto the position the
  transfer names, the nearest such that no earlier transfer took.  No addition pays twice.
\<close>

theorem payouts_paired:
  assumes "payouts_in_events encode records block block_timestamp = Inr found"
  shows "\<exists>additions transfers is. stake_events encode 0 records = Inr (additions, transfers) \<and>
    map op_event_index found = map (\<lambda>ev. int (pe_position ev)) transfers \<and>
    sorted_wrt (<) (map op_event_index found) \<and> length is = length found \<and> distinct is \<and>
    (\<forall>k < length found. is ! k < length additions \<and> companion (found ! k) (additions ! (is ! k)) \<and>
      op_amount_rao (found ! k) = sa_alpha_rao (additions ! (is ! k)) \<and> 0 < op_amount_rao (found ! k) \<and>
      (\<forall>j < length additions. companion (found ! k) (additions ! j) \<longrightarrow> j \<notin> set (take k is) \<longrightarrow>
         sa_position (additions ! j) \<le> sa_position (additions ! (is ! k))))"
proof -
  from assms obtain additions transfers where s: "stake_events encode 0 records = Inr (additions, transfers)"
    and p: "pair_payouts encode block block_timestamp additions [] transfers = Inr found"
    by (auto simp: payouts_in_events_def)
  note S = stake_events_Inr [OF s]
  from pair_payouts_Inr [OF p] obtain "is" where P: "map op_event_index found = map (\<lambda>ev. int (pe_position ev)) transfers"
    "length is = length found" "distinct is"
    "\<forall>k < length found. is ! k < length additions \<and> companion (found ! k) (additions ! (is ! k)) \<and>
        op_amount_rao (found ! k) = sa_alpha_rao (additions ! (is ! k)) \<and>
        (\<forall>j < length additions. companion (found ! k) (additions ! j) \<longrightarrow> j \<notin> set [] \<union> set (take k is) \<longrightarrow>
           sa_position (additions ! j) \<le> sa_position (additions ! (is ! k)))" by blast
  have "sorted_wrt (<) (map op_event_index found)" using S by (simp add: P(1) sorted_wrt_map)
  moreover have "0 < sa_alpha_rao (additions ! (is ! k))" if "k < length found" for k
    using S P(4) that nth_mem by blast
  ultimately show ?thesis using s P by (intro exI [of _ additions] exI [of _ transfers] exI [of _ "is"]) simp
qed

text \<open>A batch of two payouts to one position, each with its own addition.\<close>

definition sample_records :: "scale list" where
  "sample_records =
     (let added = (\<lambda>n. SMap [(''module_id'', SStr ''SubtensorModule''), (''event_id'', SStr ''StakeAdded''), (''extrinsic_idx'', SInt 1),
            (''attributes'', SSeq [SStr ''C'', SStr ''V'', SInt 5, SInt n, SInt 66, SInt 0])]);
          moved = SMap [(''extrinsic_idx'', SInt 1), (''event'', SMap [(''module_id'', SStr ''SubtensorModule''),
            (''event_id'', SStr ''StakeTransferred''),
            (''attributes'', SMap [(''origin_coldkey'', SStr ''T''), (''destination_coldkey'', SStr ''C''), (''hotkey'', SStr ''V''),
               (''origin_netuid'', SInt 66), (''destination_netuid'', SInt 66), (''amount'', SInt 5)])])]
      in [added 1000, moved, added 700, moved])"

theorem payouts_paired_witness:
  "\<exists>found additions transfers is. payouts_in_events (\<lambda>_. []) sample_records 9 100 = Inr found \<and>
     map op_amount_rao found = [1000, 700] \<and> map op_event_index found = [1, 3] \<and>
     stake_events (\<lambda>_. []) 0 sample_records = Inr (additions, transfers) \<and> distinct is \<and>
     (\<forall>k < length found. op_amount_rao (found ! k) = sa_alpha_rao (additions ! (is ! k)))"
proof -
  have "case payouts_in_events (\<lambda>_. []) sample_records 9 100 of Inl _ \<Rightarrow> False | Inr found \<Rightarrow>
     map op_amount_rao found = [1000, 700] \<and> map op_event_index found = [1, 3]" by code_simp
  then obtain found where f: "payouts_in_events (\<lambda>_. []) sample_records 9 100 = Inr found"
    "map op_amount_rao found = [1000, 700]" "map op_event_index found = [1, 3]" by (auto split: sum.splits)
  from payouts_paired [OF f(1)] obtain additions transfers "is" where
    s: "stake_events (\<lambda>_. []) 0 sample_records = Inr (additions, transfers)" "distinct is"
       "\<forall>k < length found. op_amount_rao (found ! k) = sa_alpha_rao (additions ! (is ! k))"
    by (elim exE conjE) simp
  show ?thesis using f s by (intro exI conjI) assumption+
qed

lemma transfer_filter:
  assumes "transfer_in_event encode None block ts n r = Inr found"
  shows "transfer_in_event encode (Some to) block ts n r =
    Inr (case found of None \<Rightarrow> None | Some a \<Rightarrow> if ar_recipient a = to then Some a else None)"
  using assms unfolding transfer_in_event_def Let_def
  by (auto simp: bindE_def split: sum.splits if_splits)

text \<open>
  Watching one address is reading the whole block and keeping what is sent to it: the filter the hot
  path applies before it decodes the rest of a record loses nothing.
\<close>

theorem watching_is_filtering:
  assumes "transfers_in_events encode records None block ts = Inr found"
  shows "transfers_in_events encode records (Some to) block ts = Inr (filter (\<lambda>a. ar_recipient a = to) found)"
proof -
  have "transfers_from_position encode (Some to) block ts n records = Inr (filter (\<lambda>a. ar_recipient a = to) found)"
    if "transfers_from_position encode None block ts n records = Inr found" for n
    using that
  proof (induction records arbitrary: n found)
    case (Cons r records)
    then show ?case using transfer_filter [of encode block ts n r] by (auto simp: bindE_def split: sum.splits option.splits)
  qed simp
  then show ?thesis using assms by (simp add: transfers_in_events_def)
qed

definition sample_transfer :: "int \<Rightarrow> string \<Rightarrow> scale" where
  "sample_transfer x to = SMap [(''module_id'', SStr ''Balances''), (''event_id'', SStr ''Transfer''),
     (''extrinsic_idx'', SInt x), (''attributes'', SSeq [SStr ''A'', SStr to, SStr ''1_000''])]"

theorem watching_is_filtering_witness:
  "\<exists>found. transfers_in_events (\<lambda>_. []) [sample_transfer 3 ''T'', sample_transfer 4 ''B''] None 9 50 = Inr found \<and>
     map ar_amount_rao found = [1000, 1000] \<and>
     transfers_in_events (\<lambda>_. []) [sample_transfer 3 ''T'', sample_transfer 4 ''B''] (Some ''T'') 9 50 =
       Inr (filter (\<lambda>a. ar_recipient a = ''T'') found)"
proof -
  have "case transfers_in_events (\<lambda>_. []) [sample_transfer 3 ''T'', sample_transfer 4 ''B''] None 9 50 of
      Inl _ \<Rightarrow> False | Inr found \<Rightarrow> map ar_amount_rao found = [1000, 1000]" by code_simp
  then obtain found where f: "transfers_in_events (\<lambda>_. []) [sample_transfer 3 ''T'', sample_transfer 4 ''B''] None 9 50 = Inr found"
    and a: "map ar_amount_rao found = [1000, 1000]" by (auto simp: succeeds_iff)
  show ?thesis using f a watching_is_filtering [OF f, of "''T''"] by (intro exI conjI)
qed

text \<open>
  A transfer whose record is an object that carries \<open>value_serialized\<close> is read as one of extrinsic 0,
  whatever extrinsic it belongs to; the same record is read correctly for a payout.
\<close>

lemma serialized_transfer_extrinsic:
  assumes "transfer_in_event encode recipient block ts n (SObject r) = Inr (Some a)"
  shows "ar_extrinsic_index a = 0 \<and> extrinsic_index (SObject r) = extrinsic_index r \<or> (\<exists>x. r = SObject x)"
  using assms by (cases r) (auto simp: transfer_in_event_def outer_extrinsic_def extrinsic_index_def unwrapped_def Let_def split: if_splits)

end
