(* ===== verification/Leases.thy ===== *)
theory Leases
  imports Submissions
begin

text \<open>
  The verification queue, \<open>conjectures_subnet/db/verification.py\<close>: leasing the oldest unverified
  submission a worker serves, extending and giving back the lease, and the fence under which a
  verdict is written.  Each statement is one atomic update; the \<open>UPDATE\<close>s change lease columns and
  the attempt count only, and \<open>updated_at\<close> through the table's trigger.
\<close>

section \<open>The model\<close>

record served_key =
  sk_task_id :: string
  sk_task_bundle_sha256 :: string
  sk_problem_id :: string

record claimed_submission =
  cs_submission_id :: uuid
  cs_task_id :: string
  cs_task_bundle_sha256 :: string
  cs_proof_digest :: string
  cs_attempts :: int
  cs_lease_until :: "time option"
  cs_problem_id :: string
  cs_queued :: int

text \<open>\<open>_served_parameters\<close>: the digests of the served triples as bytes.\<close>

fun served_parameters :: "served_key list \<Rightarrow> db_error + (string \<times> bytes \<times> string) list" where
  "served_parameters [] = Inr []"
| "served_parameters (k # ks) =
     (case to_bytes (sk_task_bundle_sha256 k) of
        Inl e \<Rightarrow> Inl e
      | Inr d \<Rightarrow> (case served_parameters ks of Inl e \<Rightarrow> Inl e
                  | Inr rest \<Rightarrow> Inr ((sk_task_id k, d, sk_problem_id k) # rest)))"

definition is_served :: "(string \<times> bytes \<times> string) list \<Rightarrow> submission_row \<Rightarrow> bool" where
  "is_served served x \<longleftrightarrow> (s_task_id x, s_task_bundle_sha256 x, s_problem_id x) \<in> set served"

definition claimable ::
  "(string \<times> bytes \<times> string) list \<Rightarrow> time \<Rightarrow> int \<Rightarrow> uuid list \<Rightarrow> submission_row \<Rightarrow> bool" where
  "claimable served now max_attempts excluded x \<longleftrightarrow>
     is_served served x \<and> s_verification_status x = UNVERIFIED \<and>
     (case s_verification_lease_until x of None \<Rightarrow> True | Some t \<Rightarrow> t < now) \<and>
     s_verification_attempts x < max_attempts \<and> s_id x \<notin> set excluded"

definition CLAIM ::
  "(string \<times> bytes \<times> string) list \<Rightarrow> string \<Rightarrow> int \<Rightarrow> int \<Rightarrow> uuid list \<Rightarrow> submission_row option dbtx" where
  "CLAIM served owner lease_seconds max_attempts excluded s =
     (case sort_key s_created_at (filter (claimable served (clock s) max_attempts excluded) (submissions s)) of
        [] \<Rightarrow> Inr (None, s)
      | x # _ \<Rightarrow>
          (let x' = x\<lparr>s_verification_lease_until := Some (clock s + lease_seconds),
                  s_verification_lease_owner := Some owner,
                  s_verification_attempts := s_verification_attempts x + 1\<rparr>
           in thenT (update_submission x') (ret (Some x')) s))"

definition claim_next ::
  "string \<Rightarrow> int \<Rightarrow> int \<Rightarrow> served_key list \<Rightarrow> uuid list \<Rightarrow> claimed_submission option dbtx" where
  "claim_next owner lease_seconds max_attempts served excluded =
     thenT (raise_if (lease_seconds \<le> 0) (PyError (ValueError ''lease_seconds must be positive'')))
    (thenT (raise_if (max_attempts \<le> 0) (PyError (ValueError ''max_attempts must be positive'')))
    (if served = [] then ret None
     else
       bindT (lift_digest (served_parameters served)) (\<lambda>params.
       bindT (CLAIM params owner lease_seconds max_attempts excluded) (\<lambda>row.
       case row of
         None \<Rightarrow> ret None
       | Some x \<Rightarrow>
           bindT (lift_digest (to_prefixed (s_task_bundle_sha256 x))) (\<lambda>bundle.
           bindT (lift_digest (to_prefixed (s_proof_digest x))) (\<lambda>proof.
           bindT (reads clock) (\<lambda>now.
             ret (Some \<lparr>cs_submission_id = s_id x, cs_task_id = s_task_id x,
                    cs_task_bundle_sha256 = bundle, cs_proof_digest = proof,
                    cs_attempts = s_verification_attempts x,
                    cs_lease_until = s_verification_lease_until x, cs_problem_id = s_problem_id x,
                    cs_queued = now - s_created_at x\<rparr>))))))))"

definition unserved_pending :: "served_key list \<Rightarrow> int dbtx" where
  "unserved_pending served =
     bindT (lift_digest (served_parameters served)) (\<lambda>params.
     reads (\<lambda>s. int (length (filter (\<lambda>x. s_verification_status x = UNVERIFIED \<and> \<not> is_served params x)
       (submissions s)))))"

text \<open>Whether a row is unverified and leased to this owner: the guard the three statements share.\<close>

definition owned :: "string \<Rightarrow> submission_row \<Rightarrow> bool" where
  "owned owner x \<longleftrightarrow> s_verification_status x = UNVERIFIED \<and> s_verification_lease_owner x = Some owner"

text \<open>\<open>UPDATE submissions SET ... WHERE id = n AND guard\<close>, and whether a row was changed.\<close>

definition guarded_update ::
  "uuid \<Rightarrow> (submission_row \<Rightarrow> bool) \<Rightarrow> (db \<Rightarrow> submission_row \<Rightarrow> submission_row) \<Rightarrow> bool dbtx" where
  "guarded_update submission_id guard f s =
     (case find_row s_id submission_id (submissions s) of
        None \<Rightarrow> Inr (False, s)
      | Some x \<Rightarrow> if guard x then thenT (update_submission (f s x)) (ret True) s else Inr (False, s))"

definition release_unconsumed :: "uuid \<Rightarrow> string \<Rightarrow> bool dbtx" where
  "release_unconsumed submission_id owner =
     guarded_update submission_id (\<lambda>x. owned owner x \<and> s_verification_attempts x > 0)
       (\<lambda>s x. x\<lparr>s_verification_lease_until := None, s_verification_lease_owner := None,
          s_verification_attempts := s_verification_attempts x - 1\<rparr>)"

definition extend_lease :: "uuid \<Rightarrow> string \<Rightarrow> int \<Rightarrow> bool dbtx" where
  "extend_lease submission_id owner lease_seconds =
     thenT (raise_if (lease_seconds \<le> 0) (PyError (ValueError ''lease_seconds must be positive'')))
       (guarded_update submission_id (owned owner)
          (\<lambda>s x. x\<lparr>s_verification_lease_until := Some (clock s + lease_seconds)\<rparr>))"

definition release :: "uuid \<Rightarrow> string \<Rightarrow> bool dbtx" where
  "release submission_id owner =
     guarded_update submission_id (owned owner)
       (\<lambda>s x. x\<lparr>s_verification_lease_until := None, s_verification_lease_owner := None\<rparr>)"

definition lock_owned_for_recording :: "db \<Rightarrow> uuid \<Rightarrow> string \<Rightarrow> submission_row option" where
  "lock_owned_for_recording s submission_id owner =
     (case find_row s_id submission_id (submissions s) of
        None \<Rightarrow> None
      | Some x \<Rightarrow> if owned owner x \<and> (case s_verification_lease_until x of None \<Rightarrow> False | Some t \<Rightarrow> t \<ge> clock s)
                  then Some x else None)"

text \<open>What one worker does to the queue between claiming and recording.\<close>

inductive lease_op :: "string \<Rightarrow> db \<Rightarrow> db \<Rightarrow> bool" for owner where
  claims: "claim_next owner secs cap served excluded s = Inr (c, s') \<Longrightarrow> lease_op owner s s'"
| extends: "extend_lease n owner secs s = Inr (b, s') \<Longrightarrow> lease_op owner s s'"
| releases: "release n owner s = Inr (b, s') \<Longrightarrow> lease_op owner s s'"
| gives_back: "release_unconsumed n owner s = Inr (b, s') \<Longrightarrow> lease_op owner s s'"

text \<open>A worker that serves the submission of the examples, and the queue after it claimed it.\<close>

definition sample_served :: "served_key list" where
  "sample_served = [\<lparr>sk_task_id = ''task'', sk_task_bundle_sha256 = zero_digest, sk_problem_id = ''p''\<rparr>]"

definition sample_claimed :: "db_error + claimed_submission option \<times> db" where
  "sample_claimed = bindT (\<lambda>_. sample_submitted) (\<lambda>_. claim_next ''w1'' 60 3 sample_served [])
     (empty_db (\<lambda>_. replicate 32 0) 100)"

section \<open>What one operation does\<close>

lemma CLAIM_Inr:
  assumes "CLAIM served owner secs cap excluded s = Inr (r, s')"
  obtains (none) "r = None" "s' = s" "\<forall>x \<in> set (submissions s). \<not> claimable served (clock s) cap excluded x"
  | (one) x x' where "x \<in> set (submissions s)" "claimable served (clock s) cap excluded x"
      "\<forall>y \<in> set (submissions s). claimable served (clock s) cap excluded y \<longrightarrow> s_created_at x \<le> s_created_at y"
      "x' = x\<lparr>s_verification_lease_until := Some (clock s + secs), s_verification_lease_owner := Some owner,
                s_verification_attempts := s_verification_attempts x + 1\<rparr>"
      "r = Some x'" "update_submission x' s = Inr ((), s')"
proof -
  let ?ys = "sort_key s_created_at (filter (claimable served (clock s) cap excluded) (submissions s))"
  have set: "set ?ys = {x \<in> set (submissions s). claimable served (clock s) cap excluded x}" by auto
  show thesis
  proof (cases ?ys)
    case Nil
    with set assms show thesis by (intro none) (auto simp: CLAIM_def)
  next
    case (Cons x xs)
    have "sorted (map s_created_at ?ys)" by simp
    then have "\<forall>y \<in> set ?ys. s_created_at x \<le> s_created_at y" unfolding Cons by auto
    then show thesis using assms Cons set by (intro one) (auto simp: CLAIM_def thenT_Inr_iff Let_def)
  qed
qed

lemma claim_next_Inr:
  assumes "claim_next owner secs cap served excluded s = Inr (c, s')"
  obtains (none) "c = None" "s' = s"
  | (one) ps x where "served_parameters served = Inr ps" "CLAIM ps owner secs cap excluded s = Inr (Some x, s')"
      "c \<noteq> None" "cs_submission_id (the c) = s_id x" "0 < secs" "0 < cap"
  using assms unfolding claim_next_def
  by (fastforce simp: bindT_Inr_iff thenT_Inr_iff split: if_splits option.splits elim: CLAIM_Inr)

lemma update_submission_row:
  assumes "update_submission x' s = Inr (u, s')" and "find_row s_id (s_id x') (submissions s) = Some x"
  shows "clock s' = clock s" and "map s_id (submissions s') = map s_id (submissions s)"
    and "find_row s_id m (submissions s') =
      (if m = s_id x' then Some (x'\<lparr>s_updated_at := clock s\<rparr>) else find_row s_id m (submissions s))"
    and "submissions s' = replace_row s_id (x'\<lparr>s_updated_at := clock s\<rparr>) (submissions s)"
proof -
  let ?x = "x'\<lparr>s_updated_at := clock s\<rparr>"
  have s': "s' = s\<lparr>submissions := replace_row s_id ?x (submissions s)\<rparr>"
    using assms by (simp add: tx_simps Let_def)
  then show "clock s' = clock s" "map s_id (submissions s') = map s_id (submissions s)"
    "submissions s' = replace_row s_id ?x (submissions s)" by simp_all
  have "update_in submissions (\<lambda>rs. submissions_update (\<lambda>_. rs)) s_id (\<lambda>_ _. []) ?x s = Inr ((), s')"
    by (simp add: update_in_Inr s')
  from submission_table.find_after_update [OF this, of m] find_row_Some [OF assms(2)]
  show "find_row s_id m (submissions s') = (if m = s_id x' then Some ?x else find_row s_id m (submissions s))"
    by (auto simp: image_iff)
qed

lemma lock_owned_iff:
  "lock_owned_for_recording s n owner = Some x \<longleftrightarrow>
     find_row s_id n (submissions s) = Some x \<and> owned owner x \<and>
     (\<exists>t. s_verification_lease_until x = Some t \<and> clock s \<le> t)"
  by (auto simp: lock_owned_for_recording_def split: option.splits if_splits)

lemma guarded_update_other:
  assumes "guarded_update m guard f s = Inr (b, s')" and "find_row s_id n (submissions s) = Some x"
    and "\<not> guard x" and "\<And>y. s_id (f s y) = s_id y"
  shows "find_row s_id n (submissions s') = Some x" and "clock s' = clock s"
proof -
  have "find_row s_id n (submissions s') = Some x \<and> clock s' = clock s"
  proof (cases "find_row s_id m (submissions s)")
    case (Some y)
    show ?thesis
    proof (cases "guard y")
      case True
      with Some assms(1) have u: "update_submission (f s y) s = Inr ((), s')"
        by (simp add: guarded_update_def thenT_Inr_iff)
      have y: "s_id (f s y) = m" using assms(4) find_row_Some [OF Some] by simp
      have "n \<noteq> m" using True Some assms(2,3) by auto
      then show ?thesis using update_submission_row(1,3) [OF u] Some assms(2) y by simp
    next
      case False
      with Some assms(1,2) show ?thesis by (simp add: guarded_update_def)
    qed
  qed (use assms(1,2) in \<open>simp add: guarded_update_def\<close>)
  then show "find_row s_id n (submissions s') = Some x" "clock s' = clock s" by simp_all
qed

lemma claim_leaves_live_leases:
  assumes "claim_next owner secs cap served excluded s = Inr (c, s')"
    and "lock_owned_for_recording s n w = Some x" and "distinct (map s_id (submissions s))"
  shows "find_row s_id n (submissions s') = Some x" and "clock s' = clock s"
proof -
  have x: "find_row s_id n (submissions s) = Some x" "\<exists>t. s_verification_lease_until x = Some t \<and> clock s \<le> t"
    using assms(2) by (simp_all add: lock_owned_iff)
  have "find_row s_id n (submissions s') = Some x \<and> clock s' = clock s"
    using assms(1)
  proof (cases rule: claim_next_Inr)
    case (one ps r)
    from one(2) show ?thesis
    proof (cases rule: CLAIM_Inr)
      case (one y y')
      have y: "find_row s_id (s_id y') (submissions s) = Some y"
        using find_row_unique [OF assms(3) one(1)] by (simp add: one(4))
      have "y \<noteq> x" using one(2) x(2) by (auto simp: claimable_def)
      then have "n \<noteq> s_id y'" using x(1) y by auto
      then show ?thesis using update_submission_row(1,3) [OF one(6) y] x(1) by simp
    qed simp
  qed (use x in simp)
  then show "find_row s_id n (submissions s') = Some x" "clock s' = clock s" by simp_all
qed

section \<open>Properties\<close>

text \<open>
  A claim leases the oldest submission the worker may take and nothing else: the row it returns
  was claimable, no claimable row is older, its attempt was counted without passing the cap, the
  worker holds a live lease on it, every other row is as it was; and when nothing is returned,
  nothing changed.
\<close>

theorem claim_next_oldest:
  assumes "claim_next owner secs cap served excluded s = Inr (r, s')" and "distinct (map s_id (submissions s))"
  shows "(r = None \<and> s' = s) \<or>
    (\<exists>c ps x y. r = Some c \<and> served_parameters served = Inr ps \<and> x \<in> set (submissions s) \<and>
      s_id x = cs_submission_id c \<and> claimable ps (clock s) cap excluded x \<and>
      (\<forall>z \<in> set (submissions s). claimable ps (clock s) cap excluded z \<longrightarrow> s_created_at x \<le> s_created_at z) \<and>
      lock_owned_for_recording s' (s_id x) owner = Some y \<and>
      s_verification_attempts y = s_verification_attempts x + 1 \<and> s_verification_attempts y \<le> cap \<and>
      (\<forall>m. m \<noteq> s_id x \<longrightarrow> find_row s_id m (submissions s') = find_row s_id m (submissions s)))"
  using assms(1)
proof (cases rule: claim_next_Inr)
  case (one ps x0)
  note C = one
  from one(2) show ?thesis
  proof (cases rule: CLAIM_Inr)
    case (one x x')
    let ?y = "x'\<lparr>s_updated_at := clock s\<rparr>"
    have x': "find_row s_id (s_id x') (submissions s) = Some x"
      using find_row_unique [OF assms(2) one(1)] by (simp add: one(4))
    note u = update_submission_row [OF one(6) x']
    have "lock_owned_for_recording s' (s_id x) owner = Some ?y"
      using u(1,3) one(2) C(5) by (simp add: lock_owned_iff one(4) owned_def claimable_def)
    moreover have "s_verification_attempts ?y = s_verification_attempts x + 1" "s_verification_attempts ?y \<le> cap"
      using one(2) by (simp_all add: one(4) claimable_def)
    moreover have "s_id x = cs_submission_id (the r)" "r = Some (the r)" using C(3,4) one(5) by (simp_all add: one(4))
    moreover have "\<forall>m. m \<noteq> s_id x \<longrightarrow> find_row s_id m (submissions s') = find_row s_id m (submissions s)"
      using u(3) by (simp add: one(4))
    ultimately show ?thesis using C(1) one(1-3)
      by (intro disjI2 exI [of _ "the r"] exI [of _ ps] exI [of _ x] exI [of _ ?y]) blast
  qed simp
qed simp

lemma sample_claimed_ok:
  "\<exists>v s c s'. sample_submitted = Inr (v, s) \<and> distinct (map s_id (submissions s)) \<and>
     claim_next ''w1'' 60 3 sample_served [] s = Inr (Some c, s') \<and> cs_submission_id c = 0 \<and>
     distinct (map s_id (submissions s')) \<and> lock_owned_for_recording s' 0 ''w1'' \<noteq> None"
proof -
  have "case sample_submitted of Inl _ \<Rightarrow> False | Inr (v, s) \<Rightarrow> distinct (map s_id (submissions s)) \<and>
     (case claim_next ''w1'' 60 3 sample_served [] s of Inl _ \<Rightarrow> False | Inr (r, s') \<Rightarrow>
       (case r of None \<Rightarrow> False | Some c \<Rightarrow> cs_submission_id c = 0 \<and> distinct (map s_id (submissions s')) \<and>
         lock_owned_for_recording s' 0 ''w1'' \<noteq> None))" by code_simp
  then show ?thesis by (fastforce simp: succeeds_iff split: option.splits)
qed

theorem claim_next_oldest_witness:
  "\<exists>v s c s' y. sample_submitted = Inr (v, s) \<and> claim_next ''w1'' 60 3 sample_served [] s = Inr (Some c, s') \<and>
     lock_owned_for_recording s' (cs_submission_id c) ''w1'' = Some y \<and> s_verification_attempts y \<le> 3"
proof -
  obtain v s c s' where s: "sample_submitted = Inr (v, s)" "distinct (map s_id (submissions s))"
    "claim_next ''w1'' 60 3 sample_served [] s = Inr (Some c, s')" using sample_claimed_ok by blast
  from claim_next_oldest [OF s(3,2)] s show ?thesis by fastforce
qed

text \<open>
  C38.  A live lease is exclusive: whatever another worker does to the queue, claiming, extending,
  releasing or giving back any submission, the holder's row is untouched, the holder may still
  record its verdict, and the other worker may not.
\<close>

theorem lease_exclusive:
  assumes "lock_owned_for_recording s n w = Some x" and "lease_op w' s s'" and "w' \<noteq> w"
    and "distinct (map s_id (submissions s))"
  shows "lock_owned_for_recording s' n w = Some x \<and> lock_owned_for_recording s' n w' = None"
proof -
  have x: "find_row s_id n (submissions s) = Some x" "owned w x" using assms(1) by (simp_all add: lock_owned_iff)
  have not: "\<not> owned w' x" using x(2) assms(3) by (simp add: owned_def)
  from assms(2) have "find_row s_id n (submissions s') = Some x \<and> clock s' = clock s"
  proof cases
    case (claims secs cap served excluded c)
    then show ?thesis using claim_leaves_live_leases [OF _ assms(1,4)] by blast
  next
    case (extends m secs b)
    then have "guarded_update m (owned w')
          (\<lambda>s x. x\<lparr>s_verification_lease_until := Some (clock s + secs)\<rparr>) s = Inr (b, s')"
      by (auto simp: extend_lease_def thenT_Inr_iff)
    from guarded_update_other [OF this x(1) not] show ?thesis by simp
  next
    case (releases m b)
    from guarded_update_other [OF this [unfolded release_def] x(1) not] show ?thesis by simp
  next
    case (gives_back m b)
    from guarded_update_other [OF this [unfolded release_unconsumed_def] x(1)] not show ?thesis by simp
  qed
  then have "lock_owned_for_recording s' n w = Some x" "lock_owned_for_recording s' n w' = None"
    using assms(1) not by (simp_all add: lock_owned_iff) (simp add: lock_owned_for_recording_def)
  then show ?thesis ..
qed

theorem lease_exclusive_witness:
  "\<exists>s x c s'. lock_owned_for_recording s 0 ''w1'' = Some x \<and> claim_next ''w2'' 60 3 sample_served [] s = Inr (c, s') \<and>
     lock_owned_for_recording s' 0 ''w1'' = Some x \<and> lock_owned_for_recording s' 0 ''w2'' = None"
proof -
  have "case sample_claimed of Inl _ \<Rightarrow> False | Inr (c, s) \<Rightarrow> distinct (map s_id (submissions s)) \<and>
     lock_owned_for_recording s 0 ''w1'' \<noteq> None \<and>
     (case claim_next ''w2'' 60 3 sample_served [] s of Inl _ \<Rightarrow> False | Inr _ \<Rightarrow> True)" by code_simp
  then obtain s x c s' where s: "lock_owned_for_recording s 0 ''w1'' = Some x" "distinct (map s_id (submissions s))"
    "claim_next ''w2'' 60 3 sample_served [] s = Inr (c, s')" by (auto simp: succeeds_iff)
  from lease_exclusive [OF s(1) claims [OF s(3)] _ s(2)] s show ?thesis by auto
qed

text \<open>
  Giving a claim back undoes it: after a claim and \<open>release_unconsumed\<close> by the same worker the row
  has its attempt count back and no lease, so it is claimable again at once, as if it had not been
  touched but for the trigger's timestamp.
\<close>

theorem release_unconsumed_undoes_claim:
  assumes "claim_next owner secs cap served excluded s = Inr (Some c, s1)"
    and "release_unconsumed (cs_submission_id c) owner s1 = Inr (b, s')"
    and "distinct (map s_id (submissions s))" and "\<forall>x \<in> set (submissions s). 0 \<le> s_verification_attempts x"
  shows "b \<and> (\<exists>x ps. served_parameters served = Inr ps \<and> find_row s_id (cs_submission_id c) (submissions s) = Some x \<and>
    find_row s_id (cs_submission_id c) (submissions s') =
      Some (x\<lparr>s_verification_lease_until := None, s_verification_lease_owner := None, s_updated_at := clock s\<rparr>) \<and>
    claimable ps (clock s') cap excluded
      (x\<lparr>s_verification_lease_until := None, s_verification_lease_owner := None, s_updated_at := clock s\<rparr>))"
  using assms(1)
proof (cases rule: claim_next_Inr)
  case (one ps x0)
  note C = one
  from one(2) show ?thesis
  proof (cases rule: CLAIM_Inr)
    case (one x x')
    have id: "cs_submission_id c = s_id x" using C(4) one(5) by (simp add: one(4))
    have x': "find_row s_id (s_id x') (submissions s) = Some x"
      using find_row_unique [OF assms(3) one(1)] by (simp add: one(4))
    note u = update_submission_row [OF one(6) x']
    let ?y = "x'\<lparr>s_updated_at := clock s\<rparr>"
    let ?z = "?y\<lparr>s_verification_lease_until := None, s_verification_lease_owner := None,
        s_verification_attempts := s_verification_attempts ?y - 1\<rparr>"
    have y: "find_row s_id (s_id x) (submissions s1) = Some ?y" using u(3) by (simp add: one(4))
    have "owned owner ?y \<and> s_verification_attempts ?y > 0"
      using one(1,2) assms(4) by (auto simp: one(4) owned_def claimable_def)
    then have r: "update_submission ?z s1 = Inr ((), s')" "b"
      using assms(2) y by (auto simp: release_unconsumed_def guarded_update_def id thenT_Inr_iff)
    have y': "find_row s_id (s_id ?z) (submissions s1) = Some ?y" using y by (simp add: one(4))
    have eq: "?z\<lparr>s_updated_at := clock s1\<rparr> = x\<lparr>s_verification_lease_until := None,
        s_verification_lease_owner := None, s_updated_at := clock s\<rparr>" by (simp add: one(4) u(1))
    have "find_row s_id (s_id x) (submissions s') = Some (x\<lparr>s_verification_lease_until := None,
        s_verification_lease_owner := None, s_updated_at := clock s\<rparr>)" "clock s' = clock s"
      using update_submission_row(1,3) [OF r(1) y'] u(1) eq by (simp_all add: one(4))
    then show ?thesis using r(2) C(1) x' one(2) by (simp add: id claimable_def is_served_def one(4))
  qed simp
qed simp

theorem release_unconsumed_undoes_claim_witness:
  "\<exists>c s1 b s' x ps. sample_claimed = Inr (Some c, s1) \<and> release_unconsumed (cs_submission_id c) ''w1'' s1 = Inr (b, s') \<and> b \<and>
     find_row s_id (cs_submission_id c) (submissions s') = Some x \<and> s_verification_lease_owner x = None"
proof -
  have "case sample_submitted of Inl _ \<Rightarrow> False | Inr (v, s) \<Rightarrow> distinct (map s_id (submissions s)) \<and>
      list_all (\<lambda>x. 0 \<le> s_verification_attempts x) (submissions s) \<and>
     (case claim_next ''w1'' 60 3 sample_served [] s of Inl _ \<Rightarrow> False | Inr (r, s1) \<Rightarrow>
       (case r of None \<Rightarrow> False | Some c \<Rightarrow>
         (case release_unconsumed (cs_submission_id c) ''w1'' s1 of Inl _ \<Rightarrow> False | Inr _ \<Rightarrow> True)))" by code_simp
  then obtain v s c s1 b s' where s: "sample_submitted = Inr (v, s)" "distinct (map s_id (submissions s))"
      "\<forall>x \<in> set (submissions s). 0 \<le> s_verification_attempts x"
      "claim_next ''w1'' 60 3 sample_served [] s = Inr (Some c, s1)"
      "release_unconsumed (cs_submission_id c) ''w1'' s1 = Inr (b, s')"
    by (fastforce simp: succeeds_iff list_all_iff split: option.splits)
  have "sample_claimed = Inr (Some c, s1)" using s by (simp add: sample_claimed_def)
  with release_unconsumed_undoes_claim [OF s(4,5,2,3)] s(5) show ?thesis by fastforce
qed

end
