(* ===== verification/Payouts.thy ===== *)
theory Payouts
  imports PayoutTables ChainEvents Leases
begin

text \<open>
  The reconciliation of outbound payouts, \<open>conjectures_subnet/db/payouts.py\<close>, in the order of the module:
  the cursor, matching a chain event against the outstanding obligations, marking one submitted or
  paid, the ledger of finalized payouts and the operator's two ways out of it, and the way back after
  a reorganisation; then \<open>db/payout_instructions.py\<close>, the audited cancellation of an instruction.

  The lemmas say what one operation does to each table, that the match is the oldest obligation in
  force with the event's fingerprint, and that a reverted submission leaves the obligations as they
  were.
\<close>

section \<open>Data\<close>

definition PAYOUT_WATCHER :: string where "PAYOUT_WATCHER = ''payouts''"

definition CHAIN_CLOCK_TOLERANCE :: time where "CHAIN_CLOCK_TOLERANCE = 60"

text \<open>
  The names a decoded event and a ledger row share, through which the matching helpers read either.
\<close>

record payout_facts =
  pf_reference :: string
  pf_block :: int
  pf_block_timestamp :: time
  pf_destination_coldkey :: ss58
  pf_destination_hotkey :: ss58
  pf_moved_hotkey :: bool
  pf_amount_rao :: rao

definition event_facts :: "observed_payout \<Rightarrow> payout_facts" where
  "event_facts p = \<lparr>pf_reference = op_reference p, pf_block = op_block p,
     pf_block_timestamp = op_block_timestamp p, pf_destination_coldkey = op_destination_coldkey p,
     pf_destination_hotkey = op_destination_hotkey p,
     pf_moved_hotkey = (op_origin_hotkey p \<noteq> op_destination_hotkey p), pf_amount_rao = op_amount_rao p\<rparr>"

definition row_facts :: "payout_row \<Rightarrow> payout_facts" where
  "row_facts p = \<lparr>pf_reference = tp_extrinsic_reference p, pf_block = tp_block p,
     pf_block_timestamp = tp_block_timestamp p, pf_destination_coldkey = tp_destination_coldkey p,
     pf_destination_hotkey = tp_destination_hotkey p,
     pf_moved_hotkey = (tp_origin_hotkey p \<noteq> tp_destination_hotkey p), pf_amount_rao = tp_amount_rao p\<rparr>"

record payout_price =
  pp_alpha_usd :: rat
  pp_observed_at :: time

definition new_payout_price :: "rat \<Rightarrow> time \<Rightarrow> py_error + payout_price" where
  "new_payout_price alpha_usd observed_at =
     (if alpha_usd \<le> 0 then Inl (ValueError ''the Alpha USD price must be finite and positive'')
      else Inr \<lparr>pp_alpha_usd = alpha_usd, pp_observed_at = observed_at\<rparr>)"

record payout_update =
  pu_reward_event_id :: serial
  pu_submission_id :: uuid
  pu_changed :: bool

record submitted_payout =
  sp_reward_event_id :: serial
  sp_reference :: string
  sp_submitted_block :: int

section \<open>Cursor\<close>

definition payout_cursor :: "db \<Rightarrow> string \<Rightarrow> payout_cursor_row option" where
  "payout_cursor s watcher = find_row pc_watcher watcher (payout_cursors s)"

definition open_payout_cursor ::
  "string \<Rightarrow> ss58 \<Rightarrow> ss58 \<Rightarrow> int \<Rightarrow> time \<Rightarrow> int \<Rightarrow> time \<Rightarrow> string \<Rightarrow> payout_cursor_row dbtx" where
  "open_payout_cursor network origin_coldkey origin_hotkey netuid watch_from start_block start_block_timestamp watcher s =
     (let row = \<lparr>pc_watcher = watcher, pc_network = network, pc_origin_coldkey = origin_coldkey,
            pc_origin_hotkey = origin_hotkey, pc_netuid = netuid, pc_watch_from = watch_from,
            pc_start_block = start_block, pc_start_block_timestamp = start_block_timestamp,
            pc_last_scanned_block = start_block - 1, pc_last_scanned_at = clock s, pc_created_at = clock s\<rparr>
      in thenT (insert_payout_cursor row) (ret row) s)"

definition advance_payout_cursor :: "int \<Rightarrow> time \<Rightarrow> string \<Rightarrow> payout_cursor_row dbtx" where
  "advance_payout_cursor through_block now watcher s =
     (case payout_cursor s watcher of
        None \<Rightarrow> Inl (RecordNotFound ''no cursor for payout watcher'')
      | Some row \<Rightarrow>
          if through_block > pc_last_scanned_block row then
            let r = row\<lparr>pc_last_scanned_block := through_block, pc_last_scanned_at := now\<rparr>
            in thenT (update_payout_cursor r) (ret r) s
          else Inr (row, s))"

definition unresolved :: "reward_row \<Rightarrow> bool" where
  "unresolved e \<longleftrightarrow> rw_status e \<in> {PENDING, SUBMITTED} \<or> rw_status e = P_CONFIRMED \<and> \<not> rw_chain_observed e"

definition event_watch_from :: "reward_row \<Rightarrow> time" where
  "event_watch_from e = min (rw_created_at e) (case rw_submitted_at e of None \<Rightarrow> rw_created_at e | Some t \<Rightarrow> t)"

definition oldest_unresolved_at :: "db \<Rightarrow> ss58 option \<Rightarrow> ss58 option \<Rightarrow> time option" where
  "oldest_unresolved_at s origin_coldkey origin_hotkey =
     (let proof = min_option (map event_watch_from (filter unresolved (reward_events s)));
          bonus = (case (origin_coldkey, origin_hotkey) of
                     (Some c, Some h) \<Rightarrow> trajectory_bonus_oldest_pending s c h | _ \<Rightarrow> None)
      in min_option (List.map_filter id [proof, bonus]))"

section \<open>Matching\<close>

definition hotkey_agrees :: "reward_row \<Rightarrow> payout_facts \<Rightarrow> bool" where
  "hotkey_agrees e p \<longleftrightarrow>
     (if \<not> pf_moved_hotkey p then True
      else rw_destination_hotkey e = None \<or> rw_destination_hotkey e = Some (pf_destination_hotkey p))"

definition same_payout :: "reward_row \<Rightarrow> payout_facts \<Rightarrow> bool" where
  "same_payout e p \<longleftrightarrow> rw_destination_coldkey e = pf_destination_coldkey p \<and>
     rw_amount_rao e = pf_amount_rao p \<and> hotkey_agrees e p"

definition by_reference :: "db \<Rightarrow> payout_facts \<Rightarrow> reward_row option" where
  "by_reference s p = List.find (\<lambda>e. rw_extrinsic_reference e = Some (pf_reference p)) (reward_events s)"

text \<open>The WHERE clause of \<open>_oldest_match\<close>.\<close>

definition candidate :: "db \<Rightarrow> payout_facts \<Rightarrow> reward_row \<Rightarrow> bool" where
  "candidate s p e \<longleftrightarrow>
     instruction_enabled s e \<and>
     (rw_status e = PENDING \<and> rw_extrinsic_reference e = None \<or>
      rw_status e \<in> {SUBMITTED, P_CONFIRMED} \<and> \<not> rw_chain_observed e) \<and>
     rw_destination_coldkey e = pf_destination_coldkey p \<and> rw_amount_rao e = pf_amount_rao p \<and>
     (if pf_moved_hotkey p
      then rw_destination_hotkey e = None \<or> rw_destination_hotkey e = Some (pf_destination_hotkey p) else True) \<and>
     rw_created_at e \<le> pf_block_timestamp p + CHAIN_CLOCK_TOLERANCE"

text \<open>\<open>ORDER BY created_at, id LIMIT 1\<close>\<close>

definition oldest_match :: "db \<Rightarrow> payout_facts \<Rightarrow> reward_row option" where
  "oldest_match s p =
     (case sort_key rw_created_at (sort_key rw_id (filter (candidate s p) (reward_events s))) of
        [] \<Rightarrow> None | e # _ \<Rightarrow> Some e)"

definition submission_for :: "reward_row \<Rightarrow> submission_row dbtx" where
  "submission_for e s =
     (case find_row s_id (rw_submission_id e) (submissions s) of
        None \<Rightarrow> Inl (PayoutConflict ''reward event names missing submission'')
      | Some sub \<Rightarrow> Inr (sub, s))"

definition timeline ::
  "uuid \<Rightarrow> string \<Rightarrow> string \<Rightarrow> payout_facts \<Rightarrow> string option \<Rightarrow> unit dbtx" where
  "timeline submission_id kind detail p previous_reference =
     bindT new_event_id (\<lambda>new_id.
       insert_event \<lparr>e_id = new_id, e_submission_id = submission_id, e_kind = kind, e_detail = Some detail,
         e_context = Some ([(''extrinsic_reference'', DStr (pf_reference p)), (''block'', DInt (pf_block p)),
            (''amount_rao'', DInt (pf_amount_rao p))] @
           (case previous_reference of None \<Rightarrow> []
            | Some r \<Rightarrow> if r \<noteq> pf_reference p then [(''replaced_extrinsic_reference'', DStr r)] else [])),
         e_actor = ''payout-watcher'', e_occurred_at = pf_block_timestamp p\<rparr>)"

section \<open>Settlement\<close>

text \<open>The second half of \<open>mark_submitted\<close>: the matched obligation and its submission move.\<close>

definition submitted_event :: "reward_row \<Rightarrow> payout_facts \<Rightarrow> reward_row" where
  "submitted_event e p = e\<lparr>rw_status := SUBMITTED, rw_chain_observed := True,
     rw_extrinsic_reference := Some (pf_reference p), rw_submitted_block := Some (pf_block p),
     rw_submitted_at := Some (max (rw_created_at e) (pf_block_timestamp p)), rw_finalized_block := None,
     rw_confirmed_at := None, rw_failure_reason := None\<rparr>"

definition mark_event :: "reward_row \<Rightarrow> payout_facts \<Rightarrow> payout_update option dbtx" where
  "mark_event e p =
     bindT (submission_for e) (\<lambda>sub.
       (let demoted = (s_reward_status sub = REWARDED \<and> \<not> rw_chain_observed e);
            sub' = (if demoted then sub\<lparr>s_reward_status := ELIGIBLE\<rparr> else sub)
        in thenT (raise_if (s_reward_status sub' \<noteq> ELIGIBLE)
                    (PayoutConflict ''reward event matched chain but submission is not ELIGIBLE''))
          (thenT (if demoted then update_submission sub' else ret ())
          (thenT (update_reward (submitted_event e p))
          (thenT (timeline (s_id sub') ''PAYOUT_SUBMITTED''
                    ''The payout appeared on chain and is waiting for finality.'' p (rw_extrinsic_reference e))
            (ret (Some \<lparr>pu_reward_event_id = rw_id e, pu_submission_id = s_id sub', pu_changed = True\<rparr>)))))))"

definition mark_submitted :: "observed_payout \<Rightarrow> payout_update option dbtx" where
  "mark_submitted observed =
     (let p = event_facts observed in
      bindT (reads (\<lambda>s. by_reference s p)) (\<lambda>found.
      case found of
        Some e \<Rightarrow>
          thenT (raise_if (\<not> same_payout e p) (PayoutConflict ''reference is attached to a different payout''))
            (if rw_chain_observed e \<and> rw_status e \<in> {SUBMITTED, P_CONFIRMED}
             then ret (Some \<lparr>pu_reward_event_id = rw_id e, pu_submission_id = rw_submission_id e, pu_changed = False\<rparr>)
             else thenT (raise_if (rw_status e \<notin> {PENDING, SUBMITTED, P_CONFIRMED})
                           (PayoutConflict ''reference belongs to reward event in another state''))
                    (mark_event e p))
      | None \<Rightarrow>
          bindT (reads (\<lambda>s. oldest_match s p)) (\<lambda>m.
            case m of None \<Rightarrow> ret None | Some e \<Rightarrow> mark_event e p)))"

definition confirmed_event :: "reward_row \<Rightarrow> payout_facts \<Rightarrow> reward_row" where
  "confirmed_event e p = e\<lparr>rw_status := P_CONFIRMED, rw_chain_observed := True,
     rw_extrinsic_reference := Some (pf_reference p), rw_submitted_block := Some (pf_block p),
     rw_finalized_block := Some (pf_block p),
     rw_submitted_at := Some (max (rw_created_at e) (pf_block_timestamp p)),
     rw_confirmed_at := Some (max (rw_created_at e) (pf_block_timestamp p)), rw_failure_reason := None\<rparr>"

text \<open>\<open>_bind\<close> inside \<open>_settle\<close>, with its flush.\<close>

definition bind_claim :: "payout_row option \<Rightarrow> reward_row \<Rightarrow> unit dbtx" where
  "bind_claim claims e =
     (case claims of None \<Rightarrow> ret ()
      | Some c \<Rightarrow> update_payout (c\<lparr>tp_status := CLAIMED, tp_reward_event_id := Some (rw_id e)\<rparr>))"

definition settle_event :: "reward_row \<Rightarrow> payout_facts \<Rightarrow> payout_row option \<Rightarrow> payout_update dbtx" where
  "settle_event e p claims =
     thenT (raise_if (rw_status e \<notin> {PENDING, SUBMITTED, P_CONFIRMED})
              (PayoutConflict ''reference belongs to reward event in another state, not a reconcilable state''))
    (bindT (submission_for e) (\<lambda>sub.
     if rw_status e = P_CONFIRMED \<and> rw_chain_observed e \<and> s_reward_status sub = REWARDED then
       thenT (bind_claim claims e)
         (ret \<lparr>pu_reward_event_id = rw_id e, pu_submission_id = rw_submission_id e, pu_changed = False\<rparr>)
     else
       thenT (raise_if (s_reward_status sub \<notin> {ELIGIBLE, REWARDED})
                (PayoutConflict ''reward event matched finalized chain but submission is not ELIGIBLE or REWARDED''))
      (thenT (if s_reward_status sub = REWARDED then ret () else update_submission (sub\<lparr>s_reward_status := REWARDED\<rparr>))
      (thenT (update_reward (confirmed_event e p))
      (thenT (bind_claim claims e)
      (thenT (timeline (s_id sub) ''PAYOUT_CONFIRMED'' ''The payout finalized on chain.'' p (rw_extrinsic_reference e))
        (ret \<lparr>pu_reward_event_id = rw_id e, pu_submission_id = s_id sub, pu_changed = True\<rparr>)))))))"

text \<open>Finding the obligation a finalized payout settles: the common half of \<open>confirm\<close> and \<open>claim_payout\<close>.\<close>

definition settle_match :: "payout_facts \<Rightarrow> payout_row option \<Rightarrow> payout_update option dbtx" where
  "settle_match p claims =
     bindT (reads (\<lambda>s. by_reference s p)) (\<lambda>found.
     case found of
       Some e \<Rightarrow>
         thenT (raise_if (\<not> same_payout e p) (PayoutConflict ''reference is attached to a different payout''))
           (bindT (settle_event e p claims) (\<lambda>u. ret (Some u)))
     | None \<Rightarrow>
         bindT (reads (\<lambda>s. oldest_match s p)) (\<lambda>m.
           case m of None \<Rightarrow> ret None | Some e \<Rightarrow> bindT (settle_event e p claims) (\<lambda>u. ret (Some u))))"

definition confirm_payout :: "observed_payout \<Rightarrow> payout_update option dbtx" where
  "confirm_payout observed = settle_match (event_facts observed) None"

section \<open>The finalized payout ledger\<close>

definition new_payout_row :: "db \<Rightarrow> serial \<Rightarrow> observed_payout \<Rightarrow> payout_price option \<Rightarrow> payout_row" where
  "new_payout_row s new_id p price =
     \<lparr>tp_id = new_id, tp_extrinsic_reference = op_reference p, tp_block = op_block p,
      tp_block_timestamp = op_block_timestamp p, tp_extrinsic_index = op_extrinsic_index p,
      tp_event_index = op_event_index p, tp_origin_coldkey = op_origin_coldkey p,
      tp_origin_hotkey = op_origin_hotkey p, tp_destination_coldkey = op_destination_coldkey p,
      tp_destination_hotkey = op_destination_hotkey p, tp_origin_netuid = op_origin_netuid p,
      tp_destination_netuid = op_destination_netuid p, tp_amount_rao = op_amount_rao p,
      tp_tao_equivalent_rao = op_tao_equivalent_rao p, tp_alpha_usd = map_option pp_alpha_usd price,
      tp_alpha_usd_observed_at = map_option pp_observed_at price, tp_status = UNCLAIMED,
      tp_reward_event_id = None, tp_note = None, tp_observed_at = clock s, tp_updated_at = clock s\<rparr>"

definition record_payout :: "observed_payout \<Rightarrow> payout_price option \<Rightarrow> payout_row dbtx" where
  "record_payout p price =
     bindT new_payout_id (\<lambda>new_id.
     bindT (\<lambda>s. insert_payout (new_payout_row s new_id p price) s) (\<lambda>_ s.
       case find_row tp_extrinsic_reference (op_reference p) (treasury_payouts s) of
         None \<Rightarrow> Inl NoResultFound | Some row \<Rightarrow> Inr (row, s)))"

definition reserved_for_bonus :: "db \<Rightarrow> payout_row \<Rightarrow> bool" where
  "reserved_for_bonus s p \<longleftrightarrow> tp_origin_netuid p = 66 \<and>
     trajectory_bonus_transfer_reserved s (tp_origin_coldkey p) (tp_origin_hotkey p) (tp_destination_coldkey p)
       (tp_amount_rao p) (tp_block_timestamp p)"

definition claim_payout :: "serial \<Rightarrow> payout_update option dbtx" where
  "claim_payout payout_id =
     bindT (reads (\<lambda>s. find_row tp_id payout_id (treasury_payouts s))) (\<lambda>found.
     case found of
       None \<Rightarrow> raise (RecordNotFound ''no treasury payout'')
     | Some p \<Rightarrow>
         if tp_status p \<noteq> UNCLAIMED then ret None
         else bindT (reads (\<lambda>s. reserved_for_bonus s p)) (\<lambda>reserved.
           if reserved then ret None else settle_match (row_facts p) (Some p)))"

definition unclaimed_payouts :: "db \<Rightarrow> time option \<Rightarrow> nat \<Rightarrow> payout_row list" where
  "unclaimed_payouts s claimable_since lmt =
     take lmt (sort_key tp_block (sort_key tp_id (filter (\<lambda>p. tp_status p = UNCLAIMED \<and>
       (case claimable_since of None \<Rightarrow> True | Some t \<Rightarrow> tp_block_timestamp p \<ge> t)) (treasury_payouts s))))"

definition bind_payout :: "serial \<Rightarrow> serial \<Rightarrow> string \<Rightarrow> payout_update dbtx" where
  "bind_payout payout_id reward_event_id remark =
     bindT (reads (\<lambda>s. find_row tp_id payout_id (treasury_payouts s))) (\<lambda>found.
     case found of
       None \<Rightarrow> raise (RecordNotFound ''no treasury payout'')
     | Some p \<Rightarrow>
         thenT (raise_if (tp_status p \<noteq> UNCLAIMED) (PayoutConflict ''treasury payout is not UNCLAIMED''))
        (bindT (reads (\<lambda>s. reserved_for_bonus s p)) (\<lambda>reserved.
         thenT (raise_if reserved (PayoutConflict
                  ''this transfer matches a reserved historical bonus; reconcile that ledger first''))
        (bindT (reads (\<lambda>s. find_row rw_id reward_event_id (reward_events s))) (\<lambda>ev.
         case ev of
           None \<Rightarrow> raise (RecordNotFound ''no reward event'')
         | Some e \<Rightarrow>
             thenT (raise_if (rw_amount_rao e \<noteq> tp_amount_rao p)
                      (PayoutConflict ''reward event and treasury payout differ in the amount''))
            (thenT (raise_if (rw_destination_coldkey e \<noteq> tp_destination_coldkey p)
                      (PayoutConflict ''reward event and treasury payout differ in the destination''))
              (settle_event e (row_facts p) (Some (p\<lparr>tp_note := Some remark\<rparr>)))))))))"

definition disregard_payout :: "serial \<Rightarrow> string \<Rightarrow> payout_row dbtx" where
  "disregard_payout payout_id remark =
     bindT (reads (\<lambda>s. find_row tp_id payout_id (treasury_payouts s))) (\<lambda>found.
     case found of
       None \<Rightarrow> raise (RecordNotFound ''no treasury payout'')
     | Some p \<Rightarrow>
         thenT (raise_if (tp_status p \<noteq> UNCLAIMED) (PayoutConflict ''treasury payout is not UNCLAIMED''))
           (let p' = p\<lparr>tp_status := DISREGARDED, tp_note := Some remark\<rparr> in thenT (update_payout p') (ret p')))"

section \<open>Reorganisations\<close>

definition submitted_after :: "db \<Rightarrow> int \<Rightarrow> submitted_payout list" where
  "submitted_after s finalized_block =
     List.map_filter (\<lambda>e. case (rw_extrinsic_reference e, rw_submitted_block e) of
         (Some r, Some b) \<Rightarrow>
           if rw_status e = SUBMITTED \<and> rw_chain_observed e \<and> b > finalized_block
           then Some \<lparr>sp_reward_event_id = rw_id e, sp_reference = r, sp_submitted_block = b\<rparr> else None
       | _ \<Rightarrow> None) (reward_events s)"

definition pending_event :: "reward_row \<Rightarrow> reward_row" where
  "pending_event e = e\<lparr>rw_status := PENDING, rw_chain_observed := False, rw_extrinsic_reference := None,
     rw_submitted_block := None, rw_submitted_at := None, rw_finalized_block := None, rw_confirmed_at := None,
     rw_failure_reason := None\<rparr>"

definition revert_submitted :: "submitted_payout \<Rightarrow> time \<Rightarrow> bool dbtx" where
  "revert_submitted sp now =
     bindT (reads (\<lambda>s. find_row rw_id (sp_reward_event_id sp) (reward_events s))) (\<lambda>found.
     case found of
       None \<Rightarrow> ret False
     | Some e \<Rightarrow>
         if rw_status e \<noteq> SUBMITTED \<or> rw_extrinsic_reference e \<noteq> Some (sp_reference sp) then ret False
         else thenT (update_reward (pending_event e))
           (bindT new_event_id (\<lambda>new_id.
            thenT (insert_event \<lparr>e_id = new_id, e_submission_id = rw_submission_id e, e_kind = ''PAYOUT_REORGED'',
                     e_detail = Some ''The unfinalized payout event left the best chain; the payout is pending again.'',
                     e_context = Some [(''extrinsic_reference'', DStr (sp_reference sp))],
                     e_actor = ''payout-watcher'', e_occurred_at = now\<rparr>)
              (ret True))))"

section \<open>Cancelling and restoring an instruction\<close>

definition DISQUALIFICATION_CODES :: "string list" where
  "DISQUALIFICATION_CODES =
    [''ADMITTED_DEPENDENCY'', ''TRIVIALISED_STATEMENT'', ''FORBIDDEN_IMPORT'', ''UNPERMITTED_AXIOM'', ''NOT_NOVEL'',
     ''PRIOR_EXTERNAL_FORMALIZATION'', ''DUPLICATE_OF_EARLIER_SUBMISSION'', ''MISATTRIBUTED_WORK'', ''ABUSE'']"

text \<open>Python's truth of a JSON value; a missing key is \<open>None\<close>.\<close>

fun truthy :: "detail option \<Rightarrow> bool" where
  "truthy None = False"
| "truthy (Some (DStr t)) = (t \<noteq> [])"
| "truthy (Some (DInt n)) = (n \<noteq> 0)"
| "truthy (Some (DUuid u)) = (u \<noteq> None)"
| "truthy (Some (DBytes b)) = (b \<noteq> [])"
| "truthy (Some (DBool b)) = b"
| "truthy (Some (DTime t)) = True"
| "truthy (Some (DList xs)) = (xs \<noteq> [])"

definition validate_chain_evidence :: "(string \<times> detail) list \<Rightarrow> time \<Rightarrow> unit dbtx" where
  "validate_chain_evidence evidence now =
     (case map_of evidence ''checked_at'' of
        Some (DTime checked) \<Rightarrow>
          thenT (raise_if (\<not> (0 \<le> now - checked \<and> now - checked \<le> 120))
                   (RecordConflict ''chain check is stale or future-dated'' ''PAYOUT_CHAIN_CHECK_STALE'' []))
            (raise_if (map_of evidence ''network'' \<noteq> Some (DStr ''finney'') \<or>
                 \<not> truthy (map_of evidence ''multisig_address'') \<or>
                 map_of evidence ''pending_multisig_count'' \<noteq> Some (DInt 0) \<or>
                 map_of evidence ''no_matching_chain_transfer'' \<noteq> Some (DBool True) \<or>
                 \<not> truthy (map_of evidence ''finalized_block_hash''))
               (RecordConflict ''a clear multisig and chain check is required'' ''PAYOUT_CHAIN_CHECK_REQUIRED'' []))
      | _ \<Rightarrow> raise (RecordConflict ''missing dated chain check'' ''PAYOUT_CHAIN_CHECK_REQUIRED'' []))"

text \<open>\<open>uuid.UUID(text)\<close>, in the spelling of \<open>str_uuid\<close>.\<close>

definition uuid_of_text :: "string \<Rightarrow> py_error + uuid" where
  "uuid_of_text t = (if all_digits t then Inr (nat (digits_value t))
     else Inl (ValueError ''badly formed hexadecimal UUID string''))"

definition reviewer_allowed :: "db \<Rightarrow> uuid \<Rightarrow> bool" where
  "reviewer_allowed s n = (case find_row a_id n (accounts s) of None \<Rightarrow> False
     | Some a \<Rightarrow> list_ex (\<lambda>r. r \<in> {''REVIEWER'', ''ADMIN''}) (a_roles a))"

definition transfer_on_record :: "db \<Rightarrow> reward_row \<Rightarrow> bool" where
  "transfer_on_record s e \<longleftrightarrow> list_ex (\<lambda>p. tp_destination_coldkey p = rw_destination_coldkey e \<and>
     tp_amount_rao p = rw_amount_rao e \<and> tp_block_timestamp p \<ge> rw_created_at e - 300) (treasury_payouts s)"

definition latest_action :: "db \<Rightarrow> serial \<Rightarrow> action_row option" where
  "latest_action s n = newest ac_id (filter (\<lambda>a. ac_reward_event_id a = n) (instruction_actions s))"

definition record_action ::
  "reward_row \<Rightarrow> submission_row \<Rightarrow> decision_row \<Rightarrow> string \<Rightarrow> string \<Rightarrow> string \<Rightarrow> (string \<times> detail) list \<Rightarrow> action_row dbtx" where
  "record_action e sub d action reviewer reason evidence =
     bindT new_action_id (\<lambda>new_id.
     bindT (\<lambda>s. let row = \<lparr>ac_id = new_id, ac_reward_event_id = rw_id e, ac_action = action, ac_actor = reviewer,
              ac_reason = strip reason, ac_review_decision_id = r_id d, ac_chain_evidence = evidence,
              ac_created_at = clock s\<rparr> in thenT (insert_action row) (ret row) s) (\<lambda>row.
     bindT new_event_id (\<lambda>ev_id.
     thenT (\<lambda>s. insert_event \<lparr>e_id = ev_id, e_submission_id = s_id sub,
              e_kind = ''PAYOUT_INSTRUCTION_'' @ (if action = ''CANCEL'' then ''CANCELLED'' else ''RESTORED''),
              e_detail = Some (strip reason),
              e_context = Some [(''reward_event_id'', DInt (int (rw_id e))), (''instruction_action_id'', DInt (int (ac_id row))),
                 (''review_decision_id'', DInt (int (r_id d)))],
              e_actor = reviewer, e_occurred_at = clock s\<rparr> s) (ret row))))"

definition change_instruction ::
  "serial \<Rightarrow> uuid \<Rightarrow> serial \<Rightarrow> serial option \<Rightarrow> string \<Rightarrow> string \<Rightarrow> string \<Rightarrow> (string \<times> detail) list \<Rightarrow> action_row dbtx" where
  "change_instruction reward_event_id submission_id expected_review_id expected_action_id action reviewer reason evidence =
     thenT (raise_if (action \<notin> {''CANCEL'', ''RESTORE''} \<or> strip reason = [])
              (PyError (ValueError ''CANCEL/RESTORE and a nonempty reason are required'')))
    (bindT (reads clock) (\<lambda>now.
     thenT (validate_chain_evidence evidence now)
    (bindT (lift_py (uuid_of_text reviewer)) (\<lambda>reviewer_id.
     bindT (reads (\<lambda>s. reviewer_allowed s reviewer_id)) (\<lambda>allowed.
     thenT (raise_if (\<not> allowed) (RecordConflict ''reviewer role required'' ''PAYOUT_REVIEWER_REQUIRED'' []))
    (bindT (reads (\<lambda>s. (find_row rw_id reward_event_id (reward_events s), find_row s_id submission_id (submissions s),
              latest_binding_decision s submission_id))) (\<lambda>(ev, sub, decision).
     case ev of
       None \<Rightarrow> raise (RecordNotFound ''payout does not belong to this submission'')
     | Some e \<Rightarrow>
         thenT (raise_if (rw_submission_id e \<noteq> submission_id)
                  (RecordNotFound ''payout does not belong to this submission''))
        (case decision of
           None \<Rightarrow> raise (RecordConflict ''review changed'' ''REVIEW_CORRECTION_STALE'' [])
         | Some d \<Rightarrow>
             thenT (raise_if (r_id d \<noteq> expected_review_id)
                      (RecordConflict ''review changed'' ''REVIEW_CORRECTION_STALE'' []))
            (thenT (raise_if (\<not> unsigned_event e)
                      (RecordConflict ''payout has transaction or failure history'' ''PAYOUT_NOT_UNSIGNED'' []))
            (bindT (reads (\<lambda>s. transfer_on_record s e)) (\<lambda>observed.
             thenT (raise_if observed
                      (RecordConflict ''matching treasury transfer exists'' ''PAYOUT_CHAIN_TRANSFER_EXISTS'' []))
            (bindT (reads (\<lambda>s. list_ex (\<lambda>v. dl_reward_event_id v = rw_id e \<and> dl_status v = ''SENDING'') (deliveries s))) (\<lambda>sending.
             thenT (raise_if sending
                      (RecordConflict ''a notification is in flight'' ''PAYOUT_NOTIFICATION_IN_FLIGHT'' []))
            (bindT (reads (\<lambda>s. latest_action s (rw_id e))) (\<lambda>latest.
             thenT (raise_if (map_option ac_id latest \<noteq> expected_action_id)
                      (RecordConflict ''instruction changed'' ''PAYOUT_INSTRUCTION_STALE'' []))
            (thenT (raise_if (map_option ac_action latest = Some action)
                      (RecordConflict ''instruction already has this disposition'' ''PAYOUT_INSTRUCTION_UNCHANGED'' []))
            (thenT (raise_if (action = ''RESTORE'' \<and> map_option ac_action latest \<noteq> Some ''CANCEL'')
                      (RecordConflict ''only a cancellation can be restored'' ''PAYOUT_NOT_CANCELLED'' []))
            (case sub of
               None \<Rightarrow> raise (PyError (RuntimeError ''NoneType object has no attribute manual_review_status''))
             | Some x \<Rightarrow>
                 thenT (raise_if (s_manual_review_status x \<noteq> APPROVED \<or> s_reward_status x \<noteq> ELIGIBLE)
                          (RecordConflict ''instruction changes require an approved eligible review'' ''PAYOUT_NOT_ELIGIBLE'' []))
                   (record_action e x d action reviewer reason evidence)))))))))))))))))))"

definition cancel_and_withdraw ::
  "string \<Rightarrow> string \<Rightarrow> string \<Rightarrow> serial \<Rightarrow> uuid \<Rightarrow> serial \<Rightarrow> serial option \<Rightarrow> string \<Rightarrow> string \<Rightarrow>
   (string \<times> detail) list \<Rightarrow> (action_row \<times> decision_row) dbtx" where
  "cancel_and_withdraw reason_code internal public_text reward_event_id submission_id expected_review_id
      expected_action_id reviewer reason evidence =
     thenT (raise_if (\<not> list_ex (\<lambda>c. c = reason_code) DISQUALIFICATION_CODES \<or> strip internal = [] \<or> strip public_text = [])
              (PyError (ValueError ''published rejection code and internal/public rationale required'')))
    (bindT (change_instruction reward_event_id submission_id expected_review_id expected_action_id ''CANCEL'' reviewer
              reason evidence) (\<lambda>action.
     bindT (correct_human_decision submission_id expected_review_id O_REJECTED reason_code reviewer internal public_text)
       (\<lambda>decision. ret (action, decision))))"

text \<open>A payout of the bounty of \<open>sample_request\<close>, used by the examples.\<close>

definition sample_payout :: observed_payout where
  "sample_payout = \<lparr>op_block = 9, op_block_timestamp = 100, op_extrinsic_index = 1, op_event_index = 2,
     op_origin_coldkey = ''T'', op_destination_coldkey = ''C'', op_origin_hotkey = ''V'', op_destination_hotkey = ''V'',
     op_origin_netuid = 66, op_destination_netuid = 66, op_amount_rao = 1000, op_tao_equivalent_rao = Some 5\<rparr>"

section \<open>What one operation does\<close>

lemma timeline_Inr:
  assumes "timeline n kind text p prev s = Inr (u, s')"
  obtains ev where "s' = s\<lparr>next_event_id := Suc (next_event_id s), events := events s @ [ev]\<rparr>"
    and "e_submission_id ev = n" and "e_kind ev = kind"
  using assms by (auto simp: timeline_def tx_simps)

lemma bind_claim_Inr:
  "bind_claim claims e s = Inr (u, s') \<longleftrightarrow>
     (case claims of None \<Rightarrow> s' = s
      | Some c \<Rightarrow> update_payout (c\<lparr>tp_status := CLAIMED, tp_reward_event_id := Some (rw_id e)\<rparr>) s = Inr ((), s'))"
  by (auto simp: bind_claim_def split: option.splits)

lemma submission_for_Inr [simp]:
  "submission_for e s = Inr (x, s') \<longleftrightarrow> find_row s_id (rw_submission_id e) (submissions s) = Some x \<and> s' = s"
  by (auto simp: submission_for_def split: option.splits)

lemma oldest_match_Some:
  assumes "oldest_match s p = Some e"
  shows "e \<in> set (reward_events s)" and "candidate s p e"
    and "\<And>x. x \<in> set (reward_events s) \<Longrightarrow> candidate s p x \<Longrightarrow>
           rw_created_at e < rw_created_at x \<or> rw_created_at e = rw_created_at x \<and> rw_id e \<le> rw_id x"
proof -
  let ?ys = "sort_key rw_id (filter (candidate s p) (reward_events s))"
  from assms obtain es where es: "sort_key rw_created_at ?ys = e # es"
    by (auto simp: oldest_match_def split: list.splits)
  have set: "set (e # es) = {x \<in> set (reward_events s). candidate s p x}" by (subst es [symmetric]) simp
  then show "e \<in> set (reward_events s)" "candidate s p e" by auto
  fix x assume x: "x \<in> set (reward_events s)" "candidate s p x"
  have first: "rw_created_at e \<le> rw_created_at x"
  proof -
    have "sorted (map rw_created_at (e # es))" by (subst es [symmetric]) simp
    then show ?thesis using set x by auto
  qed
  moreover have "rw_id e \<le> rw_id x" if "rw_created_at e = rw_created_at x"
  proof -
    let ?zs = "filter (\<lambda>y. rw_created_at y = rw_created_at e) (e # es)"
    have "?zs = filter (\<lambda>y. rw_created_at y = rw_created_at e) ?ys"
      by (subst es [symmetric]) (rule sort_key_stable)
    then have "sorted (map rw_id ?zs)" by (metis sorted_filter sorted_sort_key)
    moreover have "x \<in> set ?zs" using set x that by auto
    ultimately show ?thesis by auto
  qed
  ultimately show "rw_created_at e < rw_created_at x \<or> rw_created_at e = rw_created_at x \<and> rw_id e \<le> rw_id x" by auto
qed

lemma oldest_match_None: "oldest_match s p = None \<longleftrightarrow> (\<forall>e \<in> set (reward_events s). \<not> candidate s p e)"
proof -
  have "sort_key rw_created_at (sort_key rw_id (filter (candidate s p) (reward_events s))) = [] \<longleftrightarrow>
      filter (candidate s p) (reward_events s) = []"
    by (metis length_0_conv length_sort)
  then show ?thesis by (auto simp: oldest_match_def filter_empty_conv split: list.splits)
qed

lemma by_reference_Some: "by_reference s p = Some e \<Longrightarrow> e \<in> set (reward_events s) \<and> rw_extrinsic_reference e = Some (pf_reference p)"
  unfolding by_reference_def by (drule find_Some_mem) simp

lemma candidate_same: "candidate s p e \<Longrightarrow> same_payout e p"
  by (auto simp: candidate_def same_payout_def hotkey_agrees_def split: if_splits)

lemma candidate_open:
  "candidate s p e \<Longrightarrow> rw_status e \<in> {PENDING, SUBMITTED, P_CONFIRMED} \<and> (rw_chain_observed e \<longrightarrow> rw_status e = PENDING)"
  by (auto simp: candidate_def)

lemma settle_event_Inr:
  assumes "settle_event e p claims s = Inr (u, s')"
  obtains (already) x where "find_row s_id (rw_submission_id e) (submissions s) = Some x"
      and "rw_status e = P_CONFIRMED" and "rw_chain_observed e" and "s_reward_status x = REWARDED"
      and "bind_claim claims e s = Inr ((), s')" and "\<not> pu_changed u"
  | (paid) x s1 s2 s3 ev where "find_row s_id (rw_submission_id e) (submissions s) = Some x"
      and "rw_status e \<in> {PENDING, SUBMITTED, P_CONFIRMED}" and "s_reward_status x \<in> {ELIGIBLE, REWARDED}"
      and "if s_reward_status x = REWARDED then s1 = s
           else update_submission (x\<lparr>s_reward_status := REWARDED\<rparr>) s = Inr ((), s1)"
      and "update_reward (confirmed_event e p) s1 = Inr ((), s2)"
      and "bind_claim claims e s2 = Inr ((), s3)"
      and "s' = s3\<lparr>next_event_id := Suc (next_event_id s3), events := events s3 @ [ev]\<rparr>"
      and "pu_changed u" and "pu_reward_event_id u = rw_id e" and "e_submission_id ev = rw_submission_id e"
proof -
  from assms obtain x where x: "find_row s_id (rw_submission_id e) (submissions s) = Some x"
    and st: "rw_status e \<in> {PENDING, SUBMITTED, P_CONFIRMED}"
    by (auto simp: settle_event_def bindT_Inr_iff thenT_Inr_iff)
  have xid: "s_id x = rw_submission_id e" using find_row_Some [OF x] by simp
  show thesis
  proof (cases "rw_status e = P_CONFIRMED \<and> rw_chain_observed e \<and> s_reward_status x = REWARDED")
    case True
    with assms x have "bind_claim claims e s = Inr ((), s')" "\<not> pu_changed u"
      by (auto simp: settle_event_def bindT_Inr_iff thenT_Inr_iff)
    with True x show thesis by (intro already) auto
  next
    case False
    with assms x obtain s1 s2 s3 w where st': "s_reward_status x \<in> {ELIGIBLE, REWARDED}"
      and 1: "(if s_reward_status x = REWARDED then ret () else update_submission (x\<lparr>s_reward_status := REWARDED\<rparr>)) s
                = Inr ((), s1)"
      and 2: "update_reward (confirmed_event e p) s1 = Inr ((), s2)"
      and 3: "bind_claim claims e s2 = Inr ((), s3)"
      and 4: "timeline (s_id x) ''PAYOUT_CONFIRMED'' ''The payout finalized on chain.'' p (rw_extrinsic_reference e) s3 = Inr (w, s')"
      and u: "pu_changed u" "pu_reward_event_id u = rw_id e"
      by (auto simp: settle_event_def bindT_Inr_iff thenT_Inr_iff split del: if_split)
    from 4 obtain ev where ev: "s' = s3\<lparr>next_event_id := Suc (next_event_id s3), events := events s3 @ [ev]\<rparr>"
      "e_submission_id ev = s_id x" by (rule timeline_Inr)
    from 1 have upd: "if s_reward_status x = REWARDED then s1 = s
           else update_submission (x\<lparr>s_reward_status := REWARDED\<rparr>) s = Inr ((), s1)" by (simp split: if_splits)
    show thesis by (rule paid [OF x st st' upd 2 3 ev(1) u]) (simp add: ev(2) xid)
  qed
qed

lemma settle_match_Inr:
  assumes "settle_match p claims s = Inr (r, s')"
  obtains (unmatched) "r = None" and "s' = s" and "by_reference s p = None" and "oldest_match s p = None"
  | (matched) e u where "r = Some u" and "settle_event e p claims s = Inr (u, s')"
      and "e \<in> set (reward_events s)" and "same_payout e p"
      and "by_reference s p = Some e \<or> by_reference s p = None \<and> oldest_match s p = Some e"
proof (cases "by_reference s p")
  case None
  show thesis
  proof (cases "oldest_match s p")
    case m: None
    with None assms show thesis by (intro unmatched) (simp_all add: settle_match_def bindT_Inr_iff)
  next
    case (Some e)
    with None assms obtain u where "r = Some u" "settle_event e p claims s = Inr (u, s')"
      by (auto simp: settle_match_def bindT_Inr_iff)
    then show thesis using None Some oldest_match_Some(1,2) [OF Some] candidate_same by (intro matched) auto
  qed
next
  case (Some e)
  with assms obtain u where "r = Some u" "settle_event e p claims s = Inr (u, s')" "same_payout e p"
    by (auto simp: settle_match_def bindT_Inr_iff thenT_Inr_iff)
  then show thesis using Some by_reference_Some [OF Some] by (intro matched) auto
qed

lemma claim_payout_Inr:
  assumes "claim_payout n s = Inr (r, s')"
  obtains (left) "r = None" and "s' = s"
  | (settled) p u e where "find_row tp_id n (treasury_payouts s) = Some p" and "tp_status p = UNCLAIMED"
      and "\<not> reserved_for_bonus s p" and "r = Some u" and "settle_event e (row_facts p) (Some p) s = Inr (u, s')"
      and "e \<in> set (reward_events s)" and "same_payout e (row_facts p)"
      and "by_reference s (row_facts p) = Some e \<or>
           by_reference s (row_facts p) = None \<and> oldest_match s (row_facts p) = Some e"
proof -
  from assms obtain p where p: "find_row tp_id n (treasury_payouts s) = Some p"
    by (auto simp: claim_payout_def bindT_Inr_iff split: option.splits)
  show thesis
  proof (cases "tp_status p \<noteq> UNCLAIMED \<or> reserved_for_bonus s p")
    case True
    with assms p show thesis by (intro left) (auto simp: claim_payout_def bindT_Inr_iff split: if_splits)
  next
    case False
    with assms p have m: "settle_match (row_facts p) (Some p) s = Inr (r, s')"
      by (auto simp: claim_payout_def bindT_Inr_iff)
    from m show thesis
    proof (cases rule: settle_match_Inr)
      case unmatched
      then show thesis by (intro left)
    next
      case (matched e u)
      then show thesis using False p by (intro settled) auto
    qed
  qed
qed

lemma bind_payout_Inr:
  assumes "bind_payout n m remark s = Inr (u, s')"
  obtains p e where "find_row tp_id n (treasury_payouts s) = Some p" and "tp_status p = UNCLAIMED"
    and "\<not> reserved_for_bonus s p" and "find_row rw_id m (reward_events s) = Some e"
    and "rw_amount_rao e = tp_amount_rao p" and "rw_destination_coldkey e = tp_destination_coldkey p"
    and "settle_event e (row_facts p) (Some (p\<lparr>tp_note := Some remark\<rparr>)) s = Inr (u, s')"
  using assms unfolding bind_payout_def
  by (auto simp: bindT_Inr_iff thenT_Inr_iff split: option.splits)

lemma disregard_payout_Inr:
  assumes "disregard_payout n remark s = Inr (p', s')"
  obtains p where "find_row tp_id n (treasury_payouts s) = Some p" and "tp_status p = UNCLAIMED"
    and "update_payout (p\<lparr>tp_status := DISREGARDED, tp_note := Some remark\<rparr>) s = Inr ((), s')"
  using assms unfolding disregard_payout_def
  by (auto simp: bindT_Inr_iff thenT_Inr_iff Let_def split: option.splits)

lemma record_payout_Inr:
  assumes "record_payout ob price s = Inr (row, s')"
  obtains (known) "op_reference ob \<in> tp_extrinsic_reference ` set (treasury_payouts s)"
      and "s' = s\<lparr>next_payout_id := Suc (next_payout_id s)\<rparr>"
  | (new) "op_reference ob \<notin> tp_extrinsic_reference ` set (treasury_payouts s)"
      and "s' = s\<lparr>next_payout_id := Suc (next_payout_id s), treasury_payouts := treasury_payouts s @ [row]\<rparr>"
      and "row = new_payout_row s (next_payout_id s) ob price"
      and "\<forall>c \<in> set (payout_keys s row). snd c"
proof -
  let ?s = "s\<lparr>next_payout_id := Suc (next_payout_id s)\<rparr>"
  let ?r = "new_payout_row s (next_payout_id s) ob price"
  have r: "new_payout_row ?s (next_payout_id s) ob price = ?r" by (simp add: new_payout_row_def)
  have ref: "tp_extrinsic_reference ?r = op_reference ob" by (simp add: new_payout_row_def)
  have keys: "payout_keys ?s ?r = payout_keys s ?r" by (simp add: payout_keys_def)
  from assms obtain b s1 where i: "insert_payout ?r ?s = Inr (b, s1)"
    and f: "(case find_row tp_extrinsic_reference (op_reference ob) (treasury_payouts s1) of
               None \<Rightarrow> Inl NoResultFound | Some row \<Rightarrow> Inr (row, s1)) = Inr (row, s')"
    by (auto simp: record_payout_def bindT_Inr_iff r)
  from f have s': "s' = s1" and row: "find_row tp_extrinsic_reference (op_reference ob) (treasury_payouts s1) = Some row"
    by (auto split: option.splits)
  show thesis
  proof (cases "op_reference ob \<in> tp_extrinsic_reference ` set (treasury_payouts s)")
    case True
    then show thesis using i s' by (intro known) (simp_all add: insert_payout_Inr ref)
  next
    case False
    then have s1: "s1 = ?s\<lparr>treasury_payouts := treasury_payouts s @ [?r]\<rparr>" and k: "\<forall>c \<in> set (payout_keys s ?r). snd c"
      using i by (simp_all add: insert_payout_Inr ref keys)
    have "find_row tp_extrinsic_reference (op_reference ob) (treasury_payouts s) = None"
      using False by (simp add: find_row_None)
    then have "row = ?r" using row by (simp add: s1 find_row_def find_append ref)
    then show thesis using False k by (intro new) (simp_all add: s' s1)
  qed
qed

lemma mark_event_Inr:
  assumes "mark_event e p s = Inr (r, s')"
  obtains x s1 s2 ev where "find_row s_id (rw_submission_id e) (submissions s) = Some x"
    and "s_reward_status x = ELIGIBLE \<and> s1 = s \<or> s_reward_status x = REWARDED \<and> \<not> rw_chain_observed e \<and>
           update_submission (x\<lparr>s_reward_status := ELIGIBLE\<rparr>) s = Inr ((), s1)"
    and "update_reward (submitted_event e p) s1 = Inr ((), s2)"
    and "s' = s2\<lparr>next_event_id := Suc (next_event_id s2), events := events s2 @ [ev]\<rparr>"
    and "e_kind ev = ''PAYOUT_SUBMITTED''"
    and "r = Some \<lparr>pu_reward_event_id = rw_id e, pu_submission_id = rw_submission_id e, pu_changed = True\<rparr>"
proof -
  from assms obtain x where x: "find_row s_id (rw_submission_id e) (submissions s) = Some x"
    by (auto simp: mark_event_def bindT_Inr_iff)
  have xid: "s_id x = rw_submission_id e" using find_row_Some [OF x] by simp
  from assms x obtain s1 s2 w where
    1: "s_reward_status x = ELIGIBLE \<and> s1 = s \<or> s_reward_status x = REWARDED \<and> \<not> rw_chain_observed e \<and>
           update_submission (x\<lparr>s_reward_status := ELIGIBLE\<rparr>) s = Inr ((), s1)"
    and 2: "update_reward (submitted_event e p) s1 = Inr ((), s2)"
    and 3: "timeline (s_id x) ''PAYOUT_SUBMITTED'' ''The payout appeared on chain and is waiting for finality.'' p
        (rw_extrinsic_reference e) s2 = Inr (w, s')"
    and r: "r = Some \<lparr>pu_reward_event_id = rw_id e, pu_submission_id = s_id x, pu_changed = True\<rparr>"
    unfolding mark_event_def Let_def by (auto simp: bindT_Inr_iff thenT_Inr_iff split: if_splits)
  from 3 obtain ev where "s' = s2\<lparr>next_event_id := Suc (next_event_id s2), events := events s2 @ [ev]\<rparr>"
    "e_kind ev = ''PAYOUT_SUBMITTED''" by (rule timeline_Inr)
  then show thesis using r xid by (intro that [OF x 1 2]) simp_all
qed

lemma mark_submitted_Inr:
  assumes "mark_submitted ob s = Inr (r, s')"
  obtains (same) "s' = s" and "\<And>u. r = Some u \<Longrightarrow> \<not> pu_changed u"
  | (marked) e where "e \<in> set (reward_events s)" and "same_payout e (event_facts ob)"
      and "\<not> (rw_chain_observed e \<and> rw_status e \<in> {SUBMITTED, P_CONFIRMED})"
      and "rw_status e \<in> {PENDING, SUBMITTED, P_CONFIRMED}"
      and "mark_event e (event_facts ob) s = Inr (r, s')"
proof (cases "by_reference s (event_facts ob)")
  case (Some e)
  note e = by_reference_Some [OF Some]
  show thesis
  proof (cases "rw_chain_observed e \<and> rw_status e \<in> {SUBMITTED, P_CONFIRMED}")
    case True
    with Some assms show thesis by (intro same) (auto simp: mark_submitted_def Let_def bindT_Inr_iff thenT_Inr_iff)
  next
    case False
    with Some assms have "same_payout e (event_facts ob)" "rw_status e \<in> {PENDING, SUBMITTED, P_CONFIRMED}"
      "mark_event e (event_facts ob) s = Inr (r, s')"
      by (auto simp: mark_submitted_def Let_def bindT_Inr_iff thenT_Inr_iff)
    with e False show thesis by (intro marked) auto
  qed
next
  case None
  show thesis
  proof (cases "oldest_match s (event_facts ob)")
    case m: None
    with None assms show thesis by (intro same) (simp_all add: mark_submitted_def Let_def bindT_Inr_iff)
  next
    case (Some e)
    note m = oldest_match_Some(1,2) [OF Some]
    from None Some assms have "mark_event e (event_facts ob) s = Inr (r, s')"
      by (simp add: mark_submitted_def Let_def bindT_Inr_iff)
    with m candidate_same [OF m(2)] candidate_open [OF m(2)] show thesis by (intro marked) auto
  qed
qed

lemma revert_submitted_Inr:
  assumes "revert_submitted sp now s = Inr (b, s')"
  obtains (same) "\<not> b" and "s' = s"
  | (undone) e s1 ev where "b" and "find_row rw_id (sp_reward_event_id sp) (reward_events s) = Some e"
      and "rw_status e = SUBMITTED" and "rw_extrinsic_reference e = Some (sp_reference sp)" and "update_reward (pending_event e) s = Inr ((), s1)"
      and "s' = s1\<lparr>next_event_id := Suc (next_event_id s1), events := events s1 @ [ev]\<rparr>"
  using assms unfolding revert_submitted_def
  by (auto simp: bindT_Inr_iff thenT_Inr_iff insert_event_Inr split: option.splits if_splits)

end
