(* ===== verification/Reviews.thy ===== *)
theory Reviews
  imports Funding Notifier Payouts "HOL-Library.Sublist"
begin

text \<open>
  The judgement side of the system as a state machine: the verification workers' leases and verdicts,
  the automatic and human decisions and their corrections, each transaction one step.  The invariants say what a reward presupposes, that the review status
  summarises the decision history, and that a conjecture is rewarded once.
\<close>

section \<open>Steps\<close>

text \<open>
  \<open>verdict\<close> is the worker's recording transaction: the row is locked under the live lease and the
  verdict written in the same transaction.
\<close>

inductive review_step :: "(bytes \<Rightarrow> bytes) \<Rightarrow> db \<Rightarrow> db \<Rightarrow> bool" for sha where
  claimed: "claim_next owner secs cap served excluded s = Inr (c, s') \<Longrightarrow> review_step sha s s'"
| extended: "extend_lease n owner secs s = Inr (b, s') \<Longrightarrow> review_step sha s s'"
| released: "release n owner s = Inr (b, s') \<Longrightarrow> review_step sha s s'"
| given_back: "release_unconsumed n owner s = Inr (b, s') \<Longrightarrow> review_step sha s s'"
| verdict: "lock_owned_for_recording s n owner = Some x \<Longrightarrow> record_verification_result sha x v s = Inr (rv, s') \<Longrightarrow>
    review_step sha s s'"
| decided: "record_human_decision n outcome reason who notes pub s = Inr (d, s') \<Longrightarrow> review_step sha s s'"
| corrected: "correct_human_decision n old outcome reason who why pub s = Inr (d, s') \<Longrightarrow> review_step sha s s'"

section \<open>Invariants\<close>

text \<open>What the decision history says of a submission.\<close>

definition review_summary :: "db \<Rightarrow> uuid \<Rightarrow> manual_review_state" where
  "review_summary s n = (case latest_binding_decision s n of None \<Rightarrow> UNREVIEWED
     | Some d \<Rightarrow> (case r_decision d of O_APPROVED \<Rightarrow> APPROVED | O_REJECTED \<Rightarrow> R_REJECTED))"

definition row_ok :: "db \<Rightarrow> submission_row \<Rightarrow> bool" where
  "row_ok s x \<longleftrightarrow>
     s_manual_review_status x = review_summary s (s_id x) \<and>
     (s_manual_review_status x \<noteq> UNREVIEWED \<longrightarrow> s_verification_status x = VERIFIED) \<and>
     (s_reward_status x \<noteq> INELIGIBLE \<longrightarrow> s_manual_review_status x = APPROVED)"

definition one_reward :: "db \<Rightarrow> bool" where
  "one_reward s \<longleftrightarrow> (\<forall>x \<in> set (submissions s). \<forall>y \<in> set (submissions s).
     s_reward_status x \<noteq> INELIGIBLE \<longrightarrow> s_reward_status y \<noteq> INELIGIBLE \<longrightarrow>
     s_reward_target_id x = s_reward_target_id y \<longrightarrow> s_id x = s_id y)"

definition review_keyed :: "db \<Rightarrow> bool" where
  "review_keyed s \<longleftrightarrow>
     distinct (map s_id (submissions s)) \<and> (\<forall>x \<in> set (submissions s). s_id x < next_uuid s) \<and>
     (\<forall>d \<in> set (decisions s). r_id d < next_decision_id s \<and> r_submission_id d \<in> s_id ` set (submissions s))"

definition review_inv :: "db \<Rightarrow> bool" where
  "review_inv s \<longleftrightarrow> review_keyed s \<and> one_reward s \<and> (\<forall>x \<in> set (submissions s). row_ok s x)"

lemma review_inv_empty: "review_inv (empty_db sha now)"
  by (simp add: review_inv_def review_keyed_def one_reward_def empty_db_def)

section \<open>Updates of one submission\<close>

lemma newest_snoc:
  assumes "\<forall>x \<in> set rows. key x < key r"
  shows "newest key (rows @ [r]) = Some r"
proof -
  let ?ys = "sort_key key (rows @ [r])"
  have set: "set ?ys = insert r (set rows)" by simp
  then have ne: "?ys \<noteq> []" by (metis insert_not_empty list.set(1))
  have "sorted (map key ?ys)" by simp
  moreover obtain i where i: "i < length ?ys" "?ys ! i = r" using set by (metis in_set_conv_nth insertI1)
  ultimately have "key r \<le> key (last ?ys)"
    using ne by (auto simp: last_conv_nth sorted_iff_nth_mono dest: spec [of _ i] spec [of _ "length ?ys - 1"])
  moreover have "last ?ys \<in> insert r (set rows)" using set last_in_set [OF ne] by simp
  ultimately have "last ?ys = r" using assms by (metis insert_iff leD)
  then show ?thesis using ne by (cases ?ys rule: rev_cases) (simp_all add: newest_def)
qed

lemma newest_Nil: "newest key rows = None \<longleftrightarrow> rows = []"
proof -
  have "rev (sort_key key rows) = [] \<longleftrightarrow> rows = []"
    by (metis length_0_conv length_sort rev_is_Nil_conv)
  then show ?thesis by (auto simp: newest_def split: list.split)
qed

text \<open>The object in the session is the stored row, but for the timestamp the trigger sets.\<close>

definition current :: "db \<Rightarrow> submission_row \<Rightarrow> bool" where
  "current s x \<longleftrightarrow> (\<exists>t. find_row s_id (s_id x) (submissions s) = Some (x\<lparr>s_updated_at := t\<rparr>))"

text \<open>Where a submission's money came from.\<close>

definition funding_key :: "submission_row \<Rightarrow> string option \<times> serial option \<times> uuid option \<times> uuid option" where
  "funding_key x = (s_payment_reference x, s_credit_ledger_id x, s_account_id x, s_intent_id x)"

text \<open>A step of the judgement side leaves the money alone.\<close>

definition money_frame :: "db \<Rightarrow> db \<Rightarrow> bool" where
  "money_frame s s' \<longleftrightarrow> ledger s' = ledger s \<and> intents s' = intents s \<and> transfers s' = transfers s \<and>
     next_ledger_id s' = next_ledger_id s \<and> next_uuid s' = next_uuid s \<and>
     next_transfer_id s' = next_transfer_id s \<and> clock s' = clock s \<and> deposits s' = deposits s \<and>
     accounts s' = accounts s \<and> wallets s' = wallets s \<and> sessions s' = sessions s \<and> challenges s' = challenges s \<and>
     orders s' = orders s \<and> invitations s' = invitations s \<and> redemptions s' = redemptions s \<and>
     map funding_key (submissions s') = map funding_key (submissions s)"

lemma money_frame_trans: "money_frame s s1 \<Longrightarrow> money_frame s1 s2 \<Longrightarrow> money_frame s s2"
  by (simp add: money_frame_def)

lemma money_frame_refl: "money_frame s s"
  by (simp add: money_frame_def)

lemma money_frame_funding_inv:
  assumes "money_frame s s'" and "funding_inv s"
  shows "funding_inv s'"
proof -
  have keys: "\<exists>y \<in> set (submissions s). funding_key y = funding_key x" if "x \<in> set (submissions s')" for x
  proof -
    have "funding_key ` set (submissions s') = funding_key ` set (submissions s)"
      using assms(1) by (metis money_frame_def set_map)
    then show ?thesis using that by (metis (no_types, lifting) imageE imageI)
  qed
  have "spent_once s'" if "spent_once s"
    unfolding spent_once_def
  proof (intro ballI allI impI)
    fix x ref assume "x \<in> set (submissions s')" "s_payment_reference x = Some ref"
    then obtain y where "y \<in> set (submissions s)" "s_payment_reference y = Some ref"
      using keys by (force simp: funding_key_def)
    with that assms(1) show "\<exists>t \<in> set (transfers s'). t_extrinsic_reference t = ref \<and> t_status t = T_IGNORED"
      by (auto simp: spent_once_def money_frame_def)
  qed
  moreover have "funded s'" if "funded s"
    unfolding funded_def
  proof (intro ballI allI impI)
    fix x m assume "x \<in> set (submissions s')" "s_credit_ledger_id x = Some m"
    then obtain y where "y \<in> set (submissions s)" "s_credit_ledger_id y = Some m"
      "s_account_id y = s_account_id x" "s_intent_id y = s_intent_id x"
      using keys by (force simp: funding_key_def)
    with that assms(1) show "\<exists>l \<in> set (ledger s'). l_id l = m \<and> l_kind l = SPEND \<and>
        Some (l_account_id l) = s_account_id x \<and> l_intent_id l = s_intent_id x \<and> l_amount_rao l < 0"
      by (fastforce simp: funded_def money_frame_def)
  qed
  ultimately show ?thesis using assms
    by (simp add: funding_inv_def money_frame_def well_keyed_def solvent_def conserved_def held_rao_def
        balance_rao_def deposited_rao_def arrived_rao_def spent_rao_def confirmed_rao_def)
qed

lemma update_submission_effect:
  assumes "update_submission x' s = Inr (u, s')" and "current s x" and "s_id x' = s_id x"
    and d: "distinct (map s_id (submissions s))"
  shows "s' = s\<lparr>submissions := replace_row s_id (x'\<lparr>s_updated_at := clock s\<rparr>) (submissions s)\<rparr>"
    and "current s' x'" and "map s_id (submissions s') = map s_id (submissions s)"
    and "funding_key x' = funding_key x \<Longrightarrow> money_frame s s'"
    and "\<forall>c \<in> set (submission_unique s (x'\<lparr>s_updated_at := clock s\<rparr>)). snd c"
proof -
  from assms(2) obtain t where t: "find_row s_id (s_id x) (submissions s) = Some (x\<lparr>s_updated_at := t\<rparr>)"
    by (auto simp: current_def)
  let ?x = "x'\<lparr>s_updated_at := clock s\<rparr>"
  note mem = find_row_Some [OF t]
  show s': "s' = s\<lparr>submissions := replace_row s_id ?x (submissions s)\<rparr>"
    and "\<forall>c \<in> set (submission_unique s ?x). snd c"
    using assms(1,3) t by (simp_all add: tx_simps Let_def)
  have "?x \<in> set (replace_row s_id ?x (submissions s))"
    using mem assms(3) by (intro replace_row_mem [of "x\<lparr>s_updated_at := t\<rparr>"]) simp_all
  then have "find_row s_id (s_id ?x) (replace_row s_id ?x (submissions s)) = Some ?x"
    using d by (intro find_row_unique) simp_all
  then show "current s' x'" by (auto simp: current_def s')
  show "map s_id (submissions s') = map s_id (submissions s)" by (simp add: s')
  show "money_frame s s'" if "funding_key x' = funding_key x"
  proof -
    have "map funding_key (replace_row s_id ?x (submissions s)) = map funding_key (submissions s)"
      using mem assms(3) that
      by (intro map_replace_row [OF d, of "x\<lparr>s_updated_at := t\<rparr>"]) (auto simp: funding_key_def)
    then show ?thesis by (simp add: money_frame_def s')
  qed
qed

lemma current_mem:
  assumes "current s x"
  obtains y where "y \<in> set (submissions s)" and "s_id y = s_id x" and "row_ok s y = row_ok s x"
    and "funding_key y = funding_key x" and "s_verification_status y = s_verification_status x"
proof -
  from assms obtain t where t: "find_row s_id (s_id x) (submissions s) = Some (x\<lparr>s_updated_at := t\<rparr>)"
    by (auto simp: current_def)
  from find_row_Some [OF t] show thesis
    by (intro that [of "x\<lparr>s_updated_at := t\<rparr>"]) (simp_all add: row_ok_def funding_key_def)
qed

lemma find_row_current: "find_row s_id n (submissions s) = Some x \<Longrightarrow> current s x"
  unfolding current_def using find_row_Some by (intro exI [of _ "s_updated_at x"]) fastforce

text \<open>
  The two ways a submission row changes: with the decision history as it stands, or together with a
  decision that was just appended.
\<close>

lemma row_ok_frame: "decisions s' = decisions s \<Longrightarrow> row_ok s' x = row_ok s x"
  by (simp add: row_ok_def review_summary_def latest_binding_decision_def)

lemma update_rows:
  assumes k: "review_keyed s" and o: "one_reward s"
    and others: "\<forall>y \<in> set (submissions s). s_id y \<noteq> s_id x \<longrightarrow> row_ok s y"
    and c: "current s x" and id: "s_id x' = s_id x" and ok: "row_ok s x'"
    and u: "update_submission x' s = Inr (u, s')"
  shows "review_inv s'"
proof -
  let ?x = "x'\<lparr>s_updated_at := clock s\<rparr>"
  have d: "distinct (map s_id (submissions s))" using k by (simp add: review_keyed_def)
  note e = update_submission_effect [OF u c id d]
  have subs: "submissions s' = replace_row s_id ?x (submissions s)" "decisions s' = decisions s"
    "next_decision_id s' = next_decision_id s" "next_uuid s' = next_uuid s" by (simp_all add: e(1))
  have ids: "s_id ` set (submissions s') = s_id ` set (submissions s)" using e(3) by (metis set_map)
  have old: "y \<in> set (submissions s) \<and> s_id y \<noteq> s_id x" if "y \<in> set (submissions s')" "y \<noteq> ?x" for y
    using that id by (auto simp: subs replace_row_def split: if_splits)
  have "review_keyed s'" using k ids replace_row_keys [of s_id ?x "submissions s" "\<lambda>n. n < next_uuid s"]
    by (simp add: review_keyed_def subs)
  moreover have "\<forall>y \<in> set (submissions s'). row_ok s' y"
  proof
    fix y assume y: "y \<in> set (submissions s')"
    show "row_ok s' y"
    proof (cases "y = ?x")
      case True
      have "row_ok s ?x" using ok by (auto simp: row_ok_def)
      then show ?thesis using True row_ok_frame [OF subs(2)] by simp
    next
      case False
      then show ?thesis using old [OF y] others row_ok_frame [OF subs(2)] by simp
    qed
  qed
  moreover have "one_reward s'"
  proof -
    have uniq: "unique_on s_id (\<lambda>x. if s_reward_status x \<noteq> INELIGIBLE then Some (s_reward_target_id x) else None) ?x
        (submissions s)" using e(5) by (simp add: submission_unique_def)
    have new: "s_reward_target_id y \<noteq> s_reward_target_id ?x"
      if "y \<in> set (submissions s)" "s_id y \<noteq> s_id x" "s_reward_status y \<noteq> INELIGIBLE" "s_reward_status ?x \<noteq> INELIGIBLE" for y
      using unique_onD [OF uniq _ that(1)] that id by auto
    have "s_id y = s_id z" if "y \<in> set (submissions s')" "z \<in> set (submissions s')" "s_reward_status y \<noteq> INELIGIBLE"
      "s_reward_status z \<noteq> INELIGIBLE" "s_reward_target_id y = s_reward_target_id z" for y z
      using old [OF that(1)] old [OF that(2)] that new o by (metis one_reward_def)
    then show ?thesis unfolding one_reward_def by blast
  qed
  ultimately show ?thesis by (simp add: review_inv_def)
qed

lemma update_inv:
  assumes "review_inv s" and "current s x" and "s_id x' = s_id x" and "row_ok s x'"
    and "update_submission x' s = Inr (u, s')"
  shows "review_inv s'"
  using assms by (intro update_rows [of s x x' u s']) (simp_all add: review_inv_def)

lemma add_decision_Inr:
  assumes "add_decision x outcome kind who reason notes pub old s = Inr (d, s')"
  shows "s' = s\<lparr>next_decision_id := Suc (next_decision_id s), decisions := decisions s @ [d]\<rparr>"
    and "r_id d = next_decision_id s" and "r_submission_id d = s_id x" and "r_decision d = outcome"
    and "r_kind d = kind" and "r_supersedes_id d = old" and "r_reason_code d = reason"
  using assms by (auto simp: add_decision_def tx_simps Let_def)

lemma latest_after_decision:
  assumes k: "review_keyed s" and a: "add_decision x outcome kind who reason notes pub old s = Inr (d, s')"
  shows "latest_binding_decision s' n =
    (if n = s_id x \<and> kind \<noteq> ADVISORY then Some d else latest_binding_decision s n)"
proof -
  note e = add_decision_Inr [OF a]
  have lt: "\<forall>y \<in> set (decisions s). r_id y < r_id d" using k by (simp add: review_keyed_def e(2))
  show ?thesis
  proof (cases "n = s_id x \<and> kind \<noteq> ADVISORY")
    case True
    then show ?thesis using newest_snoc [of "filter (\<lambda>r. r_submission_id r = n \<and> r_kind r \<noteq> ADVISORY) (decisions s)" r_id d] lt e
      by (simp add: latest_binding_decision_def e(1))
  next
    case False
    then show ?thesis using e by (auto simp: latest_binding_decision_def e(1))
  qed
qed

lemma row_ok_after_decision:
  assumes k: "review_keyed s" and a: "add_decision x outcome kind who reason notes pub old s = Inr (d, s')"
  shows "s_id y \<noteq> s_id x \<or> kind = ADVISORY \<Longrightarrow> row_ok s' y = row_ok s y"
    and "kind \<noteq> ADVISORY \<Longrightarrow> review_summary s' (s_id x)
           = (case outcome of O_APPROVED \<Rightarrow> APPROVED | O_REJECTED \<Rightarrow> R_REJECTED)"
proof -
  show "row_ok s' y = row_ok s y" if "s_id y \<noteq> s_id x \<or> kind = ADVISORY"
  proof -
    have "review_summary s' (s_id y) = review_summary s (s_id y)"
      unfolding review_summary_def latest_after_decision [OF k a] using that by auto
    then show ?thesis by (simp add: row_ok_def)
  qed
  show "review_summary s' (s_id x) = (case outcome of O_APPROVED \<Rightarrow> APPROVED | O_REJECTED \<Rightarrow> R_REJECTED)"
    if "kind \<noteq> ADVISORY"
    unfolding review_summary_def latest_after_decision [OF k a] using that add_decision_Inr(4) [OF a] by simp
qed

lemma add_decision_keyed:
  assumes k: "review_keyed s" and a: "add_decision x outcome kind who reason notes pub old s = Inr (d, s')"
    and m: "s_id x \<in> s_id ` set (submissions s)"
  shows "review_keyed s'" and "money_frame s s'" and "current s' y = current s y" and "submissions s' = submissions s"
proof -
  note e = add_decision_Inr [OF a]
  show "review_keyed s'" using k m e by (auto simp: review_keyed_def e(1))
  show "money_frame s s'" "current s' y = current s y" "submissions s' = submissions s"
    by (simp_all add: e(1) money_frame_def current_def)
qed

text \<open>A binding decision with the row that records its outcome.\<close>

lemma decide_inv:
  assumes inv: "review_inv s" and c: "current s x"
    and a: "add_decision x outcome kind who reason notes pub old s = Inr (d, s1)" and bind: "kind \<noteq> ADVISORY"
    and id: "s_id x' = s_id x" and v: "s_verification_status x' = VERIFIED"
    and m: "s_manual_review_status x' = (case outcome of O_APPROVED \<Rightarrow> APPROVED | O_REJECTED \<Rightarrow> R_REJECTED)"
    and rw: "s_reward_status x' \<noteq> INELIGIBLE \<longrightarrow> outcome = O_APPROVED"
    and u: "update_submission x' s1 = Inr (u, s')"
  shows "review_inv s'"
proof -
  have k: "review_keyed s" and o: "one_reward s" using inv by (simp_all add: review_inv_def)
  obtain y where y: "y \<in> set (submissions s)" "s_id y = s_id x" using c by (rule current_mem) blast
  then have m': "s_id x \<in> s_id ` set (submissions s)" by (metis imageI)
  note ad = add_decision_keyed [OF k a m']
  show ?thesis
  proof (rule update_rows [OF ad(1) _ _ _ id _ u])
    show "one_reward s1" using o unfolding one_reward_def ad(4) .
    show "\<forall>y \<in> set (submissions s1). s_id y \<noteq> s_id x \<longrightarrow> row_ok s1 y"
      using inv row_ok_after_decision(1) [OF k a] by (simp add: review_inv_def ad(4))
    show "current s1 x" using c ad(3) by simp
    show "row_ok s1 x'" using m rw v row_ok_after_decision(2) [OF k a bind]
      by (auto simp: row_ok_def id)
  qed
qed

lemma advisory_inv:
  assumes inv: "review_inv s" and c: "current s x"
    and a: "add_decision x outcome ADVISORY who reason notes pub old s = Inr (d, s')"
  shows "review_inv s'"
proof -
  have k: "review_keyed s" and o: "one_reward s" using inv by (simp_all add: review_inv_def)
  obtain y where y: "y \<in> set (submissions s)" "s_id y = s_id x" using c by (rule current_mem) blast
  then have m': "s_id x \<in> s_id ` set (submissions s)" by (metis imageI)
  note ad = add_decision_keyed [OF k a m']
  have "one_reward s'" using o unfolding one_reward_def ad(4) .
  then show ?thesis using inv ad(1) row_ok_after_decision(1) [OF k a] by (simp add: review_inv_def ad(4))
qed

section \<open>Every step preserves them\<close>

text \<open>The automatic decision; the submission object comes back as the stored row.\<close>

lemma approve_automatically_effect:
  assumes inv: "review_inv s" and c: "current s x" and v: "s_verification_status x = VERIFIED"
    and rw: "s_reward_status x = INELIGIBLE" and a: "approve_automatically x s = Inr ((d, x'), s')"
  shows "review_inv s' \<and> money_frame s s' \<and> current s' x' \<and> s_id x' = s_id x \<and> funding_key x' = funding_key x"
proof -
  have k: "review_keyed s" using inv by (simp add: review_inv_def)
  have dist: "distinct (map s_id (submissions s))" using k by (simp add: review_keyed_def)
  obtain y where y: "y \<in> set (submissions s)" "s_id y = s_id x" using c by (rule current_mem) blast
  then have m: "s_id x \<in> s_id ` set (submissions s)" by (metis imageI)
  have decide: "review_inv s' \<and> money_frame s s' \<and> current s' x2"
    if ad: "add_decision x outcome AUTOMATIC ''system'' reason nts None None s = Inr (d2, s1)"
      and u: "update_submission x2 s1 = Inr ((), s')"
      and x2: "x2 = x\<lparr>s_manual_review_status := (case outcome of O_APPROVED \<Rightarrow> APPROVED | O_REJECTED \<Rightarrow> R_REJECTED),
                s_reward_status := rw2\<rparr>" "rw2 \<noteq> INELIGIBLE \<longrightarrow> outcome = O_APPROVED"
    for outcome reason nts d2 s1 x2 rw2
  proof -
    note k1 = add_decision_keyed [OF k ad m]
    have c1: "current s1 x" using c k1(3) by simp
    have d1: "distinct (map s_id (submissions s1))" using dist k1(4) by simp
    have id: "s_id x2 = s_id x" by (simp add: x2)
    note e = update_submission_effect [OF u c1 id d1]
    have "review_inv s'" using v x2 by (intro decide_inv [OF inv c ad _ id _ _ _ u]) simp_all
    moreover have "money_frame s s'" using e(4) k1(2) by (auto simp: x2 funding_key_def intro: money_frame_trans)
    ultimately show ?thesis using e(2) by simp
  qed
  consider (both) n where "add_decision x O_REJECTED ADVISORY ''system'' ''PROBLEM_VERIFIED_IN_BOTH_MODES'' n None None s
        = Inr (d, s')" "x' = x"
    | (held) n s1 where "add_decision x O_REJECTED AUTOMATIC ''system'' ''PROBLEM_ALREADY_AWARDED'' n None None s = Inr (d, s1)"
        "x' = x\<lparr>s_manual_review_status := R_REJECTED\<rparr>" "update_submission x' s1 = Inr ((), s')"
    | (free) s1 where "add_decision x O_APPROVED AUTOMATIC ''system'' ''AUTO_REVIEW_DISABLED'' None None None s = Inr (d, s1)"
        "x' = x\<lparr>s_manual_review_status := APPROVED, s_reward_status := ELIGIBLE\<rparr>" "update_submission x' s1 = Inr ((), s')"
    using a by (auto simp: approve_automatically_def bindT_Inr_iff thenT_Inr_iff Let_def split: if_splits option.splits)
  then show ?thesis
  proof cases
    case (both n)
    then show ?thesis using advisory_inv [OF inv c both(1)] add_decision_keyed [OF k both(1) m] c by simp
  next
    case (held n s1)
    have "review_inv s' \<and> money_frame s s' \<and> current s' x'"
      using rw by (intro decide [OF held(1) held(3), of INELIGIBLE]) (simp_all add: held(2))
    then show ?thesis by (simp add: held(2) funding_key_def)
  next
    case (free s1)
    have "review_inv s' \<and> money_frame s s' \<and> current s' x'"
      by (intro decide [OF free(1) free(3), of ELIGIBLE]) (simp_all add: free(2))
    then show ?thesis by (simp add: free(2) funding_key_def)
  qed
qed

text \<open>A row written with its judgement columns as they were.\<close>

lemma lease_update:
  assumes inv: "review_inv s" and c: "current s x" and u: "update_submission x' s = Inr (u, s')"
    and same: "s_id x' = s_id x" "funding_key x' = funding_key x" "row_ok s x' = row_ok s x"
  shows "review_inv s' \<and> money_frame s s' \<and> current s' x'"
proof -
  have d: "distinct (map s_id (submissions s))" using inv by (simp add: review_inv_def review_keyed_def)
  note e = update_submission_effect [OF u c same(1) d]
  obtain y where "y \<in> set (submissions s)" "row_ok s y = row_ok s x" using c by (rule current_mem) blast
  then have "row_ok s x'" using inv same(3) by (auto simp: review_inv_def)
  then show ?thesis using update_inv [OF inv c same(1) _ u] e(2) e(4) [OF same(2)] by simp
qed

lemma record_verification_result_Inr:
  assumes "record_verification_result sha x v s = Inr (rv, s')"
  obtains run s1 x1 s2 where
    "s1 = s\<lparr>next_run_id := Suc (next_run_id s), runs := runs s @ [run]\<rparr>" and "rv_run rv = run"
    and "v_submission_id run = s_id x" and "v_accepted run = vd_accepted v"
    and "rv_applied rv \<longleftrightarrow> s_verification_status x = UNVERIFIED"
    and "apply_verdict x v s1 = Inr (x1, s2)"
    and "update_submission (x1\<lparr>s_verification_lease_until := None, s_verification_lease_owner := None\<rparr>) s2
           = Inr ((), s')"
  using assms unfolding record_verification_result_def
  by (auto simp: bindT_Inr_iff thenT_Inr_iff Let_def insert_run_Inr)

lemma review_inv_frame:
  assumes "submissions s' = submissions s" and "decisions s' = decisions s" and "next_uuid s' = next_uuid s"
    and "next_decision_id s' = next_decision_id s"
  shows "review_inv s' = review_inv s"
  unfolding review_inv_def review_keyed_def one_reward_def row_ok_def review_summary_def
    latest_binding_decision_def assms ..

lemma row_ok_unreviewed:
  assumes "row_ok s x" and "s_verification_status x \<noteq> VERIFIED"
  shows "s_manual_review_status x = UNREVIEWED" and "s_reward_status x = INELIGIBLE"
    and "row_ok s (x\<lparr>s_verification_status := v, s_failure_reason := f\<rparr>)"
    and "row_ok s (x\<lparr>s_verification_status := v\<rparr>)"
  using assms by (auto simp: row_ok_def)

lemma current_ok: "review_inv s \<Longrightarrow> current s x \<Longrightarrow> row_ok s x"
  by (erule current_mem) (auto simp: review_inv_def)

lemma apply_verdict_effect:
  assumes inv: "review_inv s" and c: "current s x" and r: "apply_verdict x v s = Inr (x1, s')"
  shows "review_inv s' \<and> money_frame s s' \<and> current s' x1"
proof (cases "s_verification_status x = UNVERIFIED")
  case False
  then show ?thesis using r inv c by (simp add: apply_verdict_def money_frame_refl)
next
  case True
  let ?ruled = "if vd_accepted v then x\<lparr>s_verification_status := VERIFIED\<rparr>
              else x\<lparr>s_verification_status := V_REJECTED, s_failure_reason := Some (vd_reason_code v)\<rparr>"
  from r True obtain s3 where u: "update_submission ?ruled s = Inr ((), s3)"
    and rest: "(if vd_accepted v \<and> \<not> s_manual_review_required ?ruled
              then bindT (approve_automatically ?ruled) (\<lambda>r. ret (snd r)) else ret ?ruled) s3 = Inr (x1, s')"
    by (auto simp: apply_verdict_def thenT_Inr_iff Let_def)
  have un: "s_verification_status x \<noteq> VERIFIED" using True by simp
  note ok = current_ok [OF inv c]
  have i3: "review_inv s3 \<and> money_frame s s3 \<and> current s3 ?ruled"
    using row_ok_unreviewed(3,4) [OF ok un] ok
    by (intro lease_update [OF inv c u]) (auto simp: funding_key_def)
  show ?thesis
  proof (cases "vd_accepted v \<and> \<not> s_manual_review_required ?ruled")
    case True
    with rest obtain d where a: "approve_automatically ?ruled s3 = Inr ((d, x1), s')"
      by (auto simp: bindT_Inr_iff)
    have "s_verification_status ?ruled = VERIFIED" "s_reward_status ?ruled = INELIGIBLE"
      using True row_ok_unreviewed(2) [OF ok un] by simp_all
    from approve_automatically_effect [OF _ _ this a] i3 show ?thesis by (blast intro: money_frame_trans)
  next
    case False
    then have "x1 = ?ruled" "s' = s3" using rest by (simp_all only: if_False ret_simps)
    with i3 show ?thesis by simp
  qed
qed

lemma verdict_effect:
  assumes inv: "review_inv s" and c: "current s x" and r: "record_verification_result sha x v s = Inr (rv, s')"
  shows "review_inv s' \<and> money_frame s s'"
  using r
proof (cases rule: record_verification_result_Inr)
  case (1 run s1 x1 s2)
  have inv1: "review_inv s1" using inv by (subst review_inv_frame [of s1 s]) (simp_all add: 1(1))
  have fr: "money_frame s s1" "current s1 x" using c by (simp_all add: 1(1) money_frame_def current_def)
  have i2: "review_inv s2" "money_frame s1 s2" "current s2 x1" using apply_verdict_effect [OF inv1 fr(2) 1(6)] by auto
  have "review_inv s' \<and> money_frame s2 s' \<and>
      current s' (x1\<lparr>s_verification_lease_until := None, s_verification_lease_owner := None\<rparr>)"
    by (intro lease_update [OF i2(1,3) 1(7)]) (simp_all add: funding_key_def row_ok_def)
  then show ?thesis using fr(1) i2(2) by (blast intro: money_frame_trans)
qed

text \<open>A decision appended and its outcome written on the row.\<close>

lemma decision_effect:
  assumes inv: "review_inv s" and c: "current s x"
    and a: "add_decision x outcome kind who reason nts pub old s = Inr (d, s1)" and bind: "kind \<noteq> ADVISORY"
    and id: "s_id x' = s_id x" "funding_key x' = funding_key x" and v: "s_verification_status x' = VERIFIED"
    and m: "s_manual_review_status x' = (case outcome of O_APPROVED \<Rightarrow> APPROVED | O_REJECTED \<Rightarrow> R_REJECTED)"
    and rw: "s_reward_status x' \<noteq> INELIGIBLE \<longrightarrow> outcome = O_APPROVED"
    and u: "update_submission x' s1 = Inr (u, s')"
  shows "review_inv s' \<and> money_frame s s' \<and> current s' x'"
proof -
  have k: "review_keyed s" using inv by (simp add: review_inv_def)
  obtain y where y: "y \<in> set (submissions s)" "s_id y = s_id x" using c by (rule current_mem) blast
  then have mem: "s_id x \<in> s_id ` set (submissions s)" by (metis imageI)
  note k1 = add_decision_keyed [OF k a mem]
  have c1: "current s1 x" and d1: "distinct (map s_id (submissions s1))"
    using c k k1 by (simp_all add: review_keyed_def)
  note e = update_submission_effect [OF u c1 id(1) d1]
  show ?thesis using decide_inv [OF inv c a bind id(1) v m rw u] e(2,4) id(2) k1(2)
    by (blast intro: money_frame_trans)
qed

lemma record_human_decision_Inr:
  assumes "record_human_decision n outcome reason who nts pub s = Inr (d, s')"
  obtains x s1 where "find_row s_id n (submissions s) = Some x" and "s_verification_status x = VERIFIED"
    and "s_manual_review_status x = UNREVIEWED" and "s_reward_status x = INELIGIBLE"
    and "outcome = O_APPROVED \<Longrightarrow> reward_target_holder s x = None"
    and "add_decision x outcome HUMAN who reason nts pub None s = Inr (d, s1)"
    and "update_submission (if outcome = O_APPROVED
            then x\<lparr>s_manual_review_status := APPROVED, s_reward_status := ELIGIBLE\<rparr>
            else x\<lparr>s_manual_review_status := R_REJECTED\<rparr>) s1 = Inr ((), s')"
  using assms unfolding record_human_decision_def
  by (auto simp: bindT_Inr_iff thenT_Inr_iff split: option.splits if_splits)

lemma correct_human_decision_Inr:
  assumes "correct_human_decision n old outcome reason who why pub s = Inr (d, s')"
  obtains x cur s1 where "find_row s_id n (submissions s) = Some x" and "s_verification_status x = VERIFIED"
    and "latest_binding_decision s n = Some cur" and "r_id cur = old"
    and "\<not> (r_decision cur = O_APPROVED \<and> outcome \<noteq> O_APPROVED \<and>
           (s_reward_status x \<in> {REWARDED, RW_FAILED} \<or> reward_event_exists s n))"
    and "r_decision cur \<noteq> O_APPROVED \<and> outcome = O_APPROVED \<longrightarrow> reward_target_holder s x = None"
    and "add_decision x outcome HUMAN who reason (Some why) (Some pub) (Some old) s = Inr (d, s1)"
    and "update_submission (if outcome = O_APPROVED
            then x\<lparr>s_manual_review_status := APPROVED, s_reward_status := ELIGIBLE\<rparr>
            else x\<lparr>s_manual_review_status := R_REJECTED, s_reward_status := INELIGIBLE\<rparr>) s1 = Inr ((), s')"
proof -
  from assms obtain x where x: "find_row s_id n (submissions s) = Some x" "s_verification_status x = VERIFIED"
    unfolding correct_human_decision_def
    by (cases "find_row s_id n (submissions s)") (auto simp: bindT_Inr_iff thenT_Inr_iff)
  from assms x obtain cur where cur: "latest_binding_decision s n = Some cur" "r_id cur = old"
    unfolding correct_human_decision_def
    by (cases "latest_binding_decision s n") (auto simp: bindT_Inr_iff thenT_Inr_iff Let_def)
  from assms x cur have "\<exists>s1. \<not> (r_decision cur = O_APPROVED \<and> outcome \<noteq> O_APPROVED \<and>
           (s_reward_status x \<in> {REWARDED, RW_FAILED} \<or> reward_event_exists s n)) \<and>
      (r_decision cur \<noteq> O_APPROVED \<and> outcome = O_APPROVED \<longrightarrow> reward_target_holder s x = None) \<and>
      add_decision x outcome HUMAN who reason (Some why) (Some pub) (Some old) s = Inr (d, s1) \<and>
      update_submission (if outcome = O_APPROVED
            then x\<lparr>s_manual_review_status := APPROVED, s_reward_status := ELIGIBLE\<rparr>
            else x\<lparr>s_manual_review_status := R_REJECTED, s_reward_status := INELIGIBLE\<rparr>) s1 = Inr ((), s')"
    unfolding correct_human_decision_def
    by (auto simp: bindT_Inr_iff thenT_Inr_iff Let_def split: option.splits if_splits)
  with x cur show thesis by (auto intro: that)
qed

lemma guarded_update_effect:
  assumes inv: "review_inv s" and g: "guarded_update n guard f s = Inr (b, s')"
    and f: "\<And>x. s_id (f s x) = s_id x \<and> funding_key (f s x) = funding_key x \<and> row_ok s (f s x) = row_ok s x"
  shows "review_inv s' \<and> money_frame s s'"
proof (cases "find_row s_id n (submissions s)")
  case None
  then show ?thesis using g inv by (simp add: guarded_update_def money_frame_refl)
next
  case (Some x)
  show ?thesis
  proof (cases "guard x")
    case True
    with Some g have "update_submission (f s x) s = Inr ((), s')" by (simp add: guarded_update_def thenT_Inr_iff)
    then show ?thesis using lease_update [OF inv find_row_current [OF Some]] f by blast
  next
    case False
    with Some g inv show ?thesis by (simp add: guarded_update_def money_frame_refl)
  qed
qed

lemma review_step_effect:
  assumes "review_step sha s s'" and inv: "review_inv s"
  shows "review_inv s' \<and> money_frame s s'"
  using assms
proof (induction rule: review_step.induct)
  case (claimed owner secs cap served excluded s c s')
  from claimed(1) show ?case
  proof (cases rule: claim_next_Inr)
    case (one ps x')
    from one(2) show ?thesis
    proof (cases rule: CLAIM_Inr)
      case (one x x'')
      have d: "distinct (map s_id (submissions s))" using claimed(2) by (simp add: review_inv_def review_keyed_def)
      have "current s x" using find_row_unique [OF d one(1)] by (rule find_row_current)
      then show ?thesis using lease_update [OF claimed(2) _ one(6)] by (simp add: one(4) funding_key_def row_ok_def)
    qed simp
  qed (use claimed(2) in \<open>simp add: money_frame_refl\<close>)
next
  case (extended n owner secs s b s')
  then show ?case by (auto simp: extend_lease_def thenT_Inr_iff funding_key_def row_ok_def elim!: guarded_update_effect [rotated])
next
  case (released n owner s b s')
  then show ?case by (auto simp: release_def funding_key_def row_ok_def elim!: guarded_update_effect [rotated])
next
  case (given_back n owner s b s')
  then show ?case by (auto simp: release_unconsumed_def funding_key_def row_ok_def elim!: guarded_update_effect [rotated])
next
  case (verdict s n owner x v rv s')
  then have "current s x"
    by (auto simp: lock_owned_for_recording_def intro: find_row_current split: option.splits if_splits)
  then show ?case using verdict_effect [OF verdict(3) _ verdict(2)] by blast
next
  case (decided n outcome reason who nts pub s d s')
  from decided(1) show ?case
  proof (cases rule: record_human_decision_Inr)
    case (1 x s1)
    show ?thesis using decision_effect [OF decided(2) find_row_current [OF 1(1)] 1(6) _ _ _ _ _ _ 1(7)] 1(2,4)
      by (cases outcome) (simp_all add: funding_key_def)
  qed
next
  case (corrected n old outcome reason who why pub s d s')
  from corrected(1) show ?case
  proof (cases rule: correct_human_decision_Inr)
    case (1 x cur s1)
    show ?thesis using decision_effect [OF corrected(2) find_row_current [OF 1(1)] 1(7) _ _ _ _ _ _ 1(8)] 1(2)
      by (cases outcome) (simp_all add: funding_key_def)
  qed
qed

section \<open>The money side keeps them too\<close>

text \<open>
  What a step of the money side may do to the submissions: nothing, or add one that is new.  The
  tables of the paying side stay as they are.
\<close>

definition fresh_submission :: "db \<Rightarrow> submission_row \<Rightarrow> bool" where
  "fresh_submission s x \<longleftrightarrow> s_id x = next_uuid s \<and> s_verification_status x = UNVERIFIED \<and>
     s_manual_review_status x = UNREVIEWED \<and> s_reward_status x = INELIGIBLE \<and>
     (\<forall>c \<in> set (submission_unique s x). snd c)"

definition pay_same :: "db \<Rightarrow> db \<Rightarrow> bool" where
  "pay_same s s' \<longleftrightarrow> reward_events s' = reward_events s \<and> treasury_payouts s' = treasury_payouts s \<and>
     bonuses s' = bonuses s \<and> next_reward_id s' = next_reward_id s \<and> next_payout_id s' = next_payout_id s"

definition intake_only :: "db \<Rightarrow> db \<Rightarrow> bool" where
  "intake_only s s' \<longleftrightarrow> pay_same s s' \<and> decisions s' = decisions s \<and> next_decision_id s' = next_decision_id s \<and>
     next_uuid s \<le> next_uuid s' \<and>
     (submissions s' = submissions s \<or>
      (\<exists>x. submissions s' = submissions s @ [x] \<and> fresh_submission s x \<and> next_uuid s < next_uuid s'))"

lemma intake_only_inv:
  assumes i: "intake_only s s'" and inv: "review_inv s"
  shows "review_inv s'"
proof -
  from i have d: "decisions s' = decisions s" "next_decision_id s' = next_decision_id s" "next_uuid s \<le> next_uuid s'"
    by (simp_all add: intake_only_def pay_same_def)
  from inv have k: "review_keyed s" and o: "one_reward s" and r: "\<forall>x \<in> set (submissions s). row_ok s x"
    by (simp_all add: review_inv_def)
  note fr = row_ok_frame [OF d(1)]
  from i consider "submissions s' = submissions s"
    | x where "submissions s' = submissions s @ [x]" "fresh_submission s x" "next_uuid s < next_uuid s'"
    by (auto simp: intake_only_def pay_same_def)
  then show ?thesis
  proof cases
    case 1
    have "one_reward s'" using o unfolding one_reward_def 1 .
    then show ?thesis using k r d fr 1 by (auto simp: review_inv_def review_keyed_def)
  next
    case (2 x)
    have "r_submission_id d < s_id x" if "d \<in> set (decisions s)" for d
      using k 2(2) that by (auto simp: review_keyed_def fresh_submission_def)
    then have "latest_binding_decision s (s_id x) = None"
      by (fastforce simp: latest_binding_decision_def newest_Nil filter_empty_conv)
    then have "row_ok s x" using 2(2) by (simp add: row_ok_def review_summary_def fresh_submission_def)
    moreover have "one_reward s'" unfolding one_reward_def
    proof (intro ballI impI)
      fix y z assume "y \<in> set (submissions s')" "z \<in> set (submissions s')" "s_reward_status y \<noteq> INELIGIBLE"
        "s_reward_status z \<noteq> INELIGIBLE" "s_reward_target_id y = s_reward_target_id z"
      moreover from this have "y \<in> set (submissions s)" "z \<in> set (submissions s)"
        using 2 by (auto simp: fresh_submission_def)
      ultimately show "s_id y = s_id z" using o unfolding one_reward_def by blast
    qed
    ultimately show ?thesis using k r d fr 2
      by (auto simp: review_inv_def review_keyed_def fresh_submission_def)
  qed
qed

lemma intake_frames:
  "intake_only s (s\<lparr>clock := x1\<rparr>)" "intake_only s (s\<lparr>accounts := x2\<rparr>)" "intake_only s (s\<lparr>wallets := x3\<rparr>)"
  "intake_only s (s\<lparr>next_uuid := Suc (next_uuid s), accounts := x4\<rparr>)" "intake_only s (s\<lparr>intents := x5\<rparr>)"
  "intake_only s (s\<lparr>next_uuid := Suc (next_uuid s), deposits := x6\<rparr>)"
  "intake_only s (s\<lparr>next_ledger_id := x7, ledger := x8\<rparr>)"
  by (simp_all add: intake_only_def pay_same_def)

lemma settle_intake: "settle ws n arr r s = Inr (ad, s') \<Longrightarrow> intake_only s s'"
proof (erule settle_Inr)
  fix t acct e t'
  assume "credit t acct (ws_credit_price_rao ws) (clock s + ws_adopted_deposit_window ws) LEDGER_ACTOR
         (ws_bonus_schedule ws) s = Inr ((e, t'), s')"
  then show "intake_only s s'"
  proof (cases rule: credit_Inr)
    case (1 es)
    have "submissions s' = submissions s" "decisions s' = decisions s" "next_decision_id s' = next_decision_id s"
      by (subst 1(13), simp)+
    moreover have "pay_same s s'" by (subst 1(13)) (simp add: pay_same_def)
    ultimately show ?thesis using 1(14) by (simp add: intake_only_def)
  qed
qed (simp_all add: intake_only_def pay_same_def)

lemma recorded_intake: "record_transfer arr s = Inr (rt, s') \<Longrightarrow> intake_only s s'"
  by (erule record_transfer_Inr) (simp_all add: intake_only_def pay_same_def)

lemma confirmed_intake:
  assumes "confirm n a k now s = Inr (c, s')"
  shows "intake_only s s'"
  using assms
proof (cases rule: confirm_Inr)
  case (1 i content digest)
  from 1(8) obtain sp where sub: "ci_submission c = confirmed_submission s (next_uuid s) i a (next_ledger_id s)
           (case i_proof_sha256 i of None \<Rightarrow> [] | Some d \<Rightarrow> d) digest k"
    and s': "s' = s\<lparr>next_uuid := Suc (next_uuid s), next_ledger_id := Suc (next_ledger_id s),
           next_event_id := next_event_id s', proofs := proofs s', ledger := ledger s @ [sp],
           submissions := submissions s @ [ci_submission c],
           intents := replace_row i_id ((ci_intent c)\<lparr>i_updated_at := clock s\<rparr>) (intents s),
           events := events s'\<rparr>"
    by (rule spend_and_submit_Inr)
  have "submissions s' = submissions s @ [ci_submission c]" "decisions s' = decisions s"
    "next_decision_id s' = next_decision_id s" "next_uuid s' = Suc (next_uuid s)" by (subst s', simp)+
  moreover have "\<forall>c' \<in> set (submission_unique s (ci_submission c)). snd c'"
    using 1(8)
  proof (rule spend_and_submit_submission)
    fix l p s2 s3
    assume "insert_submission (confirmed_submission s2 (next_uuid s) i a l p digest k) s2 = Inr ((), s3)"
      "submissions s2 = submissions s" "ci_submission c = confirmed_submission s2 (next_uuid s) i a l p digest k"
    then show ?thesis unfolding insert_submission_Inr by (simp add: submission_unique_def)
  qed
  then have "fresh_submission s (ci_submission c)"
    by (simp add: sub fresh_submission_def confirmed_submission_def blank_submission_def)
  moreover have "pay_same s s'" by (subst s') (simp add: pay_same_def)
  ultimately show ?thesis by (auto simp: intake_only_def)
qed

lemma paid_submission_intake:
  assumes q: "create_submission q s = Inr (v, s1)" "\<not> sv_replayed v" and c: "claim_for_submission arr note s1 = Inr (t', s')"
  shows "intake_only s s'"
  using q(1)
proof (cases rule: create_submission_Inr)
  case (new x ps)
  from c obtain r s2 t where rec: "record_transfer arr s1 = Inr (r, s2)"
    and s': "s' = s2\<lparr>transfers := replace_row t_id (t'\<lparr>t_updated_at := clock s2\<rparr>) (transfers s2)\<rparr>"
    by (rule claim_for_submission_Inr)
  have "submissions s2 = submissions s1" "decisions s2 = decisions s1" "next_decision_id s2 = next_decision_id s1"
    "next_uuid s2 = next_uuid s1" using rec by (cases rule: record_transfer_Inr; simp)+
  moreover have "pay_same s1 s2" using rec by (cases rule: record_transfer_Inr) (simp_all add: pay_same_def)
  moreover have "fresh_submission s x" using new by (simp add: fresh_submission_def)
  ultimately show ?thesis by (auto simp: intake_only_def pay_same_def s' new(2))
qed (use q(2) in simp)

lemma money_step_intake: "money_step s s' \<Longrightarrow> intake_only s s'"
proof (induction rule: money_step.induct)
  case (account_changed s s')
  from accounts_frameD [OF account_step_frame [OF this]] show ?case by (simp add: intake_only_def pay_same_def)
next
  case (order_changed s s')
  from orders_frameD [OF conjunct1 [OF order_step_frame [OF this]]] show ?case by (simp add: intake_only_def pay_same_def)
next
  case (invitation_changed s s')
  from invites_frameD [OF conjunct1 [OF invite_step_frame [OF this]]] show ?case by (simp add: intake_only_def pay_same_def)
next
  case (bundle_attached n s i content sha digest i' s')
  from bundle_attached(2) show ?case by (cases rule: attach_bundle_Inr) (simp add: intake_only_def pay_same_def)
next
  case (intent_opened a task bndl price expi s held pc signer i b s')
  then show ?case by (cases rule: open_intent_Inr) (simp add: intake_only_def pay_same_def)
next
  case (conflict_noted n msg s u s')
  then show ?case by (cases rule: note_conflict_Inr) (simp_all add: intake_only_def pay_same_def)
next
  case (deposit_claimed n s d ref sndr d' s')
  then show ?case by (auto simp: mark_seen_def tx_simps Let_def intake_only_def pay_same_def)
next
  case (deposits_expired s k s')
  then show ?case by (auto simp: expire_open_deposits_def tx_simps intake_only_def pay_same_def)
qed (auto dest!: record_entry_Inr(1) create_deposit_Inr(1) cancel_Inr(3) expire_lapsed_Inr
    intro: intake_frames settle_intake recorded_intake confirmed_intake paid_submission_intake)

section \<open>One payment, one submission\<close>

definition paid_once :: "db \<Rightarrow> bool" where
  "paid_once s \<longleftrightarrow> distinct (List.map_filter s_payment_reference (submissions s)) \<and>
     distinct (List.map_filter s_credit_ledger_id (submissions s)) \<and>
     distinct (List.map_filter s_intent_id (submissions s))"

lemma map_filter_map: "List.map_filter f (map g xs) = List.map_filter (f \<circ> g) xs"
  by (induction xs) (simp_all add: List.map_filter_simps split: option.splits)

lemma paid_once_keys:
  "paid_once s \<longleftrightarrow> distinct (List.map_filter fst (map funding_key (submissions s))) \<and>
     distinct (List.map_filter (fst \<circ> snd) (map funding_key (submissions s))) \<and>
     distinct (List.map_filter (snd \<circ> snd \<circ> snd) (map funding_key (submissions s)))"
  by (simp add: paid_once_def map_filter_map funding_key_def comp_def)

lemma money_frame_paid_once: "money_frame s s' \<Longrightarrow> paid_once s \<Longrightarrow> paid_once s'"
  unfolding paid_once_keys by (simp add: money_frame_def)

lemma map_filter_snoc: "List.map_filter f (xs @ [x]) = List.map_filter f xs @ (case f x of None \<Rightarrow> [] | Some y \<Rightarrow> [y])"
  by (induction xs) (auto simp: List.map_filter_simps split: option.splits)

lemma set_map_filter: "set (List.map_filter f xs) = {y. \<exists>x \<in> set xs. f x = Some y}"
  by (induction xs) (auto simp: List.map_filter_simps split: option.splits)

lemma intake_paid_once:
  assumes "intake_only s s'" and "paid_once s" and "review_inv s"
  shows "paid_once s'"
proof -
  from assms(1) consider "submissions s' = submissions s"
    | x where "submissions s' = submissions s @ [x]" "fresh_submission s x" by (auto simp: intake_only_def pay_same_def)
  then show ?thesis
  proof cases
    case 1
    then show ?thesis using assms(2) by (simp add: paid_once_def)
  next
    case (2 x)
    have new: "s_id y \<noteq> s_id x" if "y \<in> set (submissions s)" for y
      using assms(3) 2(2) that by (auto simp: review_inv_def review_keyed_def fresh_submission_def)
    have "unique_on s_id s_payment_reference x (submissions s)" "unique_on s_id s_credit_ledger_id x (submissions s)"
      "unique_on s_id s_intent_id x (submissions s)"
      using 2(2) by (auto simp: fresh_submission_def submission_unique_def)
    then show ?thesis using assms(2) new unfolding paid_once_def 2(1) map_filter_snoc
      by (auto simp: set_map_filter unique_on_def list_all_iff split: option.splits)
  qed
qed

section \<open>The record of what was decided\<close>

text \<open>Nothing that was entered, verified or decided is ever rewritten: the tables only grow.\<close>

definition history :: "db \<Rightarrow> db \<Rightarrow> bool" where
  "history s s' \<longleftrightarrow> prefix (ledger s) (ledger s') \<and> prefix (decisions s) (decisions s') \<and> prefix (runs s) (runs s')"

lemma history_refl: "history s s" and history_trans: "history s s1 \<Longrightarrow> history s1 s2 \<Longrightarrow> history s s2"
  by (auto simp: history_def)

lemma update_submission_history: "update_submission x s = Inr (u, s') \<Longrightarrow> history s s'"
  by (auto simp: update_submission_Inr history_def Let_def split: option.splits)

lemma add_decision_history: "add_decision x outcome kind who reason nts pub old s = Inr (d, s') \<Longrightarrow> history s s'"
  by (drule add_decision_Inr(1)) (simp add: history_def)

lemmas history_steps = update_submission_history add_decision_history

lemma guarded_update_history: "guarded_update n guard f s = Inr (b, s') \<Longrightarrow> history s s'"
  by (auto simp: guarded_update_def thenT_Inr_iff split: option.splits if_splits
      intro: history_refl update_submission_history)

lemma approve_automatically_history: "approve_automatically x s = Inr (r, s') \<Longrightarrow> history s s'"
  unfolding approve_automatically_def Let_def
  by (auto simp: bindT_Inr_iff thenT_Inr_iff split: if_splits option.splits dest!: history_steps intro: history_trans)

lemma apply_verdict_history: "apply_verdict x v s = Inr (r, s') \<Longrightarrow> history s s'"
  unfolding apply_verdict_def Let_def
  by (auto simp: bindT_Inr_iff thenT_Inr_iff split: if_splits
      dest!: update_submission_history approve_automatically_history intro: history_trans history_refl)

lemma review_step_history: "review_step sha s s' \<Longrightarrow> history s s'"
proof (induction rule: review_step.induct)
  case (claimed owner secs cap served excluded s c s')
  then show ?case
    by (rule claim_next_Inr) (auto intro: history_refl elim!: CLAIM_Inr dest!: update_submission_history)
next
  case (verdict s n owner x v rv s')
  from verdict(2) show ?case
  proof (cases rule: record_verification_result_Inr)
    case (1 run s1 x1 s2)
    have "history s s1" by (simp add: 1(1) history_def)
    then show ?thesis using apply_verdict_history [OF 1(6)] update_submission_history [OF 1(7)] history_trans by blast
  qed
next
  case (decided n outcome reason who nts pub s d s')
  then show ?case by (rule record_human_decision_Inr) (blast intro: history_trans dest: history_steps)
next
  case (corrected n old outcome reason who why pub s d s')
  then show ?case by (rule correct_human_decision_Inr) (blast intro: history_trans dest: history_steps)
qed (auto simp: extend_lease_def release_def release_unconsumed_def thenT_Inr_iff
    dest!: guarded_update_history update_submission_history)

lemma settle_history: "settle ws n arr r s = Inr (ad, s') \<Longrightarrow> history s s'"
proof (erule settle_Inr)
  fix t acct e t'
  assume "credit t acct (ws_credit_price_rao ws) (clock s + ws_adopted_deposit_window ws) LEDGER_ACTOR
         (ws_bonus_schedule ws) s = Inr ((e, t'), s')"
  then show "history s s'"
  proof (cases rule: credit_Inr)
    case (1 es)
    have "decisions s' = decisions s" "runs s' = runs s" by (subst 1(13), simp)+
    then show ?thesis using 1(1) by (simp add: history_def)
  qed
qed (simp_all add: history_def)

lemma confirm_history: "confirm n a k now s = Inr (c, s') \<Longrightarrow> history s s'"
proof (erule confirm_Inr)
  fix i content digest
  assume "spend_and_submit a i content digest k now s = Inr (c, s')"
  then obtain sp where s': "s' = s\<lparr>next_uuid := Suc (next_uuid s), next_ledger_id := Suc (next_ledger_id s),
           next_event_id := next_event_id s', proofs := proofs s', ledger := ledger s @ [sp],
           submissions := submissions s @ [ci_submission c],
           intents := replace_row i_id ((ci_intent c)\<lparr>i_updated_at := clock s\<rparr>) (intents s),
           events := events s'\<rparr>" by (rule spend_and_submit_Inr)
  have "decisions s' = decisions s" "runs s' = runs s" "ledger s' = ledger s @ [sp]" by (subst s', simp)+
  then show "history s s'" by (simp add: history_def)
qed

lemma money_step_history: "money_step s s' \<Longrightarrow> history s s'"
proof (induction rule: money_step.induct)
  case (account_changed s s')
  from accounts_frameD [OF account_step_frame [OF this]] show ?case by (simp add: history_def)
next
  case (order_changed s s')
  note f = order_step_frame [OF this]
  show ?case using orders_frameD [OF conjunct1 [OF f]] conjunct2 [OF f] by (auto simp: history_def appends_def)
next
  case (invitation_changed s s')
  note f = invite_step_frame [OF this]
  show ?case using invites_frameD [OF conjunct1 [OF f]] conjunct2 [OF f] by (auto simp: history_def appends_def)
next
  case (deposit_claimed n s d ref sndr d' s')
  then show ?case by (auto simp: mark_seen_def tx_simps Let_def history_def)
next
  case (deposits_expired s k s')
  then show ?case by (auto simp: expire_open_deposits_def tx_simps history_def)
next
  case (transfer_recorded arr s rt s')
  then show ?case by (rule record_transfer_Inr) (simp_all add: history_def)
next
  case (conflict_noted n msg s u s')
  then show ?case by (cases rule: note_conflict_Inr) (simp_all add: history_def)
next
  case (intent_opened a task bndl price expi s held pc signer i b s')
  then show ?case by (cases rule: open_intent_Inr) (simp add: history_def)
next
  case (bundle_attached n s i content sha digest i' s')
  from bundle_attached(2) show ?case by (cases rule: attach_bundle_Inr) (simp add: history_def)
next
  case (paid_submission q s v s1 arr nt t s')
  have "history s s1" using paid_submission(1) by (rule create_submission_Inr) (simp_all add: history_def)
  moreover have "history s1 s'" using paid_submission(4)
    by (rule claim_for_submission_Inr) (auto simp: history_def elim!: record_transfer_Inr)
  ultimately show ?case by (rule history_trans)
qed (auto dest!: create_deposit_Inr(1) cancel_Inr(3) expire_lapsed_Inr settle_history confirm_history
    simp: history_def)

section \<open>What a verdict leads to\<close>

text \<open>The problem is already verified in the other mode: a proof and a refutation cannot both stand.\<close>

definition contradicted :: "db \<Rightarrow> submission_row \<Rightarrow> bool" where
  "contradicted s x \<longleftrightarrow> list_ex (\<lambda>y. s_problem_id y = s_problem_id x \<and> s_verification_status y = VERIFIED \<and>
     s_task_mode y \<noteq> s_task_mode x) (submissions s)"

text \<open>The three status columns after the verdict.\<close>

definition judged :: "db \<Rightarrow> submission_row \<Rightarrow> verdict \<Rightarrow> verification_state \<times> manual_review_state \<times> reward_state" where
  "judged s x v =
     (if \<not> vd_accepted v then (V_REJECTED, UNREVIEWED, INELIGIBLE)
      else if s_manual_review_required x \<or> contradicted s x then (VERIFIED, UNREVIEWED, INELIGIBLE)
      else if reward_target_holder s x \<noteq> None then (VERIFIED, R_REJECTED, INELIGIBLE)
      else (VERIFIED, APPROVED, ELIGIBLE))"

lemma length_remdups_gt_1:
  assumes "m \<in> set ms"
  shows "1 < length (remdups ms) \<longleftrightarrow> (\<exists>k \<in> set ms. k \<noteq> m)"
proof -
  have "length (remdups ms) = card (set ms)" by (simp add: length_remdups_card_conv)
  moreover have "card (set ms) = 1 \<longleftrightarrow> (\<forall>k \<in> set ms. k = m)"
    using assms by (auto simp: card_1_singleton_iff)
  moreover have "card (set ms) \<noteq> 0" using assms by auto
  ultimately show ?thesis by (metis One_nat_def less_one linorder_neqE_nat)
qed

lemma find_replace_row_other:
  assumes "\<not> p r" and "\<And>x. x \<in> set rows \<Longrightarrow> key x = key r \<Longrightarrow> \<not> p x"
  shows "List.find p (replace_row key r rows) = List.find p rows"
  using assms by (induction rows) (auto simp: replace_row_def)

lemma holder_after_update:
  assumes "submissions s' = replace_row s_id x' (submissions s)" and "s_id x' = s_id x"
  shows "reward_target_holder s' x = reward_target_holder s x"
  unfolding reward_target_holder_def assms(1)
  by (subst find_replace_row_other) (simp_all add: assms(2))

lemma modes_after_verification:
  assumes "submissions s' = replace_row s_id x' (submissions s)" and "s_id x' = s_id x"
    and "distinct (map s_id (submissions s))" and "y \<in> set (submissions s)" and "s_id y = s_id x"
    and "s_verification_status y \<noteq> VERIFIED" and "s_verification_status x' = VERIFIED"
    and "s_problem_id x' = s_problem_id x" and "s_task_mode x' = s_task_mode x"
  shows "1 < length (problem_verified_modes s' x) \<longleftrightarrow> contradicted s x"
proof -
  have set: "set (submissions s') = insert x' (set (submissions s) - {y})"
  proof -
    have only: "s_id z = s_id x' \<longleftrightarrow> z = y" if "z \<in> set (submissions s)" for z
      using that assms(2-5) by (metis find_row_unique option.inject)
    have "set (submissions s') = (\<lambda>z. if z = y then x' else z) ` set (submissions s)"
      unfolding assms(1) replace_row_def using only by (auto intro!: image_cong)
    then show ?thesis using assms(4) by auto
  qed
  let ?ms = "map s_task_mode (filter (\<lambda>z. s_problem_id z = s_problem_id x \<and> s_verification_status z = VERIFIED) (submissions s'))"
  have "s_task_mode x \<in> set ?ms" unfolding set_map set_filter set
    by (rule image_eqI [of _ _ x']) (simp_all add: assms(7-9))
  from length_remdups_gt_1 [OF this] have "1 < length (problem_verified_modes s' x) \<longleftrightarrow> (\<exists>k \<in> set ?ms. k \<noteq> s_task_mode x)"
    by (simp add: problem_verified_modes_def)
  also have "\<dots> \<longleftrightarrow> contradicted s x"
    unfolding contradicted_def list_ex_iff using set assms(6,9) by auto
  finally show ?thesis .
qed

lemma approve_automatically_row:
  assumes "approve_automatically x s = Inr ((d, x'), s')"
  shows "x' = (if 1 < length (problem_verified_modes s x) then x
      else if reward_target_holder s x \<noteq> None then x\<lparr>s_manual_review_status := R_REJECTED\<rparr>
      else x\<lparr>s_manual_review_status := APPROVED, s_reward_status := ELIGIBLE\<rparr>)"
  using assms unfolding approve_automatically_def Let_def
  by (auto simp: bindT_Inr_iff thenT_Inr_iff split: if_splits option.splits)

lemma apply_verdict_row:
  assumes inv: "review_inv s" and c: "current s x" and un: "s_verification_status x = UNVERIFIED"
    and r: "apply_verdict x v s = Inr (x1, s')"
  shows "(s_verification_status x1, s_manual_review_status x1, s_reward_status x1) = judged s x v \<and> s_id x1 = s_id x"
proof -
  let ?ruled = "if vd_accepted v then x\<lparr>s_verification_status := VERIFIED\<rparr>
              else x\<lparr>s_verification_status := V_REJECTED, s_failure_reason := Some (vd_reason_code v)\<rparr>"
  from c obtain t where t: "find_row s_id (s_id x) (submissions s) = Some (x\<lparr>s_updated_at := t\<rparr>)"
    by (auto simp: current_def)
  have d: "distinct (map s_id (submissions s))" using inv by (simp add: review_inv_def review_keyed_def)
  from r un obtain s3 where u: "update_submission ?ruled s = Inr ((), s3)"
    and rest: "(if vd_accepted v \<and> \<not> s_manual_review_required ?ruled
              then bindT (approve_automatically ?ruled) (\<lambda>r. ret (snd r)) else ret ?ruled) s3 = Inr (x1, s')"
    by (auto simp: apply_verdict_def thenT_Inr_iff Let_def)
  have "row_ok s x" using current_ok [OF inv c] .
  then have st: "s_manual_review_status x = UNREVIEWED" "s_reward_status x = INELIGIBLE"
    using un by (auto simp: row_ok_def)
  show ?thesis
  proof (cases "vd_accepted v \<and> \<not> s_manual_review_required ?ruled")
    case False
    then have "x1 = ?ruled" using rest by (simp only: if_False ret_simps)
    then show ?thesis using False st by (auto simp: judged_def)
  next
    case True
    let ?x = "x\<lparr>s_verification_status := VERIFIED\<rparr>"
    have ok: "?ruled = ?x" "vd_accepted v" "\<not> s_manual_review_required x" using True by (auto split: if_splits)
    from rest True obtain dn where "approve_automatically ?x s3 = Inr ((dn, x1), s')"
      by (auto simp: bindT_Inr_iff)
    note x1 = approve_automatically_row [OF this]
    have u': "update_submission ?x s = Inr ((), s3)" using u ok(1) by simp
    have "find_row s_id (s_id ?x) (submissions s) = Some (x\<lparr>s_updated_at := t\<rparr>)" using t by simp
    note subs = update_submission_row(4) [OF u' this]
    have "1 < length (problem_verified_modes s3 ?x) \<longleftrightarrow> contradicted s ?x"
      using find_row_Some [OF t] un by (intro modes_after_verification [OF subs _ d, of _ "x\<lparr>s_updated_at := t\<rparr>"]) auto
    moreover have "reward_target_holder s3 ?x = reward_target_holder s ?x"
      by (intro holder_after_update [OF subs]) simp
    moreover have "contradicted s ?x = contradicted s x" "reward_target_holder s ?x = reward_target_holder s x"
      by (simp_all add: contradicted_def reward_target_holder_def)
    ultimately show ?thesis using x1 st ok by (auto simp: judged_def)
  qed
qed

lemma decided_row:
  assumes "find_row s_id n (submissions s) = Some x"
    and "add_decision x outcome kind who reason nts pub old s = Inr (d, s1)"
    and "update_submission x' s1 = Inr (u, s')" and "s_id x' = n"
  shows "find_row s_id n (submissions s') = Some (x'\<lparr>s_updated_at := clock s\<rparr>)"
    and "decisions s' = decisions s @ [d]"
proof -
  note a = add_decision_Inr [OF assms(2)]
  have "find_row s_id (s_id x') (submissions s1) = Some x" using assms(1,4) by (simp add: a(1))
  from update_submission_row(3) [OF assms(3) this, of n]
  show "find_row s_id n (submissions s') = Some (x'\<lparr>s_updated_at := clock s\<rparr>)"
    using assms(4) by (simp add: a(1))
  show "decisions s' = decisions s @ [d]"
    using assms(1,3,4) by (auto simp: update_submission_Inr a(1) Let_def split: option.splits)
qed

section \<open>A run used by the examples\<close>

definition sample_verdict :: verdict where
  "sample_verdict = \<lparr>vd_accepted = True, vd_reason_code = ''OK'', vd_stage = ''done'', vd_verifier_version = ''1'',
     vd_container_digest = zero_digest, vd_sandbox_mode = ''gvisor'', vd_checks = None, vd_report = None,
     vd_started_at = 90, vd_finished_at = 95\<rparr>"

text \<open>\<open>lock_owned_for_recording\<close> as the worker uses it: without the row there is nothing to record.\<close>

definition locked_row :: "uuid \<Rightarrow> string \<Rightarrow> submission_row dbtx" where
  "locked_row n owner s = (case lock_owned_for_recording s n owner of None \<Rightarrow> Inl NoResultFound | Some x \<Rightarrow> Inr (x, s))"

definition sample_verified :: "db_error + recorded_verdict \<times> db" where
  "sample_verified = bindT (\<lambda>_. sample_claimed) (\<lambda>_. bindT (locked_row 0 ''w1'') (\<lambda>x.
     record_verification_result (\<lambda>_. replicate 32 0) x sample_verdict)) (empty_db (\<lambda>_. replicate 32 0) 100)"

text \<open>Approved by a human; then seeded as a payout instruction, and paid by a finalized transfer.\<close>

definition sample_approved :: "db_error + decision_row \<times> db" where
  "sample_approved = bindT (\<lambda>_. sample_verified) (\<lambda>_.
     record_human_decision 0 O_APPROVED ''SOUND'' ''ann'' None None) (empty_db (\<lambda>_. replicate 32 0) 100)"

definition sample_seeded :: "db_error + int \<times> db" where
  "sample_seeded = bindT (\<lambda>_. sample_approved) (\<lambda>_. seed_reward_events None) (empty_db (\<lambda>_. replicate 32 0) 100)"

definition sample_rewarded :: "db_error + payout_update option \<times> db" where
  "sample_rewarded = bindT (\<lambda>_. sample_seeded) (\<lambda>_. bindT (record_payout sample_payout None) (\<lambda>p. claim_payout (tp_id p)))
     (empty_db (\<lambda>_. replicate 32 0) 100)"

section \<open>Properties\<close>

text \<open>
  C28.  A verdict on a submission nobody has ruled on leads to exactly one of four outcomes: rejected;
  verified and waiting for a human, because its task asks for one or because the same problem is
  already verified in the opposite mode; verified and turned down because its reward target is
  held; or verified, approved and eligible.  The lease is gone in every case.
\<close>

theorem verdict_outcome:
  assumes "review_inv s" and "lock_owned_for_recording s n owner = Some x"
    and "record_verification_result sha x v s = Inr (rv, s')"
  shows "rv_applied rv \<and> (\<exists>z. find_row s_id n (submissions s') = Some z \<and> s_verification_lease_owner z = None \<and>
    (s_verification_status z, s_manual_review_status z, s_reward_status z) = judged s x v)"
proof -
  have x: "find_row s_id n (submissions s) = Some x" "s_verification_status x = UNVERIFIED"
    using assms(2) by (auto simp: lock_owned_iff owned_def)
  have c: "current s x" using x(1) by (rule find_row_current)
  have id: "s_id x = n" using find_row_Some [OF x(1)] by simp
  from assms(3) show ?thesis
  proof (cases rule: record_verification_result_Inr)
    case (1 run s1 x1 s2)
    have inv1: "review_inv s1" using assms(1) by (subst review_inv_frame [of s1 s]) (simp_all add: 1(1))
    have c1: "current s1 x" using c by (simp add: 1(1) current_def)
    have j: "judged s1 x v = judged s x v" by (simp add: 1(1) judged_def contradicted_def reward_target_holder_def)
    note row = apply_verdict_row [OF inv1 c1 x(2) 1(6), unfolded j]
    have "current s2 x1" using apply_verdict_effect [OF inv1 c1 1(6)] by simp
    then obtain t where t: "find_row s_id (s_id x1) (submissions s2) = Some (x1\<lparr>s_updated_at := t\<rparr>)"
      by (auto simp: current_def)
    let ?z = "x1\<lparr>s_verification_lease_until := None, s_verification_lease_owner := None\<rparr>"
    have "find_row s_id (s_id ?z) (submissions s2) = Some (x1\<lparr>s_updated_at := t\<rparr>)" using t by simp
    from update_submission_row(3) [OF 1(7) this, of n] row id
    have "find_row s_id n (submissions s') = Some (?z\<lparr>s_updated_at := clock s2\<rparr>)" by simp
    then show ?thesis using row 1(5) x(2) by simp
  qed
qed

theorem verdict_outcome_witness:
  "\<exists>c s x rv s' z. sample_claimed = Inr (c, s) \<and> lock_owned_for_recording s 0 ''w1'' = Some x \<and>
     record_verification_result (\<lambda>_. replicate 32 0) x sample_verdict s = Inr (rv, s') \<and> rv_applied rv \<and>
     find_row s_id 0 (submissions s') = Some z \<and> s_verification_status z = VERIFIED"
proof -
  have "case sample_claimed of Inl _ \<Rightarrow> False | Inr (c, s) \<Rightarrow> review_inv s \<and>
    (case lock_owned_for_recording s 0 ''w1'' of None \<Rightarrow> False | Some x \<Rightarrow>
      (case record_verification_result (\<lambda>_. replicate 32 0) x sample_verdict s of Inl _ \<Rightarrow> False | Inr _ \<Rightarrow> True) \<and>
      s_manual_review_required x)" by code_simp
  then obtain c s x rv s' where s: "sample_claimed = Inr (c, s)" "review_inv s" "lock_owned_for_recording s 0 ''w1'' = Some x"
    "record_verification_result (\<lambda>_. replicate 32 0) x sample_verdict s = Inr (rv, s')" "s_manual_review_required x"
    by (auto simp: succeeds_iff split: option.splits)
  have "judged s x sample_verdict = (VERIFIED, UNREVIEWED, INELIGIBLE)"
    using s(5) by (simp add: judged_def sample_verdict_def)
  with verdict_outcome [OF s(2-4)] obtain z where "rv_applied rv" "find_row s_id 0 (submissions s') = Some z"
    "s_verification_status z = VERIFIED" by auto
  with s show ?thesis by blast
qed

text \<open>
  A submission is decided once: after a human decision every further one is refused, with the
  status the first one left.
\<close>

theorem human_decision_once:
  assumes "record_human_decision n outcome reason who nts pub s = Inr (d, s')"
  shows "record_human_decision n outcome2 reason2 who2 nts2 pub2 s' =
    Inl (RecordConflict ''this submission has already been decided'' ''REVIEW_ALREADY_DECIDED''
      [(''manual_review_status'', DStr (case outcome of O_APPROVED \<Rightarrow> ''APPROVED'' | O_REJECTED \<Rightarrow> ''REJECTED''))])"
  using assms
proof (cases rule: record_human_decision_Inr)
  case (1 x s1)
  let ?x = "if outcome = O_APPROVED then x\<lparr>s_manual_review_status := APPROVED, s_reward_status := ELIGIBLE\<rparr>
            else x\<lparr>s_manual_review_status := R_REJECTED\<rparr>"
  have "s_id ?x = n" using find_row_Some [OF 1(1)] by simp
  from decided_row(1) [OF 1(1,6,7) this] 1(2) show ?thesis
    by (cases outcome) (simp_all add: record_human_decision_def bindT_def thenT_def reads_def raise_if_def ret_def
        raise_def review_name_def)
qed

theorem human_decision_once_witness:
  "\<exists>d s'. sample_approved = Inr (d, s') \<and>
     record_human_decision 0 O_REJECTED ''UNSOUND'' ''bob'' None None s' =
       Inl (RecordConflict ''this submission has already been decided'' ''REVIEW_ALREADY_DECIDED''
         [(''manual_review_status'', DStr ''APPROVED'')])"
proof -
  have "case sample_verified of Inl _ \<Rightarrow> False | Inr (rv, s) \<Rightarrow>
     (case record_human_decision 0 O_APPROVED ''SOUND'' ''ann'' None None s of Inl _ \<Rightarrow> False | Inr _ \<Rightarrow> True)" by code_simp
  then obtain rv s d s' where s: "sample_verified = Inr (rv, s)"
    "record_human_decision 0 O_APPROVED ''SOUND'' ''ann'' None None s = Inr (d, s')" by (auto simp: succeeds_iff)
  have "sample_approved = Inr (d, s')" using s by (simp add: sample_approved_def)
  with human_decision_once [OF s(2), of O_REJECTED "''UNSOUND''" "''bob''" None None] show ?thesis by auto
qed

text \<open>
  Corrections are serialised: a correction names the decision it replaces and becomes the binding
  one, so a second correction of the same decision is refused as stale and told which decision is
  current.
\<close>

theorem correction_stale:
  assumes "review_inv s" and "correct_human_decision n old outcome reason who why pub s = Inr (d, s')"
  shows "latest_binding_decision s' n = Some d \<and> r_supersedes_id d = Some old \<and>
    correct_human_decision n old outcome2 reason2 who2 why2 pub2 s' =
      Inl (RecordConflict ''this decision is no longer the current one; re-read it and correct that''
        ''REVIEW_CORRECTION_STALE''
        [(''review_decision_id'', DInt (int (r_id d))), (''current_decision'', DStr (outcome_name outcome)),
         (''current_reason_code'', DStr reason)])"
  using assms(2)
proof (cases rule: correct_human_decision_Inr)
  case (1 x cur s1)
  let ?x = "if outcome = O_APPROVED then x\<lparr>s_manual_review_status := APPROVED, s_reward_status := ELIGIBLE\<rparr>
            else x\<lparr>s_manual_review_status := R_REJECTED, s_reward_status := INELIGIBLE\<rparr>"
  note a = add_decision_Inr [OF 1(7)]
  have k: "review_keyed s" using assms(1) by (simp add: review_inv_def)
  have id: "s_id ?x = n" "s_id x = n" using find_row_Some [OF 1(1)] by simp_all
  note row = decided_row [OF 1(1,7,8) id(1)]
  have "latest_binding_decision s' n = latest_binding_decision s1 n"
    using row(2) by (simp add: latest_binding_decision_def a(1))
  then have latest: "latest_binding_decision s' n = Some d"
    using latest_after_decision [OF k 1(7)] id(2) by simp
  have "cur \<in> set (decisions s)"
  proof -
    have "cur \<in> set (filter (\<lambda>r. r_submission_id r = n \<and> r_kind r \<noteq> ADVISORY) (decisions s))"
      using 1(3) unfolding latest_binding_decision_def newest_def
      by (metis (no_types, lifting) list.case_eq_if list.set_sel(1) option.distinct(1) option.inject set_rev set_sort)
    then show ?thesis by simp
  qed
  then have "r_id d \<noteq> old" using k 1(4) a(2) by (auto simp: review_keyed_def)
  then show ?thesis using latest a(4,6,7) row(1) 1(2)
    by (cases outcome) (simp_all add: correct_human_decision_def bindT_def thenT_def reads_def raise_if_def ret_def raise_def)
qed

lemma sample_corrected_ok:
  "\<exists>u s d s'. sample_rewarded = Inr (u, s) \<and> review_inv s \<and> find_row s_id 0 (submissions s) \<noteq> None \<and>
     (\<forall>x. find_row s_id 0 (submissions s) = Some x \<longrightarrow> s_reward_status x = REWARDED) \<and>
     correct_human_decision 0 1 O_APPROVED ''SOUND'' ''bob'' ''typo'' ''text'' s = Inr (d, s')"
proof -
  have "case sample_rewarded of Inl _ \<Rightarrow> False | Inr (u, s) \<Rightarrow> review_inv s \<and>
     (case find_row s_id 0 (submissions s) of None \<Rightarrow> False | Some x \<Rightarrow> s_reward_status x = REWARDED) \<and>
     (case correct_human_decision 0 1 O_APPROVED ''SOUND'' ''bob'' ''typo'' ''text'' s of Inl _ \<Rightarrow> False | Inr _ \<Rightarrow> True)"
    by code_simp
  then show ?thesis by (fastforce simp: succeeds_iff split: option.splits)
qed

theorem correction_stale_witness:
  "\<exists>u s d s'. sample_rewarded = Inr (u, s) \<and>
     correct_human_decision 0 1 O_APPROVED ''SOUND'' ''bob'' ''typo'' ''text'' s = Inr (d, s') \<and>
     (\<exists>e. correct_human_decision 0 1 O_REJECTED ''X'' ''cat'' ''n'' ''p'' s' = Inl e) \<and> latest_binding_decision s' 0 = Some d"
proof -
  obtain u s d s' where s: "sample_rewarded = Inr (u, s)" "review_inv s"
    "correct_human_decision 0 1 O_APPROVED ''SOUND'' ''bob'' ''typo'' ''text'' s = Inr (d, s')" using sample_corrected_ok by blast
  from correction_stale [OF s(2,3), of O_REJECTED "''X''" "''cat''" "''n''" "''p''"] s show ?thesis by blast
qed

text \<open>
  C29.  An approval is withdrawn only while no money can move: a correction from APPROVED to REJECTED
  goes through only if every payout instruction of the submission is still unsigned and cancelled
  and the submission is neither rewarded nor failed; it leaves the submission ineligible.
\<close>

theorem withdrawal_only_unpaid:
  assumes "correct_human_decision n old O_REJECTED reason who why pub s = Inr (d, s')"
    and "latest_binding_decision s n = Some cur" and "r_decision cur = O_APPROVED"
  shows "(\<forall>e \<in> set (reward_events s). rw_submission_id e = n \<longrightarrow> unsigned_event e \<and> \<not> instruction_enabled s e) \<and>
    (\<exists>x y. find_row s_id n (submissions s) = Some x \<and> s_reward_status x \<in> {INELIGIBLE, ELIGIBLE} \<and>
      find_row s_id n (submissions s') = Some y \<and> s_manual_review_status y = R_REJECTED \<and> s_reward_status y = INELIGIBLE)"
  using assms(1)
proof (cases rule: correct_human_decision_Inr)
  case (1 x cur' s1)
  have "cur' = cur" using 1(3) assms(2) by simp
  then have free: "s_reward_status x \<notin> {REWARDED, RW_FAILED}" "\<not> reward_event_exists s n"
    using 1(5) assms(3) by simp_all
  have "s_reward_status x \<in> {INELIGIBLE, ELIGIBLE}" using free(1) by (cases "s_reward_status x") simp_all
  moreover have "find_row s_id n (submissions s') =
      Some (x\<lparr>s_manual_review_status := R_REJECTED, s_reward_status := INELIGIBLE, s_updated_at := clock s\<rparr>)"
    using decided_row(1) [OF 1(1,7,8)] find_row_Some [OF 1(1)] by simp
  ultimately show ?thesis using free(2) 1(1) by (auto simp: reward_event_exists_def list_ex_iff)
qed

theorem withdrawal_only_unpaid_witness:
  "\<exists>d s d' s' y. sample_approved = Inr (d, s) \<and> correct_human_decision 0 1 O_REJECTED ''UNSOUND'' ''bob'' ''n'' ''p'' s = Inr (d', s') \<and>
     find_row s_id 0 (submissions s') = Some y \<and> s_reward_status y = INELIGIBLE"
proof -
  have "case sample_approved of Inl _ \<Rightarrow> False | Inr (d, s) \<Rightarrow>
     (case correct_human_decision 0 1 O_REJECTED ''UNSOUND'' ''bob'' ''n'' ''p'' s of Inl _ \<Rightarrow> False | Inr _ \<Rightarrow> True) \<and>
     (case latest_binding_decision s 0 of None \<Rightarrow> False | Some c \<Rightarrow> r_decision c = O_APPROVED)" by code_simp
  then obtain d s d' s' c where s: "sample_approved = Inr (d, s)" "latest_binding_decision s 0 = Some c" "r_decision c = O_APPROVED"
    "correct_human_decision 0 1 O_REJECTED ''UNSOUND'' ''bob'' ''n'' ''p'' s = Inr (d', s')"
    by (auto simp: succeeds_iff split: option.splits)
  from withdrawal_only_unpaid [OF s(4,2,3)] s show ?thesis by blast
qed

text \<open>
  C33.  A correction that keeps an approval does not leave the reward status where it is: whatever it
  was, and so also when the submission has already been REWARDED, it becomes ELIGIBLE again.
\<close>

theorem correction_resets_reward:
  assumes "correct_human_decision n old O_APPROVED reason who why pub s = Inr (d, s')"
  shows "\<exists>y. find_row s_id n (submissions s') = Some y \<and> s_manual_review_status y = APPROVED \<and>
    s_reward_status y = ELIGIBLE"
  using assms
proof (cases rule: correct_human_decision_Inr)
  case (1 x cur s1)
  then show ?thesis using decided_row(1) [OF 1(1,7,8)] find_row_Some [OF 1(1)] by simp
qed

theorem correction_resets_reward_witness:
  "\<exists>u s x d s' y. sample_rewarded = Inr (u, s) \<and> find_row s_id 0 (submissions s) = Some x \<and> s_reward_status x = REWARDED \<and>
     correct_human_decision 0 1 O_APPROVED ''SOUND'' ''bob'' ''typo'' ''text'' s = Inr (d, s') \<and>
     find_row s_id 0 (submissions s') = Some y \<and> s_reward_status y = ELIGIBLE"
proof -
  obtain u s d s' where s: "sample_rewarded = Inr (u, s)" "find_row s_id 0 (submissions s) \<noteq> None"
    "\<forall>x. find_row s_id 0 (submissions s) = Some x \<longrightarrow> s_reward_status x = REWARDED"
    "correct_human_decision 0 1 O_APPROVED ''SOUND'' ''bob'' ''typo'' ''text'' s = Inr (d, s')" using sample_corrected_ok by blast
  from correction_resets_reward [OF s(4)] s show ?thesis by blast
qed

end
