(* ===== verification/Settlement.thy ===== *)
theory Settlement
  imports Reviews
begin

text \<open>
  The paying side as a state machine: the notifier's transactions, the payout watcher's, the
  operator's and those of the bonus ledger, each one step, in any order.  The invariant \<open>payout_inv\<close>
  says that a claimed transfer and the reward it pays belong to each other alone and agree on amount
  and destination, that an obligation seen on chain is never withdrawn, and that an automatic
  instruction pays what the submission locked.
\<close>

section \<open>Steps\<close>

text \<open>
  \<open>attempted\<close> is an attempt an operator enters by hand.  \<open>claims_changed\<close>, \<open>bonus_prepared\<close> and
  \<open>bonus_completed\<close> are what the chat-log component may do: anything to its claims, and to the bonus
  ledger what its triggers let through.  \<open>seeded\<close> takes any list of candidates, since they were read
  in an earlier transaction.
\<close>

inductive payout_step :: "db \<Rightarrow> db \<Rightarrow> bool" where
  seeded: "seed_instructions quote cs s = Inr (k, s') \<Longrightarrow> payout_step s s'"
| attempted: "rw_generation_key r = None \<Longrightarrow> \<not> rw_chain_observed r \<Longrightarrow>
    insert_reward (r\<lparr>rw_id := next_reward_id s\<rparr>) (s\<lparr>next_reward_id := Suc (next_reward_id s)\<rparr>) = Inr (u, s') \<Longrightarrow>
    payout_step s s'"
| outbox_seeded: "seed_deliveries ms s = Inr (k, s') \<Longrightarrow> payout_step s s'"
| outbox_claimed: "claim_delivery worker secs s = Inr (c, s') \<Longrightarrow> payout_step s s'"
| outbox_finished: "finish_delivery worker secs c err s = Inr (u, s') \<Longrightarrow> payout_step s s'"
| payout_recorded: "record_payout ob price s = Inr (p, s') \<Longrightarrow> payout_step s s'"
| payout_claimed: "claim_payout n s = Inr (r, s') \<Longrightarrow> payout_step s s'"
| payout_confirmed: "confirm_payout ob s = Inr (r, s') \<Longrightarrow> payout_step s s'"
| payout_marked: "mark_submitted ob s = Inr (r, s') \<Longrightarrow> payout_step s s'"
| payout_reverted: "revert_submitted sp now s = Inr (b, s') \<Longrightarrow> payout_step s s'"
| payout_bound: "bind_payout n m remark s = Inr (r, s') \<Longrightarrow> payout_step s s'"
| payout_disregarded: "disregard_payout n remark s = Inr (p, s') \<Longrightarrow> payout_step s s'"
| watch_opened: "open_payout_cursor network ck hk netuid since start ts watcher s = Inr (c, s') \<Longrightarrow> payout_step s s'"
| watch_advanced: "advance_payout_cursor block now watcher s = Inr (c, s') \<Longrightarrow> payout_step s s'"
| instruction_changed: "change_instruction n x d a action who reason evidence s = Inr (r, s') \<Longrightarrow> payout_step s s'"
| withdrawn: "cancel_and_withdraw code internal pub n x d a who reason evidence s = Inr (r, s') \<Longrightarrow> payout_step s s'"
| claims_changed: "payout_step s (s\<lparr>trajectory_claims := tcs\<rparr>)"
| bonus_prepared: "insert_bonus b s = Inr (u, s') \<Longrightarrow> payout_step s s'"
| bonus_completed: "update_bonus b s = Inr (u, s') \<Longrightarrow> payout_step s s'"

section \<open>Invariant\<close>

definition pay_keyed :: "db \<Rightarrow> bool" where
  "pay_keyed s \<longleftrightarrow>
     distinct (map rw_id (reward_events s)) \<and>
     (\<forall>e \<in> set (reward_events s). rw_id e < next_reward_id s \<and> rw_submission_id e \<in> s_id ` set (submissions s)) \<and>
     distinct (map tp_id (treasury_payouts s)) \<and> (\<forall>p \<in> set (treasury_payouts s). tp_id p < next_payout_id s)"

text \<open>An obligation that was seen on chain keeps its submission out of reach of a withdrawal.\<close>

definition observed_live :: "db \<Rightarrow> bool" where
  "observed_live s \<longleftrightarrow> (\<forall>e \<in> set (reward_events s). rw_chain_observed e \<longrightarrow>
     (\<exists>x \<in> set (submissions s). s_id x = rw_submission_id e \<and> s_reward_status x \<noteq> INELIGIBLE))"

text \<open>The reward event a transfer pays.\<close>

definition pays :: "payout_row \<Rightarrow> reward_row \<Rightarrow> bool" where
  "pays p e \<longleftrightarrow> tp_reward_event_id p = Some (rw_id e) \<and> rw_status e = P_CONFIRMED \<and> rw_chain_observed e \<and>
     rw_amount_rao e = tp_amount_rao p \<and> rw_destination_coldkey e = tp_destination_coldkey p"

definition claims_settle :: "db \<Rightarrow> bool" where
  "claims_settle s \<longleftrightarrow> (\<forall>p \<in> set (treasury_payouts s).
     (tp_status p = CLAIMED) = (tp_reward_event_id p \<noteq> None) \<and>
     (tp_reward_event_id p \<noteq> None \<longrightarrow>
        (\<exists>e \<in> set (reward_events s). pays p e) \<and>
        (\<forall>q \<in> set (treasury_payouts s). tp_reward_event_id q = tp_reward_event_id p \<longrightarrow> tp_id q = tp_id p) \<and>
        (\<forall>b \<in> set (bonuses s). tb_treasury_payout_id b \<noteq> Some (tp_id p))))"

definition price_ok :: "submission_row \<Rightarrow> reward_row \<Rightarrow> bool" where
  "price_ok x e \<longleftrightarrow> (rw_eligibility_reason e \<noteq> DEFECT_AWARD \<longrightarrow> rw_amount_rao e = s_bounty_amount_rao x) \<and>
     (capped_policy x \<longrightarrow> rw_amount_rao e \<le> s_bounty_amount_rao x)"

definition locked_prices :: "db \<Rightarrow> bool" where
  "locked_prices s \<longleftrightarrow> (\<forall>e \<in> set (reward_events s). rw_generation_key e \<noteq> None \<longrightarrow>
     rw_generation_key e = Some (''submission:'' @ str_uuid (rw_submission_id e)) \<and>
     (\<exists>x \<in> set (submissions s). s_id x = rw_submission_id e \<and> price_ok x e) \<and>
     (\<forall>e' \<in> set (reward_events s). rw_generation_key e' = rw_generation_key e \<longrightarrow> rw_id e' = rw_id e))"

definition payout_inv :: "db \<Rightarrow> bool" where
  "payout_inv s \<longleftrightarrow> pay_keyed s \<and> observed_live s \<and> claims_settle s \<and> locked_prices s"

lemma payout_inv_empty: "payout_inv (empty_db sha now)"
  by (simp add: payout_inv_def pay_keyed_def observed_live_def claims_settle_def locked_prices_def empty_db_def)

lemma payout_inv_parts:
  assumes "payout_inv s"
  shows "pay_keyed s" and "observed_live s" and "claims_settle s" and "locked_prices s"
  using assms by (simp_all add: payout_inv_def)

section \<open>Steps that leave the obligations alone\<close>

text \<open>What the rest of the system may do to the submissions behind the obligations.\<close>

definition bounty_lock :: "submission_row \<Rightarrow> rao \<times> string" where
  "bounty_lock x = (s_bounty_amount_rao x, s_review_policy_version x)"

definition obligations_kept :: "db \<Rightarrow> db \<Rightarrow> bool" where
  "obligations_kept s s' \<longleftrightarrow> pay_same s s' \<and>
     (\<forall>x \<in> set (submissions s). \<exists>y \<in> set (submissions s'). s_id y = s_id x \<and> bounty_lock y = bounty_lock x \<and>
        (s_reward_status x \<noteq> INELIGIBLE \<longrightarrow> s_reward_status y \<noteq> INELIGIBLE \<or>
           (\<forall>e \<in> set (reward_events s). rw_submission_id e = s_id x \<longrightarrow> \<not> rw_chain_observed e)))"

lemma obligations_kept_refl: "obligations_kept s s"
  by (auto simp: obligations_kept_def pay_same_def)

lemma obligations_kept_trans:
  assumes "obligations_kept s s1" and "obligations_kept s1 s2"
  shows "obligations_kept s s2"
  unfolding obligations_kept_def
proof (intro conjI ballI)
  show "pay_same s s2" using assms by (simp add: obligations_kept_def pay_same_def)
  have ev: "reward_events s1 = reward_events s" using assms(1) by (simp add: obligations_kept_def pay_same_def)
  fix x assume "x \<in> set (submissions s)"
  with assms(1) obtain y where y: "y \<in> set (submissions s1)" "s_id y = s_id x" "bounty_lock y = bounty_lock x"
    "s_reward_status x \<noteq> INELIGIBLE \<longrightarrow> s_reward_status y \<noteq> INELIGIBLE \<or>
       (\<forall>e \<in> set (reward_events s). rw_submission_id e = s_id x \<longrightarrow> \<not> rw_chain_observed e)"
    unfolding obligations_kept_def by blast
  with assms(2) obtain z where "z \<in> set (submissions s2)" "s_id z = s_id y" "bounty_lock z = bounty_lock y"
    "s_reward_status y \<noteq> INELIGIBLE \<longrightarrow> s_reward_status z \<noteq> INELIGIBLE \<or>
       (\<forall>e \<in> set (reward_events s1). rw_submission_id e = s_id y \<longrightarrow> \<not> rw_chain_observed e)"
    unfolding obligations_kept_def by blast
  with y ev show "\<exists>y \<in> set (submissions s2). s_id y = s_id x \<and> bounty_lock y = bounty_lock x \<and>
      (s_reward_status x \<noteq> INELIGIBLE \<longrightarrow> s_reward_status y \<noteq> INELIGIBLE \<or>
         (\<forall>e \<in> set (reward_events s). rw_submission_id e = s_id x \<longrightarrow> \<not> rw_chain_observed e))"
    by (intro bexI [of _ z]) auto
qed

lemma price_ok_lock: "bounty_lock y = bounty_lock x \<Longrightarrow> price_ok y e = price_ok x e"
  by (simp add: bounty_lock_def price_ok_def capped_policy_def)

lemma kept_inv:
  assumes kept: "obligations_kept s s'" and inv: "payout_inv s"
  shows "payout_inv s'"
proof -
  have same: "reward_events s' = reward_events s" "treasury_payouts s' = treasury_payouts s" "bonuses s' = bonuses s"
    "next_reward_id s' = next_reward_id s" "next_payout_id s' = next_payout_id s"
    using kept by (simp_all add: obligations_kept_def pay_same_def)
  have ids: "s_id ` set (submissions s) \<subseteq> s_id ` set (submissions s')"
  proof (rule image_subsetI)
    fix x assume "x \<in> set (submissions s)"
    with kept obtain y where "y \<in> set (submissions s')" "s_id y = s_id x" unfolding obligations_kept_def by blast
    then show "s_id x \<in> s_id ` set (submissions s')" by (metis imageI)
  qed
  have "pay_keyed s'" using payout_inv_parts(1) [OF inv] ids unfolding pay_keyed_def same by blast
  moreover have "claims_settle s'" using payout_inv_parts(3) [OF inv] unfolding claims_settle_def same .
  moreover have "observed_live s'" unfolding observed_live_def same
  proof (intro ballI impI)
    fix e assume e: "e \<in> set (reward_events s)" "rw_chain_observed e"
    with payout_inv_parts(2) [OF inv] obtain x where "x \<in> set (submissions s)" "s_id x = rw_submission_id e"
      "s_reward_status x \<noteq> INELIGIBLE" unfolding observed_live_def by blast
    with kept e show "\<exists>x \<in> set (submissions s'). s_id x = rw_submission_id e \<and> s_reward_status x \<noteq> INELIGIBLE"
      unfolding obligations_kept_def by metis
  qed
  moreover have "locked_prices s'" unfolding locked_prices_def same
  proof (intro ballI impI)
    fix e assume e: "e \<in> set (reward_events s)" "rw_generation_key e \<noteq> None"
    note l = payout_inv_parts(4) [OF inv, unfolded locked_prices_def, rule_format, OF e]
    then obtain x where "x \<in> set (submissions s)" "s_id x = rw_submission_id e" "price_ok x e" by blast
    with kept have "\<exists>x \<in> set (submissions s'). s_id x = rw_submission_id e \<and> price_ok x e"
      unfolding obligations_kept_def by (metis price_ok_lock)
    with l show "rw_generation_key e = Some (''submission:'' @ str_uuid (rw_submission_id e)) \<and>
        (\<exists>x \<in> set (submissions s'). s_id x = rw_submission_id e \<and> price_ok x e) \<and>
        (\<forall>e' \<in> set (reward_events s). rw_generation_key e' = rw_generation_key e \<longrightarrow> rw_id e' = rw_id e)" by blast
  qed
  ultimately show ?thesis by (simp add: payout_inv_def)
qed

text \<open>The money side only adds submissions.\<close>

lemma intake_kept: "intake_only s s' \<Longrightarrow> obligations_kept s s'"
  by (auto simp: intake_only_def obligations_kept_def)


text \<open>The judgement side, one row at a time.\<close>

lemma row_kept:
  assumes u: "update_submission x' s = Inr (u, s')" and c: "current s x" and d: "distinct (map s_id (submissions s))"
    and same: "s_id x' = s_id x" "bounty_lock x' = bounty_lock x"
    and rw: "s_reward_status x \<noteq> INELIGIBLE \<Longrightarrow> s_reward_status x' \<noteq> INELIGIBLE \<or>
      (\<forall>e \<in> set (reward_events s). rw_submission_id e = s_id x \<longrightarrow> \<not> rw_chain_observed e)"
  shows "obligations_kept s s'"
proof -
  let ?x = "x'\<lparr>s_updated_at := clock s\<rparr>"
  note s' = update_submission_effect(1) [OF u c same(1) d]
  from c obtain t where t: "find_row s_id (s_id x) (submissions s) = Some (x\<lparr>s_updated_at := t\<rparr>)"
    by (auto simp: current_def)
  have "\<exists>z \<in> set (replace_row s_id ?x (submissions s)). s_id z = s_id y \<and> bounty_lock z = bounty_lock y \<and>
      (s_reward_status y \<noteq> INELIGIBLE \<longrightarrow> s_reward_status z \<noteq> INELIGIBLE \<or>
         (\<forall>e \<in> set (reward_events s). rw_submission_id e = s_id y \<longrightarrow> \<not> rw_chain_observed e))"
    if y: "y \<in> set (submissions s)" for y
  proof (cases "s_id y = s_id x")
    case True
    have "y = x\<lparr>s_updated_at := t\<rparr>" using find_row_unique [OF d y] True t by simp
    moreover have "?x \<in> set (replace_row s_id ?x (submissions s))" using y True same by (intro replace_row_mem [of y]) simp_all
    ultimately show ?thesis using same rw by (intro bexI [of _ ?x]) (auto simp: bounty_lock_def)
  next
    case False
    then have "y \<in> set (replace_row s_id ?x (submissions s))" using y same by (force simp: replace_row_def)
    then show ?thesis by blast
  qed
  then show ?thesis by (simp add: obligations_kept_def pay_same_def s')
qed

lemma same_rows_kept: "submissions s' = submissions s \<Longrightarrow> pay_same s s' \<Longrightarrow> obligations_kept s s'"
  by (auto simp: obligations_kept_def)

lemma add_decision_kept: "add_decision x outcome kind who reason nts pub old s = Inr (d, s') \<Longrightarrow> obligations_kept s s'"
  by (drule add_decision_Inr(1)) (simp add: same_rows_kept pay_same_def)

lemma guarded_update_kept:
  assumes g: "guarded_update n guard f s = Inr (b, s')" and d: "distinct (map s_id (submissions s))"
    and f: "\<And>x. s_id (f s x) = s_id x \<and> bounty_lock (f s x) = bounty_lock x \<and> s_reward_status (f s x) = s_reward_status x"
  shows "obligations_kept s s'"
proof (cases "find_row s_id n (submissions s)")
  case (Some x)
  then consider "s' = s" | "update_submission (f s x) s = Inr ((), s')"
    using g by (auto simp: guarded_update_def thenT_Inr_iff split: if_splits)
  then show ?thesis
    by cases (use f [of x] find_row_current [OF Some] in \<open>auto intro: obligations_kept_refl row_kept [OF _ _ d]\<close>)
qed (use g in \<open>simp add: guarded_update_def obligations_kept_refl\<close>)

text \<open>A decision with the row that records it.\<close>

lemma decision_kept:
  assumes a: "add_decision x outcome kind who reason nts pub old s = Inr (d, s1)" and u: "update_submission x' s1 = Inr (u, s')"
    and c: "current s x" and k: "review_keyed s" and same: "s_id x' = s_id x" "bounty_lock x' = bounty_lock x"
    and rw: "s_reward_status x \<noteq> INELIGIBLE \<Longrightarrow> s_reward_status x' \<noteq> INELIGIBLE \<or>
      (\<forall>e \<in> set (reward_events s). rw_submission_id e = s_id x \<longrightarrow> \<not> rw_chain_observed e)"
  shows "obligations_kept s s'"
proof -
  note s1 = add_decision_Inr(1) [OF a]
  have "obligations_kept s1 s'"
  proof (rule row_kept [OF u _ _ same])
    show "current s1 x" "distinct (map s_id (submissions s1))"
      using c k by (simp_all add: s1 current_def review_keyed_def)
    show "s_reward_status x' \<noteq> INELIGIBLE \<or>
        (\<forall>e \<in> set (reward_events s1). rw_submission_id e = s_id x \<longrightarrow> \<not> rw_chain_observed e)"
      if "s_reward_status x \<noteq> INELIGIBLE" using rw [OF that] by (simp add: s1)
  qed
  then show ?thesis using add_decision_kept [OF a] obligations_kept_trans by blast
qed

lemma approve_automatically_kept:
  assumes a: "approve_automatically x s = Inr ((d, x'), s')" and c: "current s x" and k: "review_keyed s"
    and rw: "s_reward_status x = INELIGIBLE"
  shows "obligations_kept s s'"
proof -
  consider n where "add_decision x O_REJECTED ADVISORY ''system'' ''PROBLEM_VERIFIED_IN_BOTH_MODES'' n None None s = Inr (d, s')"
    | outcome reason n s1 x2 where "add_decision x outcome AUTOMATIC ''system'' reason n None None s = Inr (d, s1)"
        "update_submission x2 s1 = Inr ((), s')" "s_id x2 = s_id x" "bounty_lock x2 = bounty_lock x"
    using a by (fastforce simp: approve_automatically_def bindT_Inr_iff thenT_Inr_iff Let_def bounty_lock_def
        split: if_splits option.splits)
  then show ?thesis
  proof cases
    case 1
    then show ?thesis by (rule add_decision_kept)
  next
    case 2
    then show ?thesis using rw by (intro decision_kept [OF 2(1,2) c k]) simp_all
  qed
qed

lemma verdict_kept:
  assumes inv: "review_inv s" and c: "current s x" and r: "record_verification_result sha x v s = Inr (rv, s')"
    and un: "s_verification_status x = UNVERIFIED"
  shows "obligations_kept s s'"
  using r
proof (cases rule: record_verification_result_Inr)
  case (1 run s1 x1 s2)
  let ?ruled = "if vd_accepted v then x\<lparr>s_verification_status := VERIFIED\<rparr>
              else x\<lparr>s_verification_status := V_REJECTED, s_failure_reason := Some (vd_reason_code v)\<rparr>"
  have inv1: "review_inv s1" using inv by (subst review_inv_frame [of s1 s]) (simp_all add: 1(1))
  have c1: "current s1 x" using c by (simp add: 1(1) current_def)
  have kd: "review_keyed t \<Longrightarrow> distinct (map s_id (submissions t))" for t by (simp add: review_keyed_def)
  have k1: "review_keyed s1" using inv1 by (simp add: review_inv_def)
  have ok: "row_ok s1 x" by (rule current_ok [OF inv1 c1])
  then have inel: "s_reward_status x = INELIGIBLE" using un row_ok_unreviewed(2) by fastforce
  from 1(6) un obtain s3 where u: "update_submission ?ruled s1 = Inr ((), s3)"
    and rest: "(if vd_accepted v \<and> \<not> s_manual_review_required ?ruled
              then bindT (approve_automatically ?ruled) (\<lambda>r. ret (snd r)) else ret ?ruled) s3 = Inr (x1, s2)"
    by (auto simp: apply_verdict_def thenT_Inr_iff Let_def)
  have k3: "obligations_kept s1 s3"
    by (rule row_kept [OF u c1 kd [OF k1]]) (simp_all add: bounty_lock_def inel)
  have e3: "review_inv s3 \<and> money_frame s1 s3 \<and> current s3 ?ruled"
    using row_ok_unreviewed(3,4) [OF ok] un ok by (intro lease_update [OF inv1 c1 u]) (auto simp: funding_key_def)
  have k2: "obligations_kept s3 s2"
  proof (cases "vd_accepted v \<and> \<not> s_manual_review_required ?ruled")
    case True
    with rest obtain d where a: "approve_automatically ?ruled s3 = Inr ((d, x1), s2)" by (auto simp: bindT_Inr_iff)
    have "current s3 ?ruled" "review_keyed s3" using e3 by (auto simp: review_inv_def)
    from approve_automatically_kept [OF a this] inel show ?thesis by simp
  next
    case False
    then have "s2 = s3" using rest by (simp only: if_False ret_simps)
    then show ?thesis by (simp add: obligations_kept_refl)
  qed
  note e2 = apply_verdict_effect [OF inv1 c1 1(6)]
  have "obligations_kept s2 s'"
    using e2 by (intro row_kept [OF 1(7), of x1]) (auto simp: bounty_lock_def review_inv_def review_keyed_def)
  moreover have "obligations_kept s s1" by (rule same_rows_kept) (simp_all add: 1(1) pay_same_def)
  ultimately show ?thesis using k3 k2 obligations_kept_trans by blast
qed

lemma observed_not_unsigned: "\<not> reward_event_exists s n \<Longrightarrow>
    \<forall>e \<in> set (reward_events s). rw_submission_id e = n \<longrightarrow> \<not> rw_chain_observed e"
  by (auto simp: reward_event_exists_def list_ex_iff unsigned_event_def)

lemma corrected_kept:
  assumes inv: "review_inv s" and r: "correct_human_decision n old outcome reason who why pub s = Inr (d, s')"
  shows "obligations_kept s s'"
  using r
proof (cases rule: correct_human_decision_Inr)
  case (1 x cur s1)
  have c: "current s x" using 1(1) by (rule find_row_current)
  have id: "s_id x = n" using find_row_Some [OF 1(1)] by simp
  have free: "\<forall>e \<in> set (reward_events s). rw_submission_id e = s_id x \<longrightarrow> \<not> rw_chain_observed e"
    if "s_reward_status x \<noteq> INELIGIBLE" "outcome \<noteq> O_APPROVED"
  proof -
    have "row_ok s x" using current_ok [OF inv c] .
    then have "review_summary s n = APPROVED" using that(1) id by (auto simp: row_ok_def)
    then have "r_decision cur = O_APPROVED" using 1(3) by (auto simp: review_summary_def split: review_outcome.splits)
    then show ?thesis using 1(5) that(2) observed_not_unsigned id by blast
  qed
  have k: "review_keyed s" using inv by (simp add: review_inv_def)
  show ?thesis
    using free by (intro decision_kept [OF 1(7,8) c k]) (auto simp: bounty_lock_def)
qed

lemma review_step_kept:
  assumes "review_step sha s s'" and "review_inv s"
  shows "obligations_kept s s'"
  using assms
proof (induction rule: review_step.induct)
  case (claimed owner secs cap served excluded s c s')
  have d: "distinct (map s_id (submissions s))" using claimed(2) by (simp add: review_inv_def review_keyed_def)
  from claimed(1) show ?case
  proof (cases rule: claim_next_Inr)
    case (one ps x')
    from one(2) show ?thesis
    proof (cases rule: CLAIM_Inr)
      case (one x x'')
      have "current s x" using find_row_unique [OF d one(1)] by (rule find_row_current)
      then show ?thesis by (rule row_kept [OF one(6) _ d]) (simp_all add: one(4) bounty_lock_def)
    qed simp
  qed (simp add: obligations_kept_refl)
next
  case (verdict s n owner x v rv s')
  then have x: "current s x" "s_verification_status x = UNVERIFIED"
    by (auto simp: lock_owned_iff owned_def intro: find_row_current)
  then show ?case using verdict_kept [OF verdict(3) _ verdict(2)] by blast
next
  case (decided n outcome reason who nts pub s d s')
  have k: "review_keyed s" using decided(2) by (simp add: review_inv_def)
  from decided(1) show ?case
  proof (cases rule: record_human_decision_Inr)
    case (1 x s1)
    show ?thesis using 1(4) by (intro decision_kept [OF 1(6,7) find_row_current [OF 1(1)] k]) (auto simp: bounty_lock_def)
  qed
next
  case (corrected n old outcome reason who why pub s d s')
  then show ?case using corrected_kept by blast
qed (auto simp: extend_lease_def release_def release_unconsumed_def thenT_Inr_iff bounty_lock_def review_inv_def
    review_keyed_def elim!: guarded_update_kept)

section \<open>Writes of the paying side\<close>

lemma in_replace_row:
  "y \<in> set (replace_row key r rows) \<longleftrightarrow>
     y = r \<and> (\<exists>x \<in> set rows. key x = key r) \<or> y \<in> set rows \<and> key y \<noteq> key r"
  by (auto simp: replace_row_def)

text \<open>What never changes about an obligation.\<close>

definition same_obligation :: "reward_row \<Rightarrow> reward_row \<Rightarrow> bool" where
  "same_obligation e e' \<longleftrightarrow> rw_id e' = rw_id e \<and> rw_submission_id e' = rw_submission_id e \<and>
     rw_amount_rao e' = rw_amount_rao e \<and> rw_destination_coldkey e' = rw_destination_coldkey e \<and>
     rw_generation_key e' = rw_generation_key e \<and> rw_eligibility_reason e' = rw_eligibility_reason e"

lemma same_obligation_updates [simp]:
  "same_obligation e (confirmed_event e p)" "same_obligation e (submitted_event e p)" "same_obligation e (pending_event e)"
  by (simp_all add: same_obligation_def confirmed_event_def submitted_event_def pending_event_def)

lemma update_reward_inv:
  assumes inv: "payout_inv s" and e: "e \<in> set (reward_events s)" and same: "same_obligation e e'"
    and u: "update_reward e' s = Inr (u, s')"
    and final: "rw_status e = P_CONFIRMED \<and> rw_chain_observed e \<Longrightarrow> rw_status e' = P_CONFIRMED \<and> rw_chain_observed e'"
    and live: "rw_chain_observed e' \<Longrightarrow>
      \<exists>x \<in> set (submissions s). s_id x = rw_submission_id e \<and> s_reward_status x \<noteq> INELIGIBLE"
  shows "payout_inv s'"
proof -
  note p = payout_inv_parts [OF inv]
  have s': "s' = s\<lparr>reward_events := replace_row rw_id e' (reward_events s)\<rparr>" using u by (simp add: update_reward_Inr)
  have d: "distinct (map rw_id (reward_events s))" using p(1) by (simp add: pay_keyed_def)
  have only: "y = e" if "y \<in> set (reward_events s)" "rw_id y = rw_id e" for y
    using that d e by (metis find_row_unique option.inject)
  have split: "y = e' \<or> y \<in> set (reward_events s) \<and> rw_id y \<noteq> rw_id e" if "y \<in> set (reward_events s')" for y
    using that same by (auto simp: s' in_replace_row same_obligation_def)
  have new: "e' \<in> set (reward_events s')" using e same by (auto simp: s' in_replace_row same_obligation_def)
  have keep: "y \<in> set (reward_events s')" if "y \<in> set (reward_events s)" "y \<noteq> e" for y
    using that only same by (auto simp: s' in_replace_row same_obligation_def)
  have "pay_keyed s'" using p(1) e same split by (auto simp: pay_keyed_def s' same_obligation_def in_replace_row)
  moreover have "observed_live s'" unfolding observed_live_def
  proof (intro ballI impI)
    fix y assume y: "y \<in> set (reward_events s')" "rw_chain_observed y"
    have subs: "submissions s' = submissions s" by (simp add: s')
    from split [OF y(1)] show "\<exists>x \<in> set (submissions s'). s_id x = rw_submission_id y \<and> s_reward_status x \<noteq> INELIGIBLE"
      unfolding subs using y(2) live p(2) same by (auto simp: observed_live_def same_obligation_def)
  qed
  moreover have "claims_settle s'"
  proof -
    have "\<exists>y \<in> set (reward_events s'). pays q y" if "\<exists>y \<in> set (reward_events s). pays q y" for q
    proof -
      from that obtain y where y: "y \<in> set (reward_events s)" "pays q y" by blast
      show ?thesis
      proof (cases "y = e")
        case True
        then have "pays q e'" using y(2) final same by (auto simp: pays_def same_obligation_def)
        then show ?thesis using new by blast
      qed (use y keep in blast)
    qed
    moreover have keep: "treasury_payouts s' = treasury_payouts s" "bonuses s' = bonuses s" by (simp_all add: s')
    ultimately show ?thesis using p(3) unfolding claims_settle_def keep by blast
  qed
  moreover have "locked_prices s'"
  proof -
    have price: "price_ok x e' = price_ok x e" for x using same by (simp add: price_ok_def same_obligation_def)
    have old: "\<exists>z \<in> set (reward_events s). rw_id z = rw_id y \<and> rw_generation_key z = rw_generation_key y \<and>
        rw_submission_id z = rw_submission_id y \<and> (\<forall>x. price_ok x z = price_ok x y)" if "y \<in> set (reward_events s')" for y
      using split [OF that] e price same by (auto simp: same_obligation_def intro: bexI [of _ e])
    show ?thesis unfolding locked_prices_def
    proof (intro ballI impI)
      fix y assume y: "y \<in> set (reward_events s')" "rw_generation_key y \<noteq> None"
      from old [OF y(1)] obtain z where z: "z \<in> set (reward_events s)" "rw_id z = rw_id y"
        "rw_generation_key z = rw_generation_key y" "rw_submission_id z = rw_submission_id y" "\<forall>x. price_ok x z = price_ok x y"
        by blast
      have "rw_generation_key z \<noteq> None" using y(2) z(3) by simp
      from p(4) [unfolded locked_prices_def, rule_format, OF z(1) this] have l:
        "rw_generation_key z = Some (''submission:'' @ str_uuid (rw_submission_id z))"
        "\<exists>x \<in> set (submissions s). s_id x = rw_submission_id z \<and> price_ok x z"
        "\<forall>w \<in> set (reward_events s). rw_generation_key w = rw_generation_key z \<longrightarrow> rw_id w = rw_id z"
        by blast+
      have uniq: "rw_id w = rw_id y" if "w \<in> set (reward_events s')" "rw_generation_key w = rw_generation_key y" for w
        using old [OF that(1)] l(3) z that(2) by metis
      have subs: "submissions s' = submissions s" by (simp add: s')
      show "rw_generation_key y = Some (''submission:'' @ str_uuid (rw_submission_id y)) \<and>
         (\<exists>x \<in> set (submissions s'). s_id x = rw_submission_id y \<and> price_ok x y) \<and>
         (\<forall>w \<in> set (reward_events s'). rw_generation_key w = rw_generation_key y \<longrightarrow> rw_id w = rw_id y)"
        unfolding subs using l(1,2) z(3-5) uniq by metis
    qed
  qed
  ultimately show ?thesis by (simp add: payout_inv_def)
qed

lemma update_payout_inv:
  assumes inv: "payout_inv s" and p: "p \<in> set (treasury_payouts s)"
    and same: "tp_id p' = tp_id p"
    and u: "update_payout p' s = Inr (u, s')"
    and settles: "tp_reward_event_id p' \<noteq> None \<Longrightarrow> \<exists>e \<in> set (reward_events s). pays p' e"
  shows "payout_inv s'"
proof -
  let ?p = "p'\<lparr>tp_updated_at := clock s\<rparr>"
  note i = payout_inv_parts [OF inv]
  have s': "s' = s\<lparr>treasury_payouts := replace_row tp_id ?p (treasury_payouts s)\<rparr>"
    and chk: "\<forall>c \<in> set (protect_bonus_chain_binding s ?p @ payout_checks ?p @ payout_keys s ?p). snd c"
    using u by (simp_all add: update_payout_Inr Let_def)
  have free: "tp_reward_event_id ?p \<noteq> None \<longrightarrow> (\<forall>b \<in> set (bonuses s). tb_treasury_payout_id b \<noteq> Some (tp_id ?p))"
    and st: "(tp_status ?p = CLAIMED) = (tp_reward_event_id ?p \<noteq> None)"
    and uniq: "unique_on tp_id tp_reward_event_id ?p (treasury_payouts s)"
    using chk by (auto simp: protect_bonus_chain_binding_def payout_checks_def payout_keys_def list_ex_iff)
  have split: "q = ?p \<or> q \<in> set (treasury_payouts s) \<and> tp_id q \<noteq> tp_id p" if "q \<in> set (treasury_payouts s')" for q
    using that same by (auto simp: s' in_replace_row)
  have other: "tp_reward_event_id q \<noteq> tp_reward_event_id ?p"
    if "q \<in> set (treasury_payouts s)" "tp_id q \<noteq> tp_id p" "tp_reward_event_id ?p \<noteq> None" for q
    using uniq that same by (auto simp: unique_on_def list_all_iff)
  have "pay_keyed s'" using i(1) p same split by (auto simp: pay_keyed_def s' in_replace_row)
  moreover have keep: "reward_events s' = reward_events s" "bonuses s' = bonuses s" "submissions s' = submissions s"
    by (simp_all add: s')
  moreover have "observed_live s'" using i(2) unfolding observed_live_def keep .
  moreover have "locked_prices s'" using i(4) unfolding locked_prices_def keep .
  moreover have "claims_settle s'" unfolding claims_settle_def
  proof (intro ballI conjI impI)
    fix q assume q: "q \<in> set (treasury_payouts s')"
    note c = i(3) [unfolded claims_settle_def, rule_format]
    show "(tp_status q = CLAIMED) = (tp_reward_event_id q \<noteq> None)" using split [OF q] st c by blast
    assume some: "tp_reward_event_id q \<noteq> None"
    show "\<exists>e \<in> set (reward_events s'). pays q e"
    proof (cases "q = ?p")
      case True
      then have "\<exists>e \<in> set (reward_events s). pays p' e" using some settles by simp
      then show ?thesis unfolding keep True pays_def by simp
    next
      case False
      then show ?thesis unfolding keep using split [OF q] some c by blast
    qed
    show "tb_treasury_payout_id b \<noteq> Some (tp_id q)" if "b \<in> set (bonuses s')" for b
      using that split [OF q] free some c unfolding keep by blast
    fix r assume r: "r \<in> set (treasury_payouts s')" "tp_reward_event_id r = tp_reward_event_id q"
    show "tp_id r = tp_id q"
    proof (cases "q = ?p")
      case True
      then show ?thesis using split [OF r(1)] other [of r] r(2) some by auto
    next
      case False
      then have q': "q \<in> set (treasury_payouts s)" "tp_id q \<noteq> tp_id p" using split [OF q] by auto
      show ?thesis using split [OF r(1)]
      proof
        assume "r = ?p"
        then show ?thesis using other [OF q'] r(2) some by auto
      next
        assume "r \<in> set (treasury_payouts s) \<and> tp_id r \<noteq> tp_id p"
        then show ?thesis using c [OF q'(1)] some r(2) by blast
      qed
    qed
  qed
  ultimately show ?thesis by (simp add: payout_inv_def)
qed

text \<open>Identities drawn and not used, and new rows.\<close>

lemma draw_inv:
  assumes "payout_inv s"
  shows "payout_inv (s\<lparr>next_reward_id := Suc (next_reward_id s)\<rparr>)" and "payout_inv (s\<lparr>next_payout_id := Suc (next_payout_id s)\<rparr>)"
proof -
  note p = payout_inv_parts [OF assms]
  have "payout_inv s'" if "reward_events s' = reward_events s" "treasury_payouts s' = treasury_payouts s" "bonuses s' = bonuses s"
    "submissions s' = submissions s" "next_reward_id s \<le> next_reward_id s'" "next_payout_id s \<le> next_payout_id s'" for s'
  proof -
    have "pay_keyed s'" using p(1) that by (auto simp: pay_keyed_def intro: less_le_trans)
    moreover have "observed_live s'" using p(2) unfolding observed_live_def that .
    moreover have "claims_settle s'" using p(3) unfolding claims_settle_def that .
    moreover have "locked_prices s'" using p(4) unfolding locked_prices_def that .
    ultimately show ?thesis by (simp add: payout_inv_def)
  qed
  then show "payout_inv (s\<lparr>next_reward_id := Suc (next_reward_id s)\<rparr>)" "payout_inv (s\<lparr>next_payout_id := Suc (next_payout_id s)\<rparr>)"
    by simp_all
qed

lemma add_reward_inv:
  assumes inv: "payout_inv s" and id: "rw_id r = next_reward_id s" and new: "\<not> rw_chain_observed r"
    and keys: "\<forall>c \<in> set (reward_keys s r). snd c"
    and auto: "rw_generation_key r \<noteq> None \<Longrightarrow> rw_generation_key r = Some (''submission:'' @ str_uuid (rw_submission_id r)) \<and>
      (\<exists>x \<in> set (submissions s). s_id x = rw_submission_id r \<and> price_ok x r)"
  shows "payout_inv (s\<lparr>next_reward_id := Suc (next_reward_id s), reward_events := reward_events s @ [r]\<rparr>)" (is "payout_inv ?s")
proof -
  note p = payout_inv_parts [OF inv]
  have fresh: "rw_id e \<noteq> rw_id r" if "e \<in> set (reward_events s)" for e
    using p(1) that id by (auto simp: pay_keyed_def)
  have fk: "rw_submission_id r \<in> s_id ` set (submissions s)" and uq: "unique_on rw_id rw_generation_key r (reward_events s)"
    using keys by (auto simp: reward_keys_def dest: referencesD)
  have gen: "rw_generation_key e \<noteq> rw_generation_key r"
    if "e \<in> set (reward_events s)" "rw_generation_key r \<noteq> None" for e
    using unique_onD [OF uq _ that(1) fresh [OF that(1)]] that(2) by auto
  have "pay_keyed ?s" using p(1) fresh fk id by (auto simp: pay_keyed_def less_Suc_eq)
  moreover have "observed_live ?s" using p(2) new by (auto simp: observed_live_def)
  moreover have "claims_settle ?s"
  proof -
    have "\<exists>e \<in> set (reward_events ?s). pays q e" if "\<exists>e \<in> set (reward_events s). pays q e" for q using that by auto
    moreover have keep: "treasury_payouts ?s = treasury_payouts s" "bonuses ?s = bonuses s" by simp_all
    ultimately show ?thesis using p(3) unfolding claims_settle_def keep by blast
  qed
  moreover have "locked_prices ?s" unfolding locked_prices_def
  proof (intro ballI impI)
    fix e assume e: "e \<in> set (reward_events ?s)" "rw_generation_key e \<noteq> None"
    have subs: "submissions ?s = submissions s" by simp
    show "rw_generation_key e = Some (''submission:'' @ str_uuid (rw_submission_id e)) \<and>
       (\<exists>x \<in> set (submissions ?s). s_id x = rw_submission_id e \<and> price_ok x e) \<and>
       (\<forall>w \<in> set (reward_events ?s). rw_generation_key w = rw_generation_key e \<longrightarrow> rw_id w = rw_id e)"
    proof (cases "e = r")
      case True
      then show ?thesis unfolding subs using auto gen e(2) by auto
    next
      case False
      then have m: "e \<in> set (reward_events s)" using e(1) by simp
      note l = p(4) [unfolded locked_prices_def, rule_format, OF m e(2)]
      have "rw_id w = rw_id e" if "w \<in> set (reward_events ?s)" "rw_generation_key w = rw_generation_key e" for w
        using that gen [OF m] e(2) l by auto
      then show ?thesis unfolding subs using l by blast
    qed
  qed
  ultimately show ?thesis by (simp add: payout_inv_def)
qed

lemma add_payout_inv:
  assumes inv: "payout_inv s" and id: "tp_id p = next_payout_id s" and none: "tp_reward_event_id p = None" "tp_status p = UNCLAIMED"
  shows "payout_inv (s\<lparr>next_payout_id := Suc (next_payout_id s), treasury_payouts := treasury_payouts s @ [p]\<rparr>)" (is "payout_inv ?s")
proof -
  note i = payout_inv_parts [OF inv]
  have keep: "reward_events ?s = reward_events s" "bonuses ?s = bonuses s" "submissions ?s = submissions s" by simp_all
  have "pay_keyed ?s" using i(1) id by (auto simp: pay_keyed_def less_Suc_eq)
  moreover have "observed_live ?s" using i(2) unfolding observed_live_def keep .
  moreover have "locked_prices ?s" using i(4) unfolding locked_prices_def keep .
  moreover have "claims_settle ?s" unfolding claims_settle_def keep
  proof (intro ballI)
    fix q assume "q \<in> set (treasury_payouts ?s)"
    then have "q = p \<or> q \<in> set (treasury_payouts s)" by auto
    then show "(tp_status q = CLAIMED) = (tp_reward_event_id q \<noteq> None) \<and>
      (tp_reward_event_id q \<noteq> None \<longrightarrow>
        (\<exists>e \<in> set (reward_events s). pays q e) \<and>
        (\<forall>r \<in> set (treasury_payouts ?s). tp_reward_event_id r = tp_reward_event_id q \<longrightarrow> tp_id r = tp_id q) \<and>
        (\<forall>b \<in> set (bonuses s). tb_treasury_payout_id b \<noteq> Some (tp_id q)))"
    proof
      assume "q = p"
      then show ?thesis using none by simp
    next
      assume q: "q \<in> set (treasury_payouts s)"
      note c = i(3) [unfolded claims_settle_def, rule_format, OF q]
      have "tp_id r = tp_id q" if "tp_reward_event_id q \<noteq> None" "r \<in> set (treasury_payouts ?s)"
        "tp_reward_event_id r = tp_reward_event_id q" for r
        using that none c by auto
      then show ?thesis using c by blast
    qed
  qed
  ultimately show ?thesis by (simp add: payout_inv_def)
qed

text \<open>The bonus ledger takes only transfers that pay no reward.\<close>

lemma bonuses_inv:
  assumes inv: "payout_inv s"
    and b: "\<And>b n p. b \<in> set bs \<Longrightarrow> tb_treasury_payout_id b = Some n \<Longrightarrow> p \<in> set (treasury_payouts s) \<Longrightarrow> tp_id p = n \<Longrightarrow>
      tp_reward_event_id p = None"
  shows "payout_inv (s\<lparr>bonuses := bs\<rparr>)" (is "payout_inv ?s")
proof -
  note i = payout_inv_parts [OF inv]
  have keep: "reward_events ?s = reward_events s" "treasury_payouts ?s = treasury_payouts s" "submissions ?s = submissions s"
    "bonuses ?s = bs" by simp_all
  have "pay_keyed ?s" using i(1) by (simp add: pay_keyed_def)
  moreover have "observed_live ?s" using i(2) unfolding observed_live_def keep .
  moreover have "locked_prices ?s" using i(4) unfolding locked_prices_def keep .
  moreover have "claims_settle ?s" using i(3) b unfolding claims_settle_def keep by blast
  ultimately show ?thesis by (simp add: payout_inv_def)
qed

lemma bonus_free:
  assumes inv: "payout_inv s" and b: "b \<in> set (bonuses s)" "tb_treasury_payout_id b = Some n"
    and p: "p \<in> set (treasury_payouts s)" "tp_id p = n"
  shows "tp_reward_event_id p = None"
  using payout_inv_parts(3) [OF inv] b p unfolding claims_settle_def by blast

lemma update_bonus_inv:
  assumes inv: "payout_inv s" and u: "update_bonus b s = Inr (u, s')"
  shows "payout_inv s'"
proof (cases "find_row tb_id (tb_id b) (bonuses s)")
  case None
  then show ?thesis using u inv by (simp add: update_bonus_Inr)
next
  case (Some old)
  then have s': "s' = s\<lparr>bonuses := replace_row tb_id b (bonuses s)\<rparr>"
    and chk: "\<forall>c \<in> set (protect_trajectory_payment s old b @ bonus_checks b @ bonus_keys s b). snd c"
    using u by (simp_all add: update_bonus_Inr)
  have d: "distinct (map tp_id (treasury_payouts s))" using payout_inv_parts(1) [OF inv] by (simp add: pay_keyed_def)
  show ?thesis unfolding s'
  proof (rule bonuses_inv [OF inv])
    fix y n p assume y: "y \<in> set (replace_row tb_id b (bonuses s))" "tb_treasury_payout_id y = Some n"
      and p: "p \<in> set (treasury_payouts s)" "tp_id p = n"
    show "tp_reward_event_id p = None"
    proof (cases "y = b")
      case True
      then have "tb_status b = ''CONFIRMED''" using chk y(2) by (auto simp: bonus_checks_def)
      then obtain q where "q \<in> set (treasury_payouts s)" "tb_treasury_payout_id b = Some (tp_id q)" "bonus_transfer_matches b q"
        using chk by (auto simp: protect_trajectory_payment_def list_ex_iff)
      then have "q = p" using y(2) True p d by (metis find_row_unique option.inject)
      then show ?thesis using \<open>bonus_transfer_matches b q\<close> by (simp add: bonus_transfer_matches_def)
    next
      case False
      then have "y \<in> set (bonuses s)" using y(1) by (auto simp: in_replace_row)
      then show ?thesis using bonus_free [OF inv _ y(2) p] by blast
    qed
  qed
qed

lemma insert_bonus_inv:
  assumes inv: "payout_inv s" and u: "insert_bonus b s = Inr (u, s')"
  shows "payout_inv s'"
proof -
  have s': "s' = s\<lparr>bonuses := bonuses s @ [b]\<rparr>" and none: "tb_treasury_payout_id b = None"
    using u by (auto simp: insert_bonus_Inr bonus_checks_def bonus_preparation_ok_def)
  show ?thesis unfolding s' using none bonus_free [OF inv] by (intro bonuses_inv [OF inv]) auto
qed

section \<open>Every step preserves it\<close>

text \<open>A write that touches none of the tables of the money side and of the judgement side.\<close>

definition judged_same :: "db \<Rightarrow> db \<Rightarrow> bool" where
  "judged_same s s' \<longleftrightarrow> submissions s' = submissions s \<and> decisions s' = decisions s \<and>
     next_decision_id s' = next_decision_id s \<and> runs s' = runs s \<and> ledger s' = ledger s \<and> intents s' = intents s \<and>
     transfers s' = transfers s \<and> next_ledger_id s' = next_ledger_id s \<and> next_uuid s' = next_uuid s \<and>
     next_transfer_id s' = next_transfer_id s \<and> clock s' = clock s \<and> deposits s' = deposits s \<and>
     accounts s' = accounts s \<and> wallets s' = wallets s \<and> sessions s' = sessions s \<and> challenges s' = challenges s \<and>
     orders s' = orders s \<and> invitations s' = invitations s \<and> redemptions s' = redemptions s"

text \<open>What a step of the paying side leaves true.\<close>

definition sound :: "db \<Rightarrow> db \<Rightarrow> bool" where
  "sound s s' \<longleftrightarrow> review_inv s' \<and> payout_inv s' \<and> money_frame s s' \<and> history s s'"

lemma sound_trans: "sound s s1 \<Longrightarrow> sound s1 s2 \<Longrightarrow> sound s s2"
  by (auto simp: sound_def intro: money_frame_trans history_trans)

lemma sound_refl: "review_inv s \<Longrightarrow> payout_inv s \<Longrightarrow> sound s s"
  by (simp add: sound_def money_frame_refl history_refl)

lemma judged_same_sound:
  assumes "judged_same s s'" and "review_inv s" and "payout_inv s'"
  shows "sound s s'"
proof -
  have "review_inv s'" using assms(1,2) by (subst review_inv_frame [of s' s]) (simp_all add: judged_same_def)
  then show ?thesis using assms by (simp add: sound_def judged_same_def money_frame_def history_def)
qed

lemma quiet_sound:
  assumes "judged_same s s'" and "pay_same s s'" and "review_inv s" and "payout_inv s"
  shows "sound s s'"
proof -
  have "obligations_kept s s'" using assms(1,2) by (simp add: same_rows_kept judged_same_def)
  then show ?thesis using assms kept_inv judged_same_sound by blast
qed

lemma status_sound:
  assumes inv: "review_inv s" "payout_inv s" and x: "find_row s_id n (submissions s) = Some x"
    and st: "s_reward_status x \<in> {ELIGIBLE, REWARDED}" "st \<in> {ELIGIBLE, REWARDED}"
    and u: "update_submission (x\<lparr>s_reward_status := st\<rparr>) s = Inr (u, s')"
  shows "sound s s'" and "pay_same s s'"
    and "\<exists>y \<in> set (submissions s'). s_id y = n \<and> s_reward_status y \<noteq> INELIGIBLE"
proof -
  have c: "current s x" using x by (rule find_row_current)
  have d: "distinct (map s_id (submissions s))" using inv(1) by (simp add: review_inv_def review_keyed_def)
  have id: "s_id x = n" using find_row_Some [OF x] by simp
  have "row_ok s (x\<lparr>s_reward_status := st\<rparr>) = row_ok s x" using st by (auto simp: row_ok_def)
  then have "review_inv s' \<and> money_frame s s' \<and> current s' (x\<lparr>s_reward_status := st\<rparr>)"
    by (intro lease_update [OF inv(1) c u]) (simp_all add: funding_key_def)
  moreover have "obligations_kept s s'"
    using st by (intro row_kept [OF u c d]) (auto simp: bounty_lock_def)
  moreover have "history s s'" using u by (rule update_submission_history)
  ultimately show "sound s s'" "pay_same s s'" using kept_inv inv(2) by (auto simp: sound_def obligations_kept_def)
  from \<open>review_inv s' \<and> money_frame s s' \<and> current s' (x\<lparr>s_reward_status := st\<rparr>)\<close>
  obtain t where "find_row s_id n (submissions s') = Some (x\<lparr>s_reward_status := st, s_updated_at := t\<rparr>)"
    using id by (auto simp: current_def)
  from find_row_Some [OF this] st(2) show "\<exists>y \<in> set (submissions s'). s_id y = n \<and> s_reward_status y \<noteq> INELIGIBLE"
    by (intro bexI [of _ "x\<lparr>s_reward_status := st, s_updated_at := t\<rparr>"]) auto
qed

lemma update_reward_same: "update_reward e s = Inr (u, s') \<Longrightarrow> judged_same s s'"
  by (auto simp: update_reward_Inr judged_same_def)

lemma update_payout_same: "update_payout p s = Inr (u, s') \<Longrightarrow> judged_same s s' \<and> reward_events s' = reward_events s"
  by (auto simp: update_payout_Inr judged_same_def Let_def)

lemma event_sound:
  assumes "review_inv s" and "payout_inv s"
  shows "sound s (s\<lparr>next_event_id := k, events := evs\<rparr>)"
  using assms by (intro quiet_sound) (simp_all add: judged_same_def pay_same_def)

text \<open>Binding the transfer to the obligation it settled.\<close>

lemma bind_claim_sound:
  assumes inv: "review_inv s" "payout_inv s" and b: "bind_claim claims e s = Inr (u, s')"
    and e: "e' \<in> set (reward_events s)" "rw_id e' = rw_id e" "rw_status e' = P_CONFIRMED" "rw_chain_observed e'"
    and c: "\<And>c. claims = Some c \<Longrightarrow> tp_id c \<in> tp_id ` set (treasury_payouts s) \<and>
      tp_amount_rao c = rw_amount_rao e' \<and> tp_destination_coldkey c = rw_destination_coldkey e'"
  shows "sound s s'"
proof (cases claims)
  case None
  then show ?thesis using b inv by (simp add: bind_claim_Inr sound_refl)
next
  case (Some c0)
  let ?c = "c0\<lparr>tp_status := CLAIMED, tp_reward_event_id := Some (rw_id e)\<rparr>"
  have u: "update_payout ?c s = Inr ((), s')" using b Some by (simp add: bind_claim_Inr)
  from c [OF Some] obtain p where p: "p \<in> set (treasury_payouts s)" "tp_id ?c = tp_id p" by auto
  have "pays ?c e'" using c [OF Some] e by (simp add: pays_def)
  then have "payout_inv s'" using e(1) by (intro update_payout_inv [OF inv(2) p u]) blast
  then show ?thesis using judged_same_sound update_payout_same [OF u] inv(1) by blast
qed

lemma settle_event_sound:
  assumes inv: "review_inv s" "payout_inv s" and e: "e \<in> set (reward_events s)"
    and r: "settle_event e p claims s = Inr (u, s')"
    and c: "\<And>c. claims = Some c \<Longrightarrow> tp_id c \<in> tp_id ` set (treasury_payouts s) \<and>
      tp_amount_rao c = rw_amount_rao e \<and> tp_destination_coldkey c = rw_destination_coldkey e"
  shows "sound s s'"
  using r
proof (cases rule: settle_event_Inr)
  case (already x)
  then show ?thesis using c by (intro bind_claim_sound [OF inv already(5) e]) auto
next
  case (paid x s1 s2 s3 ev)
  let ?e = "confirmed_event e p"
  have 1: "sound s s1 \<and> pay_same s s1 \<and>
      (\<exists>y \<in> set (submissions s1). s_id y = rw_submission_id e \<and> s_reward_status y \<noteq> INELIGIBLE)"
  proof (cases "s_reward_status x = REWARDED")
    case True
    then show ?thesis using paid(4) inv find_row_Some [OF paid(1)]
      by (auto simp: sound_refl pay_same_def intro: bexI [of _ x])
  next
    case False
    then have u1: "update_submission (x\<lparr>s_reward_status := REWARDED\<rparr>) s = Inr ((), s1)" using paid(4) by simp
    from status_sound [OF inv paid(1,3) _ u1] show ?thesis by simp
  qed
  then have inv1: "review_inv s1" "payout_inv s1" and e1: "e \<in> set (reward_events s1)"
    and tp1: "treasury_payouts s1 = treasury_payouts s" using e by (auto simp: sound_def pay_same_def)
  have p2: "payout_inv s2"
    using 1 by (intro update_reward_inv [OF inv1(2) e1 same_obligation_updates(1) paid(5)]) (auto simp: confirmed_event_def)
  have s12: "sound s1 s2" using judged_same_sound [OF update_reward_same [OF paid(5)] inv1(1) p2] .
  then have inv2: "review_inv s2" "payout_inv s2" by (simp_all add: sound_def)
  have s2: "s2 = s1\<lparr>reward_events := replace_row rw_id ?e (reward_events s1)\<rparr>" using paid(5) by (simp add: update_reward_Inr)
  have id: "rw_id ?e = rw_id e" by (simp add: confirmed_event_def)
  have e2: "?e \<in> set (reward_events s2)" using e1 id by (auto simp: s2 in_replace_row)
  have "treasury_payouts s2 = treasury_payouts s" by (simp add: s2 tp1)
  then have s23: "sound s2 s3" using c
    by (intro bind_claim_sound [OF inv2 paid(6) e2 id]) (simp_all add: confirmed_event_def)
  then have "sound s3 s'" unfolding paid(7) by (intro event_sound) (simp_all add: sound_def)
  then show ?thesis using 1 s12 s23 sound_trans by blast
qed

lemma claim_payout_sound:
  assumes inv: "review_inv s" "payout_inv s" and r: "claim_payout n s = Inr (r, s')"
  shows "sound s s'"
  using r
proof (cases rule: claim_payout_Inr)
  case left
  then show ?thesis using inv by (simp add: sound_refl)
next
  case (settled p u e)
  have "tp_id p \<in> tp_id ` set (treasury_payouts s)" using find_row_Some [OF settled(1)] by blast
  moreover have "tp_amount_rao p = rw_amount_rao e" "tp_destination_coldkey p = rw_destination_coldkey e"
    using settled(7) by (simp_all add: same_payout_def row_facts_def)
  ultimately show ?thesis by (intro settle_event_sound [OF inv settled(6,5)]) auto
qed

lemma bind_payout_sound:
  assumes inv: "review_inv s" "payout_inv s" and r: "bind_payout n m remark s = Inr (u, s')"
  shows "sound s s'"
  using r
proof (cases rule: bind_payout_Inr)
  case (1 p e)
  have "tp_id p \<in> tp_id ` set (treasury_payouts s)" using find_row_Some [OF 1(1)] by blast
  moreover have "e \<in> set (reward_events s)" using find_row_Some [OF 1(4)] by simp
  ultimately show ?thesis using 1(5,6) by (intro settle_event_sound [OF inv _ 1(7)]) auto
qed

lemma mark_submitted_sound:
  assumes inv: "review_inv s" "payout_inv s" and r: "mark_submitted ob s = Inr (r, s')"
  shows "sound s s'"
  using r
proof (cases rule: mark_submitted_Inr)
  case same
  then show ?thesis using inv by (simp add: sound_refl)
next
  case (marked e)
  from marked(5) show ?thesis
  proof (cases rule: mark_event_Inr)
    case (1 x s1 s2 ev)
    have first: "sound s s1 \<and> pay_same s s1 \<and>
        (\<exists>y \<in> set (submissions s1). s_id y = rw_submission_id e \<and> s_reward_status y \<noteq> INELIGIBLE)"
      using 1(2)
    proof
      assume "s_reward_status x = ELIGIBLE \<and> s1 = s"
      then show ?thesis using inv find_row_Some [OF 1(1)] by (auto simp: sound_refl pay_same_def intro: bexI [of _ x])
    next
      assume "s_reward_status x = REWARDED \<and> \<not> rw_chain_observed e \<and>
        update_submission (x\<lparr>s_reward_status := ELIGIBLE\<rparr>) s = Inr ((), s1)"
      then have u1: "update_submission (x\<lparr>s_reward_status := ELIGIBLE\<rparr>) s = Inr ((), s1)" "s_reward_status x \<in> {ELIGIBLE, REWARDED}"
        by simp_all
      from status_sound [OF inv 1(1) u1(2) _ u1(1)] show ?thesis by simp
    qed
    then have inv1: "review_inv s1" "payout_inv s1" "e \<in> set (reward_events s1)"
      using marked(1) by (auto simp: sound_def pay_same_def)
    have "payout_inv s2"
      using first marked(3)
      by (intro update_reward_inv [OF inv1(2,3) same_obligation_updates(2) 1(3)]) auto
    then have "sound s1 s2" using judged_same_sound [OF update_reward_same [OF 1(3)] inv1(1)] by blast
    moreover from this have "sound s2 s'" unfolding 1(4) by (intro event_sound) (simp_all add: sound_def)
    ultimately show ?thesis using first sound_trans by blast
  qed
qed

lemma revert_submitted_sound:
  assumes inv: "review_inv s" "payout_inv s" and r: "revert_submitted sp now s = Inr (b, s')"
  shows "sound s s'"
  using r
proof (cases rule: revert_submitted_Inr)
  case same
  then show ?thesis using inv by (simp add: sound_refl)
next
  case (undone e s1 ev)
  have "e \<in> set (reward_events s)" using find_row_Some [OF undone(2)] by simp
  then have "payout_inv s1" using undone(3)
    by (intro update_reward_inv [OF inv(2) _ same_obligation_updates(3) undone(5)]) (auto simp: pending_event_def)
  then have "sound s s1" using judged_same_sound [OF update_reward_same [OF undone(5)] inv(1)] by blast
  moreover from this have "sound s1 s'" unfolding undone(6) by (intro event_sound) (simp_all add: sound_def)
  ultimately show ?thesis by (rule sound_trans)
qed

text \<open>Seeding: the trigger is what keeps the price of an automatic instruction.\<close>

lemma enforced_price:
  assumes chk: "\<forall>c \<in> set (enforce_locked_reward_event s r). snd c" and g: "rw_generation_key r = Some key"
  shows "key = ''submission:'' @ str_uuid (rw_submission_id r)"
    and "\<exists>x \<in> set (submissions s). s_id x = rw_submission_id r \<and> s_reward_status x = ELIGIBLE \<and> price_ok x r"
proof -
  obtain x where x: "find_row s_id (rw_submission_id r) (submissions s) = Some x"
    using chk g by (auto simp: enforce_locked_reward_event_def split: option.splits)
  have el: "s_reward_status x = ELIGIBLE" "key = ''submission:'' @ str_uuid (rw_submission_id r)"
    using chk g x by (simp_all add: enforce_locked_reward_event_def)
  then show "key = ''submission:'' @ str_uuid (rw_submission_id r)" by simp
  have "(\<forall>c \<in> set (bounty_lock_checks x r). snd c) \<or> (\<exists>d. \<forall>c \<in> set (defect_checks d x r). snd c)"
    using chk g x by (auto simp: enforce_locked_reward_event_def split: option.splits if_splits)
  then have "price_ok x r"
    by (auto simp: bounty_lock_checks_def defect_checks_def price_ok_def)
  then show "\<exists>x \<in> set (submissions s). s_id x = rw_submission_id r \<and> s_reward_status x = ELIGIBLE \<and> price_ok x r"
    using el(1) find_row_Some [OF x] by blast
qed

lemma seed_one_sound:
  assumes inv: "review_inv s" "payout_inv s" and r: "seed_one quote c s = Inr (k, s')"
  shows "sound s s'"
proof -
  let ?s = "s\<lparr>next_reward_id := Suc (next_reward_id s)\<rparr>"
  have draw: "sound s ?s"
  proof -
    have "payout_inv ?s" using inv(2) by (rule draw_inv)
    then show ?thesis using inv(1) by (intro judged_same_sound) (simp_all add: judged_same_def)
  qed
  from r consider "s' = s"
    | row b where "insert_reward_or_skip row ?s = Inr (b, s')" "rw_id row = next_reward_id s" "\<not> rw_chain_observed row"
        "rw_generation_key row \<noteq> None"
    by (auto simp: seed_one_def bindT_Inr_iff split: sum.splits option.splits)
  then show ?thesis
  proof cases
    case 1
    then show ?thesis using inv by (simp add: sound_refl)
  next
    case (2 row b)
    show ?thesis
    proof (cases "rw_generation_key row \<in> rw_generation_key ` set (reward_events s)")
      case True
      then have "s' = ?s" using 2(1) by (simp add: insert_reward_or_skip_Inr)
      then show ?thesis using draw by simp
    next
      case False
      then have s': "s' = ?s\<lparr>reward_events := reward_events s @ [row]\<rparr>"
        and keys: "\<forall>c \<in> set (reward_keys ?s row). snd c"
        and enf: "\<forall>c \<in> set (enforce_locked_reward_event ?s row). snd c"
        using 2(1) by (simp_all add: insert_reward_or_skip_Inr)
      obtain key where g: "rw_generation_key row = Some key" using 2(4) by auto
      have ok: "rw_generation_key row = Some (''submission:'' @ str_uuid (rw_submission_id row)) \<and>
          (\<exists>x \<in> set (submissions s). s_id x = rw_submission_id row \<and> price_ok x row)"
        using enforced_price [OF enf g] g by auto
      have keys': "\<forall>c \<in> set (reward_keys s row). snd c" using keys by (simp add: reward_keys_def)
      have "payout_inv s'" using add_reward_inv [OF inv(2) 2(2,3) keys'] ok by (simp add: s')
      then show ?thesis using inv(1) by (intro judged_same_sound) (simp_all add: judged_same_def s')
    qed
  qed
qed

lemma seed_instructions_sound:
  "seed_instructions quote cs s = Inr (k, s') \<Longrightarrow> review_inv s \<Longrightarrow> payout_inv s \<Longrightarrow> sound s s'"
proof (induction cs arbitrary: s k)
  case (Cons c cs)
  then obtain n s1 m where 1: "seed_one quote c s = Inr (n, s1)" and 2: "seed_instructions quote cs s1 = Inr (m, s')"
    by (auto simp: bindT_Inr_iff)
  have "sound s s1" using seed_one_sound [OF Cons.prems(2,3) 1] .
  moreover have "sound s1 s'" using calculation Cons.IH [OF 2] by (simp add: sound_def)
  ultimately show ?case by (rule sound_trans)
qed (simp add: sound_refl)

text \<open>The outbox, the cursor and the instruction log touch nothing else.\<close>

definition quiet :: "db \<Rightarrow> db \<Rightarrow> bool" where
  "quiet s s' \<longleftrightarrow> judged_same s s' \<and> pay_same s s'"

lemma quiet_refl: "quiet s s" and quiet_trans: "quiet s s1 \<Longrightarrow> quiet s1 s2 \<Longrightarrow> quiet s s2"
  by (auto simp: quiet_def judged_same_def pay_same_def)

lemmas quiet_defs = quiet_def judged_same_def pay_same_def

lemma insert_deliveries_quiet: "insert_deliveries ds s = Inr (k, s') \<Longrightarrow> quiet s s'"
proof (induction ds arbitrary: s k)
  case (Cons d ds)
  then obtain b s1 m where 1: "insert_delivery d s = Inr (b, s1)" and 2: "insert_deliveries ds s1 = Inr (m, s')"
    by (auto simp: bindT_Inr_iff)
  from 1 have "quiet s s1" by (auto simp: insert_delivery_Inr quiet_defs split: if_splits)
  then show ?case using Cons.IH [OF 2] by (rule quiet_trans)
qed (simp add: quiet_refl)

lemma seed_deliveries_quiet: "seed_deliveries ms s = Inr (k, s') \<Longrightarrow> quiet s s'"
proof (induction ms arbitrary: s k)
  case (Cons m ms)
  obtain w u where m: "m = (w, u)" by (cases m)
  with Cons.prems obtain n s1 j where 1: "insert_deliveries (map (new_delivery s w u) (filter (notifiable s) (reward_events s))) s = Inr (n, s1)"
    and 2: "seed_deliveries ms s1 = Inr (j, s')" by (auto simp: bindT_Inr_iff)
  show ?case using insert_deliveries_quiet [OF 1] Cons.IH [OF 2] by (rule quiet_trans)
qed (simp add: quiet_refl)

lemma outbox_quiet:
  "claim_delivery worker secs s = Inr (c, s') \<Longrightarrow> quiet s s'"
  "finish_delivery worker secs cl err s = Inr (u, s') \<Longrightarrow> quiet s s'"
  by (auto simp: claim_delivery_def finish_delivery_def bindT_Inr_iff thenT_Inr_iff update_delivery_Inr quiet_defs Let_def
      split: list.splits option.splits if_splits)

lemma payout_cursor_quiet:
  "open_payout_cursor network ck hk netuid since start ts watcher s = Inr (c, s') \<Longrightarrow> quiet s s'"
  "advance_payout_cursor blk now watcher s = Inr (c, s') \<Longrightarrow> quiet s s'"
  by (auto simp: open_payout_cursor_def advance_payout_cursor_def thenT_Inr_iff insert_payout_cursor_Inr update_payout_cursor_Inr
      quiet_defs Let_def split: option.splits if_splits)

lemma record_action_quiet: "record_action e x d action who reason evidence s = Inr (r, s') \<Longrightarrow> quiet s s'"
  by (auto simp: record_action_def bindT_Inr_iff thenT_Inr_iff insert_action_Inr insert_event_Inr quiet_defs Let_def)

lemma change_instruction_Inr:
  assumes "change_instruction n x d a action who reason evidence s = Inr (r, s')"
  obtains e sub dec where "find_row rw_id n (reward_events s) = Some e" and "rw_submission_id e = x" and "unsigned_event e"
    and "find_row s_id x (submissions s) = Some sub" and "s_reward_status sub = ELIGIBLE"
    and "latest_binding_decision s x = Some dec" and "r_id dec = d" and "\<not> transfer_on_record s e"
    and "record_action e sub dec action who reason evidence s = Inr (r, s')"
proof -
  have val: "s1 = s" if "validate_chain_evidence ev now s = Inr (u, s1)" for ev now u s1
    using that by (auto simp: validate_chain_evidence_def thenT_Inr_iff split: option.splits detail.splits)
  note unf = change_instruction_def bindT_Inr_iff thenT_Inr_iff
  from assms obtain e where e: "find_row rw_id n (reward_events s) = Some e" "rw_submission_id e = x"
    by (cases "find_row rw_id n (reward_events s)") (auto simp: unf dest!: val)
  from assms e obtain dec where dec: "latest_binding_decision s x = Some dec" "r_id dec = d"
    by (cases "latest_binding_decision s x") (auto simp: unf dest!: val)
  from assms e dec obtain sub where sub: "find_row s_id x (submissions s) = Some sub"
    by (cases "find_row s_id x (submissions s)") (auto simp: unf dest!: val)
  from assms e dec sub have "unsigned_event e" "s_reward_status sub = ELIGIBLE" "\<not> transfer_on_record s e"
    "record_action e sub dec action who reason evidence s = Inr (r, s')"
    by (auto simp: unf dest!: val)
  with e dec sub show thesis by (intro that)
qed

lemma change_instruction_quiet: "change_instruction n x d a action who reason evidence s = Inr (r, s') \<Longrightarrow> quiet s s'"
  by (erule change_instruction_Inr) (rule record_action_quiet)

lemma withdrawn_sound:
  assumes inv: "review_inv s" "payout_inv s" and r: "cancel_and_withdraw code int_note pub n x d a who reason evidence s = Inr (r, s')"
  shows "sound s s'"
proof -
  from r obtain act s1 dec where 1: "change_instruction n x d a ''CANCEL'' who reason evidence s = Inr (act, s1)"
    and 2: "correct_human_decision x d O_REJECTED code who int_note pub s1 = Inr (dec, s')"
    by (auto simp: cancel_and_withdraw_def bindT_Inr_iff thenT_Inr_iff)
  have s1: "sound s s1" using change_instruction_quiet [OF 1] inv by (auto simp: quiet_def intro: quiet_sound)
  then have inv1: "review_inv s1" "payout_inv s1" by (simp_all add: sound_def)
  have step: "review_step (\<lambda>_. []) s1 s'" using 2 by (rule review_step.corrected)
  have "sound s1 s'" using review_step_effect [OF step inv1(1)] review_step_history [OF step]
      kept_inv [OF review_step_kept [OF step inv1(1)] inv1(2)] by (simp add: sound_def)
  with s1 show ?thesis by (rule sound_trans)
qed

lemma payout_step_sound:
  assumes "payout_step s s'" and "review_inv s" and "payout_inv s"
  shows "sound s s'"
  using assms
proof (induction rule: payout_step.induct)
  case (attempted r s u s')
  let ?r = "r\<lparr>rw_id := next_reward_id s\<rparr>"
  have s': "s' = s\<lparr>next_reward_id := Suc (next_reward_id s), reward_events := reward_events s @ [?r]\<rparr>"
    and keys: "\<forall>c \<in> set (reward_keys s ?r). snd c"
    using attempted(3) by (simp_all add: insert_reward_Inr reward_keys_def)
  have "payout_inv s'" unfolding s' using attempted(1,2) keys by (intro add_reward_inv [OF attempted(5)]) simp_all
  then show ?case using attempted(4) by (intro judged_same_sound) (simp_all add: judged_same_def s')
next
  case (payout_recorded ob price s p s')
  from payout_recorded(1) show ?case
  proof (cases rule: record_payout_Inr)
    case known
    have "payout_inv s'" using payout_recorded(3) unfolding known(2) by (rule draw_inv)
    then show ?thesis using payout_recorded(2) by (intro judged_same_sound) (simp_all add: judged_same_def known(2))
  next
    case new
    have "payout_inv s'" unfolding new(2) using payout_recorded(3) by (intro add_payout_inv) (simp_all add: new(3) new_payout_row_def)
    then show ?thesis using payout_recorded(2) by (intro judged_same_sound) (simp_all add: judged_same_def new(2))
  qed
next
  case (payout_confirmed ob s r s')
  then have m: "settle_match (event_facts ob) None s = Inr (r, s')" by (simp add: confirm_payout_def)
  from m show ?case
  proof (cases rule: settle_match_Inr)
    case unmatched
    then show ?thesis using payout_confirmed by (simp add: sound_refl)
  next
    case (matched e u)
    show ?thesis by (rule settle_event_sound [OF payout_confirmed(2,3) matched(3,2)]) simp
  qed
next
  case (payout_disregarded n remark s p s')
  from payout_disregarded(1) show ?case
  proof (cases rule: disregard_payout_Inr)
    case (1 q)
    have q: "q \<in> set (treasury_payouts s)" using find_row_Some [OF 1(1)] by simp
    have "tp_reward_event_id q = None" 
      using payout_inv_parts(3) [OF payout_disregarded(3), unfolded claims_settle_def, rule_format, OF q] 1(2)
      by (metis treasury_payout_state.distinct(1))
    then have "payout_inv s'" by (intro update_payout_inv [OF payout_disregarded(3) q _ 1(3)]) simp_all
    then show ?thesis using judged_same_sound update_payout_same [OF 1(3)] payout_disregarded(2) by blast
  qed
next
  case (claims_changed s tcs)
  then show ?case by (intro quiet_sound) (simp_all add: judged_same_def pay_same_def)
next
  case (bonus_prepared b s u s')
  then show ?case using insert_bonus_inv by (intro judged_same_sound) (auto simp: insert_bonus_Inr judged_same_def)
next
  case (bonus_completed b s u s')
  then show ?case using update_bonus_inv
    by (intro judged_same_sound) (auto simp: update_bonus_Inr judged_same_def split: option.splits)
qed (auto intro: seed_instructions_sound claim_payout_sound mark_submitted_sound revert_submitted_sound bind_payout_sound
    withdrawn_sound quiet_sound simp: quiet_def
    dest!: seed_deliveries_quiet outbox_quiet payout_cursor_quiet change_instruction_quiet)

section \<open>Properties of one settlement\<close>







text \<open>
  C34.  A finalized payout settles the obligation it pays and no other: the one that already carries its
  reference, or else the oldest obligation in force with the same destination and amount that
  existed when the money moved.  That obligation is confirmed, the transfer is claimed for it, its
  submission is rewarded, and no other obligation or transfer changes.
\<close>

theorem claim_payout_settles_oldest:
  assumes "claim_payout n s = Inr (Some u, s')" and "pu_changed u"
  shows "\<exists>p e x. find_row tp_id n (treasury_payouts s) = Some p \<and> tp_status p = UNCLAIMED \<and>
    e \<in> set (reward_events s) \<and> rw_id e = pu_reward_event_id u \<and>
    rw_amount_rao e = tp_amount_rao p \<and> rw_destination_coldkey e = tp_destination_coldkey p \<and>
    (rw_extrinsic_reference e = Some (tp_extrinsic_reference p) \<or>
     instruction_enabled s e \<and> rw_created_at e \<le> tp_block_timestamp p + CHAIN_CLOCK_TOLERANCE \<and>
     (\<forall>e' \<in> set (reward_events s). candidate s (row_facts p) e' \<longrightarrow>
        rw_created_at e < rw_created_at e' \<or> rw_created_at e = rw_created_at e' \<and> rw_id e \<le> rw_id e')) \<and>
    reward_events s' = replace_row rw_id (confirmed_event e (row_facts p)) (reward_events s) \<and>
    treasury_payouts s' = replace_row tp_id (p\<lparr>tp_status := CLAIMED, tp_reward_event_id := Some (rw_id e),
      tp_updated_at := clock s\<rparr>) (treasury_payouts s) \<and>
    find_row s_id (rw_submission_id e) (submissions s') = Some x \<and> s_reward_status x = REWARDED"
  using assms(1)
proof (cases rule: claim_payout_Inr)
  case (settled p v e)
  have which: "rw_extrinsic_reference e = Some (tp_extrinsic_reference p) \<or>
     instruction_enabled s e \<and> rw_created_at e \<le> tp_block_timestamp p + CHAIN_CLOCK_TOLERANCE \<and>
     (\<forall>e' \<in> set (reward_events s). candidate s (row_facts p) e' \<longrightarrow>
        rw_created_at e < rw_created_at e' \<or> rw_created_at e = rw_created_at e' \<and> rw_id e \<le> rw_id e')"
    using settled(8)
  proof
    assume "by_reference s (row_facts p) = Some e"
    then show ?thesis using by_reference_Some by (fastforce simp: row_facts_def)
  next
    assume "by_reference s (row_facts p) = None \<and> oldest_match s (row_facts p) = Some e"
    then have m: "oldest_match s (row_facts p) = Some e" by simp
    have "instruction_enabled s e" "rw_created_at e \<le> tp_block_timestamp p + CHAIN_CLOCK_TOLERANCE"
      using oldest_match_Some(2) [OF m] by (simp_all add: candidate_def row_facts_def)
    then show ?thesis using oldest_match_Some(3) [OF m] by blast
  qed
  have ch: "pu_changed v" using settled(4) assms(2) by simp
  from settled(5) show ?thesis
  proof (cases rule: settle_event_Inr)
    case (already x)
    then show ?thesis using ch by simp
  next
    case (paid x s1 s2 s3 ev)
    let ?x = "x\<lparr>s_reward_status := REWARDED\<rparr>"
    let ?c = "p\<lparr>tp_status := CLAIMED, tp_reward_event_id := Some (rw_id e)\<rparr>"
    have "\<exists>z. find_row s_id (rw_submission_id e) (submissions s1) = Some z \<and> s_reward_status z = REWARDED \<and>
        reward_events s1 = reward_events s \<and> treasury_payouts s1 = treasury_payouts s \<and> clock s1 = clock s"
    proof (cases "s_reward_status x = REWARDED")
      case True
      then show ?thesis using paid(1,4) by simp
    next
      case False
      then have u: "update_submission ?x s = Inr ((), s1)" using paid(4) by simp
      have "find_row s_id (s_id ?x) (submissions s) = Some x" using paid(1) find_row_Some [OF paid(1)] by simp
      from update_submission_row [OF u this] find_row_Some [OF paid(1)] show ?thesis
        using u by (auto simp: update_submission_Inr Let_def split: option.splits)
    qed
    then obtain z where z: "find_row s_id (rw_submission_id e) (submissions s1) = Some z" "s_reward_status z = REWARDED"
      "reward_events s1 = reward_events s" "treasury_payouts s1 = treasury_payouts s" "clock s1 = clock s" by blast
    have s2: "s2 = s1\<lparr>reward_events := replace_row rw_id (confirmed_event e (row_facts p)) (reward_events s1)\<rparr>"
      using paid(5) by (simp add: update_reward_Inr)
    have "update_payout ?c s2 = Inr ((), s3)" using paid(6) by (simp add: bind_claim_Inr)
    then have s3: "s3 = s2\<lparr>treasury_payouts := replace_row tp_id (?c\<lparr>tp_updated_at := clock s2\<rparr>) (treasury_payouts s2)\<rparr>"
      by (simp add: update_payout_Inr Let_def)
    have "reward_events s' = replace_row rw_id (confirmed_event e (row_facts p)) (reward_events s)"
      "treasury_payouts s' = replace_row tp_id (?c\<lparr>tp_updated_at := clock s\<rparr>) (treasury_payouts s)"
      "submissions s' = submissions s1" by (simp_all add: paid(7) s3 s2 z(3-5))
    moreover have "rw_amount_rao e = tp_amount_rao p" "rw_destination_coldkey e = tp_destination_coldkey p"
      using settled(7) by (simp_all add: same_payout_def row_facts_def)
    ultimately show ?thesis using settled(1,2,4,6) which paid(9) z(1,2) by auto
  qed
qed simp

theorem claim_payout_settles_oldest_witness:
  "\<exists>k s p s1 u s2 q. sample_seeded = Inr (k, s) \<and> record_payout sample_payout None s = Inr (p, s1) \<and>
     claim_payout (tp_id p) s1 = Inr (Some u, s2) \<and> pu_changed u \<and>
     find_row tp_id (tp_id p) (treasury_payouts s2) = Some q \<and> tp_status q = CLAIMED"
proof -
  have "case sample_seeded of Inl _ \<Rightarrow> False | Inr (k, s) \<Rightarrow>
     (case record_payout sample_payout None s of Inl _ \<Rightarrow> False | Inr (p, s1) \<Rightarrow>
       (case claim_payout (tp_id p) s1 of Inl _ \<Rightarrow> False | Inr (r, s2) \<Rightarrow> (case r of None \<Rightarrow> False | Some u \<Rightarrow> pu_changed u)))"
    by code_simp
  then obtain k s p s1 u s2 where s: "sample_seeded = Inr (k, s)" "record_payout sample_payout None s = Inr (p, s1)"
    "claim_payout (tp_id p) s1 = Inr (Some u, s2)" "pu_changed u"
    by (auto simp: succeeds_iff finds_iff)
  from claim_payout_settles_oldest [OF s(3,4)] obtain q and e :: reward_row where q: "find_row tp_id (tp_id p) (treasury_payouts s1) = Some q"
    "treasury_payouts s2 = replace_row tp_id (q\<lparr>tp_status := CLAIMED, tp_reward_event_id := Some (rw_id e),
      tp_updated_at := clock s1\<rparr>) (treasury_payouts s1)" by blast
  have "find_row tp_id (tp_id p) (treasury_payouts s2) = Some (q\<lparr>tp_status := CLAIMED, tp_reward_event_id := Some (rw_id e),
      tp_updated_at := clock s1\<rparr>)"
    unfolding q(2) using find_row_Some [OF q(1)] by (intro find_after_replace [OF q(1)]) simp
  then show ?thesis using s by (intro exI conjI) (assumption | simp)+
qed

text \<open>A second attempt for a submission that is already paid, entered by hand.\<close>

definition second_attempt :: "uuid \<Rightarrow> unit dbtx" where
  "second_attempt n = bindT new_reward_id (\<lambda>k. insert_reward
     \<lparr>rw_id = k, rw_submission_id = n, rw_eligibility_reason = ''RETRY'', rw_amount_rao = 1000,
      rw_pricing_policy_version = ''b1'', rw_pricing_inputs = None, rw_generation_key = None, rw_destination_coldkey = ''C'',
      rw_destination_hotkey = None, rw_status = PENDING, rw_chain_observed = False, rw_extrinsic_reference = None,
      rw_submitted_block = None, rw_finalized_block = None, rw_failure_reason = None, rw_initiated_by = ''ops'',
      rw_created_at = 100, rw_submitted_at = None, rw_confirmed_at = None\<rparr>)"

definition sample_second :: "db_error + unit \<times> db" where
  "sample_second = bindT (\<lambda>_. sample_rewarded) (\<lambda>_. second_attempt 0) (empty_db (\<lambda>_. replicate 32 0) 100)"

text \<open>
  C36.  A submission that has been paid loses its REWARDED status when a second attempt of it is seen on
  the best chain: it becomes ELIGIBLE although its confirmed payout stands, and it stays ELIGIBLE when
  that sighting is reverted.
\<close>

theorem second_sighting_demotes:
  assumes d: "distinct (map rw_id (reward_events s))"
    and paid: "e \<in> set (reward_events s)" "rw_status e = P_CONFIRMED" "rw_chain_observed e"
    and x: "find_row s_id (rw_submission_id e) (submissions s) = Some x" "s_reward_status x = REWARDED"
    and m: "mark_submitted ob s = Inr (Some u, s1)" "pu_changed u" "pu_submission_id u = rw_submission_id e"
  shows "e \<in> set (reward_events s1) \<and>
    (\<exists>y. find_row s_id (rw_submission_id e) (submissions s1) = Some y \<and> s_reward_status y = ELIGIBLE \<and>
      (\<forall>sp now b s2. revert_submitted sp now s1 = Inr (b, s2) \<longrightarrow>
         find_row s_id (rw_submission_id e) (submissions s2) = Some y))"
  using m(1)
proof (cases rule: mark_submitted_Inr)
  case same
  then show ?thesis using m(2) by simp
next
  case (marked e0)
  from marked(5) show ?thesis
  proof (cases rule: mark_event_Inr)
    case (1 x0 s0 s2 ev)
    let ?e = "submitted_event e0 (event_facts ob)"
    have n: "rw_submission_id e0 = rw_submission_id e" using m(3) 1(6) by simp
    have x0: "x0 = x" using 1(1) x(1) n by simp
    then have u: "update_submission (x\<lparr>s_reward_status := ELIGIBLE\<rparr>) s = Inr ((), s0)" using 1(2) x(2) by auto
    have "e \<noteq> e0" using marked(3) paid(2,3) by auto
    then have ids: "rw_id e \<noteq> rw_id e0" using d paid(1) marked(1) by (metis find_row_unique option.inject)
    have s0: "reward_events s0 = reward_events s"
      using u by (auto simp: update_submission_Inr Let_def split: option.splits)
    have s2: "s2 = s0\<lparr>reward_events := replace_row rw_id ?e (reward_events s0)\<rparr>" using 1(3) by (simp add: update_reward_Inr)
    have "e \<in> set (reward_events s1)"
      using paid(1) ids by (auto simp: 1(4) s2 s0 in_replace_row submitted_event_def)
    moreover have "find_row s_id (s_id (x\<lparr>s_reward_status := ELIGIBLE\<rparr>)) (submissions s) = Some x"
      using x(1) find_row_Some [OF x(1)] by simp
    from update_submission_row(3) [OF u this, of "rw_submission_id e"] find_row_Some [OF x(1)]
    have "find_row s_id (rw_submission_id e) (submissions s1) = Some (x\<lparr>s_reward_status := ELIGIBLE, s_updated_at := clock s\<rparr>)"
      by (simp add: 1(4) s2)
    moreover have "submissions s3 = submissions s1" if "revert_submitted sp now s1 = Inr (b, s3)" for sp now b s3
      using that by (cases rule: revert_submitted_Inr) (auto simp: update_reward_Inr)
    ultimately show ?thesis by auto
  qed
qed

theorem second_sighting_demotes_witness:
  "\<exists>v s e u s1 y. sample_second = Inr (v, s) \<and> mark_submitted (sample_payout\<lparr>op_block := 11\<rparr>) s = Inr (Some u, s1) \<and>
     e \<in> set (reward_events s1) \<and> rw_status e = P_CONFIRMED \<and> rw_submission_id e = 0 \<and>
     find_row s_id 0 (submissions s1) = Some y \<and> s_reward_status y = ELIGIBLE"
proof -
  have "case sample_second of Inl _ \<Rightarrow> False | Inr (v, s) \<Rightarrow> distinct (map rw_id (reward_events s)) \<and>
     (case reward_events s of [] \<Rightarrow> False | e # _ \<Rightarrow> rw_status e = P_CONFIRMED \<and> rw_chain_observed e \<and> rw_submission_id e = 0) \<and>
     (case find_row s_id 0 (submissions s) of None \<Rightarrow> False | Some x \<Rightarrow> s_reward_status x = REWARDED) \<and>
     (case mark_submitted (sample_payout\<lparr>op_block := 11\<rparr>) s of Inl _ \<Rightarrow> False
      | Inr (r, s1) \<Rightarrow> (case r of None \<Rightarrow> False | Some u \<Rightarrow> pu_changed u \<and> pu_submission_id u = 0))" by code_simp
  then obtain v s e es x u s1 where s: "sample_second = Inr (v, s)" "distinct (map rw_id (reward_events s))"
    "reward_events s = e # es" "rw_status e = P_CONFIRMED" "rw_chain_observed e" "rw_submission_id e = 0"
    "find_row s_id 0 (submissions s) = Some x" "s_reward_status x = REWARDED"
    "mark_submitted (sample_payout\<lparr>op_block := 11\<rparr>) s = Inr (Some u, s1)" "pu_changed u" "pu_submission_id u = 0"
    by (auto simp: succeeds_iff finds_iff nonempty_iff)
  have "e \<in> set (reward_events s)" by (simp add: s(3))
  from second_sighting_demotes [OF s(2) this s(4,5) _ s(8,9,10)] s(6,7,11)
  obtain y where "e \<in> set (reward_events s1)" "find_row s_id 0 (submissions s1) = Some y" "s_reward_status y = ELIGIBLE" by auto
  with s(1,4,6,9) show ?thesis by blast
qed

end
