(* ===== verification/Customers.thy ===== *)
theory Customers
  imports Settlement
begin

text \<open>
  What customers rely on across the whole system: their accounts, sessions and challenges, their
  purchases and their invitations, and the books that add all of it up.  The invariants of \<open>Accounts\<close>,
  \<open>Purchases\<close> and \<open>Invitations\<close> are preserved by the machines of the other components, which leave
  those tables alone and write only ledger entries that name no order and no redemption.
\<close>

section \<open>What other components do to these tables\<close>

definition customer_same :: "db \<Rightarrow> db \<Rightarrow> bool" where
  "customer_same s s' \<longleftrightarrow> accounts s' = accounts s \<and> wallets s' = wallets s \<and> sessions s' = sessions s \<and>
     challenges s' = challenges s \<and> orders s' = orders s \<and> invitations s' = invitations s \<and>
     redemptions s' = redemptions s \<and> next_uuid s \<le> next_uuid s' \<and> appends chain_entry s s'"

lemma customer_same_money: "money_frame s s' \<Longrightarrow> customer_same s s'"
  by (simp add: money_frame_def customer_same_def appends_none)

lemma customer_same_plain:
  "customer_same s s" "customer_same s (s\<lparr>clock := x1\<rparr>)" "customer_same s (s\<lparr>deposits := x2\<rparr>)"
  "customer_same s (s\<lparr>transfers := x3\<rparr>)" "customer_same s (s\<lparr>intents := x4\<rparr>)"
  "customer_same s (s\<lparr>next_uuid := Suc (next_uuid s), deposits := x5\<rparr>)"
  "customer_same s (s\<lparr>next_uuid := Suc (next_uuid s), intents := x6\<rparr>)"
  by (simp_all add: customer_same_def appends_none)

lemma customer_same_credit:
  assumes "credit t a price expi by sch s = Inr ((e, t'), s')"
  shows "customer_same s s'"
  using assms
proof (cases rule: credit_Inr)
  case (1 es)
  have "accounts s' = accounts s" "wallets s' = wallets s" "sessions s' = sessions s" "challenges s' = challenges s"
    "orders s' = orders s" "invitations s' = invitations s" "redemptions s' = redemptions s" by (subst 1(13), simp)+
  moreover have "appends chain_entry s s'" unfolding appends_def using 1(1-4) by (intro exI [of _ es]) simp
  ultimately show ?thesis using 1(14) by (simp add: customer_same_def)
qed

lemma customer_same_settle: "settle ws n arr r s = Inr (ad, s') \<Longrightarrow> customer_same s s'"
  by (erule settle_Inr) (auto intro: customer_same_credit simp: customer_same_plain)

lemma customer_same_recorded: "record_transfer arr s = Inr (rt, s') \<Longrightarrow> customer_same s s'"
  by (erule record_transfer_Inr) (simp_all add: customer_same_def appends_none)

lemma customer_same_confirmed:
  assumes "confirm n a k now s = Inr (c, s')"
  shows "customer_same s s'"
  using assms
proof (cases rule: confirm_Inr)
  case (1 i content digest)
  from 1(8) show ?thesis
  proof (cases rule: spend_and_submit_Inr)
    case (1 sp)
    have s': "accounts s' = accounts s" "wallets s' = wallets s" "sessions s' = sessions s" "challenges s' = challenges s"
      "orders s' = orders s" "invitations s' = invitations s" "redemptions s' = redemptions s"
      "next_uuid s' = Suc (next_uuid s)" "ledger s' = ledger s @ [sp]" "next_ledger_id s' = Suc (next_ledger_id s)"
      by (subst 1(10), simp)+
    have "appends chain_entry s s'" unfolding appends_def s' using 1(1,12) by (intro exI [of _ "[sp]"]) simp
    then show ?thesis by (simp add: customer_same_def s')
  qed
qed

lemma customer_same_paid:
  assumes "create_submission q s = Inr (v, s1)" and "claim_for_submission arr note s1 = Inr (t', s')"
  shows "customer_same s s'"
proof -
  have 1: "customer_same s s1"
    using assms(1) by (cases rule: create_submission_Inr) (simp_all add: customer_same_def appends_none)
  from assms(2) obtain r s2 xs where 2: "record_transfer arr s1 = Inr (r, s2)" and 3: "s' = s2\<lparr>transfers := xs\<rparr>"
    by (rule claim_for_submission_Inr) blast
  have same: "ledger s1 = ledger s" "next_ledger_id s1 = next_ledger_id s"
    using assms(1) by (cases rule: create_submission_Inr; simp)+
  have same2: "ledger s2 = ledger s1" "next_ledger_id s2 = next_ledger_id s1"
    using 2 by (cases rule: record_transfer_Inr; simp)+
  from 1 customer_same_recorded [OF 2] show ?thesis
    by (simp add: customer_same_def 3 appends_none same same2)
qed

text \<open>Every step of the money side is one of the three machines or leaves the tables alone.\<close>

lemma money_step_customers:
  assumes "money_step s s'"
  obtains "account_step s s'" | "order_step s s'" | "invite_step s s'" | "customer_same s s'"
  using assms
proof cases
  case (deposit_claimed n d ref sndr d')
  then obtain ds where "s' = s\<lparr>deposits := ds\<rparr>" by (auto simp: mark_seen_def tx_simps Let_def)
  then show ?thesis using that customer_same_plain by blast
next
  case (deposits_expired k)
  then obtain ds where "s' = s\<lparr>deposits := ds\<rparr>" by (auto simp: expire_open_deposits_def tx_simps)
  then show ?thesis using that customer_same_plain by blast
next
  case (deposit_declared a amount addr price expi d)
  have "customer_same s s'" unfolding create_deposit_Inr(1) [OF deposit_declared] by (rule customer_same_plain)
  then show ?thesis by (rule that(4))
next
  case (conflict_noted n msg u)
  then show ?thesis using that by (cases rule: note_conflict_Inr) (auto simp: customer_same_plain)
next
  case (intent_opened a task bndl price expi held pc signer i b)
  then show ?thesis using that by (cases rule: open_intent_Inr) (auto simp: customer_same_plain)
next
  case (bundle_attached n i content sha digest i')
  from this(2) show ?thesis using that by (cases rule: attach_bundle_Inr) (auto simp: customer_same_plain)
next
  case (intent_cancelled n i i')
  have "customer_same s s'" unfolding cancel_Inr(3) [OF intent_cancelled(2)] by (rule customer_same_plain)
  then show ?thesis by (rule that(4))
next
  case (intents_expired k)
  have "customer_same s s'" unfolding expire_lapsed_Inr [OF intents_expired] by (rule customer_same_plain)
  then show ?thesis by (rule that(4))
next
  case (paid_submission q v s1 arr nt t)
  then show ?thesis using that customer_same_paid by blast
next
  case (tick t)
  have "customer_same s s'" unfolding tick(1) by (rule customer_same_plain)
  then show ?thesis by (rule that(4))
next
  case (transfer_recorded arr rt)
  from customer_same_recorded [OF this] show ?thesis by (rule that(4))
next
  case (transfer_settled ws n arr r ad)
  from customer_same_settle [OF this] show ?thesis by (rule that(4))
next
  case (intent_confirmed n a k c)
  from customer_same_confirmed [OF this] show ?thesis by (rule that(4))
qed blast+

section \<open>Where the money of a balance comes from\<close>

text \<open>
  Every entry of the ledger is of one of five sorts: a transfer that arrived, an order that was paid,
  a package bonus, an invitation that was redeemed, or what a submission cost.  The kinds REFUND and
  ADJUSTMENT are never written.
\<close>

definition known_entry :: "ledger_row \<Rightarrow> bool" where
  "known_entry l \<longleftrightarrow> l_kind l \<in> {DEPOSIT, BONUS, SPEND, GRANT} \<and>
     (l_kind l = DEPOSIT \<longleftrightarrow> (l_deposit_id l = None) \<noteq> (l_tmc_pay_order_id l = None)) \<and>
     (l_kind l \<noteq> DEPOSIT \<longrightarrow> l_deposit_id l = None \<and> l_tmc_pay_order_id l = None) \<and>
     (l_kind l = GRANT \<longleftrightarrow> l_invitation_redemption_id l \<noteq> None)"

lemma known_entries: "chain_entry l \<Longrightarrow> known_entry l"
  "order_entry l \<Longrightarrow> known_entry l" "grant_entry l \<Longrightarrow> known_entry l"
  by (auto simp: chain_entry_def order_entry_def grant_entry_def known_entry_def)

definition bonus_granted_rao :: "db \<Rightarrow> uuid \<Rightarrow> rao" where
  "bonus_granted_rao s a = sum_where (\<lambda>l. l_account_id l = a \<and> l_kind l = BONUS) l_amount_rao (ledger s)"

definition invited_rao :: "db \<Rightarrow> uuid \<Rightarrow> rao" where
  "invited_rao s a = sum_where (\<lambda>l. l_account_id l = a \<and> l_kind l = GRANT) l_amount_rao (ledger s)"

lemma known_entry_sort:
  fixes m :: rao
  assumes "known_entry l"
  shows "(if l_account_id l = a then m else 0) =
      (if l_account_id l = a \<and> l_kind l = DEPOSIT \<and> l_deposit_id l \<noteq> None then m else 0) +
      (if l_account_id l = a \<and> l_tmc_pay_order_id l \<noteq> None then m else 0) +
      (if l_account_id l = a \<and> l_kind l = BONUS then m else 0) +
      (if l_account_id l = a \<and> l_kind l = GRANT then m else 0) +
      (if l_account_id l = a \<and> l_kind l = SPEND then m else 0)"
proof (cases "l_account_id l = a")
  case True
  then show ?thesis using assms unfolding known_entry_def by (cases "l_kind l") auto
qed simp

lemma balance_by_source:
  assumes "\<forall>l \<in> set (ledger s). known_entry l"
  shows "balance_rao s a = deposited_rao s a + purchased_rao s a + bonus_granted_rao s a + invited_rao s a - spent_rao s a"
proof -
  have "sum_where (\<lambda>l. l_account_id l = a) l_amount_rao ls =
      sum_where (\<lambda>l. l_account_id l = a \<and> l_kind l = DEPOSIT \<and> l_deposit_id l \<noteq> None) l_amount_rao ls +
      sum_where (\<lambda>l. l_account_id l = a \<and> l_tmc_pay_order_id l \<noteq> None) l_amount_rao ls +
      sum_where (\<lambda>l. l_account_id l = a \<and> l_kind l = BONUS) l_amount_rao ls +
      sum_where (\<lambda>l. l_account_id l = a \<and> l_kind l = GRANT) l_amount_rao ls +
      sum_where (\<lambda>l. l_account_id l = a \<and> l_kind l = SPEND) l_amount_rao ls"
    if "\<forall>l \<in> set ls. known_entry l" for ls
    using that
  proof (induction ls)
    case (Cons l ls)
    then have l: "known_entry l" and ls: "\<forall>l \<in> set ls. known_entry l" by simp_all
    show ?case unfolding sum_where_simps(2) Cons.IH [OF ls] known_entry_sort [OF l] by (simp only: ac_simps)
  qed (simp add: sum_where_def)
  note split = this [OF assms]
  show ?thesis
    unfolding balance_rao_def deposited_rao_def purchased_rao_def bonus_granted_rao_def invited_rao_def spent_rao_def split
    by (simp only: diff_minus_eq_add)
qed

section \<open>The invariant\<close>

definition customers_ok :: "db \<Rightarrow> bool" where
  "customers_ok s \<longleftrightarrow> accounts_ok s \<and> secrets_ok s \<and> orders_ok s \<and> invitations_ok s \<and>
     (\<forall>l \<in> set (ledger s). known_entry l)"

lemma appendsD:
  assumes "appends ok s s'"
  obtains es where "ledger s' = ledger s @ es" "\<forall>l \<in> set es. ok l"
  using assms by (auto simp: appends_def)

lemma customer_same_ok:
  assumes f: "customer_same s s'" and inv: "customers_ok s"
  shows "customers_ok s'"
proof -
  from f have eq: "accounts s' = accounts s" "wallets s' = wallets s" "sessions s' = sessions s" "challenges s' = challenges s"
    "orders s' = orders s" "invitations s' = invitations s" "redemptions s' = redemptions s" "next_uuid s \<le> next_uuid s'"
    by (simp_all add: customer_same_def)
  from f obtain es where es: "ledger s' = ledger s @ es" "\<forall>l \<in> set es. chain_entry l"
    by (auto simp: customer_same_def elim: appendsD)
  from inv have i: "accounts_ok s" "secrets_ok s" "orders_ok s" "invitations_ok s" "\<forall>l \<in> set (ledger s). known_entry l"
    by (simp_all add: customers_ok_def)
  have none: "\<forall>l \<in> set es. l_tmc_pay_order_id l = None" "\<forall>l \<in> set es. l_invitation_redemption_id l = None"
    "\<forall>l \<in> set es. known_entry l"
    using es(2) known_entries(1) by (auto simp: chain_entry_def)
  have "secrets_ok s'" using secrets_same [OF eq(3,4,8)] i(2) by (simp add: secrets_kept_def)
  then show ?thesis
    using accounts_ok_frame [OF i(1) eq(1,2,8)] orders_ok_outside [OF i(3) eq(5) es(1) eq(8) none(1)]
      invitations_ok_outside [OF i(4) eq(6,7) es(1) eq(8) none(2)] i(5) none(3)
    by (simp add: customers_ok_def es(1) ball_Un)
qed

lemma account_step_customers_ok:
  assumes st: "account_step s s'" and inv: "customers_ok s"
  shows "customers_ok s'"
proof -
  note f = accounts_frameD [OF account_step_frame [OF st]]
  have l: "ledger s' = ledger s @ []" using f by simp
  show ?thesis using inv accounts_ok_step [OF st] account_step_secrets [OF st]
      orders_ok_outside [of s s' "[]", OF _ f(6) l f(20)] invitations_ok_outside [of s s' "[]", OF _ f(7,8) l f(20)]
    by (simp add: customers_ok_def secrets_kept_def f)
qed

lemma order_step_customers_ok:
  assumes st: "order_step s s'" and inv: "customers_ok s"
  shows "customers_ok s'"
proof -
  note f = orders_frameD [OF conjunct1 [OF order_step_frame [OF st]]]
  from conjunct2 [OF order_step_frame [OF st]] obtain es where es: "ledger s' = ledger s @ es" "\<forall>l \<in> set es. order_entry l"
    by (rule appendsD)
  have "\<forall>l \<in> set es. l_invitation_redemption_id l = None" "\<forall>l \<in> set es. known_entry l"
    using es(2) known_entries(2) by (auto simp: order_entry_def)
  then show ?thesis using inv order_step_ok [OF st] accounts_ok_frame [of s s', OF _ f(7,8,21)]
      secrets_same [OF f(9,10,21)] invitations_ok_outside [of s s' es, OF _ f(5,6) es(1) f(21)]
    by (simp add: customers_ok_def secrets_kept_def es(1) ball_Un)
qed

lemma invite_step_customers_ok:
  assumes st: "invite_step s s'" and inv: "customers_ok s"
  shows "customers_ok s'"
proof -
  note f = invites_frameD [OF conjunct1 [OF invite_step_frame [OF st]]]
  from conjunct2 [OF invite_step_frame [OF st]] obtain es where es: "ledger s' = ledger s @ es" "\<forall>l \<in> set es. grant_entry l"
    by (rule appendsD)
  have "\<forall>l \<in> set es. l_tmc_pay_order_id l = None" "\<forall>l \<in> set es. known_entry l"
    using es(2) known_entries(3) by (auto simp: grant_entry_def)
  then show ?thesis using inv invite_step_ok [OF st] accounts_ok_frame [of s s', OF _ f(6,7,20)]
      secrets_same [OF f(8,9,20)] orders_ok_outside [of s s' es, OF _ f(5) es(1) f(20)]
    by (simp add: customers_ok_def secrets_kept_def es(1) ball_Un)
qed

lemma money_step_customers_ok: "money_step s s' \<Longrightarrow> customers_ok s \<Longrightarrow> customers_ok s'"
  by (erule money_step_customers)
    (blast intro: account_step_customers_ok order_step_customers_ok invite_step_customers_ok customer_same_ok)+

lemma customers_ok_empty: "customers_ok (empty_db sha now)"
  by (simp add: customers_ok_def accounts_ok_def secrets_ok_def orders_ok_def orders_keyed_def orders_paired_def
      invitations_ok_def invitations_keyed_def redemptions_keyed_def grants_paired_def empty_db_def one_per_def
      purchased_rao_def collected_rao_def)

section \<open>What a run remembers of sessions, challenges and orders\<close>

lemma customer_same_remembers: "customer_same s s' \<Longrightarrow> remembers s s'"
  by (intro remembers_same) (simp_all add: customer_same_def)

lemma money_step_remembers:
  assumes "money_step s s'"
  shows "remembers s s'"
  using assms
proof (cases rule: money_step_customers)
  case 1
  then show ?thesis using account_step_secrets by (auto simp: secrets_kept_def)
next
  case 2
  note f = orders_frameD [OF conjunct1 [OF order_step_frame [OF 2]]]
  show ?thesis by (rule remembers_same [OF f(9,10)])
next
  case 3
  note f = invites_frameD [OF conjunct1 [OF invite_step_frame [OF 3]]]
  show ?thesis by (rule remembers_same [OF f(8,9)])
next
  case 4
  then show ?thesis by (rule customer_same_remembers)
qed

text \<open>
  An order that has been credited cannot be credited again: the entry stays in the ledger, and it is
  paired with the order.
\<close>

lemma credited_stays_credited:
  assumes "settle_order r st cf review ev poll now sch who s = Inr (so, s1)" and "prefix (ledger s1) (ledger s2)"
    and ok: "orders_ok s2"
    and again: "settle_order r' st' cf' review' ev' poll' now' sch' who' s2 = Inr (so', s3)"
  shows "o_id r' \<noteq> o_id r"
  using assms(1)
proof (cases rule: settle_order_Inr)
  case (1 locked amount bs)
  have "so_entry so \<in> set (ledger s1)" by (subst 1(16)) simp
  then have e: "so_entry so \<in> set (ledger s2)" using assms(2) by (auto simp: prefix_def)
  have id: "o_id locked = o_id r" using find_row_Some [OF 1(1)] by simp
  from again show ?thesis
  proof (cases rule: settle_order_Inr)
    case (1 locked' amount' bs')
    note l' = find_row_Some [OF 1(1)]
    from ok e \<open>l_tmc_pay_order_id (so_entry so) = Some (o_id locked)\<close>
    obtain x where x: "x \<in> set (orders s2)" "o_id x = o_id locked" "o_credited_ledger_id x = Some (l_id (so_entry so))"
      unfolding orders_ok_def orders_paired_def by blast
    have "distinct (map o_id (orders s2))" using ok by (simp add: orders_ok_def orders_keyed_def)
    then have "x = locked'" if "o_id r' = o_id r" using that x(1,2) l' id by (intro same_key [of o_id "orders s2"]) simp_all
    then show ?thesis using x(3) 1(2) by auto
  qed
qed

end
