(* ===== verification/PayoutWatcher.thy ===== *)
theory PayoutWatcher
  imports Settlement
begin

text \<open>
  The payout watcher, \<open>payout_watcher/watcher.py\<close>: it reads the finalized chain block by block, records
  what left the treasury, matches it to obligations, and keeps the best-chain sightings current.

  As for the deposit watcher, a method returns the database it left whatever its result is, and the
  worker's wall clock is the database's.  The chain is a record of the reads of \<open>PayoutSource\<close>; the price
  feed answers once per payout and may fail.
\<close>

section \<open>Configuration\<close>

definition DEFAULT_NETWORK :: string where "DEFAULT_NETWORK = ''finney''"
definition DEFAULT_NETUID :: int where "DEFAULT_NETUID = 66"
definition DEFAULT_PROXY_FOR :: ss58 where
  "DEFAULT_PROXY_FOR = ''5HMqFHmvUpzuAjEnse3hzMKS5LsFL428hffCfenF2smuGNhs''"
definition DEFAULT_ORIGIN_HOTKEY :: ss58 where
  "DEFAULT_ORIGIN_HOTKEY = ''5DRPoRiBSPNvgSvRsehaUhtXqPgXYrds8VS42vdzT5MzcpZV''"
definition LEGACY_ORIGIN_HOTKEY :: ss58 where
  "LEGACY_ORIGIN_HOTKEY = ''5Gn2SyG6PmBstAjiPD93CTuxADqYaYqf6fKeFuezKsX7Chf9''"

record payout_settings =
  pw_network :: string
  pw_origin_coldkey :: ss58
  pw_origin_hotkey :: ss58
  pw_netuid :: int
  pw_batch_blocks :: int
  pw_poll_seconds :: rat

definition accepted_origin_hotkeys :: "payout_settings \<Rightarrow> ss58 list" where
  "accepted_origin_hotkeys ws =
     (if pw_network ws = DEFAULT_NETWORK \<and> pw_origin_coldkey ws = DEFAULT_PROXY_FOR \<and>
         pw_origin_hotkey ws = DEFAULT_ORIGIN_HOTKEY \<and> pw_netuid ws = DEFAULT_NETUID
      then [DEFAULT_ORIGIN_HOTKEY, LEGACY_ORIGIN_HOTKEY]
      else [pw_origin_hotkey ws])"

record payout_source =
  ps_best_head :: "watcher_error + int"
  ps_finalized_head :: "watcher_error + int"
  ps_block :: "int \<Rightarrow> watcher_error + time"
  ps_payouts_in :: "int \<Rightarrow> watcher_error + observed_payout list"

type_synonym price_source = "(observed_payout \<Rightarrow> watcher_error + rat option) option"

record payout_scan =
  pn_finalized_from :: int
  pn_finalized_through :: int
  pn_finalized_head :: int
  pn_best_head :: int
  pn_observed :: int
  pn_submitted :: int
  pn_confirmed :: int
  pn_reorged :: int
  pn_unmatched :: int

definition finalized_blocks :: "payout_scan \<Rightarrow> int" where
  "finalized_blocks sc = max 0 (pn_finalized_through sc - pn_finalized_from sc + 1)"

definition MAX_BACKOFF_SECONDS :: rat where "MAX_BACKOFF_SECONDS = 300"
definition BACKOFF_CEILING_STEPS :: nat where "BACKOFF_CEILING_STEPS = 16"
definition PRICE_FRESHNESS :: time where "PRICE_FRESHNESS = 600"

text \<open>One transaction of its own.\<close>

definition session :: "'a dbtx \<Rightarrow> 'a proc" where
  "session m s = (case m s of Inl e \<Rightarrow> (Inl (Db e), s) | Inr (x, s') \<Rightarrow> (Inr x, s'))"

definition answer :: "watcher_error + 'a \<Rightarrow> 'a proc" where
  "answer r s = (r, s)"

section \<open>The cursor\<close>

definition require_same_payout_watch :: "payout_settings \<Rightarrow> payout_cursor_row \<Rightarrow> watcher_error + unit" where
  "require_same_payout_watch ws c =
     (if pc_network c = pw_network ws \<and> pc_origin_coldkey c = pw_origin_coldkey ws \<and> pc_netuid c = pw_netuid ws \<and>
         pc_origin_hotkey c \<in> set (accepted_origin_hotkeys ws)
      then Inr () else Inl (SettingsError ''the stored payout cursor does not match the command renderer''))"

definition same_watch :: "payout_settings \<Rightarrow> payout_cursor_row \<Rightarrow> payout_cursor_row option proc" where
  "same_watch ws c = answer (case require_same_payout_watch ws c of Inl e \<Rightarrow> Inl e | Inr _ \<Rightarrow> Inr (Some c))"

text \<open>The search of \<open>first_block_at_or_after\<close> starts at the finalized head.\<close>

definition payout_genesis :: "payout_source \<Rightarrow> time \<Rightarrow> watcher_error + int \<times> time" where
  "payout_genesis src since =
     (case ps_finalized_head src of
        Inl e \<Rightarrow> Inl e
      | Inr head \<Rightarrow> first_block_at_or_after (ps_block src) head since)"

text \<open>\<open>others\<close> is what other workers wrote during the search, before the cursor is read again.\<close>

definition resolve_payout_cursor ::
  "payout_settings \<Rightarrow> payout_source \<Rightarrow> (db \<Rightarrow> db) \<Rightarrow> payout_cursor_row option proc" where
  "resolve_payout_cursor ws src others s =
     (case payout_cursor s PAYOUT_WATCHER of
        Some existing \<Rightarrow> same_watch ws existing s
      | None \<Rightarrow>
          (case (if pw_netuid ws = 66 then oldest_unresolved_at s (Some (pw_origin_coldkey ws)) (Some (pw_origin_hotkey ws))
                 else oldest_unresolved_at s None None) of
             None \<Rightarrow> (Inr None, s)
           | Some watch_from \<Rightarrow>
               (case payout_genesis src watch_from of
                  Inl e \<Rightarrow> (Inl e, s)
                | Inr (number, timestamp) \<Rightarrow>
                    (let t = others s in
                     case payout_cursor t PAYOUT_WATCHER of
                       Some existing \<Rightarrow> same_watch ws existing t
                     | None \<Rightarrow>
                         bindP (session (open_payout_cursor (pw_network ws) (pw_origin_coldkey ws) (pw_origin_hotkey ws)
                             (pw_netuid ws) watch_from number timestamp PAYOUT_WATCHER))
                           (\<lambda>row. answer (Inr (Some row))) t))))"

section \<open>One block\<close>

definition ours :: "payout_settings \<Rightarrow> observed_payout \<Rightarrow> bool" where
  "ours ws ob \<longleftrightarrow> op_origin_coldkey ob = pw_origin_coldkey ws \<and>
     op_origin_hotkey ob \<in> set (accepted_origin_hotkeys ws) \<and>
     op_origin_netuid ob = pw_netuid ws \<and> op_destination_netuid ob = pw_netuid ws"

text \<open>Every failure of the feed is a missing price.\<close>

definition price_for :: "price_source \<Rightarrow> observed_payout \<Rightarrow> time \<Rightarrow> payout_price option" where
  "price_for prices ob now =
     (case prices of None \<Rightarrow> None
      | Some feed \<Rightarrow>
          if now - op_block_timestamp ob > PRICE_FRESHNESS then None
          else (case feed ob of
                  Inl _ \<Rightarrow> None
                | Inr None \<Rightarrow> None
                | Inr (Some alpha_usd) \<Rightarrow>
                    (case new_payout_price alpha_usd now of Inl _ \<Rightarrow> None | Inr p \<Rightarrow> Some p)))"

definition tally_finalized :: "payout_update option \<Rightarrow> payout_scan \<Rightarrow> payout_scan" where
  "tally_finalized update sc =
     (case update of None \<Rightarrow> sc\<lparr>pn_unmatched := pn_unmatched sc + 1\<rparr>
      | Some u \<Rightarrow> if pu_changed u then sc\<lparr>pn_confirmed := pn_confirmed sc + 1\<rparr> else sc)"

definition observe_finalized :: "payout_settings \<Rightarrow> price_source \<Rightarrow> observed_payout \<Rightarrow> payout_scan \<Rightarrow> payout_scan proc" where
  "observe_finalized ws prices ob sc =
     (if \<not> ours ws ob then answer (Inr sc)
      else
        bindP (\<lambda>s. session (record_payout ob (price_for prices ob (clock s))) s) (\<lambda>p.
        bindP (session (claim_payout (tp_id p))) (\<lambda>update.
        answer (Inr (tally_finalized update (sc\<lparr>pn_observed := pn_observed sc + 1\<rparr>))))))"

definition scan_finalized_block ::
  "payout_settings \<Rightarrow> payout_source \<Rightarrow> price_source \<Rightarrow> int \<Rightarrow> payout_scan \<Rightarrow> payout_scan proc" where
  "scan_finalized_block ws src prices number sc =
     bindP (answer (ps_payouts_in src number)) (\<lambda>observed_events.
     bindP (each (observe_finalized ws prices) observed_events sc) (\<lambda>sc'.
     bindP (\<lambda>s. session (advance_payout_cursor number (clock s) PAYOUT_WATCHER) s) (\<lambda>_.
     answer (Inr sc'))))"

section \<open>The best chain\<close>

definition retry_claim :: "payout_row \<Rightarrow> payout_scan \<Rightarrow> payout_scan proc" where
  "retry_claim item sc =
     bindP (session (claim_payout (tp_id item))) (\<lambda>update.
     answer (Inr (case update of None \<Rightarrow> sc
       | Some u \<Rightarrow> if pu_changed u then sc\<lparr>pn_confirmed := pn_confirmed sc + 1\<rparr> else sc)))"

definition reconcile_recent :: "payout_scan \<Rightarrow> payout_scan proc" where
  "reconcile_recent sc =
     bindP (\<lambda>s. answer (Inr (unclaimed_payouts s (Some (clock s - CHAIN_CLOCK_TOLERANCE)) 100)) s) (\<lambda>pending.
     each retry_claim pending sc)"

text \<open>The accumulator carries the references seen on the tail.\<close>

definition tally_best :: "payout_update option \<Rightarrow> payout_scan \<Rightarrow> payout_scan" where
  "tally_best update sc =
     (case update of None \<Rightarrow> sc\<lparr>pn_unmatched := pn_unmatched sc + 1\<rparr>
      | Some u \<Rightarrow> if pu_changed u then sc\<lparr>pn_submitted := pn_submitted sc + 1\<rparr> else sc)"

definition observe_best ::
  "payout_settings \<Rightarrow> observed_payout \<Rightarrow> payout_scan \<times> string list \<Rightarrow> (payout_scan \<times> string list) proc" where
  "observe_best ws ob acc =
     (if \<not> ours ws ob then answer (Inr acc)
      else
        bindP (session (mark_submitted ob)) (\<lambda>update.
        answer (Inr (tally_best update ((fst acc)\<lparr>pn_observed := pn_observed (fst acc) + 1\<rparr>),
          op_reference ob # snd acc))))"

definition scan_best_block ::
  "payout_settings \<Rightarrow> payout_source \<Rightarrow> int \<Rightarrow> payout_scan \<times> string list \<Rightarrow> (payout_scan \<times> string list) proc" where
  "scan_best_block ws src number acc =
     bindP (answer (ps_payouts_in src number)) (\<lambda>observed_events. each (observe_best ws) observed_events acc)"

definition revert_missing :: "string list \<Rightarrow> submitted_payout \<Rightarrow> payout_scan \<Rightarrow> payout_scan proc" where
  "revert_missing seen item sc =
     (if sp_reference item \<in> set seen then answer (Inr sc)
      else
        bindP (\<lambda>s. session (revert_submitted item (clock s)) s) (\<lambda>changed.
        answer (Inr (if changed then sc\<lparr>pn_reorged := pn_reorged sc + 1\<rparr> else sc))))"

definition scan_best_tail :: "payout_settings \<Rightarrow> payout_source \<Rightarrow> payout_scan \<Rightarrow> payout_scan proc" where
  "scan_best_tail ws src sc =
     bindP (answer (ps_best_head src)) (\<lambda>head.
     let best_head = max (pn_finalized_head sc) head in
     bindP (each (scan_best_block ws src) [pn_finalized_head sc + 1..best_head] (sc\<lparr>pn_best_head := best_head\<rparr>, []))
       (\<lambda>(sc', seen).
     bindP (\<lambda>s. answer (Inr (submitted_after s (pn_finalized_head sc))) s) (\<lambda>submitted.
     each (revert_missing seen) submitted sc')))"

section \<open>A pass\<close>

definition scan_from ::
  "payout_settings \<Rightarrow> payout_source \<Rightarrow> price_source \<Rightarrow> payout_cursor_row \<Rightarrow> payout_scan option proc" where
  "scan_from ws src prices c =
     bindP (answer (require_same_payout_watch ws c)) (\<lambda>_.
     bindP (answer (ps_finalized_head src)) (\<lambda>finalized_head.
     let first = pc_last_scanned_block c + 1;
         last = min finalized_head (first + pw_batch_blocks ws - 1);
         sc = \<lparr>pn_finalized_from = first, pn_finalized_through = last, pn_finalized_head = finalized_head,
               pn_best_head = finalized_head, pn_observed = 0, pn_submitted = 0, pn_confirmed = 0, pn_reorged = 0,
               pn_unmatched = 0\<rparr>
     in
     bindP (each (scan_finalized_block ws src prices) [first..last] sc) (\<lambda>sc'.
     if last < finalized_head then answer (Inr (Some sc'))
     else
       bindP (reconcile_recent sc') (\<lambda>sc''.
       bindP (scan_best_tail ws src sc'') (\<lambda>sc'''. answer (Inr (Some sc''')))))))"

definition scan_payouts ::
  "payout_settings \<Rightarrow> payout_source \<Rightarrow> price_source \<Rightarrow> (db \<Rightarrow> db) \<Rightarrow> payout_scan option proc" where
  "scan_payouts ws src prices others s =
     (case payout_cursor s PAYOUT_WATCHER of
        Some c \<Rightarrow> scan_from ws src prices c s
      | None \<Rightarrow>
          bindP (resolve_payout_cursor ws src others) (\<lambda>resolved.
          case resolved of None \<Rightarrow> answer (Inr None) | Some c \<Rightarrow> scan_from ws src prices c) s)"

section \<open>Between passes\<close>

definition delay :: "payout_settings \<Rightarrow> nat \<Rightarrow> rat" where
  "delay ws failures =
     (if failures = 0 then pw_poll_seconds ws
      else min (pw_poll_seconds ws * 2 ^ min (failures - 1) BACKOFF_CEILING_STEPS) MAX_BACKOFF_SECONDS)"

datatype pause = Stop string | Again | Wait rat

text \<open>What \<open>run_forever\<close> does with the outcome of a pass: the failing streak, and how long it waits.\<close>

definition after_pass :: "payout_settings \<Rightarrow> nat \<Rightarrow> watcher_error + payout_scan option \<Rightarrow> nat \<times> pause" where
  "after_pass ws failures outcome =
     (case outcome of
        Inl (SettingsError m) \<Rightarrow> (failures, Stop m)
      | Inl _ \<Rightarrow> (failures + 1, Wait (delay ws (failures + 1)))
      | Inr None \<Rightarrow> (0, Wait (delay ws 0))
      | Inr (Some sc) \<Rightarrow>
          if finalized_blocks sc \<ge> pw_batch_blocks ws then (0, Again) else (0, Wait (delay ws 0)))"

section \<open>What one operation keeps\<close>

lemma session_cases:
  assumes "session m s = (r, s')"
  obtains (failed) e where "m s = Inl e" "r = Inl (Db e)" "s' = s"
  | (committed) x where "m s = Inr (x, s')" "r = Inr x"
  using assms by (auto simp: session_def split: sum.splits)

lemma bindP_cases:
  assumes "bindP m f s = (r, s')"
  obtains (failed) e where "m s = (Inl e, s')" "r = Inl e"
  | (went_on) x s1 where "m s = (Inr x, s1)" "f x s1 = (r, s')"
  using assms by (auto simp: bindP_def split: sum.splits prod.splits)

lemma answer_simp [simp]: "answer r s = (r', s') \<longleftrightarrow> r' = r \<and> s' = s"
  by (auto simp: answer_def)

text \<open>The references on record.\<close>

definition payout_refs :: "db \<Rightarrow> string set" where
  "payout_refs s = tp_extrinsic_reference ` set (treasury_payouts s)"

definition paying :: "db \<Rightarrow> bool" where
  "paying s \<longleftrightarrow> review_inv s \<and> payout_inv s"

text \<open>What the transactions of a pass do: steps of the paying machine that lose no record and leave the cursor.\<close>

definition settles :: "db \<Rightarrow> db \<Rightarrow> bool" where
  "settles s s' \<longleftrightarrow> payout_step\<^sup>*\<^sup>* s s' \<and> payout_refs s \<subseteq> payout_refs s' \<and> payout_cursors s' = payout_cursors s"

lemma settles_refl: "settles s s"
  by (simp add: settles_def)

lemma settles_trans: "settles s s1 \<Longrightarrow> settles s1 s2 \<Longrightarrow> settles s s2"
  unfolding settles_def by (metis rtranclp_trans subset_trans)

lemma steps_paying:
  assumes "payout_step\<^sup>*\<^sup>* s s'" and "paying s"
  shows "paying s'"
  using assms by (induction rule: rtranclp_induct) (auto simp: paying_def sound_def dest: payout_step_sound)

lemma settles_paying: "settles s s' \<Longrightarrow> paying s \<Longrightarrow> paying s'"
  unfolding settles_def using steps_paying by blast

lemma session_settles:
  assumes "session m s = (r, s')" and "\<And>x t. m s = Inr (x, t) \<Longrightarrow> settles s t"
  shows "settles s s'"
  using assms(1) by (cases rule: session_cases) (simp_all add: settles_refl assms(2))

lemma update_submission_payouts:
  assumes "update_submission x s = Inr (u, s')"
  shows "treasury_payouts s' = treasury_payouts s \<and> payout_cursors s' = payout_cursors s"
  using assms by (auto simp: update_submission_Inr Let_def split: option.splits)

lemma record_payout_settles:
  assumes "record_payout ob price s = Inr (p, s')"
  shows "settles s s' \<and> op_reference ob \<in> payout_refs s'"
proof -
  have "payout_step\<^sup>*\<^sup>* s s'" using payout_recorded [OF assms] by blast
  with assms show ?thesis
    by (cases rule: record_payout_Inr) (auto simp: settles_def payout_refs_def new_payout_row_def)
qed

lemma bind_claim_refs:
  assumes "bind_claim (Some p') e s = Inr (u, s')" and "find_row tp_id (tp_id p') (treasury_payouts s) = Some p"
    and "tp_extrinsic_reference p' = tp_extrinsic_reference p" and "distinct (map tp_id (treasury_payouts s))"
  shows "payout_refs s' = payout_refs s \<and> payout_cursors s' = payout_cursors s"
proof -
  let ?p = "p'\<lparr>tp_status := CLAIMED, tp_reward_event_id := Some (rw_id e), tp_updated_at := clock s\<rparr>"
  have "update_payout (p'\<lparr>tp_status := CLAIMED, tp_reward_event_id := Some (rw_id e)\<rparr>) s = Inr ((), s')"
    using assms(1) by (simp add: bind_claim_Inr)
  then have s': "s' = s\<lparr>treasury_payouts := replace_row tp_id ?p (treasury_payouts s)\<rparr>"
    by (simp add: update_payout_Inr Let_def)
  have "map tp_extrinsic_reference (replace_row tp_id ?p (treasury_payouts s)) = map tp_extrinsic_reference (treasury_payouts s)"
    using find_row_Some [OF assms(2)] assms(3) by (intro map_replace_row [OF assms(4), of p]) simp_all
  then have "payout_refs s' = payout_refs s" unfolding payout_refs_def s' by (simp flip: set_map)
  then show ?thesis by (simp add: s')
qed

lemma claim_payout_settles:
  assumes c: "claim_payout n s = Inr (r, s')" and "paying s"
  shows "settles s s'"
proof -
  have d: "distinct (map tp_id (treasury_payouts s))" using assms(2) by (simp add: paying_def payout_inv_def pay_keyed_def)
  have "payout_refs s' = payout_refs s \<and> payout_cursors s' = payout_cursors s"
    using c
  proof (cases rule: claim_payout_Inr)
    case (settled p u e)
    have id: "tp_id p = n" using find_row_Some [OF settled(1)] by simp
    from settled(5) show ?thesis
    proof (cases rule: settle_event_Inr)
      case (already x)
      then show ?thesis using bind_claim_refs [of p e s "()" s' p] settled(1) d id by simp
    next
      case (paid x s1 s2 s3 ev)
      have s1: "treasury_payouts s1 = treasury_payouts s" "payout_cursors s1 = payout_cursors s"
        using paid(4) update_submission_payouts by (auto split: if_splits)
      have s2: "treasury_payouts s2 = treasury_payouts s" "payout_cursors s2 = payout_cursors s"
        using paid(5) s1 by (simp_all add: update_reward_Inr)
      have "payout_refs s3 = payout_refs s2 \<and> payout_cursors s3 = payout_cursors s2"
        using bind_claim_refs [OF paid(6), of p] settled(1) d id s2(1) by simp
      then show ?thesis using s2 by (simp add: paid(7) payout_refs_def)
    qed
  qed simp
  then show ?thesis using payout_claimed [OF c] by (auto simp: settles_def)
qed

lemma mark_submitted_settles:
  assumes "mark_submitted ob s = Inr (r, s')"
  shows "settles s s'"
proof -
  have "treasury_payouts s' = treasury_payouts s \<and> payout_cursors s' = payout_cursors s"
    using assms
  proof (cases rule: mark_submitted_Inr)
    case (marked e)
    from marked(5) show ?thesis
    proof (cases rule: mark_event_Inr)
      case (1 x s1 s2 ev)
      have "treasury_payouts s1 = treasury_payouts s \<and> payout_cursors s1 = payout_cursors s"
        using 1(2) update_submission_payouts by auto
      then show ?thesis using 1(3) by (simp add: 1(4) update_reward_Inr)
    qed
  qed simp
  then show ?thesis using payout_marked [OF assms] by (auto simp: settles_def payout_refs_def)
qed

lemma revert_submitted_settles:
  assumes "revert_submitted sp now s = Inr (b, s')"
  shows "settles s s'"
proof -
  have "treasury_payouts s' = treasury_payouts s \<and> payout_cursors s' = payout_cursors s"
    using assms by (cases rule: revert_submitted_Inr) (auto simp: update_reward_Inr)
  then show ?thesis using payout_reverted [OF assms] by (auto simp: settles_def payout_refs_def)
qed

lemma session_claim: "session (claim_payout n) s = (r, s') \<Longrightarrow> paying s \<Longrightarrow> settles s s'"
  by (erule session_settles) (rule claim_payout_settles)

lemma session_mark: "session (mark_submitted ob) s = (r, s') \<Longrightarrow> settles s s'"
  by (erule session_settles) (rule mark_submitted_settles)

lemma session_revert: "session (revert_submitted sp now) s = (r, s') \<Longrightarrow> settles s s'"
  by (erule session_settles) (rule revert_submitted_settles)

section \<open>A loop over the payouts of a block\<close>

lemma observe_finalized_settles:
  assumes "observe_finalized ws prices ob sc s = (r, s')" and "paying s"
  shows "settles s s' \<and> (\<forall>sc'. r = Inr sc' \<longrightarrow> ours ws ob \<longrightarrow> op_reference ob \<in> payout_refs s')"
proof (cases "ours ws ob")
  case False
  then show ?thesis using assms by (simp add: observe_finalized_def settles_refl)
next
  case True
  note scan = assms(1) [unfolded observe_finalized_def, simplified True not_True_eq_False if_False]
  from scan show ?thesis
  proof (cases rule: bindP_cases)
    case (failed e)
    then show ?thesis by (auto elim!: session_cases simp: settles_refl)
  next
    case (went_on p s1)
    then have "record_payout ob (price_for prices ob (clock s)) s = Inr (p, s1)" by (auto elim!: session_cases)
    from record_payout_settles [OF this] have 1: "settles s s1" "op_reference ob \<in> payout_refs s1" by simp_all
    have 2: "settles s1 s'"
      using went_on(2) by (cases rule: bindP_cases) (auto dest: session_claim [OF _ settles_paying [OF 1(1) assms(2)]])
    have "op_reference ob \<in> payout_refs s'" using 1(2) 2 by (auto simp: settles_def)
    then show ?thesis using settles_trans [OF 1(1) 2] by blast
  qed
qed

lemma observe_all_settles:
  assumes "each (observe_finalized ws prices) obs sc s = (r, s')" and "paying s"
  shows "settles s s' \<and> (\<forall>sc'. r = Inr sc' \<longrightarrow> (\<forall>ob \<in> set obs. ours ws ob \<longrightarrow> op_reference ob \<in> payout_refs s'))"
  using assms
proof (induction obs arbitrary: sc s)
  case Nil
  then show ?case by (auto simp: settles_refl)
next
  case (Cons ob obs)
  obtain r1 s1 where o: "observe_finalized ws prices ob sc s = (r1, s1)" by (cases "observe_finalized ws prices ob sc s")
  note O = observe_finalized_settles [OF o Cons.prems(2)]
  show ?case
  proof (cases r1)
    case (Inl e)
    then show ?thesis using Cons.prems(1) o O by auto
  next
    case (Inr sc1)
    with Cons.prems(1) o have "each (observe_finalized ws prices) obs sc1 s1 = (r, s')" by simp
    from Cons.IH [OF this] settles_paying [OF _ Cons.prems(2)] O
    have IH: "settles s1 s' \<and> (\<forall>sc'. r = Inr sc' \<longrightarrow> (\<forall>ob \<in> set obs. ours ws ob \<longrightarrow> op_reference ob \<in> payout_refs s'))"
      by blast
    have "settles s s'" using O IH settles_trans by blast
    moreover have "op_reference ob \<in> payout_refs s'" if "ours ws ob" using O IH Inr that unfolding settles_def by blast
    ultimately show ?thesis using IH by simp
  qed
qed

section \<open>Following the finalized chain\<close>

definition read_through :: "db \<Rightarrow> int" where
  "read_through s = (case payout_cursor s PAYOUT_WATCHER of None \<Rightarrow> 0 | Some c \<Rightarrow> pc_last_scanned_block c)"

text \<open>Every payout of the treasury in every block the cursor has passed is on record.\<close>

definition all_recorded :: "payout_settings \<Rightarrow> payout_source \<Rightarrow> db \<Rightarrow> bool" where
  "all_recorded ws src s \<longleftrightarrow> (\<forall>c b. payout_cursor s PAYOUT_WATCHER = Some c \<longrightarrow> pc_start_block c \<le> b \<longrightarrow>
     b \<le> pc_last_scanned_block c \<longrightarrow>
     (\<exists>obs. ps_payouts_in src b = Inr obs \<and> (\<forall>ob \<in> set obs. ours ws ob \<longrightarrow> op_reference ob \<in> payout_refs s)))"

definition paying_watch :: "payout_settings \<Rightarrow> payout_source \<Rightarrow> db \<Rightarrow> bool" where
  "paying_watch ws src s \<longleftrightarrow> paying s \<and> all_recorded ws src s \<and> payout_cursor s PAYOUT_WATCHER \<noteq> None"

text \<open>Steps of the machine, and the watch still starts where it started.\<close>

definition watch_grows :: "db \<Rightarrow> db \<Rightarrow> bool" where
  "watch_grows s s' \<longleftrightarrow> payout_step\<^sup>*\<^sup>* s s' \<and> payout_refs s \<subseteq> payout_refs s' \<and>
     map_option pc_start_block (payout_cursor s PAYOUT_WATCHER) = map_option pc_start_block (payout_cursor s' PAYOUT_WATCHER)"

lemma watch_grows_trans: "watch_grows s s1 \<Longrightarrow> watch_grows s1 s2 \<Longrightarrow> watch_grows s s2"
  unfolding watch_grows_def by (metis rtranclp_trans subset_trans)

lemma settles_grows: "settles s s' \<Longrightarrow> watch_grows s s' \<and> read_through s' = read_through s"
  by (simp add: settles_def watch_grows_def read_through_def payout_cursor_def)

lemma settles_watch:
  assumes "settles s s'" and "paying_watch ws src s"
  shows "paying_watch ws src s'"
proof -
  have "all_recorded ws src s'"
    using assms unfolding settles_def paying_watch_def all_recorded_def payout_cursor_def by (metis subsetD)
  then show ?thesis using assms settles_paying by (auto simp: paying_watch_def settles_def payout_cursor_def)
qed

lemma advance_payout_cursor_Inr:
  assumes "advance_payout_cursor n now w s = Inr (c', s')"
  obtains c cs where "payout_cursor s w = Some c"
    and "c' = (if pc_last_scanned_block c < n then c\<lparr>pc_last_scanned_block := n, pc_last_scanned_at := now\<rparr> else c)"
    and "payout_cursor s' w = Some c'" and "s' = s\<lparr>payout_cursors := cs\<rparr>"
proof -
  from assms obtain c where c: "payout_cursor s w = Some c"
    by (auto simp: advance_payout_cursor_def split: option.splits)
  show thesis
  proof (cases "pc_last_scanned_block c < n")
    case True
    let ?c = "c\<lparr>pc_last_scanned_block := n, pc_last_scanned_at := now\<rparr>"
    from True c assms have "c' = ?c" "s' = s\<lparr>payout_cursors := replace_row pc_watcher ?c (payout_cursors s)\<rparr>"
      by (auto simp: advance_payout_cursor_def update_payout_cursor_def update_in_Inr thenT_Inr_iff ret_def Let_def)
    moreover have "find_row pc_watcher w (replace_row pc_watcher ?c (payout_cursors s)) = Some ?c"
      using c find_row_Some [of pc_watcher w] by (intro find_after_replace [of _ _ _ c]) (auto simp: payout_cursor_def)
    ultimately show thesis using True c
      by (intro that [of c "replace_row pc_watcher ?c (payout_cursors s)"]) (simp_all add: payout_cursor_def)
  next
    case False
    with c assms show thesis by (intro that [of c "payout_cursors s"]) (auto simp: advance_payout_cursor_def)
  qed
qed

lemma scan_finalized_block_watch:
  assumes scan: "scan_finalized_block ws src prices (read_through s + 1) sc s = (r, s')" and w: "paying_watch ws src s"
  shows "paying_watch ws src s' \<and> watch_grows s s' \<and>
    read_through s' = (case r of Inl _ \<Rightarrow> read_through s | Inr _ \<Rightarrow> read_through s + 1)"
proof -
  let ?n = "read_through s + 1"
  have quiet: "paying_watch ws src s1 \<and> watch_grows s s1 \<and> read_through s1 = read_through s" if "settles s s1" for s1
    using settles_watch [OF that w] settles_grows [OF that] by simp
  from scan [unfolded scan_finalized_block_def] show ?thesis
  proof (cases rule: bindP_cases)
    case (failed e)
    then have "s' = s" by simp
    then show ?thesis using quiet [OF settles_refl] failed(2) by simp
  next
    case (went_on obs s0)
    then have obs: "ps_payouts_in src ?n = Inr obs" and s0: "s0 = s" by simp_all
    from went_on(2) [unfolded s0] show ?thesis
    proof (cases rule: bindP_cases)
      case (failed e)
      then have "settles s s'" using observe_all_settles w by (auto simp: paying_watch_def)
      then show ?thesis using quiet failed(2) by simp
    next
      case (went_on sc1 s1)
      have S: "settles s s1" "\<forall>ob \<in> set obs. ours ws ob \<longrightarrow> op_reference ob \<in> payout_refs s1"
        using observe_all_settles [OF went_on(1)] w by (auto simp: paying_watch_def)
      note Q = quiet [OF S(1)]
      from went_on(2) show ?thesis
      proof (cases rule: bindP_cases)
        case (failed e)
        then show ?thesis using Q by (auto elim!: session_cases)
      next
        case (went_on c' s2)
        then have s2: "s2 = s'" and r: "r = Inr sc1" by simp_all
        from went_on(1) have adv: "advance_payout_cursor ?n (clock s1) PAYOUT_WATCHER s1 = Inr (c', s')"
          by (auto elim!: session_cases simp: s2)
        then obtain c cs where c: "payout_cursor s1 PAYOUT_WATCHER = Some c"
          "c' = (if pc_last_scanned_block c < ?n then c\<lparr>pc_last_scanned_block := ?n, pc_last_scanned_at := clock s1\<rparr> else c)"
          "payout_cursor s' PAYOUT_WATCHER = Some c'" "s' = s1\<lparr>payout_cursors := cs\<rparr>" by (rule advance_payout_cursor_Inr)
        have last: "pc_last_scanned_block c = read_through s" using Q c(1) by (simp add: read_through_def)
        then have c': "c' = c\<lparr>pc_last_scanned_block := ?n, pc_last_scanned_at := clock s1\<rparr>" using c(2) by simp
        have refs: "payout_refs s' = payout_refs s1" by (simp add: payout_refs_def c(4))
        have step: "payout_step s1 s'" using adv by (rule watch_advanced)
        have "\<exists>obs. ps_payouts_in src b = Inr obs \<and> (\<forall>ob \<in> set obs. ours ws ob \<longrightarrow> op_reference ob \<in> payout_refs s')"
          if "pc_start_block c' \<le> b" "b \<le> pc_last_scanned_block c'" for b
        proof (cases "b = ?n")
          case True
          then show ?thesis using obs S(2) refs by blast
        next
          case False
          then have "pc_start_block c \<le> b" "b \<le> pc_last_scanned_block c" using that last by (simp_all add: c')
          then show ?thesis using Q c(1) refs unfolding paying_watch_def all_recorded_def by metis
        qed
        then have "all_recorded ws src s'" using c(3) unfolding all_recorded_def by auto
        moreover have "paying s'" using Q steps_paying [of s1 s'] step by (auto simp: paying_watch_def)
        moreover have "watch_grows s1 s'" using step c(1,3) refs by (auto simp: watch_grows_def c')
        ultimately show ?thesis using Q c(3) watch_grows_trans r
          by (auto simp: paying_watch_def read_through_def c')
      qed
    qed
  qed
qed

interpretation payouts: block_follower "scan_finalized_block ws src prices" read_through "paying_watch ws src" watch_grows
  for ws src prices
proof
  show "watch_grows s s" for s by (simp add: watch_grows_def)
  show "watch_grows s s2" if "watch_grows s s1" "watch_grows s1 s2" for s s1 s2 using that by (rule watch_grows_trans)
qed (rule scan_finalized_block_watch)

section \<open>The best-chain tail\<close>

lemma retry_claims_settle:
  assumes "each retry_claim items sc s = (r, s')" and "paying s"
  shows "settles s s' \<and> paying s'"
proof (rule each_keeps [OF assms(1), where keeps = settles and ok = paying])
  fix x c s r s' assume a: "retry_claim x c s = (r, s')" and p: "paying s"
  from a [unfolded retry_claim_def] have "settles s s'"
    by (cases rule: bindP_cases) (auto dest: session_claim [OF _ p])
  then show "settles s s' \<and> paying s'" using settles_paying p by blast
qed (auto intro: settles_refl settles_trans assms(2))

lemma observe_best_settles:
  assumes "observe_best ws ob acc s = (r, s')"
  shows "settles s s' \<and> (\<forall>acc'. r = Inr acc' \<longrightarrow>
    set (snd acc') = (if ours ws ob then insert (op_reference ob) (set (snd acc)) else set (snd acc)))"
proof (cases "ours ws ob")
  case True
  from assms [unfolded observe_best_def, simplified True not_True_eq_False if_False] show ?thesis
    by (cases rule: bindP_cases) (auto dest: session_mark simp: True)
qed (use assms in \<open>simp add: observe_best_def settles_refl\<close>)

lemma observe_best_all:
  assumes "each (observe_best ws) obs acc s = (r, s')"
  shows "settles s s' \<and> (\<forall>acc'. r = Inr acc' \<longrightarrow>
    set (snd acc') = set (snd acc) \<union> op_reference ` {ob \<in> set obs. ours ws ob})"
  using assms
proof (induction obs arbitrary: acc s)
  case Nil
  then show ?case by (auto simp: settles_refl)
next
  case (Cons ob obs)
  obtain r1 s1 where o: "observe_best ws ob acc s = (r1, s1)" by (cases "observe_best ws ob acc s")
  note O = observe_best_settles [OF o]
  show ?case
  proof (cases r1)
    case (Inl e)
    then show ?thesis using Cons.prems o O by auto
  next
    case (Inr acc1)
    with Cons.prems o have "each (observe_best ws) obs acc1 s1 = (r, s')" by simp
    from Cons.IH [OF this] show ?thesis using O Inr settles_trans by (auto split: if_splits)
  qed
qed

lemma scan_best_blocks:
  assumes "each (scan_best_block ws src) ns acc s = (r, s')"
  shows "settles s s' \<and> (\<forall>acc'. r = Inr acc' \<longrightarrow> set (snd acc') \<subseteq> set (snd acc) \<union>
    {op_reference ob | ob n obs. n \<in> set ns \<and> ps_payouts_in src n = Inr obs \<and> ob \<in> set obs \<and> ours ws ob})"
  using assms
proof (induction ns arbitrary: acc s)
  case Nil
  then show ?case by (auto simp: settles_refl)
next
  case (Cons n ns)
  obtain r1 s1 where o: "scan_best_block ws src n acc s = (r1, s1)" by (cases "scan_best_block ws src n acc s")
  show ?case
  proof (cases "ps_payouts_in src n")
    case (Inl e)
    then show ?thesis using Cons.prems by (auto simp: scan_best_block_def bindP_def answer_def settles_refl)
  next
    case obs: (Inr obs)
    then have "each (observe_best ws) obs acc s = (r1, s1)" using o by (simp add: scan_best_block_def bindP_def answer_def)
    note O = observe_best_all [OF this]
    show ?thesis
    proof (cases r1)
      case (Inl e)
      then show ?thesis using Cons.prems o O by auto
    next
      case (Inr acc1)
      with Cons.prems o have "each (scan_best_block ws src) ns acc1 s1 = (r, s')" by simp
      note IH = Cons.IH [OF this]
      have "set (snd acc') \<subseteq> set (snd acc) \<union>
          {op_reference ob | ob m obs. m \<in> set (n # ns) \<and> ps_payouts_in src m = Inr obs \<and> ob \<in> set obs \<and> ours ws ob}"
        if "r = Inr acc'" for acc'
      proof
        fix x assume "x \<in> set (snd acc')"
        with IH that consider "x \<in> set (snd acc1)"
          | "x \<in> {op_reference ob | ob m obs. m \<in> set ns \<and> ps_payouts_in src m = Inr obs \<and> ob \<in> set obs \<and> ours ws ob}" by blast
        then show "x \<in> set (snd acc) \<union>
          {op_reference ob | ob m obs. m \<in> set (n # ns) \<and> ps_payouts_in src m = Inr obs \<and> ob \<in> set obs \<and> ours ws ob}"
        proof cases
          case 1
          then show ?thesis using O Inr obs by fastforce
        next
          case 2
          then show ?thesis by fastforce
        qed
      qed
      then show ?thesis using O IH settles_trans by blast
    qed
  qed
qed

text \<open>The sightings above a block.\<close>

definition sighted :: "int \<Rightarrow> reward_row \<Rightarrow> bool" where
  "sighted head e \<longleftrightarrow> rw_status e = SUBMITTED \<and> rw_chain_observed e \<and> rw_extrinsic_reference e \<noteq> None \<and>
     (case rw_submitted_block e of None \<Rightarrow> False | Some b \<Rightarrow> b > head)"

lemma submitted_after_sighted:
  assumes "e \<in> set (reward_events s)" and "sighted head e"
  shows "\<exists>sp \<in> set (submitted_after s head). sp_reward_event_id sp = rw_id e \<and> rw_extrinsic_reference e = Some (sp_reference sp)"
proof -
  from assms(2) obtain r b where rb: "rw_extrinsic_reference e = Some r" "rw_submitted_block e = Some b" "b > head"
    "rw_status e = SUBMITTED" "rw_chain_observed e" by (auto simp: sighted_def split: option.splits)
  then have "\<lparr>sp_reward_event_id = rw_id e, sp_reference = r, sp_submitted_block = b\<rparr> \<in> set (submitted_after s head)"
    using assms(1) by (force simp: submitted_after_def List.map_filter_def image_iff)
  then show ?thesis using rb(1) by force
qed

lemma revert_missing_sighted:
  assumes "revert_missing seen item sc s = (Inr sc', s')" and "distinct (map rw_id (reward_events s))"
    and "e \<in> set (reward_events s')" and "sighted head e"
  shows "e \<in> set (reward_events s) \<and>
    (rw_id e = sp_reward_event_id item \<longrightarrow> rw_extrinsic_reference e = Some (sp_reference item) \<longrightarrow> sp_reference item \<in> set seen)"
proof (cases "sp_reference item \<in> set seen")
  case True
  then show ?thesis using assms by (simp add: revert_missing_def)
next
  case False
  from assms(1) [unfolded revert_missing_def, simplified False if_False] obtain b where
    rv: "revert_submitted item (clock s) s = Inr (b, s')"
    by (cases rule: bindP_cases) (auto elim!: session_cases)
  then show ?thesis
  proof (cases rule: revert_submitted_Inr)
    case same
    have "rw_extrinsic_reference e \<noteq> Some (sp_reference item)" if id: "rw_id e = sp_reward_event_id item"
    proof
      assume ref: "rw_extrinsic_reference e = Some (sp_reference item)"
      have "find_row rw_id (sp_reward_event_id item) (reward_events s) = Some e"
        using assms(2,3) same(2) id by (metis find_row_unique)
      moreover have "rw_status e = SUBMITTED" using assms(4) by (simp add: sighted_def)
      ultimately show False using rv same(1) ref
        by (auto simp: revert_submitted_def bindT_Inr_iff thenT_Inr_iff)
    qed
    then show ?thesis using assms(3) same(2) by blast
  next
    case (undone e0 s1 ev)
    have s': "reward_events s' = replace_row rw_id (pending_event e0) (reward_events s)"
      using undone(5) by (simp add: undone(6) update_reward_Inr)
    have "e \<noteq> pending_event e0" using assms(4) by (auto simp: sighted_def pending_event_def)
    then have "e \<in> set (reward_events s)" "rw_id e \<noteq> rw_id e0" using assms(3) by (auto simp: s' in_replace_row pending_event_def)
    moreover have "rw_id e0 = sp_reward_event_id item" using find_row_Some [OF undone(2)] by simp
    ultimately show ?thesis by auto
  qed
qed

lemma revert_missing_settles:
  assumes "revert_missing seen item sc s = (r, s')"
  shows "settles s s'"
proof (cases "sp_reference item \<in> set seen")
  case False
  from assms [unfolded revert_missing_def, simplified False if_False] show ?thesis
    by (cases rule: bindP_cases) (auto dest: session_revert)
qed (use assms in \<open>simp add: revert_missing_def settles_refl\<close>)

lemma revert_all_sighted:
  assumes "each (revert_missing seen) items sc s = (r, s')" and "paying s"
  shows "settles s s' \<and> (\<forall>sc' e. r = Inr sc' \<longrightarrow> e \<in> set (reward_events s') \<longrightarrow> sighted head e \<longrightarrow>
    e \<in> set (reward_events s) \<and> (\<forall>sp \<in> set items. sp_reward_event_id sp = rw_id e \<longrightarrow>
      rw_extrinsic_reference e = Some (sp_reference sp) \<longrightarrow> sp_reference sp \<in> set seen))"
  using assms
proof (induction items arbitrary: sc s)
  case Nil
  then show ?case by (auto simp: settles_refl)
next
  case (Cons item items)
  have d: "distinct (map rw_id (reward_events s))" using Cons.prems(2) by (simp add: paying_def payout_inv_def pay_keyed_def)
  obtain r1 s1 where o: "revert_missing seen item sc s = (r1, s1)" by (cases "revert_missing seen item sc s")
  note O = revert_missing_settles [OF o]
  show ?case
  proof (cases r1)
    case (Inl e)
    then show ?thesis using Cons.prems o O by auto
  next
    case (Inr sc1)
    with Cons.prems o have "each (revert_missing seen) items sc1 s1 = (r, s')" by simp
    note IH = Cons.IH [OF this settles_paying [OF O Cons.prems(2)]]
    note first = revert_missing_sighted [OF o [unfolded Inr] d]
    have "settles s s'" using O IH settles_trans by blast
    moreover have "e \<in> set (reward_events s) \<and> (\<forall>sp \<in> set (item # items). sp_reward_event_id sp = rw_id e \<longrightarrow>
      rw_extrinsic_reference e = Some (sp_reference sp) \<longrightarrow> sp_reference sp \<in> set seen)"
      if "r = Inr sc'" "e \<in> set (reward_events s')" "sighted head e" for sc' e
    proof -
      have "e \<in> set (reward_events s1)" "\<forall>sp \<in> set items. sp_reward_event_id sp = rw_id e \<longrightarrow>
          rw_extrinsic_reference e = Some (sp_reference sp) \<longrightarrow> sp_reference sp \<in> set seen"
        using IH that by blast+
      then show ?thesis using first [OF _ that(3)] by auto
    qed
    ultimately show ?thesis by blast
  qed
qed

section \<open>A whole pass\<close>

text \<open>The tallies leave the range of the pass alone.\<close>

lemma each_accumulates:
  assumes "each body xs c s = (Inr c', s')" and "P c"
    and "\<And>x c s c' s'. x \<in> set xs \<Longrightarrow> body x c s = (Inr c', s') \<Longrightarrow> P c \<Longrightarrow> P c'"
  shows "P c'"
  using assms
proof (induction xs arbitrary: c s)
  case (Cons x xs)
  from Cons.prems(1) obtain c1 s1 where b: "body x c s = (Inr c1, s1)" "each body xs c1 s1 = (Inr c', s')"
    by (auto split: prod.splits sum.splits)
  have "P c1" using Cons.prems(3) [OF _ b(1) Cons.prems(2)] by simp
  with b(2) show ?case
  proof (rule Cons.IH)
    fix y c s c' s' assume "y \<in> set xs" "body y c s = (Inr c', s')" "P c"
    then show "P c'" using Cons.prems(3) [of y c s c' s'] by simp
  qed
qed simp

lemma scan_blocks_head:
  assumes "each (scan_finalized_block ws src prices) ns sc s = (Inr sc', s')"
  shows "pn_finalized_head sc' = pn_finalized_head sc"
proof (rule each_accumulates [OF assms, where P = "\<lambda>x. pn_finalized_head x = pn_finalized_head sc"])
  fix n x s x' s' assume b: "scan_finalized_block ws src prices n x s = (Inr x', s')"
    and p: "pn_finalized_head x = pn_finalized_head sc"
  from b obtain obs s2 where "each (observe_finalized ws prices) obs x s = (Inr x', s2)"
    unfolding scan_finalized_block_def by (elim bindP_cases) auto
  from this p show "pn_finalized_head x' = pn_finalized_head sc"
    by (rule each_accumulates [where P = "\<lambda>x. pn_finalized_head x = pn_finalized_head sc"])
      (auto simp: observe_finalized_def tally_finalized_def split: if_splits option.splits elim!: bindP_cases)
qed simp

lemma retry_claims_head:
  "each retry_claim items sc s = (Inr sc', s') \<Longrightarrow> pn_finalized_head sc' = pn_finalized_head sc"
  by (erule each_accumulates [where P = "\<lambda>x. pn_finalized_head x = pn_finalized_head sc"])
    (auto simp: retry_claim_def split: if_splits option.splits elim!: bindP_cases)

lemma reconcile_recent_settles:
  assumes "reconcile_recent sc s = (r, s')" and "paying s"
  shows "settles s s' \<and> (\<forall>sc'. r = Inr sc' \<longrightarrow> pn_finalized_head sc' = pn_finalized_head sc)"
  using assms(1) [unfolded reconcile_recent_def]
proof (cases rule: bindP_cases)
  case (went_on items s1)
  then show ?thesis using retry_claims_settle [of items sc s r s'] retry_claims_head assms(2) by auto
qed simp

lemma scan_best_tail_sightings:
  assumes "scan_best_tail ws src sc s = (r, s')" and "paying s"
  shows "settles s s' \<and> (\<forall>sc' e. r = Inr sc' \<longrightarrow> e \<in> set (reward_events s') \<longrightarrow> sighted (pn_finalized_head sc) e \<longrightarrow>
    (\<exists>b obs ob. pn_finalized_head sc < b \<and> ps_payouts_in src b = Inr obs \<and> ob \<in> set obs \<and> ours ws ob \<and>
      rw_extrinsic_reference e = Some (op_reference ob)))"
  using assms(1) [unfolded scan_best_tail_def]
proof (cases rule: bindP_cases)
  case (failed e)
  then show ?thesis by (simp add: settles_refl)
next
  case (went_on head s0)
  let ?h = "pn_finalized_head sc" and ?b = "max (pn_finalized_head sc) head"
  have s0: "s0 = s" using went_on(1) by simp
  from went_on(2) [unfolded s0 Let_def] show ?thesis
  proof (cases rule: bindP_cases)
    case (failed e)
    then show ?thesis using scan_best_blocks by auto
  next
    case (went_on acc s1)
    note T = scan_best_blocks [OF went_on(1)]
    obtain sc1 seen where acc: "acc = (sc1, seen)" by (cases acc)
    have p1: "paying s1" using T settles_paying assms(2) by blast
    from went_on(2) [unfolded acc prod.case] show ?thesis
    proof (cases rule: bindP_cases)
      case (failed e)
      then show ?thesis by simp
    next
      case (went_on items s2)
      then have items: "items = submitted_after s1 ?h" and s2: "s2 = s1" by simp_all
      from revert_all_sighted [OF went_on(2) [unfolded items s2] p1, of ?h] have
        R: "settles s1 s'" "\<And>sc' e. r = Inr sc' \<Longrightarrow> e \<in> set (reward_events s') \<Longrightarrow> sighted ?h e \<Longrightarrow>
          e \<in> set (reward_events s1) \<and> (\<forall>sp \<in> set (submitted_after s1 ?h). sp_reward_event_id sp = rw_id e \<longrightarrow>
            rw_extrinsic_reference e = Some (sp_reference sp) \<longrightarrow> sp_reference sp \<in> set seen)" by blast+
      have "\<exists>b obs ob. ?h < b \<and> ps_payouts_in src b = Inr obs \<and> ob \<in> set obs \<and> ours ws ob \<and>
          rw_extrinsic_reference e = Some (op_reference ob)"
        if e: "r = Inr sc'" "e \<in> set (reward_events s')" "sighted ?h e" for sc' e
      proof -
        note E = R(2) [OF e]
        from submitted_after_sighted [of e s1 ?h] E e(3) obtain sp where "sp \<in> set (submitted_after s1 ?h)"
          "sp_reward_event_id sp = rw_id e" "rw_extrinsic_reference e = Some (sp_reference sp)" by blast
        with E have "sp_reference sp \<in> set seen" "rw_extrinsic_reference e = Some (sp_reference sp)" by blast+
        then obtain ob n obs where "sp_reference sp = op_reference ob" "n \<in> set [?h + 1..?b]" "ps_payouts_in src n = Inr obs"
          "ob \<in> set obs" "ours ws ob" using T acc by fastforce
        then show ?thesis using \<open>rw_extrinsic_reference e = Some (sp_reference sp)\<close>
          by (intro exI [of _ n] exI [of _ obs] exI [of _ ob]) auto
      qed
      then show ?thesis using T R(1) settles_trans by blast
    qed
  qed
qed

lemma scan_from_pass:
  assumes scan: "scan_from ws src prices c s = (r, s')" and c: "payout_cursor s PAYOUT_WATCHER = Some c"
    and w: "paying_watch ws src s" and head: "ps_finalized_head src = Inr head"
    and ok: "require_same_payout_watch ws c = Inr ()" and batch: "0 < pw_batch_blocks ws"
  shows "paying_watch ws src s' \<and> watch_grows s s' \<and> read_through s \<le> read_through s' \<and>
    (\<forall>x. r = Inr x \<longrightarrow> min head (read_through s + pw_batch_blocks ws) \<le> read_through s' \<and>
      (head \<le> read_through s + pw_batch_blocks ws \<longrightarrow>
       (\<forall>e \<in> set (reward_events s'). sighted head e \<longrightarrow>
         (\<exists>b obs ob. head < b \<and> ps_payouts_in src b = Inr obs \<and> ob \<in> set obs \<and> ours ws ob \<and>
           rw_extrinsic_reference e = Some (op_reference ob)))))"
proof -
  let ?n = "read_through s"
  let ?last = "min head (?n + pw_batch_blocks ws)"
  let ?sc = "\<lparr>pn_finalized_from = ?n + 1, pn_finalized_through = ?last, pn_finalized_head = head, pn_best_head = head,
    pn_observed = 0, pn_submitted = 0, pn_confirmed = 0, pn_reorged = 0, pn_unmatched = 0\<rparr>"
  have n: "pc_last_scanned_block c = ?n" using c by (simp add: read_through_def)
  have pass: "bindP (each (scan_finalized_block ws src prices) [?n + 1..?last] ?sc)
      (\<lambda>sc'. if ?last < head then answer (Inr (Some sc'))
             else bindP (reconcile_recent sc') (\<lambda>sc''. bindP (scan_best_tail ws src sc'') (\<lambda>sc'''. answer (Inr (Some sc'''))))) s
      = (r, s')"
    using scan unfolding scan_from_def by (simp add: ok head n Let_def bindP_def answer_def algebra_simps)
  have F: "paying_watch ws src s1 \<and> watch_grows s s1 \<and> ?n \<le> read_through s1 \<and>
      (case r1 of Inl _ \<Rightarrow> True | Inr _ \<Rightarrow> ?last \<le> read_through s1)"
    if "each (scan_finalized_block ws src prices) [?n + 1..?last] ?sc s = (r1, s1)" for r1 s1
  proof (cases "?n \<le> ?last")
    case True
    from payouts.scan_range [OF that w True] show ?thesis by (cases r1) auto
  next
    case False
    then have "[?n + 1..?last] = []" by (intro upto_empty) linarith
    then show ?thesis using that w False by (auto simp: watch_grows_def)
  qed
  from pass show ?thesis
  proof (cases rule: bindP_cases)
    case (failed e)
    then show ?thesis using F [OF failed(1)] by simp
  next
    case (went_on sc1 s1)
    note F1 = F [OF went_on(1), simplified]
    have h1: "pn_finalized_head sc1 = head" using scan_blocks_head [OF went_on(1)] by simp
    show ?thesis
    proof (cases "?last < head")
      case True
      then have "s' = s1" "\<not> head \<le> ?n + pw_batch_blocks ws" using went_on(2) [unfolded if_P [OF True]] by auto
      then show ?thesis using F1 by auto
    next
      case False
      have p1: "paying s1" using F1 by (simp add: paying_watch_def)
      have later: "paying_watch ws src s2 \<and> watch_grows s s2 \<and> ?n \<le> read_through s2 \<and> ?last \<le> read_through s2"
        if "settles s1 s2" for s2
        using F1 settles_watch [OF that] settles_grows [OF that] watch_grows_trans by auto
      from went_on(2) [unfolded if_not_P [OF False]] show ?thesis
      proof (cases rule: bindP_cases)
        case (failed e)
        then show ?thesis using later reconcile_recent_settles p1 by blast
      next
        case (went_on sc2 s2)
        have R: "settles s1 s2" "pn_finalized_head sc2 = head"
          using reconcile_recent_settles [OF went_on(1) p1] h1 by simp_all
        have p2: "paying s2" using settles_paying [OF R(1) p1] .
        from went_on(2) show ?thesis
        proof (cases rule: bindP_cases)
          case (failed e)
          then have "settles s1 s'" using scan_best_tail_sightings p2 R(1) settles_trans by blast
          then show ?thesis using later failed(2) by simp
        next
          case (went_on sc3 s3)
          then have s3: "s3 = s'" by simp
          note T = scan_best_tail_sightings [OF went_on(1) p2]
          then have "settles s1 s'" using R(1) settles_trans s3 by blast
          then show ?thesis using later T R(2) s3 by auto
        qed
      qed
    qed
  qed
qed

lemma refused_pass:
  assumes "scan_from ws src prices c s = (r, s')"
    and "require_same_payout_watch ws c \<noteq> Inr () \<or> (\<forall>head. ps_finalized_head src \<noteq> Inr head)"
  shows "s' = s \<and> (\<forall>x. r \<noteq> Inr x)"
  using assms by (auto simp: scan_from_def bindP_def answer_def split: sum.splits)

lemma watched_pass:
  assumes "scan_payouts ws src prices others s = (r, s')" and "payout_cursor s PAYOUT_WATCHER = Some c"
  shows "scan_from ws src prices c s = (r, s')"
  using assms by (simp add: scan_payouts_def)

section \<open>Properties\<close>

text \<open>A watch on the treasury of the examples, opened before block 8.\<close>

definition sample_payout_settings :: payout_settings where
  "sample_payout_settings = \<lparr>pw_network = ''finney'', pw_origin_coldkey = ''T'', pw_origin_hotkey = ''V'', pw_netuid = 66,
     pw_batch_blocks = 5, pw_poll_seconds = 12\<rparr>"

definition sample_source :: "int \<Rightarrow> payout_source" where
  "sample_source head = \<lparr>ps_best_head = Inr 9, ps_finalized_head = Inr head, ps_block = (\<lambda>b. Inr (12 * b)),
     ps_payouts_in = (\<lambda>b. Inr (if b = 9 then [sample_payout] else []))\<rparr>"

definition sample_payout_watch :: "db_error + payout_cursor_row \<times> db" where
  "sample_payout_watch = bindT (\<lambda>_. sample_seeded) (\<lambda>_.
     open_payout_cursor ''finney'' ''T'' ''V'' 66 90 8 96 PAYOUT_WATCHER) (empty_db (\<lambda>_. replicate 32 0) 100)"

lemma sample_payout_watch_ok:
  "\<exists>c s. sample_payout_watch = Inr (c, s) \<and> payout_cursor s PAYOUT_WATCHER = Some c \<and> paying s \<and>
     pc_start_block c = 8 \<and> pc_last_scanned_block c = 7"
proof -
  have "case sample_payout_watch of Inl _ \<Rightarrow> False | Inr (c, s) \<Rightarrow> review_inv s \<and> payout_inv s \<and>
     (case payout_cursor s PAYOUT_WATCHER of None \<Rightarrow> False | Some d \<Rightarrow> d = c) \<and>
     pc_start_block c = 8 \<and> pc_last_scanned_block c = 7" by code_simp
  then show ?thesis by (auto simp: succeeds_iff finds_iff paying_def)
qed

text \<open>
  C21.  A pass loses no payment and moves no money on its own account.  However it ends, everything it did is
  a sequence of transactions of the paying machine, so their invariants hold; every transfer out of
  the treasury in every block from the start of the watch to its position is on record; and the
  position has not moved back.  A pass that ends well has read its whole batch.
\<close>

theorem payout_pass_misses_nothing:
  assumes "scan_payouts ws src prices others s = (r, s')" and "payout_cursor s PAYOUT_WATCHER = Some c"
    and "paying s" and "all_recorded ws src s" and "0 < pw_batch_blocks ws"
  shows "payout_step\<^sup>*\<^sup>* s s' \<and> paying s' \<and> all_recorded ws src s' \<and>
    (\<exists>c'. payout_cursor s' PAYOUT_WATCHER = Some c' \<and> pc_start_block c' = pc_start_block c \<and>
      pc_last_scanned_block c \<le> pc_last_scanned_block c' \<and>
      (\<forall>head x. ps_finalized_head src = Inr head \<longrightarrow> r = Inr x \<longrightarrow>
         min head (pc_last_scanned_block c + pw_batch_blocks ws) \<le> pc_last_scanned_block c'))"
proof -
  note scan = watched_pass [OF assms(1,2)]
  have w: "paying_watch ws src s" using assms(2-4) by (simp add: paying_watch_def)
  show ?thesis
  proof (cases "require_same_payout_watch ws c = Inr () \<and> (\<exists>head. ps_finalized_head src = Inr head)")
    case False
    then have "s' = s" "\<And>x. r \<noteq> Inr x" using refused_pass [OF scan] by auto
    then show ?thesis using assms(2-4) by simp
  next
    case True
    then obtain head where h: "ps_finalized_head src = Inr head" by blast
    from scan_from_pass [OF scan assms(2) w h _ assms(5)] True
    have P: "paying_watch ws src s'" "watch_grows s s'" "read_through s \<le> read_through s'"
      "\<And>x. r = Inr x \<Longrightarrow> min head (read_through s + pw_batch_blocks ws) \<le> read_through s'" by blast+
    from P(1) obtain c' where c': "payout_cursor s' PAYOUT_WATCHER = Some c'" by (auto simp: paying_watch_def)
    then have "read_through s' = pc_last_scanned_block c'" "read_through s = pc_last_scanned_block c"
      "pc_start_block c' = pc_start_block c"
      using P(2) assms(2) by (auto simp: read_through_def watch_grows_def)
    then show ?thesis using P c' h by (auto simp: paying_watch_def watch_grows_def)
  qed
qed

theorem payout_pass_misses_nothing_witness:
  "\<exists>c s r s' c'. sample_payout_watch = Inr (c, s) \<and>
     scan_payouts sample_payout_settings (sample_source 9) None id s = (Inr r, s') \<and>
     payout_cursor s' PAYOUT_WATCHER = Some c' \<and> 9 \<le> pc_last_scanned_block c' \<and> payout_step\<^sup>*\<^sup>* s s'"
proof -
  obtain c s where s: "sample_payout_watch = Inr (c, s)" "payout_cursor s PAYOUT_WATCHER = Some c" "paying s"
    "pc_start_block c = 8" "pc_last_scanned_block c = 7" using sample_payout_watch_ok by blast
  have rec: "all_recorded sample_payout_settings (sample_source 9) s" using s(2,4,5) by (auto simp: all_recorded_def)
  have "case sample_payout_watch of Inl _ \<Rightarrow> False | Inr (c, s) \<Rightarrow>
     (case fst (scan_payouts sample_payout_settings (sample_source 9) None id s) of Inl _ \<Rightarrow> False | Inr _ \<Rightarrow> True)" by code_simp
  from this [unfolded s(1) sum.case prod.case] obtain r s' where p: "scan_payouts sample_payout_settings (sample_source 9) None id s = (Inr r, s')"
    by (cases "scan_payouts sample_payout_settings (sample_source 9) None id s") (auto simp: succeeds_iff)
  have b: "0 < pw_batch_blocks sample_payout_settings" "ps_finalized_head (sample_source 9) = Inr 9"
    "pw_batch_blocks sample_payout_settings = 5"
    by (simp_all add: sample_payout_settings_def sample_source_def)
  from payout_pass_misses_nothing [OF p s(2,3) rec b(1)] b(2,3) s(5)
  obtain c' where "payout_cursor s' PAYOUT_WATCHER = Some c'" "9 \<le> pc_last_scanned_block c'" "payout_step\<^sup>*\<^sup>* s s'" by auto
  with s(1) p show ?thesis by blast
qed

text \<open>
  C25.  After a pass that has caught up with finality, every obligation shown as paying above the
  finalized head is backed by a transfer of the treasury on the best chain as the pass read it;
  sightings that were reorganized away are gone.
\<close>

theorem best_chain_sightings_exact:
  assumes "scan_payouts ws src prices others s = (Inr x, s')" and "payout_cursor s PAYOUT_WATCHER = Some c"
    and "paying s" and "all_recorded ws src s" and "0 < pw_batch_blocks ws"
    and "ps_finalized_head src = Inr head" and "head \<le> pc_last_scanned_block c + pw_batch_blocks ws"
    and "e \<in> set (reward_events s')" and "sighted head e"
  shows "\<exists>b obs ob. head < b \<and> ps_payouts_in src b = Inr obs \<and> ob \<in> set obs \<and> ours ws ob \<and>
    rw_extrinsic_reference e = Some (op_reference ob)"
proof -
  note scan = watched_pass [OF assms(1,2)]
  have w: "paying_watch ws src s" using assms(2-4) by (simp add: paying_watch_def)
  have ok: "require_same_payout_watch ws c = Inr ()" using refused_pass [OF scan] by blast
  have "read_through s = pc_last_scanned_block c" using assms(2) by (simp add: read_through_def)
  then show ?thesis using scan_from_pass [OF scan assms(2) w assms(6) ok assms(5)] assms(7-9) by simp
qed

theorem best_chain_sightings_exact_witness:
  "\<exists>c s r s' e. sample_payout_watch = Inr (c, s) \<and>
     scan_payouts sample_payout_settings (sample_source 8) None id s = (Inr r, s') \<and>
     e \<in> set (reward_events s') \<and> sighted 8 e \<and> (\<exists>ob. ours sample_payout_settings ob \<and> rw_extrinsic_reference e = Some (op_reference ob))"
proof -
  obtain c s where s: "sample_payout_watch = Inr (c, s)" "payout_cursor s PAYOUT_WATCHER = Some c" "paying s"
    "pc_start_block c = 8" "pc_last_scanned_block c = 7" using sample_payout_watch_ok by blast
  have rec: "all_recorded sample_payout_settings (sample_source 8) s" using s(2,4,5) by (auto simp: all_recorded_def)
  have "case sample_payout_watch of Inl _ \<Rightarrow> False | Inr (c, s) \<Rightarrow>
     (case scan_payouts sample_payout_settings (sample_source 8) None id s of (r, s') \<Rightarrow>
       (case r of Inl _ \<Rightarrow> False | Inr _ \<Rightarrow> list_ex (sighted 8) (reward_events s')))" by code_simp
  from this [unfolded s(1) sum.case prod.case] obtain r s' e where p: "scan_payouts sample_payout_settings (sample_source 8) None id s = (Inr r, s')"
    "e \<in> set (reward_events s')" "sighted 8 e"
    by (cases "scan_payouts sample_payout_settings (sample_source 8) None id s")
      (auto simp: list_ex_iff succeeds_iff)
  have b: "0 < pw_batch_blocks sample_payout_settings" "ps_finalized_head (sample_source 8) = Inr 8"
    "8 \<le> pc_last_scanned_block c + pw_batch_blocks sample_payout_settings"
    by (simp_all add: sample_payout_settings_def sample_source_def s(5))
  from best_chain_sightings_exact [OF p(1) s(2,3) rec b p(2,3)] show ?thesis using s(1) p by blast
qed

text \<open>
  The pauses of a failing watcher double up to five minutes and never shrink, provided the poll
  interval is at most five minutes.  With a longer one, which the settings allow up to an hour, a
  watcher waits less after a failure than after a pass that succeeded.
\<close>

theorem backoff_bounds:
  assumes "0 < pw_poll_seconds ws"
  shows "(pw_poll_seconds ws \<le> MAX_BACKOFF_SECONDS \<longrightarrow>
      delay ws n \<le> delay ws (Suc n) \<and> delay ws n \<le> MAX_BACKOFF_SECONDS \<and> pw_poll_seconds ws \<le> delay ws n) \<and>
    (MAX_BACKOFF_SECONDS < pw_poll_seconds ws \<longrightarrow> delay ws (Suc n) < delay ws 0)"
proof -
  let ?p = "pw_poll_seconds ws"
  have grow: "?p * 2 ^ i \<le> ?p * 2 ^ j" if "i \<le> j" for i j :: nat
    using assms that by (simp add: power_increasing)
  have "delay ws n \<le> delay ws (Suc n)" if "?p \<le> MAX_BACKOFF_SECONDS"
    using that grow [of 0 0] grow [of "min (n - 1) BACKOFF_CEILING_STEPS" "min n BACKOFF_CEILING_STEPS"]
    by (cases n) (auto simp: delay_def min_def)
  moreover have "?p \<le> delay ws n" if "?p \<le> MAX_BACKOFF_SECONDS"
    using that grow [of 0 "min (n - 1) BACKOFF_CEILING_STEPS"] by (simp add: delay_def)
  moreover have "delay ws n \<le> MAX_BACKOFF_SECONDS" if "?p \<le> MAX_BACKOFF_SECONDS" using that by (simp add: delay_def)
  moreover have "delay ws (Suc n) < delay ws 0" if "MAX_BACKOFF_SECONDS < ?p"
    using that by (simp add: delay_def min_less_iff_disj)
  ultimately show ?thesis by blast
qed

theorem backoff_bounds_witness:
  "delay sample_payout_settings 3 \<le> delay sample_payout_settings 4 \<and>
   delay (sample_payout_settings\<lparr>pw_poll_seconds := 3600\<rparr>) 1 < delay (sample_payout_settings\<lparr>pw_poll_seconds := 3600\<rparr>) 0"
proof -
  have a: "0 < pw_poll_seconds sample_payout_settings" "pw_poll_seconds sample_payout_settings \<le> MAX_BACKOFF_SECONDS"
    by (simp_all add: sample_payout_settings_def MAX_BACKOFF_SECONDS_def)
  let ?slow = "sample_payout_settings\<lparr>pw_poll_seconds := 3600\<rparr>"
  have b: "0 < pw_poll_seconds ?slow" "MAX_BACKOFF_SECONDS < pw_poll_seconds ?slow" by (simp_all add: MAX_BACKOFF_SECONDS_def)
  from backoff_bounds [OF a(1), of 3] backoff_bounds [OF b(1), of 0] a(2) b(2) show ?thesis by (simp add: eval_nat_numeral)
qed

end
