(* ===== verification/Bounty.thy ===== *)
theory Bounty
  imports Notifier
begin

text \<open>
  Bounty pricing, \<open>conjectures_subnet/bounty.py\<close>: the share of the treasury a target is worth at its age,
  the pool snapshot of a catalog read, and the quote a submission locks.  The balance the chain
  reader answers is an argument, and so is the moment of the cache's clock.  The advisory lock of
  \<open>lock_quote\<close> is the atomicity of the transaction it is taken in.
\<close>

section \<open>The formula\<close>

definition calculate_bounty_rao :: "int \<Rightarrow> int \<Rightarrow> int \<Rightarrow> int \<Rightarrow> int \<Rightarrow> int \<Rightarrow> int \<Rightarrow> py_error + int" where
  "calculate_bounty_rao balance_rao age_seconds ramp_seconds constant_numerator constant_denominator
     max_bounty_share_numerator max_bounty_share_denominator =
     (if balance_rao < 0 \<or> age_seconds < 0 \<or>
         list_ex (\<lambda>v. v \<le> 0) [ramp_seconds, constant_numerator, constant_denominator,
           max_bounty_share_numerator, max_bounty_share_denominator]
      then Inl (ValueError ''balance and age must be non-negative and pricing inputs positive'')
      else if max_bounty_share_numerator > max_bounty_share_denominator
      then Inl (ValueError ''maximum bounty share cannot exceed the treasury'')
      else
        let start = constant_numerator * max_bounty_share_denominator;
            maximum = max_bounty_share_numerator * constant_denominator
        in if start > maximum then Inl (ValueError ''starting bounty share cannot exceed the maximum share'')
           else let elapsed = min age_seconds ramp_seconds;
                    numerator = balance_rao * (start * ramp_seconds + (maximum - start) * elapsed);
                    denominator = constant_denominator * max_bounty_share_denominator * ramp_seconds
                in Inr (numerator div denominator))"

definition calculate_age_weight :: "time \<Rightarrow> time \<Rightarrow> int \<Rightarrow> int \<Rightarrow> py_error + int" where
  "calculate_age_weight opened_at now period_seconds max_age_weight =
     (if period_seconds \<le> 0 \<or> max_age_weight \<le> 0
      then Inl (ValueError ''age period and maximum age weight must be positive'')
      else let age_seconds = max 0 (now - opened_at) in Inr (min max_age_weight (1 + age_seconds div period_seconds)))"

section \<open>The pricer\<close>

record live_bounty =
  lb_amount_rao :: "rao option"
  lb_policy_version :: string
  lb_available :: bool
  lb_reason :: string
  lb_as_of :: time
  lb_inputs :: "(string \<times> detail) list"

record bounty_snapshot =
  bs_quotes :: "(string \<times> live_bounty) list"
  bs_policy_version :: string
  bs_balance_rao :: rao
  bs_wallet_coldkey :: ss58
  bs_wallet_hotkey :: ss58
  bs_netuid :: int
  bs_asset :: string
  bs_open_targets :: int
  bs_total_age_weight :: int
  bs_as_of :: time
  bs_constant_numerator :: int
  bs_constant_denominator :: int
  bs_ramp_seconds :: int
  bs_max_age_weight :: int
  bs_max_bounty_share_numerator :: int
  bs_max_bounty_share_denominator :: int
  bs_available_balance_rao :: rao
  bs_new_target_policy_version :: string

record bounty_pricer =
  bp_balance_coldkey :: ss58
  bp_balance_hotkey :: ss58
  bp_balance_netuid :: int
  bp_reward_target_ids :: "string list"
  bp_new_target_policy :: string
  bp_required_evidence_available :: bool
  bp_policy_version :: string
  bp_constant_numerator :: int
  bp_constant_denominator :: int
  bp_ramp_seconds :: int
  bp_age_period_seconds :: int
  bp_max_age_weight :: int
  bp_max_bounty_share_numerator :: int
  bp_max_bounty_share_denominator :: int
  bp_confirmed_payout_grace_seconds :: int

abbreviation "LEGACY_TARGET_POLICY \<equiv> ''legacy''"

definition check_pricer :: "bounty_pricer \<Rightarrow> py_error + unit" where
  "check_pricer p =
     (if bp_new_target_policy p \<notin> {LEGACY_TARGET_POLICY, TREASURY_CHAT_POLICY} then Inl (ValueError ''unknown new-target bounty policy'')
      else if bp_balance_coldkey p = [] \<or> bp_balance_hotkey p = []
      then Inl (ValueError ''bounty balance coldkey and hotkey must not be empty'')
      else if bp_balance_netuid p \<le> 0 then Inl (ValueError ''bounty balance netuid must be positive'')
      else if bp_constant_numerator p \<le> 0 \<or> bp_constant_denominator p \<le> 0
      then Inl (ValueError ''bounty constant must be a positive rational'')
      else if bp_ramp_seconds p \<le> 0 then Inl (ValueError ''bounty ramp must be positive'')
      else if take 12 (bp_policy_version p) = ''dynamic-age-''
      then Inl (ValueError ''linear pricing requires a new bounty policy version'')
      else if bp_age_period_seconds p \<le> 0 then Inl (ValueError ''age period must be positive'')
      else if bp_max_age_weight p \<le> 0 then Inl (ValueError ''maximum age weight must be positive'')
      else if bp_max_bounty_share_numerator p \<le> 0 \<or> bp_max_bounty_share_denominator p \<le> 0 \<or>
              bp_max_bounty_share_numerator p > bp_max_bounty_share_denominator p
      then Inl (ValueError ''maximum bounty share must be in the interval (0, 1]'')
      else if bp_constant_numerator p * bp_max_bounty_share_denominator p
              > bp_max_bounty_share_numerator p * bp_constant_denominator p
      then Inl (ValueError ''starting bounty share cannot exceed the maximum share'')
      else if bp_confirmed_payout_grace_seconds p \<le> 0
      then Inl (ValueError ''confirmed payout grace period must be positive'')
      else if bp_reward_target_ids p = [] then Inl (ValueError ''dynamic pricing requires at least one reward target'')
      else if \<not> distinct (bp_reward_target_ids p) then Inl (ValueError ''reward targets must be unique'')
      else Inr ())"

section \<open>Opening a target\<close>

definition bounty_task_checks :: "bounty_task_row \<Rightarrow> (string \<times> bool) list" where
  "bounty_task_checks r =
    [(''bounty_tasks_reward_target_id_nonempty'', length_between 1 255 (bt_reward_target_id r)),
     (''bounty_tasks_start_share_positive'', bt_start_share_numerator r > 0 \<and> bt_start_share_denominator r > 0),
     (''bounty_tasks_pricing_policy'', bt_pricing_policy r \<in> {LEGACY_TARGET_POLICY, TREASURY_CHAT_POLICY})]"

definition insert_bounty_task :: "bounty_task_row \<Rightarrow> bool dbtx" where
  "insert_bounty_task = insert_or_skip bounty_tasks (\<lambda>rs. bounty_tasks_update (\<lambda>_. rs))
     (\<lambda>s. bounty_task_checks) (\<lambda>s r. []) bt_reward_target_id"

definition new_bounty_task :: "bounty_pricer \<Rightarrow> time \<Rightarrow> string \<Rightarrow> bounty_task_row" where
  "new_bounty_task p now target =
     \<lparr>bt_reward_target_id = target, bt_pricing_policy = bp_new_target_policy p, bt_opened_at = now,
      bt_start_share_numerator = bp_constant_numerator p, bt_start_share_denominator = bp_constant_denominator p\<rparr>"

fun open_targets :: "bounty_pricer \<Rightarrow> time \<Rightarrow> string list \<Rightarrow> unit dbtx" where
  "open_targets p now [] = ret ()"
| "open_targets p now (t # ts) = thenT (insert_bounty_task (new_bounty_task p now t)) (open_targets p now ts)"

definition open_unopened :: "bounty_pricer \<Rightarrow> time \<Rightarrow> unit dbtx" where
  "open_unopened p now s =
     open_targets p now (filter (\<lambda>t. t \<notin> bt_reward_target_id ` set (bounty_tasks s)) (bp_reward_target_ids p)) s"

section \<open>What is already promised\<close>

definition settled_payout :: "db \<Rightarrow> time \<Rightarrow> submission_row \<Rightarrow> bool" where
  "settled_payout s before x \<longleftrightarrow> list_ex (\<lambda>e. rw_submission_id e = s_id x \<and> rw_status e = P_CONFIRMED \<and>
     rw_chain_observed e \<and> pred_option (\<lambda>t. t \<le> before) (rw_confirmed_at e) \<and> rw_confirmed_at e \<noteq> None) (reward_events s)"

definition live_lock :: "db \<Rightarrow> time \<Rightarrow> submission_row \<Rightarrow> bool" where
  "live_lock s before x \<longleftrightarrow> s_bounty_locked_at x \<noteq> None \<and> s_verification_status x \<noteq> V_REJECTED \<and>
     s_manual_review_status x \<noteq> R_REJECTED \<and> \<not> settled_payout s before x"

text \<open>\<open>GROUP BY reward_target_id\<close> with the greatest live lock of the group.\<close>

definition greatest :: "int list \<Rightarrow> int" where
  "greatest xs = (case xs of [] \<Rightarrow> 0 | x # ys \<Rightarrow> foldl max x ys)"

definition reservations :: "db \<Rightarrow> time \<Rightarrow> (string \<times> rao) list" where
  "reservations s before =
     (let locked = filter (live_lock s before) (submissions s) in
      map (\<lambda>t. (t, greatest (map s_bounty_amount_rao (filter (\<lambda>x. s_reward_target_id x = t) locked))))
        (remdups (map s_reward_target_id locked)))"

definition bonus_reserved :: "bounty_pricer \<Rightarrow> db \<Rightarrow> time \<Rightarrow> rao" where
  "bonus_reserved p s before =
     sum_where (\<lambda>b. tb_origin_coldkey b = bp_balance_coldkey p \<and> tb_origin_hotkey b = bp_balance_hotkey p \<and>
        (tb_status b = ''PREPARED'' \<or>
         tb_status b = ''CONFIRMED'' \<and> (case tb_completed_at b of None \<Rightarrow> False | Some t \<Rightarrow> t > before)))
       tb_amount_rao (bonuses s)"

definition committed_rao :: "bounty_pricer \<Rightarrow> db \<Rightarrow> time \<Rightarrow> rao" where
  "committed_rao p s now =
     (let before = now - bp_confirmed_payout_grace_seconds p in
      sum_list (map snd (reservations s before)) +
      (if bp_balance_netuid p = 66 then bonus_reserved p s before else 0))"

section \<open>Who holds a target\<close>

text \<open>\<open>db/proof_status.py\<close>: a proof confirmed publicly whose documents are still awaited.\<close>

definition documentation_pending :: "db \<Rightarrow> submission_row \<Rightarrow> bool" where
  "documentation_pending s x \<longleftrightarrow> s_verification_status x = VERIFIED \<and>
     (s_manual_review_status x = UNREVIEWED \<or>
      s_manual_review_status x = R_REJECTED \<and> latest_reason s (s_id x) = Some ''CHAT_LOGS_NOT_ACCEPTED'') \<and>
     list_ex (\<lambda>c. tc_submission_id c = Some (s_id x) \<and> tc_amount_usd_cents c = 0 \<and>
       list_ex (\<lambda>h. map_of h ''action'' = Some (DStr ''PROOF_CONFIRMED'')) (tc_history c)) (trajectory_claims s)"

text \<open>The last row wins in the one dictionary, the first in the other.\<close>

definition holders :: "bounty_pricer \<Rightarrow> db \<Rightarrow> (string \<times> uuid) list" where
  "holders p s = rev (map (\<lambda>x. (s_reward_target_id x, s_id x))
     (filter (\<lambda>x. s_reward_target_id x \<in> set (bp_reward_target_ids p) \<and> s_reward_status x \<noteq> INELIGIBLE) (submissions s)))"

definition pending_proofs :: "bounty_pricer \<Rightarrow> db \<Rightarrow> (string \<times> uuid) list" where
  "pending_proofs p s = map (\<lambda>x. (s_reward_target_id x, s_id x))
     (sort_key s_created_at (sort_key s_id
       (filter (\<lambda>x. s_reward_target_id x \<in> set (bp_reward_target_ids p) \<and> documentation_pending s x) (submissions s))))"

definition claims_it :: "(string \<times> uuid) list \<Rightarrow> (string \<times> uuid) list \<Rightarrow> string \<Rightarrow> bool" where
  "claims_it claimants held target \<longleftrightarrow> map_of held target = None \<or> map_of claimants target = map_of held target"

section \<open>A snapshot\<close>

record bounty_pool =
  pl_now :: time
  pl_tasks :: "bounty_task_row list"
  pl_holders :: "(string \<times> uuid) list"
  pl_pending :: "(string \<times> uuid) list"
  pl_claimants :: "(string \<times> uuid) list"
  pl_open :: "string list"
  pl_weights :: "(string \<times> int) list"
  pl_gross :: rao
  pl_committed :: rao
  pl_balance :: rao

definition total_weight :: "bounty_pool \<Rightarrow> int" where
  "total_weight pool = sum_list (map snd (pl_weights pool))"

fun age_weights :: "bounty_pricer \<Rightarrow> time \<Rightarrow> bounty_task_row list \<Rightarrow> string list \<Rightarrow> py_error + (string \<times> int) list" where
  "age_weights p now tasks [] = Inr []"
| "age_weights p now tasks (t # ts) =
     (case find_row bt_reward_target_id t tasks of
        None \<Rightarrow> Inl KeyError
      | Some task \<Rightarrow>
          (case calculate_age_weight (bt_opened_at task) now (bp_age_period_seconds p) (bp_max_age_weight p) of
             Inl e \<Rightarrow> Inl e
           | Inr w \<Rightarrow> (case age_weights p now tasks ts of Inl e \<Rightarrow> Inl e | Inr ws \<Rightarrow> Inr ((t, w) # ws))))"

definition base_inputs :: "bounty_pricer \<Rightarrow> bounty_pool \<Rightarrow> bool \<Rightarrow> (string \<times> detail) list" where
  "base_inputs p pool requires_logs =
    [(''balance_rao'', DInt (pl_balance pool)), (''treasury_balance_rao'', DInt (pl_gross pool)),
     (''committed_bounty_rao'', DInt (pl_committed pool)), (''available_balance_rao'', DInt (pl_balance pool)),
     (''balance_asset'', DStr ''alpha''), (''balance_coldkey'', DStr (bp_balance_coldkey p)),
     (''balance_hotkey'', DStr (bp_balance_hotkey p)), (''balance_netuid'', DInt (bp_balance_netuid p)),
     (''constant_denominator'', DInt (bp_constant_denominator p)), (''constant_numerator'', DInt (bp_constant_numerator p)),
     (''ramp_seconds'', DInt (bp_ramp_seconds p)), (''max_age_weight'', DInt (bp_max_age_weight p)),
     (''max_bounty_share_denominator'', DInt (bp_max_bounty_share_denominator p)),
     (''max_bounty_share_numerator'', DInt (bp_max_bounty_share_numerator p)),
     (''max_bounty_rao'', DInt (bp_max_bounty_share_numerator p * pl_balance pool div bp_max_bounty_share_denominator p)),
     (''open_targets'', DInt (int (length (pl_open pool)))), (''total_age_weight'', DInt (total_weight pool))] @
    (if requires_logs then [(''chat_logs_required'', DStr ''true'')] else [])"

definition refused_quote :: "bounty_pricer \<Rightarrow> bounty_pool \<Rightarrow> bool \<Rightarrow> string \<Rightarrow> string \<Rightarrow> live_bounty" where
  "refused_quote p pool requires_logs policy_version reason =
     \<lparr>lb_amount_rao = None, lb_policy_version = policy_version, lb_available = False, lb_reason = reason,
      lb_as_of = pl_now pool, lb_inputs = base_inputs p pool requires_logs\<rparr>"

text \<open>A target opened above a since-lowered cap starts at the cap.\<close>

definition start_share :: "bounty_pricer \<Rightarrow> bounty_task_row \<Rightarrow> int \<times> int" where
  "start_share p task =
     (if bt_start_share_numerator task * bp_max_bounty_share_denominator p
         > bp_max_bounty_share_numerator p * bt_start_share_denominator task
      then (bp_max_bounty_share_numerator p, bp_max_bounty_share_denominator p)
      else (bt_start_share_numerator task, bt_start_share_denominator task))"

definition open_quote ::
  "bounty_pricer \<Rightarrow> bounty_pool \<Rightarrow> bool \<Rightarrow> string \<Rightarrow> string \<Rightarrow> bounty_task_row \<Rightarrow> int \<Rightarrow> py_error + live_bounty" where
  "open_quote p pool requires_logs policy_version target task weight =
     (let age_seconds = max 0 (pl_now pool - bt_opened_at task);
          (n, d) = start_share p task
      in case calculate_bounty_rao (pl_balance pool) age_seconds (bp_ramp_seconds p) n d
                (bp_max_bounty_share_numerator p) (bp_max_bounty_share_denominator p) of
           Inl e \<Rightarrow> Inl e
         | Inr amount \<Rightarrow>
             Inr \<lparr>lb_amount_rao = Some amount, lb_policy_version = policy_version,
                  lb_available = (amount > 0 \<and> (\<not> requires_logs \<or> bp_required_evidence_available p)),
                  lb_reason = (if requires_logs \<and> \<not> bp_required_evidence_available p then ''CHAT_LOG_REVIEW_UNAVAILABLE''
                    else if \<not> amount > 0 then ''TREASURY_RESERVED''
                    else if map_of (pl_holders pool) target = None then ''OPEN'' else ''CLAIM_HELD''),
                  lb_as_of = pl_now pool,
                  lb_inputs = map (\<lambda>(k, v). (k, if k = ''constant_numerator'' then DInt n
                      else if k = ''constant_denominator'' then DInt d else v)) (base_inputs p pool requires_logs) @
                    [(''age_weight'', DInt weight), (''age_seconds'', DInt age_seconds), (''opened_at'', DTime (bt_opened_at task))]\<rparr>)"

definition quote_target :: "bounty_pricer \<Rightarrow> bounty_pool \<Rightarrow> string \<Rightarrow> py_error + live_bounty" where
  "quote_target p pool target =
     (let task = find_row bt_reward_target_id target (pl_tasks pool);
          requires_logs = (map_option bt_pricing_policy task = Some TREASURY_CHAT_POLICY);
          policy_version = (if requires_logs then TREASURY_CHAT_POLICY else bp_policy_version p);
          refuse = refused_quote p pool requires_logs policy_version
      in if target \<notin> set (bp_reward_target_ids p) then Inr (refuse ''NOT_IN_BOUNTY_POOL'')
         else if \<not> claims_it (pl_claimants pool) (pl_holders pool) target then Inr (refuse ''ALREADY_SOLVED'')
         else if \<not> claims_it (pl_claimants pool) (pl_pending pool) target then Inr (refuse ''SOLVED_DOCUMENTATION_PENDING'')
         else (case (map_of (pl_weights pool) target, task) of
                 (Some weight, Some row) \<Rightarrow> open_quote p pool requires_logs policy_version target row weight
               | _ \<Rightarrow> Inl KeyError))"

fun quote_targets :: "bounty_pricer \<Rightarrow> bounty_pool \<Rightarrow> string list \<Rightarrow> py_error + (string \<times> live_bounty) list" where
  "quote_targets p pool [] = Inr []"
| "quote_targets p pool (t # ts) =
     (case quote_target p pool t of
        Inl e \<Rightarrow> Inl e
      | Inr q \<Rightarrow> (case quote_targets p pool ts of Inl e \<Rightarrow> Inl e | Inr qs \<Rightarrow> Inr ((t, q) # qs)))"

text \<open>\<open>tuple(dict.fromkeys(ids))\<close> keeps the first of each.\<close>

fun dedup :: "string list \<Rightarrow> string list" where
  "dedup [] = []"
| "dedup (x # xs) = x # filter (\<lambda>y. y \<noteq> x) (dedup xs)"

definition to_minute :: "time \<Rightarrow> time" where
  "to_minute t = t - t mod 60"

definition is_open :: "bounty_pricer \<Rightarrow> db \<Rightarrow> (string \<times> uuid) list \<Rightarrow> string \<Rightarrow> bool" where
  "is_open p s claimants target \<longleftrightarrow>
     claims_it claimants (holders p s) target \<and> claims_it claimants (pending_proofs p s) target"

definition bounty_pool_of ::
  "bounty_pricer \<Rightarrow> db \<Rightarrow> time \<Rightarrow> string list \<Rightarrow> (string \<times> uuid) list \<Rightarrow> rao \<Rightarrow> (string \<times> int) list \<Rightarrow> bounty_pool" where
  "bounty_pool_of p s now requested claimants gross weights =
     \<lparr>pl_now = now,
      pl_tasks = filter (\<lambda>t. bt_reward_target_id t \<in> set (bp_reward_target_ids p) \<union> set requested) (bounty_tasks s),
      pl_holders = holders p s, pl_pending = pending_proofs p s, pl_claimants = claimants,
      pl_open = filter (is_open p s claimants) (bp_reward_target_ids p), pl_weights = weights,
      pl_gross = gross, pl_committed = committed_rao p s now, pl_balance = max 0 (gross - committed_rao p s now)\<rparr>"

definition new_snapshot :: "bounty_pricer \<Rightarrow> bounty_pool \<Rightarrow> (string \<times> live_bounty) list \<Rightarrow> bounty_snapshot" where
  "new_snapshot p pool quotes =
     \<lparr>bs_quotes = quotes, bs_policy_version = bp_policy_version p, bs_balance_rao = pl_gross pool,
      bs_wallet_coldkey = bp_balance_coldkey p, bs_wallet_hotkey = bp_balance_hotkey p, bs_netuid = bp_balance_netuid p,
      bs_asset = ''alpha'', bs_open_targets = int (length (pl_open pool)), bs_total_age_weight = total_weight pool,
      bs_as_of = pl_now pool, bs_constant_numerator = bp_constant_numerator p,
      bs_constant_denominator = bp_constant_denominator p, bs_ramp_seconds = bp_ramp_seconds p,
      bs_max_age_weight = bp_max_age_weight p, bs_max_bounty_share_numerator = bp_max_bounty_share_numerator p,
      bs_max_bounty_share_denominator = bp_max_bounty_share_denominator p,
      bs_available_balance_rao = pl_balance pool,
      bs_new_target_policy_version =
        (if bp_new_target_policy p = LEGACY_TARGET_POLICY then bp_policy_version p else bp_new_target_policy p)\<rparr>"

text \<open>\<open>balance\<close> is what the reader answers in this transaction.\<close>

definition quote_many ::
  "bounty_pricer \<Rightarrow> py_error + rao \<Rightarrow> string list \<Rightarrow> (string \<times> uuid) list \<Rightarrow> bounty_snapshot dbtx" where
  "quote_many p balance reward_target_ids claimants =
     (let requested = dedup reward_target_ids in
      bindT (reads (\<lambda>s. to_minute (clock s))) (\<lambda>now.
      thenT (open_unopened p now)
     (bindT (reads (\<lambda>s. s)) (\<lambda>s.
      bindT (lift_py (age_weights p now (bounty_tasks s) (filter (is_open p s claimants) (bp_reward_target_ids p)))) (\<lambda>weights.
      bindT (lift_py balance) (\<lambda>gross.
      thenT (raise_if (gross < 0) (PyError (RuntimeError ''treasury balance cannot be negative'')))
     (let pool = bounty_pool_of p s now requested claimants gross weights in
      bindT (lift_py (quote_targets p pool requested)) (\<lambda>quotes.
      ret (new_snapshot p pool quotes)))))))))"

definition quote :: "bounty_pricer \<Rightarrow> py_error + rao \<Rightarrow> string \<Rightarrow> uuid option \<Rightarrow> live_bounty dbtx" where
  "quote p balance reward_target_id claimant_id =
     bindT (quote_many p balance [reward_target_id]
       (case claimant_id of None \<Rightarrow> [] | Some c \<Rightarrow> [(reward_target_id, c)])) (\<lambda>snapshot.
     case map_of (bs_quotes snapshot) reward_target_id of
       None \<Rightarrow> raise (PyError KeyError) | Some q \<Rightarrow> ret q)"

definition lock_quote :: "bounty_pricer \<Rightarrow> py_error + rao \<Rightarrow> string \<Rightarrow> live_bounty dbtx" where
  "lock_quote p balance reward_target_id = quote p balance reward_target_id None"

section \<open>The cached balance\<close>

record balance_cache =
  bc_cached :: "rao option"
  bc_expires_at :: rat

definition cached_balance :: "balance_cache \<Rightarrow> rat \<Rightarrow> rao option" where
  "cached_balance c now = (if now < bc_expires_at c then bc_cached c else None)"

text \<open>The clock is read again under the lock; \<open>answer\<close> is what the chain answers if it is asked.\<close>

definition balance_rao_cached ::
  "int \<Rightarrow> rat \<Rightarrow> rat \<Rightarrow> py_error + rao \<Rightarrow> balance_cache \<Rightarrow> (py_error + rao) \<times> balance_cache" where
  "balance_rao_cached ttl_seconds now locked_now answer c =
     (case cached_balance c now of
        Some v \<Rightarrow> (Inr v, c)
      | None \<Rightarrow>
          (case cached_balance c locked_now of
             Some v \<Rightarrow> (Inr v, c)
           | None \<Rightarrow>
               (case answer of
                  Inl e \<Rightarrow> (Inl e, c)
                | Inr amount \<Rightarrow>
                    if amount < 0 then (Inl (RuntimeError ''treasury balance cannot be negative''), c)
                    else (Inr amount, \<lparr>bc_cached = Some amount, bc_expires_at = locked_now + of_int ttl_seconds\<rparr>))))"

section \<open>What the formula promises\<close>

lemma calculate_bounty_rao_Inr:
  assumes "calculate_bounty_rao b age ramp cn cd mn md = Inr a"
  shows "0 \<le> b" and "0 \<le> age" and "0 < ramp" and "0 < cn" and "0 < cd" and "0 < mn" and "0 < md"
    and "mn \<le> md" and "cn * md \<le> mn * cd"
    and "a = b * (cn * md * ramp + (mn * cd - cn * md) * min age ramp) div (cd * md * ramp)"
  using assms by (auto simp: calculate_bounty_rao_def Let_def split: if_splits)

lemma calculate_bounty_rao_total:
  assumes "0 \<le> b" and "0 \<le> age" and "0 < ramp" and "0 < cn" and "0 < cd" and "0 < mn" and "0 < md"
    and "mn \<le> md" and "cn * md \<le> mn * cd"
  shows "calculate_bounty_rao b age ramp cn cd mn md =
    Inr (b * (cn * md * ramp + (mn * cd - cn * md) * min age ramp) div (cd * md * ramp))"
  using assms by (simp add: calculate_bounty_rao_def Let_def)

lemma bounty_at_opening:
  assumes "calculate_bounty_rao b 0 ramp cn cd mn md = Inr a"
  shows "a = b * cn div cd"
proof -
  note A = calculate_bounty_rao_Inr [OF assms]
  have "a = (b * cn) * (md * ramp) div (cd * (md * ramp))" using A(10) A(3) by (simp add: ac_simps)
  then show ?thesis using A(3,7) by simp
qed

lemma bounty_after_ramp:
  assumes "calculate_bounty_rao b age ramp cn cd mn md = Inr a" and "ramp \<le> age"
  shows "a = b * mn div md"
proof -
  note A = calculate_bounty_rao_Inr [OF assms(1)]
  have "cn * md * ramp + (mn * cd - cn * md) * min age ramp = mn * cd * ramp" using assms(2) by (simp add: algebra_simps)
  then have "a = (b * mn) * (cd * ramp) div (md * (cd * ramp))" using A(10) by (simp add: ac_simps)
  then show ?thesis using A(3,5) by simp
qed

lemma bounty_mono_age:
  assumes "calculate_bounty_rao b age ramp cn cd mn md = Inr a"
    and "calculate_bounty_rao b age' ramp cn cd mn md = Inr a'" and "age \<le> age'"
  shows "a \<le> a'"
proof -
  note A = calculate_bounty_rao_Inr [OF assms(1)] and A' = calculate_bounty_rao_Inr [OF assms(2)]
  have "(mn * cd - cn * md) * min age ramp \<le> (mn * cd - cn * md) * min age' ramp"
    using A(9) assms(3) by (intro mult_left_mono) auto
  then have "b * (cn * md * ramp + (mn * cd - cn * md) * min age ramp)
      \<le> b * (cn * md * ramp + (mn * cd - cn * md) * min age' ramp)"
    using A(1) by (intro mult_left_mono) auto
  then show ?thesis using A(3,5,7) unfolding A(10) A'(10) by (intro zdiv_mono1) auto
qed

lemma bounty_within_balance:
  assumes "calculate_bounty_rao b age ramp cn cd mn md = Inr a"
  shows "0 \<le> a \<and> a \<le> b * mn div md \<and> b * mn div md \<le> b"
proof -
  note A = calculate_bounty_rao_Inr [OF assms]
  note T = calculate_bounty_rao_total [OF A(1) _ A(3-9)]
  have "a \<le> b * mn div md"
  proof (cases "ramp \<le> age")
    case True
    then show ?thesis using bounty_after_ramp [OF assms] by simp
  next
    case False
    then show ?thesis using bounty_mono_age [OF assms T [of ramp]] bounty_after_ramp [OF T [of ramp]] A(3) by simp
  qed
  moreover have "b * mn \<le> b * md" using A(1,8) by (intro mult_left_mono) auto
  then have "b * mn div md \<le> b * md div md" using A(7) by (intro zdiv_mono1) auto
  then have "b * mn div md \<le> b" using A(7) by simp
  moreover have "b * cn div cd \<le> a"
    using bounty_mono_age [OF T [of 0] assms] bounty_at_opening [OF T [of 0]] A(2) by simp
  moreover have "0 \<le> b * cn div cd" using A(1,4,5) by (simp add: pos_imp_zdiv_nonneg_iff)
  ultimately show ?thesis by simp
qed

text \<open>
  The bounty of a target starts at the floor of the starting share of the balance, never falls as
  the target ages, and from the end of the ramp on is the floor of the maximum share; so it lies
  between the two at every age, and never exceeds the balance.
\<close>

theorem bounty_between_shares:
  assumes "calculate_bounty_rao b age ramp cn cd mn md = Inr a"
  shows "b * cn div cd \<le> a \<and> a \<le> b * mn div md \<and> 0 \<le> a \<and> a \<le> b \<and>
    (age = 0 \<longrightarrow> a = b * cn div cd) \<and> (ramp \<le> age \<longrightarrow> a = b * mn div md) \<and>
    (\<forall>age' \<ge> age. \<exists>a' \<ge> a. calculate_bounty_rao b age' ramp cn cd mn md = Inr a')"
proof -
  note A = calculate_bounty_rao_Inr [OF assms]
  note T = calculate_bounty_rao_total [OF A(1) _ A(3-9)]
  have "b * cn div cd \<le> a"
    using bounty_mono_age [OF T [of 0] assms] bounty_at_opening [OF T [of 0]] A(2) by simp
  moreover have "\<exists>a' \<ge> a. calculate_bounty_rao b age' ramp cn cd mn md = Inr a'" if "age \<le> age'" for age'
    using T [of age'] bounty_mono_age [OF assms T [of age'] that] that A(2) by auto
  ultimately show ?thesis using bounty_within_balance [OF assms] bounty_at_opening bounty_after_ramp [OF assms] assms by auto
qed

theorem bounty_between_shares_witness:
  "calculate_bounty_rao 1001 10 20 1 40 1 8 = Inr 75 \<and> 1001 * 1 div 40 \<le> (75::int) \<and> 75 \<le> 1001 * 1 div (8::int) \<and>
   (\<exists>a' \<ge> 75. calculate_bounty_rao 1001 50 20 1 40 1 8 = Inr a')"
proof -
  have c: "calculate_bounty_rao 1001 10 20 1 40 1 8 = Inr 75" by (simp add: calculate_bounty_rao_def)
  show ?thesis using bounty_between_shares [OF c] c by simp
qed

section \<open>What a locked quote promises\<close>

lemma greatest_snoc: "greatest (xs @ [a]) = (if xs = [] then a else max (greatest xs) a)"
  by (cases xs) (simp_all add: greatest_def)

lemma greatest_nonneg: "\<forall>v \<in> set xs. 0 \<le> v \<Longrightarrow> 0 \<le> greatest xs"
  proof (induction xs rule: rev_induct)
  case (snoc x xs)
  then show ?case by (auto simp: greatest_snoc)
qed (simp add: greatest_def)

definition group_max :: "submission_row list \<Rightarrow> string \<Rightarrow> rao" where
  "group_max locked t = greatest (map s_bounty_amount_rao (filter (\<lambda>x. s_reward_target_id x = t) locked))"

lemma reserved_sum:
  "sum_list (map snd (reservations s before)) =
     (\<Sum>t \<in> s_reward_target_id ` set (filter (live_lock s before) (submissions s)).
        group_max (filter (live_lock s before) (submissions s)) t)"
  by (simp add: reservations_def Let_def comp_def sum_list_distinct_conv_sum_set group_max_def)

lemma group_max_snoc:
  "group_max (locked @ [x]) t =
     (if s_reward_target_id x \<noteq> t then group_max locked t
      else if t \<notin> s_reward_target_id ` set locked then s_bounty_amount_rao x
      else max (group_max locked t) (s_bounty_amount_rao x))"
  by (auto simp: group_max_def greatest_snoc filter_empty_conv)

lemma reserved_with_one_more:
  assumes "\<forall>y \<in> set locked. 0 \<le> s_bounty_amount_rao y" and "0 \<le> s_bounty_amount_rao x"
  shows "(\<Sum>t \<in> s_reward_target_id ` set (locked @ [x]). group_max (locked @ [x]) t)
    \<le> (\<Sum>t \<in> s_reward_target_id ` set locked. group_max locked t) + s_bounty_amount_rao x"
proof -
  let ?T = "s_reward_target_id ` set locked" and ?t = "s_reward_target_id x"
  have others: "(\<Sum>t \<in> ?T - {?t}. group_max (locked @ [x]) t) = (\<Sum>t \<in> ?T - {?t}. group_max locked t)"
    by (intro sum.cong) (auto simp: group_max_snoc)
  have "0 \<le> group_max locked ?t" using assms(1) by (auto simp: group_max_def intro!: greatest_nonneg)
  then have "group_max (locked @ [x]) ?t \<le> (if ?t \<in> ?T then group_max locked ?t else 0) + s_bounty_amount_rao x"
    using assms(2) by (simp add: group_max_snoc)
  moreover have "(\<Sum>t \<in> ?T. group_max locked t) =
      (if ?t \<in> ?T then group_max locked ?t else 0) + (\<Sum>t \<in> ?T - {?t}. group_max locked t)"
    by (simp add: sum.remove)
  ultimately show ?thesis using others by (simp add: sum.insert_remove)
qed

lemma committed_after_submission:
  assumes "submissions s2 = submissions s @ [x]" and "reward_events s2 = reward_events s" and "bonuses s2 = bonuses s"
    and pos: "\<forall>y \<in> set (submissions s2). 0 \<le> s_bounty_amount_rao y"
  shows "committed_rao p s2 now \<le> committed_rao p s now + s_bounty_amount_rao x"
proof -
  define before where "before = now - bp_confirmed_payout_grace_seconds p"
  have live: "live_lock s2 before = live_lock s before"
    by (intro ext) (simp add: live_lock_def settled_payout_def assms(2))
  let ?locked = "filter (live_lock s before) (submissions s)"
  have "sum_list (map snd (reservations s2 before)) \<le> sum_list (map snd (reservations s before)) + s_bounty_amount_rao x"
  proof (cases "live_lock s before x")
    case True
    then show ?thesis unfolding reserved_sum live assms(1)
      using reserved_with_one_more [of ?locked x] pos by (simp add: assms(1))
  next
    case False
    then show ?thesis unfolding reserved_sum live assms(1) using pos by (simp add: assms(1))
  qed
  then show ?thesis by (simp add: committed_rao_def Let_def bonus_reserved_def assms(3) flip: before_def)
qed

text \<open>Opening the missing targets writes their rows and nothing else.\<close>

lemma open_targets_Inr:
  assumes "open_targets p now ts s = Inr (u, s')"
  shows "\<exists>new. s' = s\<lparr>bounty_tasks := bounty_tasks s @ map (new_bounty_task p now) new\<rparr> \<and> set new \<subseteq> set ts"
  using assms
proof (induction ts arbitrary: s)
  case Nil
  then show ?case by (auto intro!: exI [of _ "[]"])
next
  case (Cons t ts)
  then obtain b s1 where i: "insert_bounty_task (new_bounty_task p now t) s = Inr (b, s1)"
    and r: "open_targets p now ts s1 = Inr (u, s')" by (auto simp: tx_simps)
  obtain new where s': "s' = s1\<lparr>bounty_tasks := bounty_tasks s1 @ map (new_bounty_task p now) new\<rparr>" and n: "set new \<subseteq> set ts"
    using Cons.IH [OF r] by blast
  have "s1 = s \<or> s1 = s\<lparr>bounty_tasks := bounty_tasks s @ [new_bounty_task p now t]\<rparr>"
    using i by (auto simp: insert_bounty_task_def insert_or_skip_Inr split: if_splits)
  then show ?case
  proof
    assume "s1 = s"
    then show ?thesis using s' n by (intro exI [of _ new]) auto
  next
    assume "s1 = s\<lparr>bounty_tasks := bounty_tasks s @ [new_bounty_task p now t]\<rparr>"
    then show ?thesis using s' n by (intro exI [of _ "t # new"]) auto
  qed
qed

lemma quote_many_Inr:
  assumes "quote_many p balance ids claimants s = Inr (snap, s')"
  obtains new gross weights where
    "s' = s\<lparr>bounty_tasks := bounty_tasks s @ map (new_bounty_task p (to_minute (clock s))) new\<rparr>"
    "balance = Inr gross" "0 \<le> gross"
    "quote_targets p (bounty_pool_of p s' (to_minute (clock s)) (dedup ids) claimants gross weights) (dedup ids) = Inr (bs_quotes snap)"
    "set new \<subseteq> set (bp_reward_target_ids p) - bt_reward_target_id ` set (bounty_tasks s)"
    "age_weights p (to_minute (clock s)) (bounty_tasks s') (filter (is_open p s' claimants) (bp_reward_target_ids p)) = Inr weights"
proof -
  let ?now = "to_minute (clock s)"
  obtain s1 weights gross quotes where o: "open_unopened p ?now s = Inr ((), s1)"
    and w: "age_weights p ?now (bounty_tasks s1) (filter (is_open p s1 claimants) (bp_reward_target_ids p)) = Inr weights"
    and b: "balance = Inr gross" and g: "\<not> gross < 0"
    and q: "quote_targets p (bounty_pool_of p s1 ?now (dedup ids) claimants gross weights) (dedup ids) = Inr quotes"
    and snap: "snap = new_snapshot p (bounty_pool_of p s1 ?now (dedup ids) claimants gross weights) quotes" and s': "s' = s1"
    using assms by (auto simp: quote_many_def tx_simps Let_def)
  obtain new where n: "s1 = s\<lparr>bounty_tasks := bounty_tasks s @ map (new_bounty_task p ?now) new\<rparr>"
      "set new \<subseteq> set (filter (\<lambda>t. t \<notin> bt_reward_target_id ` set (bounty_tasks s)) (bp_reward_target_ids p))"
    using open_targets_Inr [OF o [unfolded open_unopened_def]] by blast
  show thesis
    using n w b g q by (intro that [of new gross weights]) (auto simp: s' snap new_snapshot_def)
qed

lemma open_quote_Inr:
  assumes "open_quote p pool logs pv t task w = Inr q"
  shows "lb_amount_rao q = Some a \<longleftrightarrow>
    calculate_bounty_rao (pl_balance pool) (max 0 (pl_now pool - bt_opened_at task)) (bp_ramp_seconds p)
      (fst (start_share p task)) (snd (start_share p task))
      (bp_max_bounty_share_numerator p) (bp_max_bounty_share_denominator p) = Inr a"
  using assms by (auto simp: open_quote_def Let_def split: sum.splits prod.splits)

text \<open>A price is quoted exactly for the targets of the pool that nobody else holds or has proved.\<close>

definition up_for_claim :: "bounty_pricer \<Rightarrow> bounty_pool \<Rightarrow> string \<Rightarrow> bool" where
  "up_for_claim p pool t \<longleftrightarrow> t \<in> set (bp_reward_target_ids p) \<and>
     claims_it (pl_claimants pool) (pl_holders pool) t \<and> claims_it (pl_claimants pool) (pl_pending pool) t"

lemma quote_target_Inr:
  assumes "quote_target p pool t = Inr q"
  obtains
    (refused) "\<not> up_for_claim p pool t" "lb_amount_rao q = None" "\<not> lb_available q"
      "lb_reason q \<in> {''NOT_IN_BOUNTY_POOL'', ''ALREADY_SOLVED'', ''SOLVED_DOCUMENTATION_PENDING''}"
  | (priced) task a where "up_for_claim p pool t" "find_row bt_reward_target_id t (pl_tasks pool) = Some task"
      "lb_amount_rao q = Some a"
      "calculate_bounty_rao (pl_balance pool) (max 0 (pl_now pool - bt_opened_at task)) (bp_ramp_seconds p)
        (fst (start_share p task)) (snd (start_share p task))
        (bp_max_bounty_share_numerator p) (bp_max_bounty_share_denominator p) = Inr a"
proof (cases "up_for_claim p pool t")
  case False
  then have "lb_amount_rao q = None \<and> \<not> lb_available q \<and>
      lb_reason q \<in> {''NOT_IN_BOUNTY_POOL'', ''ALREADY_SOLVED'', ''SOLVED_DOCUMENTATION_PENDING''}"
    using assms by (auto simp: quote_target_def Let_def up_for_claim_def refused_quote_def split: if_splits)
  then show thesis using False refused by blast
next
  case True
  then obtain w task logs pv where "find_row bt_reward_target_id t (pl_tasks pool) = Some task"
      and q: "open_quote p pool logs pv t task w = Inr q"
    using assms by (auto simp: quote_target_def Let_def up_for_claim_def split: option.splits)
  moreover obtain a where "lb_amount_rao q = Some a" using q by (auto simp: open_quote_def Let_def split: sum.splits prod.splits)
  ultimately show thesis using True open_quote_Inr [OF q] by (intro priced) auto
qed

lemma lock_quote_Inr:
  assumes "lock_quote p balance t s = Inr (q, s')"
  obtains gross new weights where "balance = Inr gross" "0 \<le> gross"
    "s' = s\<lparr>bounty_tasks := bounty_tasks s @ map (new_bounty_task p (to_minute (clock s))) new\<rparr>"
    "quote_target p (bounty_pool_of p s' (to_minute (clock s)) [t] [] gross weights) t = Inr q"
proof -
  obtain snap where m: "quote_many p balance [t] [] s = Inr (snap, s')" and q: "map_of (bs_quotes snap) t = Some q"
    using assms by (auto simp: lock_quote_def quote_def tx_simps split: option.splits)
  show thesis
  proof (cases rule: quote_many_Inr [OF m])
    case (1 new gross weights)
    from 1(4) obtain x where "quote_target p (bounty_pool_of p s' (to_minute (clock s)) [t] [] gross weights) t = Inr x"
      and "bs_quotes snap = [(t, x)]" by (auto split: sum.splits)
    then show thesis using q 1(1-3) by (intro that [of gross new weights]) auto
  qed
qed

lemma find_row_filter: "P k \<Longrightarrow> find_row key k (filter (\<lambda>r. P (key r)) rows) = find_row key k rows"
  by (induction rows) (auto simp: find_row_def)

lemma find_row_kept: "find_row key k rows = Some r \<Longrightarrow> find_row key k (rows @ rest) = Some r"
  by (simp add: find_row_def find_append)

text \<open>No table the pool is computed from is the one the quote writes.\<close>

lemma pool_ignores_tasks:
  "committed_rao p (s\<lparr>bounty_tasks := ts\<rparr>) now = committed_rao p s now"
  "holders p (s\<lparr>bounty_tasks := ts\<rparr>) = holders p s"
  "documentation_pending (s\<lparr>bounty_tasks := ts\<rparr>) x = documentation_pending s x"
  by (simp_all add: committed_rao_def Let_def reservations_def bonus_reserved_def holders_def
      documentation_pending_def latest_reason_def latest_binding_decision_def live_lock_def [abs_def] settled_payout_def)

lemma nobody_claims: "claims_it [] held t \<longleftrightarrow> t \<notin> fst ` set held"
  by (metis claims_it_def map_of.simps(1) map_of_eq_None_iff)

lemma up_for_claim_iff:
  "up_for_claim p (bounty_pool_of p s now ids [] gross ws) t \<longleftrightarrow> t \<in> set (bp_reward_target_ids p) \<and>
     (\<forall>x \<in> set (submissions s). s_reward_target_id x = t \<longrightarrow> s_reward_status x = INELIGIBLE \<and> \<not> documentation_pending s x)"
  by (auto simp: up_for_claim_def bounty_pool_of_def nobody_claims holders_def pending_proofs_def image_iff)

definition sample_pricer :: bounty_pricer where
  "sample_pricer = \<lparr>bp_balance_coldkey = ''T'', bp_balance_hotkey = ''H'', bp_balance_netuid = 66,
     bp_reward_target_ids = [''r''], bp_new_target_policy = TREASURY_CHAT_POLICY, bp_required_evidence_available = True,
     bp_policy_version = ''linear-age-v3-locked'', bp_constant_numerator = 1, bp_constant_denominator = 40,
     bp_ramp_seconds = 900, bp_age_period_seconds = 60, bp_max_age_weight = 60, bp_max_bounty_share_numerator = 1,
     bp_max_bounty_share_denominator = 8, bp_confirmed_payout_grace_seconds = 60\<rparr>"

lemma sample_locked:
  "\<exists>q s1 v s2. lock_quote sample_pricer (Inr 40000) ''r'' (empty_db (\<lambda>_. replicate 32 0) 100) = Inr (q, s1) \<and>
     lb_amount_rao q = Some 1000 \<and> create_submission sample_request s1 = Inr (v, s2)"
proof -
  have "case lock_quote sample_pricer (Inr 40000) ''r'' (empty_db (\<lambda>_. replicate 32 0) 100) of Inl _ \<Rightarrow> False
    | Inr (q, s1) \<Rightarrow> lb_amount_rao q = Some 1000 \<and> (case create_submission sample_request s1 of Inl _ \<Rightarrow> False | Inr _ \<Rightarrow> True)"
    by code_simp
  then show ?thesis by (auto simp: succeeds_iff)
qed

text \<open>
  What a locked quote answers: no price exactly when the target is outside the pool, or a submission
  already holds its reward, or one has proved it and its documents are awaited; otherwise the formula's
  amount for the balance less everything promised, at the age of the target and with the share it was
  opened with.  A target that was open before keeps its row, and so its age and its starting share.
\<close>

theorem locked_quote_exact:
  assumes "lock_quote p balance t s = Inr (q, s1)" and "now = to_minute (clock s)"
  shows "\<exists>gross. balance = Inr gross \<and>
    (lb_amount_rao q = None \<longleftrightarrow> t \<notin> set (bp_reward_target_ids p) \<or>
      (\<exists>x \<in> set (submissions s). s_reward_target_id x = t \<and> (s_reward_status x \<noteq> INELIGIBLE \<or> documentation_pending s x))) \<and>
    (\<forall>a. lb_amount_rao q = Some a \<longrightarrow> (\<exists>task. find_row bt_reward_target_id t (bounty_tasks s1) = Some task \<and>
      calculate_bounty_rao (max 0 (gross - committed_rao p s now)) (max 0 (now - bt_opened_at task)) (bp_ramp_seconds p)
        (fst (start_share p task)) (snd (start_share p task))
        (bp_max_bounty_share_numerator p) (bp_max_bounty_share_denominator p) = Inr a)) \<and>
    (\<forall>task. find_row bt_reward_target_id t (bounty_tasks s) = Some task \<longrightarrow>
      find_row bt_reward_target_id t (bounty_tasks s1) = Some task)"
proof (cases rule: lock_quote_Inr [OF assms(1)])
  case (1 gross new weights)
  define pool where "pool = bounty_pool_of p s1 now [t] [] gross weights"
  have qt: "quote_target p pool t = Inr q" using 1(4) by (simp add: pool_def assms(2))
  have docs: "documentation_pending s1 x = documentation_pending s x" for x by (simp add: 1(3) pool_ignores_tasks)
  have up: "up_for_claim p pool t \<longleftrightarrow> t \<in> set (bp_reward_target_ids p) \<and>
     (\<forall>x \<in> set (submissions s). s_reward_target_id x = t \<longrightarrow> s_reward_status x = INELIGIBLE \<and> \<not> documentation_pending s x)"
    unfolding pool_def up_for_claim_iff docs by (simp add: 1(3))
  have kept: "find_row bt_reward_target_id t (bounty_tasks s1) = Some task"
    if "find_row bt_reward_target_id t (bounty_tasks s) = Some task" for task
    using find_row_kept [OF that] by (simp add: 1(3))
  show ?thesis
    using qt
  proof (cases rule: quote_target_Inr)
    case refused
    then show ?thesis using 1(1) up kept by auto
  next
    case (priced task a)
    have "find_row bt_reward_target_id t (bounty_tasks s1) = Some task"
      using priced(2) by (simp add: pool_def bounty_pool_of_def find_row_filter [where P = "\<lambda>k. k = t \<or> k \<in> A" for A])
    moreover have "pl_balance pool = max 0 (gross - committed_rao p s now)" "pl_now pool = now"
      by (simp_all add: pool_def bounty_pool_of_def 1(3) pool_ignores_tasks)
    ultimately show ?thesis using 1(1) up kept priced(1,3,4) by auto
  qed
qed

theorem locked_quote_exact_witness:
  "\<exists>q s1 task. lock_quote sample_pricer (Inr 40000) ''r'' (empty_db (\<lambda>_. replicate 32 0) 100) = Inr (q, s1) \<and>
     find_row bt_reward_target_id ''r'' (bounty_tasks s1) = Some task \<and> lb_amount_rao q = Some 1000"
proof -
  obtain q s1 where q: "lock_quote sample_pricer (Inr 40000) ''r'' (empty_db (\<lambda>_. replicate 32 0) 100) = Inr (q, s1)"
    and a: "lb_amount_rao q = Some 1000" using sample_locked by blast
  show ?thesis using locked_quote_exact [OF q refl] q a by blast
qed

text \<open>
  C20.  A lock never promises what the treasury does not hold: when a submission is taken in at the price
  it was quoted under the lock, what is promised afterwards is within the balance that was read, or no
  more than was promised before (when the balance had already fallen below that).
\<close>

theorem lock_never_overcommits:
  assumes "lock_quote p balance t s = Inr (q, s1)" and "lb_amount_rao q = Some (n_bounty_amount_rao n)"
    and "create_submission n s1 = Inr (v, s2)" and "\<forall>x \<in> set (submissions s). 0 < s_bounty_amount_rao x"
    and "now = to_minute (clock s)"
  shows "\<exists>gross. balance = Inr gross \<and> committed_rao p s2 now \<le> max gross (committed_rao p s now)"
proof (cases rule: lock_quote_Inr [OF assms(1)])
  case (1 gross new weights)
  define c where "c = committed_rao p s now"
  have a: "0 \<le> n_bounty_amount_rao n \<and> n_bounty_amount_rao n \<le> max 0 (gross - c)"
    using 1(4)
  proof (cases rule: quote_target_Inr)
    case (priced task a)
    then show ?thesis using bounty_within_balance [OF priced(4)] assms(2,5)
      by (simp add: bounty_pool_of_def 1(3) pool_ignores_tasks c_def)
  qed (use assms(2) in simp)
  have "committed_rao p s2 now \<le> max gross c"
    using assms(3)
  proof (cases rule: create_submission_Inr)
    case (replay x d)
    then show ?thesis by (simp add: 1(3) pool_ignores_tasks c_def)
  next
    case (new x ps)
    then have "committed_rao p s2 now \<le> c + n_bounty_amount_rao n"
      using committed_after_submission [of s2 s x p now] a assms(4) by (auto simp: 1(3) c_def less_imp_le)
    then show ?thesis using a by auto
  qed
  then show ?thesis using 1(1) by (simp add: c_def)
qed

theorem lock_never_overcommits_witness:
  "\<exists>q s1 v s2. lock_quote sample_pricer (Inr 40000) ''r'' (empty_db (\<lambda>_. replicate 32 0) 100) = Inr (q, s1) \<and>
     create_submission sample_request s1 = Inr (v, s2) \<and> committed_rao sample_pricer s2 60 \<le> 40000"
proof -
  let ?s = "empty_db (\<lambda>_. replicate 32 0) 100"
  obtain q s1 v s2 where q: "lock_quote sample_pricer (Inr 40000) ''r'' ?s = Inr (q, s1)"
    and a: "lb_amount_rao q = Some 1000" and v: "create_submission sample_request s1 = Inr (v, s2)"
    using sample_locked by blast
  have n: "60 = to_minute (clock ?s)" "\<forall>x \<in> set (submissions ?s). 0 < s_bounty_amount_rao x"
    "committed_rao sample_pricer ?s 60 = 0" by code_simp+
  show ?thesis
    using lock_never_overcommits [OF q _ v n(2) n(1)] a q v n(3) by (auto simp: sample_request_def)
qed

end
