(* ===== verification/Emissions.thy ===== *)
theory Emissions
  imports Prelude "HOL-Library.Multiset"
begin

text \<open>
  Where the subnet's emissions go: \<open>emissions_worker/allocation.py\<close>, \<open>vector.py\<close>, \<open>source.py\<close> and the plan of
  \<open>worker.py\<close>.  A Python float is an exact rational, an infinity or not a number: rounding and overflow
  are left out, but what the comparisons do with the special values is kept, since the scores are read
  from JSON, which carries them.  What the endpoint answers, the age of its stamp and the metagraph are
  arguments.
\<close>

section \<open>Floats\<close>

datatype flt = Fin rat | PosInf | NegInf | NaN

fun fadd :: "flt \<Rightarrow> flt \<Rightarrow> flt" where
  "fadd (Fin a) (Fin b) = Fin (a + b)"
| "fadd NaN y = NaN"
| "fadd x NaN = NaN"
| "fadd PosInf NegInf = NaN"
| "fadd NegInf PosInf = NaN"
| "fadd PosInf y = PosInf"
| "fadd NegInf y = NegInf"
| "fadd x PosInf = PosInf"
| "fadd x NegInf = NegInf"

text \<open>Every comparison with \<open>nan\<close> is false.\<close>

fun fless :: "flt \<Rightarrow> flt \<Rightarrow> bool" where
  "fless (Fin a) (Fin b) = (a < b)"
| "fless NaN y = False"
| "fless x NaN = False"
| "fless NegInf y = (y \<noteq> NegInf)"
| "fless x PosInf = (x \<noteq> PosInf)"
| "fless x y = False"

fun fle :: "flt \<Rightarrow> flt \<Rightarrow> bool" where
  "fle NaN y = False"
| "fle x NaN = False"
| "fle x y = (x = y \<or> fless x y)"

text \<open>A positive finite factor, and a divisor that has been tested to be positive.\<close>

fun scale_by :: "rat \<Rightarrow> flt \<Rightarrow> flt" where
  "scale_by b (Fin a) = Fin (b * a)"
| "scale_by b x = x"

fun divide_by :: "flt \<Rightarrow> flt \<Rightarrow> flt" where
  "divide_by (Fin a) (Fin b) = Fin (a / b)"
| "divide_by (Fin a) PosInf = Fin 0"
| "divide_by PosInf (Fin b) = PosInf"
| "divide_by NegInf (Fin b) = NegInf"
| "divide_by x y = NaN"

section \<open>The split\<close>

definition BASIS_POINTS :: int where "BASIS_POINTS = 10000"
definition TREASURY_BPS :: int where "TREASURY_BPS = 8000"
definition COMPETITION_BPS :: "(string \<times> int) list" where "COMPETITION_BPS = [(''deflate'', 2000)]"

definition share :: "string \<Rightarrow> rat" where
  "share slug = of_int (case map_of COMPETITION_BPS slug of None \<Rightarrow> 0 | Some b \<Rightarrow> b) / of_int BASIS_POINTS"

definition treasury_share :: rat where
  "treasury_share = of_int TREASURY_BPS / of_int BASIS_POINTS"

section \<open>The vector\<close>

type_synonym scores = "(string \<times> flt) list"

definition EPSILON :: rat where "EPSILON = 1 / 1000000000"

text \<open>The last uid wins when a hotkey is listed twice.\<close>

definition uid_of :: "string list \<Rightarrow> string \<Rightarrow> nat option" where
  "uid_of metagraph_hotkeys hotkey = map_of (rev (zip metagraph_hotkeys [0..<length metagraph_hotkeys])) hotkey"

text \<open>\<open>weights[uid] = weights.get(uid, 0.0) + portion\<close>\<close>

fun add_weight :: "nat \<Rightarrow> flt \<Rightarrow> (nat \<times> flt) list \<Rightarrow> (nat \<times> flt) list" where
  "add_weight uid portion [] = [(uid, fadd (Fin 0) portion)]"
| "add_weight uid portion ((k, w) # ws) =
     (if k = uid then (k, fadd w portion) # ws else (k, w) # add_weight uid portion ws)"

definition positive_total :: "scores \<Rightarrow> flt" where
  "positive_total scores = foldl fadd (Fin 0) (filter (\<lambda>v. fless (Fin 0) v) (map snd scores))"

definition pay_hotkey ::
  "string list \<Rightarrow> rat \<Rightarrow> flt \<Rightarrow> (nat \<times> flt) list \<times> flt \<Rightarrow> string \<times> flt \<Rightarrow> (nat \<times> flt) list \<times> flt" where
  "pay_hotkey metagraph_hotkeys budget whole acc entry =
     (if fle (snd entry) (Fin 0) then acc
      else let portion = scale_by budget (divide_by (snd entry) whole) in
        case uid_of metagraph_hotkeys (fst entry) of
          None \<Rightarrow> (fst acc, fadd (snd acc) portion)
        | Some uid \<Rightarrow> (add_weight uid portion (fst acc), snd acc))"

definition pay_competition ::
  "string list \<Rightarrow> (nat \<times> flt) list \<times> flt \<Rightarrow> string \<times> scores \<Rightarrow> (nat \<times> flt) list \<times> flt" where
  "pay_competition metagraph_hotkeys acc entry =
     (let budget = share (fst entry);
          whole = positive_total (snd entry)
      in if budget \<le> 0 then acc
         else if fle whole (Fin 0) then (fst acc, fadd (snd acc) (Fin budget))
         else foldl (pay_hotkey metagraph_hotkeys budget whole) acc (snd entry))"

definition unscored :: "(string \<times> scores) list \<Rightarrow> flt" where
  "unscored competition_scores =
     Fin (sum_list (map (\<lambda>(slug, bps). if slug \<in> fst ` set competition_scores then 0 else of_int bps / of_int BASIS_POINTS)
       COMPETITION_BPS))"

definition raw_weights :: "string list \<Rightarrow> nat \<Rightarrow> (string \<times> scores) list \<Rightarrow> (nat \<times> flt) list" where
  "raw_weights metagraph_hotkeys treasury_uid competition_scores =
     (let (weights, unallocated) = foldl (pay_competition metagraph_hotkeys) ([], Fin 0) competition_scores;
          treasury = fadd (Fin treasury_share) (fadd unallocated (unscored competition_scores))
      in add_weight treasury_uid treasury weights)"

definition combine :: "string list \<Rightarrow> nat \<Rightarrow> (string \<times> scores) list \<Rightarrow> nat list \<times> flt list" where
  "combine metagraph_hotkeys treasury_uid competition_scores =
     (let ordered = sort_key fst (filter (\<lambda>x. fless (Fin EPSILON) (snd x))
            (raw_weights metagraph_hotkeys treasury_uid competition_scores))
      in (map fst ordered, map snd ordered))"

definition treasury_only :: "nat \<Rightarrow> nat list \<times> flt list" where
  "treasury_only treasury_uid = ([treasury_uid], [Fin 1])"

section \<open>The source\<close>

datatype json = JNull | JBool bool | JNum flt | JStr string | JList "json list" | JObj "(string \<times> json) list"

datatype fetched = Unreachable string | Malformed string | Payload json

text \<open>\<open>age\<close> is the age of a stamp in seconds, \<open>None\<close> for a text that is no timestamp.\<close>

definition number_scores :: "(string \<times> json) list \<Rightarrow> scores" where
  "number_scores weights = List.map_filter (\<lambda>(hotkey, v). case v of JNum x \<Rightarrow> Some (hotkey, x) | _ \<Rightarrow> None) weights"

definition http_scores ::
  "string \<Rightarrow> rat \<Rightarrow> (string \<Rightarrow> rat option) \<Rightarrow> fetched \<Rightarrow> py_error + (string \<times> scores) list" where
  "http_scores slug max_age_seconds age answer =
     (case answer of
        Unreachable _ \<Rightarrow> Inr []
      | Malformed _ \<Rightarrow> Inr []
      | Payload (JObj payload) \<Rightarrow>
          (case (case map_of payload ''computed_at'' of Some (JStr stamp) \<Rightarrow> age stamp | _ \<Rightarrow> None) of
             None \<Rightarrow> Inr []
           | Some a \<Rightarrow>
               if a > max_age_seconds then Inr []
               else (case map_of payload ''weights'' of
                       Some (JObj weights) \<Rightarrow> Inr [(slug, number_scores weights)]
                     | _ \<Rightarrow> Inr []))
      | Payload _ \<Rightarrow> Inl (TypeError ''object has no attribute get''))"

section \<open>The plan of an epoch\<close>

definition TREASURY_UID :: nat where "TREASURY_UID = 121"

text \<open>\<open>hotkeys\<close> is the metagraph, \<open>None\<close> when no reader is configured, an error when the read fails.\<close>

definition plan_epoch ::
  "(py_error + string list) option \<Rightarrow> py_error + (string \<times> scores) list \<Rightarrow> nat list \<times> flt list" where
  "plan_epoch hotkeys scores =
     (case hotkeys of
        None \<Rightarrow> treasury_only TREASURY_UID
      | Some metagraph \<Rightarrow>
          (case scores of
             Inl _ \<Rightarrow> treasury_only TREASURY_UID
           | Inr [] \<Rightarrow> treasury_only TREASURY_UID
           | Inr competition_scores \<Rightarrow>
               (case metagraph of
                  Inl _ \<Rightarrow> treasury_only TREASURY_UID
                | Inr hs \<Rightarrow> combine hs TREASURY_UID competition_scores)))"

section \<open>What a vector pays\<close>







lemma add_weight_keys: "fst ` set (add_weight u p ws) = insert u (fst ` set ws)"
  by (induction ws rule: add_weight.induct) auto

lemma add_weight_distinct: "distinct (map fst ws) \<Longrightarrow> distinct (map fst (add_weight u p ws))"
proof (induction u p ws rule: add_weight.induct)
  case (2 u p k w ws)
  then show ?case using add_weight_keys [of u p ws] by (auto simp: image_iff)
qed simp
















section \<open>A score that is no number\<close>

lemma fadd_nan [simp]: "fadd x NaN = NaN"
  by (cases x) simp_all

lemma pay_hotkeys_nan: "snd acc = NaN \<Longrightarrow> snd (foldl (pay_hotkey hs b w) acc sc) = NaN"
  by (induction sc arbitrary: acc) (simp_all add: pay_hotkey_def Let_def split: option.splits)

lemma pay_all_nan: "snd acc = NaN \<Longrightarrow> snd (foldl (pay_competition hs) acc cs) = NaN"
  by (induction cs arbitrary: acc) (simp_all add: pay_competition_def Let_def pay_hotkeys_nan)

lemma nan_reaches_unallocated:
  assumes "(h, NaN) \<in> set sc" and "uid_of hs h = None"
  shows "snd (foldl (pay_hotkey hs b (Fin w)) acc sc) = NaN"
  using assms(1)
proof (induction sc arbitrary: acc)
  case (Cons e sc)
  show ?case
  proof (cases "e = (h, NaN)")
    case True
    then have "snd (pay_hotkey hs b (Fin w) acc e) = NaN" using assms(2) by (simp add: pay_hotkey_def)
    then show ?thesis by (simp add: pay_hotkeys_nan)
  next
    case False
    then show ?thesis using Cons by simp
  qed
qed simp

lemma add_weight_nan: "w \<in> snd ` {x \<in> set (add_weight u NaN ws). fst x = u} \<Longrightarrow> distinct (map fst ws) \<Longrightarrow> w = NaN"
  by (induction u "NaN" ws rule: add_weight.induct) (auto simp: rev_image_eqI split: if_splits)

lemma keys_distinct_pay:
  "distinct (map fst (fst acc)) \<Longrightarrow> distinct (map fst (fst (foldl (pay_hotkey hs b w) acc sc)))"
  by (induction sc arbitrary: acc) (simp_all add: pay_hotkey_def Let_def add_weight_distinct split: option.splits)

lemma keys_distinct_all:
  "distinct (map fst (fst acc)) \<Longrightarrow> distinct (map fst (fst (foldl (pay_competition hs) acc cs)))"
  by (induction cs arbitrary: acc) (simp_all add: pay_competition_def Let_def keys_distinct_pay)

text \<open>
  One score that is not a number unpays the treasury.  If a hotkey that has left the metagraph is
  scored \<open>nan\<close> beside positive scores of the funded competition, the vector of the epoch has no weight
  for the treasury at all.
\<close>

theorem nan_score_unpays_treasury:
  assumes "(slug, sc) \<in> set cs" and "0 < share slug" and "positive_total sc = Fin w" and "0 < w"
    and "(h, NaN) \<in> set sc" and "h \<notin> set hs"
  shows "TREASURY_UID \<notin> set (fst (plan_epoch (Some (Inr hs)) (Inr cs)))"
proof -
  have gone: "uid_of hs h = None"
  proof (cases "uid_of hs h")
    case (Some u)
    then show ?thesis using assms(6) unfolding uid_of_def by (auto dest!: map_of_SomeD set_zip_leftD)
  qed
  obtain before after where cs: "cs = before @ (slug, sc) # after" using assms(1) by (meson split_list)
  have "\<not> fle (Fin w) (Fin 0)" using assms(4) by auto
  then have "snd (pay_competition hs (foldl (pay_competition hs) ([], Fin 0) before) (slug, sc)) = NaN"
    using nan_reaches_unallocated [OF assms(5) gone] assms(2,3) by (simp add: pay_competition_def Let_def)
  then have nan: "snd (foldl (pay_competition hs) ([], Fin 0) cs) = NaN" by (simp add: cs pay_all_nan)
  obtain ws un where run: "foldl (pay_competition hs) ([], Fin 0) cs = (ws, un)" by (meson surj_pair)
  have "distinct (map fst ws)" using keys_distinct_all [of "([], Fin 0)" hs cs] by (simp add: run)
  then have "x = NaN" if "(TREASURY_UID, x) \<in> set (raw_weights hs TREASURY_UID cs)" for x
    using that nan add_weight_nan [of x TREASURY_UID ws] by (force simp: raw_weights_def run)
  then have "TREASURY_UID \<notin> set (fst (combine hs TREASURY_UID cs))"
    by (fastforce simp: combine_def Let_def)
  then show ?thesis using assms(1) by (auto simp: plan_epoch_def split: list.splits)
qed

theorem nan_score_unpays_treasury_witness:
  "TREASURY_UID \<notin> set (fst (plan_epoch (Some (Inr [''a''])) (Inr [(''deflate'', [(''a'', Fin 1), (''gone'', NaN)])])))"
proof -
  have "0 < share ''deflate''" "positive_total [(''a'', Fin 1), (''gone'', NaN)] = Fin 1"
    by (simp_all add: share_def COMPETITION_BPS_def BASIS_POINTS_def positive_total_def)
  from nan_score_unpays_treasury [OF _ this, of "[(''deflate'', [(''a'', Fin 1), (''gone'', NaN)])]" "''gone''" "[''a'']"]
  show ?thesis by simp
qed

end
