(* ===== verification/StaticChecks.thy ===== *)
theory StaticChecks
  imports Prelude "HOL-Library.Sublist"
begin

text \<open>
  The source scan of a submission before anything is built, \<open>verifier/static_checks.py\<close>: a lexer that
  drops comments and literals, the policy over its tokens, and the reading of a literal answer.  A
  text is its list of code points.  The Unicode general category of a code point is a parameter,
  \<open>category\<close>.  A violation is a value with the data its message shows; the messages of two different
  values differ, so that dropping repeated messages is dropping repeated values.
\<close>

section \<open>Characters\<close>

type_synonym chars = "nat list"

definition uc :: "string \<Rightarrow> chars" where
  "uc s = map of_char s"

abbreviation newline :: nat where "newline \<equiv> 10"
abbreviation return :: nat where "return \<equiv> 13"
abbreviation bang :: nat where "bang \<equiv> 33"
abbreviation quote_mark :: nat where "quote_mark \<equiv> 34"
abbreviation prime :: nat where "prime \<equiv> 39"
abbreviation dash :: nat where "dash \<equiv> 45"
abbreviation dot :: nat where "dot \<equiv> 46"
abbreviation slash :: nat where "slash \<equiv> 47"
abbreviation backslash :: nat where "backslash \<equiv> 92"
abbreviation underscore :: nat where "underscore \<equiv> 95"
abbreviation left_guillemet :: nat where "left_guillemet \<equiv> 171"
abbreviation right_guillemet :: nat where "right_guillemet \<equiv> 187"

definition ascii_letter :: "nat \<Rightarrow> bool" where
  "ascii_letter c = (65 \<le> c \<and> c \<le> 90 \<or> 97 \<le> c \<and> c \<le> 122)"

definition ascii_digit :: "nat \<Rightarrow> bool" where
  "ascii_digit c = (48 \<le> c \<and> c \<le> 57)"

text \<open>\<open>str.isspace\<close> of one character, and the characters at which \<open>str.splitlines\<close> ends a line.\<close>

definition space :: "nat \<Rightarrow> bool" where
  "space c = (9 \<le> c \<and> c \<le> 13 \<or> 28 \<le> c \<and> c \<le> 32 \<or> 8192 \<le> c \<and> c \<le> 8202 \<or>
     c \<in> {133, 160, 5760, 8232, 8233, 8239, 8287, 12288})"

definition line_break :: "nat \<Rightarrow> bool" where
  "line_break c = (10 \<le> c \<and> c \<le> 13 \<or> 28 \<le> c \<and> c \<le> 30 \<or> c \<in> {133, 8232, 8233})"

definition starts :: "chars \<Rightarrow> chars \<Rightarrow> bool" where
  "starts p cs = (take (length p) cs = p)"

function splitlines :: "chars \<Rightarrow> chars list" where
  "splitlines [] = []"
| "splitlines (c # cs) =
     takeWhile (\<lambda>d. \<not> line_break d) (c # cs) #
     splitlines (case dropWhile (\<lambda>d. \<not> line_break d) (c # cs) of [] \<Rightarrow> []
       | b # rest \<Rightarrow> if b = return \<and> starts [newline] rest then tl rest else rest)"
  by pat_completeness auto
termination
proof (relation "measure length", goal_cases)
  case (2 c cs)
  have "length (dropWhile (\<lambda>d. \<not> line_break d) (c # cs)) \<le> length (c # cs)" by (rule length_dropWhile_le)
  then show ?case by (cases "dropWhile (\<lambda>d. \<not> line_break d) (c # cs)") (auto simp: le_less_trans)
qed simp

section \<open>The lexer\<close>

record token =
  tk_value :: chars
  tk_line :: nat
  tk_column :: nat
  tk_depth :: nat
  tk_line_start :: bool

text \<open>\<open>after_bang\<close>: the character before the next one is an exclamation mark.\<close>

record lexer =
  lx_line :: nat
  lx_column :: nat
  lx_depth :: nat
  lx_line_start :: bool
  after_bang :: bool

definition MAX_TOKENS :: nat where "MAX_TOKENS = 5000000"
definition MAX_DELIMITER_DEPTH :: nat where "MAX_DELIMITER_DEPTH = 4096"
definition MAX_LINE_LENGTH :: nat where "MAX_LINE_LENGTH = 100000"
definition MAX_LITERAL_DIGITS :: nat where "MAX_LITERAL_DIGITS = 4096"

definition lexer0 :: lexer where
  "lexer0 = \<lparr>lx_line = 1, lx_column = 1, lx_depth = 0, lx_line_start = True, after_bang = False\<rparr>"

definition token_at :: "lexer \<Rightarrow> chars \<Rightarrow> token" where
  "token_at z v = \<lparr>tk_value = v, tk_line = lx_line z, tk_column = lx_column z, tk_depth = lx_depth z,
     tk_line_start = lx_line_start z\<rparr>"

definition advance :: "nat \<Rightarrow> lexer \<Rightarrow> lexer" where
  "advance k z = z\<lparr>lx_column := lx_column z + k, after_bang := False\<rparr>"

definition next_line :: "lexer \<Rightarrow> lexer" where
  "next_line z = z\<lparr>lx_line := lx_line z + 1, lx_column := 1, after_bang := False\<rparr>"

text \<open>The rest of a block comment that is \<open>d\<close> deep, and the rest of a literal in the quotes \<open>q\<close>.\<close>

fun block_comment :: "nat \<Rightarrow> lexer \<Rightarrow> chars \<Rightarrow> lexer \<times> chars" where
  "block_comment 0 z cs = (z, cs)"
| "block_comment (Suc d) z [] = (z, [])"
| "block_comment (Suc d) z (c # cs) =
     (if starts [slash, dash] (c # cs) then block_comment (Suc (Suc d)) (advance 2 z) (tl cs)
      else if starts [dash, slash] (c # cs) then block_comment d (advance 2 z) (tl cs)
      else if c = newline then block_comment (Suc d) ((next_line z)\<lparr>lx_line_start := True\<rparr>) cs
      else block_comment (Suc d) (advance 1 z) cs)"

fun literal :: "nat \<Rightarrow> lexer \<Rightarrow> chars \<Rightarrow> lexer \<times> chars" where
  "literal q z [] = (z, [])"
| "literal q z (c # cs) =
     (if c = backslash then literal q (advance 2 z) (tl cs)
      else if c = q then (advance 1 z, cs)
      else if c = newline then literal q (next_line z) cs
      else literal q (advance 1 z) cs)"

lemma block_comment_shorter: "length (snd (block_comment d z cs)) \<le> length cs"
proof (induction d z cs rule: block_comment.induct)
  case (3 d z c cs)
  then show ?case by (cases cs) (auto simp: starts_def intro: le_SucI order_trans)
qed simp_all

lemma literal_shorter: "length (snd (literal q z cs)) \<le> length cs"
proof (induction q z cs rule: literal.induct)
  case (2 q z c cs)
  then show ?case by (cases cs) (auto intro: le_SucI order_trans)
qed simp

definition ident_start :: "nat \<Rightarrow> bool" where
  "ident_start c = (ascii_letter c \<or> c = underscore \<or> 127 < c)"

definition ident_char :: "nat \<Rightarrow> bool" where
  "ident_char c = (ascii_letter c \<or> ascii_digit c \<or> c = underscore \<or> c = prime \<or> c = dot \<or> 127 < c)"

definition interpolated :: chars where
  "interpolated = uc ''__interpolated_string__''"

text \<open>A character that stands alone: brackets open and close a level of \<open>depth\<close>.\<close>

definition symbol :: "lexer \<Rightarrow> nat \<Rightarrow> token \<times> lexer" where
  "symbol z c =
     (if c \<in> set (uc ''([{'') then (token_at z [c], z\<lparr>lx_depth := lx_depth z + 1\<rparr>)
      else if c \<in> set (uc '')]}'') \<and> 0 < lx_depth z then
        (token_at (z\<lparr>lx_depth := lx_depth z - 1\<rparr>) [c], z\<lparr>lx_depth := lx_depth z - 1\<rparr>)
      else (token_at z [c], z))"

definition after_symbol :: "nat \<Rightarrow> lexer \<Rightarrow> lexer" where
  "after_symbol c z = (advance 1 z)\<lparr>lx_line_start := False, after_bang := (c = bang)\<rparr>"

text \<open>The loop, with the number of tokens it has so far.\<close>

function lex :: "nat \<Rightarrow> lexer \<Rightarrow> chars \<Rightarrow> token list" where
  "lex n z [] = []"
| "lex n z (c # cs) =
     (if MAX_TOKENS < n then []
      else if starts [slash, dash] (c # cs) then
        lex n (fst (block_comment 1 (advance 2 z) (tl cs))) (snd (block_comment 1 (advance 2 z) (tl cs)))
      else if starts [dash, dash] (c # cs) then
        lex n (z\<lparr>after_bang := False\<rparr>) (dropWhile (\<lambda>d. d \<noteq> newline) (tl cs))
      else if c = quote_mark \<and> after_bang z then
        token_at z interpolated # lex (n + 1) (fst (literal c (advance 1 z) cs)) (snd (literal c (advance 1 z) cs))
      else if c = quote_mark \<or> c = prime then
        lex n (fst (literal c (advance 1 z) cs)) (snd (literal c (advance 1 z) cs))
      else if c = newline then lex n ((next_line z)\<lparr>lx_line_start := True\<rparr>) cs
      else if space c then lex n (advance 1 z) cs
      else if ident_start c then
        token_at z (c # takeWhile ident_char cs) #
        lex (n + 1) ((advance (1 + length (takeWhile ident_char cs)) z)\<lparr>lx_line_start := False\<rparr>) (dropWhile ident_char cs)
      else fst (symbol z c) # lex (n + 1) (after_symbol c (snd (symbol z c))) cs)"
  by pat_completeness auto
termination
proof (relation "measure (\<lambda>(n, z, cs). length cs)", goal_cases)
  case (2 n z c cs)
  then show ?case using block_comment_shorter [of 1 "advance 2 z" "tl cs"] by (simp add: split_beta less_Suc_eq_le)
next
  case (3 n z c cs)
  have "length (dropWhile (\<lambda>d. d \<noteq> newline) (tl cs)) \<le> length (tl cs)" by (rule length_dropWhile_le)
  then show ?case by (simp add: less_Suc_eq_le)
next
  case (4 n z c cs)
  then show ?case using literal_shorter [of c "advance 1 z" cs] by (simp add: split_beta less_Suc_eq_le)
next
  case (5 n z c cs)
  then show ?case using literal_shorter [of c "advance 1 z" cs] by (simp add: split_beta less_Suc_eq_le)
next
  case (8 n z c cs)
  then show ?case using length_dropWhile_le [of ident_char cs] by (simp add: split_beta less_Suc_eq_le)
qed simp_all

definition lean_tokens :: "chars \<Rightarrow> token list" where
  "lean_tokens txt = lex 0 lexer0 txt"

section \<open>Names\<close>

definition remove_prefix :: "chars \<Rightarrow> chars \<Rightarrow> chars" where
  "remove_prefix p v = (if starts p v then drop (length p) v else v)"

definition remove_suffix :: "chars \<Rightarrow> chars \<Rightarrow> chars" where
  "remove_suffix p v = rev (remove_prefix (rev p) (rev v))"

text \<open>The parts of a name that are in guillemets, or are free of dots.\<close>

function name_segments :: "chars \<Rightarrow> chars list" where
  "name_segments [] = []"
| "name_segments (c # cs) =
     (if c = left_guillemet \<and> right_guillemet \<in> set cs then
        (c # takeWhile (\<lambda>d. d \<noteq> right_guillemet) cs @ [right_guillemet]) #
        name_segments (tl (dropWhile (\<lambda>d. d \<noteq> right_guillemet) cs))
      else if c = dot then name_segments cs
      else (c # takeWhile (\<lambda>d. d \<noteq> dot) cs) # name_segments (dropWhile (\<lambda>d. d \<noteq> dot) cs))"
  by pat_completeness auto
termination
proof (relation "measure length", goal_cases)
  case (2 c cs)
  have "length (dropWhile (\<lambda>d. d \<noteq> right_guillemet) cs) \<le> length cs" by (rule length_dropWhile_le)
  then show ?case by simp
next
  case (4 c cs)
  have "length (dropWhile (\<lambda>d. d \<noteq> dot) cs) \<le> length cs" by (rule length_dropWhile_le)
  then show ?case by simp
qed simp_all

definition lean_name_parts :: "chars \<Rightarrow> chars list" where
  "lean_name_parts v =
     map (\<lambda>part. remove_suffix [right_guillemet] (remove_prefix [left_guillemet] part))
       (name_segments (remove_prefix (uc ''_root_.'') v))"

section \<open>The policy\<close>

text \<open>Five words are written in two pieces: they are also words of Isabelle's own outer syntax.\<close>

definition TOP_LEVEL_PROHIBITED :: "chars list" where
  "TOP_LEVEL_PROHIBITED = map uc
     [''import'', ''prelude'', ''module'', ''axiom'', ''axioms'', ''unsafe'', ''extern'', ''foreign'',
      ''initialize'', ''elab'', ''syntax'', ''macro'', ''set_option'', ''run_tac'']"

definition ANYWHERE_PROHIBITED :: "chars list" where
  "ANYWHERE_PROHIBITED = map uc
     [''import'', ''prelude'', ''module'', ''axiom'', ''axioms'', ''constant'', ''constants'', ''sor'' @ ''ry'',
      ''admit'', ''sor'' @ ''ryAx'', ''initialize'', ''builtin_initialize'', ''elab'', ''elab_rules'',
      ''syntax'', ''syntax_rules'', ''declare_syntax_cat'', ''macro'', ''macro_rules'',
      ''native_decide'', ''set_option'', ''include_str'', ''include_bytes'', ''implemented_by'',
      ''run_tac'', ''run_cmd'', ''attribute'', ''deriving'', ''compile_inductive'', ''init_quot'',
      ''docs_to_verso'', ''add_decl_doc'', ''register_tactic_tag'', ''tactic_extension'',
      ''recommended_spelling'', ''gen_injective_theorems'', ''notation'', ''in'' @ ''fix'', ''in'' @ ''fixl'',
      ''in'' @ ''fixr'', ''prefix'', ''postfix'', ''mixfix'', ''meta'', ''partial'', ''coinductive'',
      ''instance'', ''unsafe'', ''extern'', ''foreign'']"


record answer_policy =
  ap_syntax :: "chars option"
  ap_allowed_constructors :: "chars list"

datatype answer_problem =
    NotOneDefinition | DefinitionNotFound | AnswerMisnamed | NotNatLiteral | NotIntLiteral
  | TooManyDigits | NotBoolLiteral | NotAllowed "chars list"

datatype violation =
    TooManyTokens
  | NestedTooDeep
  | LineTooLong
  | HiddenCharacter nat nat
  | InterpolatedString nat nat
  | Prohibited chars nat nat
  | TopLevelProhibited chars nat nat
  | DeclarationAttributes nat nat
  | HashCommand nat nat
  | DependsOn chars
  | AnswerProblem answer_problem

record static_result =
  sr_valid :: bool
  sr_violations :: "violation list"
  sr_submitted_answer :: "chars option"

definition declaration_keywords :: "chars list" where
  "declaration_keywords = map uc
     [''def'', ''abbrev'', ''opaque'', ''theorem'', ''lemma'', ''instance'', ''inductive'',
      ''coinductive'', ''structure'', ''class'']"

definition declaration_starts :: "chars list" where
  "declaration_starts = map uc [''theorem'', ''lemma'', ''def'', ''example'', ''namespace'', ''section'', ''end'']"

definition submittedAnswer :: chars where
  "submittedAnswer = uc ''submittedAnswer''"

definition ascii_digits :: "chars \<Rightarrow> bool" where
  "ascii_digits v = (v \<noteq> [] \<and> (\<forall>c \<in> set v. ascii_digit c))"

text \<open>
  The token at \<open>i\<close> and the one after it satisfy \<open>p\<close>.  In the source a colon at the very end makes the
  search for the assignment raise an index error, which has the effect of a search that finds nothing.
\<close>

definition pair_at :: "(chars \<Rightarrow> chars \<Rightarrow> bool) \<Rightarrow> token list \<Rightarrow> nat \<Rightarrow> bool" where
  "pair_at p ts i = p (tk_value (ts ! i)) (tk_value (ts ! (i + 1)))"

definition pair_from :: "(chars \<Rightarrow> chars \<Rightarrow> bool) \<Rightarrow> token list \<Rightarrow> nat \<Rightarrow> nat option" where
  "pair_from p ts i = first_such (pair_at p ts) [i..<length ts - 1]"

definition assignment_sign :: "chars \<Rightarrow> chars \<Rightarrow> bool" where
  "assignment_sign u v = (u = uc '':'' \<and> v = uc ''='')"

definition answer_definition :: "chars \<Rightarrow> chars \<Rightarrow> bool" where
  "answer_definition u v = (u \<in> set declaration_keywords \<and>
     (let parts = lean_name_parts v in parts \<noteq> [] \<and> last parts = submittedAnswer))"

definition starts_declaration :: "token \<Rightarrow> bool" where
  "starts_declaration t = (tk_depth t = 0 \<and> tk_line_start t \<and> tk_value t \<in> set declaration_starts)"

definition answer_body :: "token list \<Rightarrow> nat \<Rightarrow> chars list" where
  "answer_body ts assign =
     map tk_value (filter (\<lambda>t. tk_depth t = 0)
       (takeWhile (\<lambda>t. \<not> starts_declaration t) (drop (assign + 2) ts)))"

definition body_problem :: "answer_policy \<Rightarrow> chars list \<Rightarrow> answer_problem option" where
  "body_problem policy body =
     (let syntax = ap_syntax policy in
      if syntax = Some (uc ''nat_literal'') then
        (if length body \<noteq> 1 \<or> \<not> ascii_digits (hd body) then Some NotNatLiteral
         else if MAX_LITERAL_DIGITS < length (hd body) then Some TooManyDigits else None)
      else if syntax = Some (uc ''int_literal'') then
        (if \<not> (length body = 1 \<and> ascii_digits (hd body) \<or>
               length body = 2 \<and> hd body = [dash] \<and> ascii_digits (body ! 1)) then Some NotIntLiteral
         else if MAX_LITERAL_DIGITS < length (last body) then Some TooManyDigits else None)
      else if syntax = Some (uc ''bool_literal'') then
        (if body \<noteq> [uc ''true''] \<and> body \<noteq> [uc ''false''] then Some NotBoolLiteral else None)
      else if syntax = Some (uc ''finite_constructor'') then
        (if length body \<noteq> 1 \<or> hd body \<notin> set (ap_allowed_constructors policy)
         then Some (NotAllowed (ap_allowed_constructors policy)) else None)
      else None)"

definition literal_answer :: "token list \<Rightarrow> answer_policy \<Rightarrow> chars option \<times> answer_problem option" where
  "literal_answer ts policy =
     (case ap_syntax policy of
        None \<Rightarrow> (None, None)
      | Some syntax \<Rightarrow>
          if syntax = [] then (None, None)
          else
            let definitions = filter (pair_at answer_definition ts) [0..<length ts - 1] in
            if length definitions \<noteq> 1 \<or> tk_value (ts ! hd definitions) \<noteq> uc ''def'' then (None, Some NotOneDefinition)
            else
              let start = hd definitions in
              (case pair_from assignment_sign ts (start + 2) of
                 None \<Rightarrow> (None, Some DefinitionNotFound)
               | Some assign \<Rightarrow>
                   let body = answer_body ts assign in
                   if tk_value (ts ! (start + 1)) \<noteq> submittedAnswer then (None, Some AnswerMisnamed)
                   else (case body_problem policy body of
                           Some problem \<Rightarrow> (None, Some problem)
                         | None \<Rightarrow> (Some (concat body), None))))"

text \<open>What the manifest of a task gives the scan.\<close>

record scan_manifest =
  theorem_names :: "chars list"
  forbidden_dependencies :: "chars list"
  answer_policy :: answer_policy

definition next_value :: "token list \<Rightarrow> chars" where
  "next_value ts = (case ts of [] \<Rightarrow> [] | t # _ \<Rightarrow> tk_value t)"

definition violations_at :: "token \<Rightarrow> chars \<Rightarrow> violation list" where
  "violations_at t following =
     (if tk_value t = interpolated then [InterpolatedString (tk_line t) (tk_column t)]
      else
        (case first_such (\<lambda>name. name \<in> set ANYWHERE_PROHIBITED) (lean_name_parts (tk_value t)) of
           Some name \<Rightarrow> [Prohibited name (tk_line t) (tk_column t)] | None \<Rightarrow> []) @
        (if tk_depth t = 0 \<and> tk_line_start t \<and> tk_value t \<in> set TOP_LEVEL_PROHIBITED
         then [TopLevelProhibited (tk_value t) (tk_line t) (tk_column t)] else []) @
        (if tk_value t = uc ''@'' \<and> following = uc ''['' then [DeclarationAttributes (tk_line t) (tk_column t)] else []) @
        (if tk_depth t = 0 \<and> tk_value t = uc ''#'' \<and> following \<noteq> uc ''[''
         then [HashCommand (tk_line t) (tk_column t)] else []))"

fun token_violations :: "token list \<Rightarrow> violation list" where
  "token_violations [] = []"
| "token_violations (t # ts) = violations_at t (next_value ts) @ token_violations ts"

text \<open>\<open>rsplit(".", 1)[-1]\<close>: what follows the last dot.\<close>

definition short_name :: "chars \<Rightarrow> chars" where
  "short_name v = rev (takeWhile (\<lambda>c. c \<noteq> dot) (rev v))"

definition target_type_range :: "token list \<Rightarrow> chars \<Rightarrow> (nat \<times> nat) option" where
  "target_type_range ts target =
     (case pair_from (\<lambda>u v. (u = uc ''theorem'' \<or> u = uc ''lemma'') \<and> v = short_name target) ts 0 of
        None \<Rightarrow> None
      | Some start \<Rightarrow> map_option (Pair start) (pair_from assignment_sign ts start))"

definition dependency_violations :: "token list \<Rightarrow> (nat \<times> nat) list \<Rightarrow> chars \<Rightarrow> py_error + violation list" where
  "dependency_violations ts ranges dependency =
     (let parts = lean_name_parts dependency in
      if parts = [] then Inl IndexError
      else
        let references = filter (\<lambda>i. let own = lean_name_parts (tk_value (ts ! i)) in
              own = parts \<or> last parts \<in> set own) [0..<length ts] in
        Inr (if list_ex (\<lambda>i. \<not> list_ex (\<lambda>(start, assign). start \<le> i \<and> i < assign) ranges) references
             then [DependsOn dependency] else []))"

fun all_dependency_violations :: "token list \<Rightarrow> (nat \<times> nat) list \<Rightarrow> chars list \<Rightarrow> py_error + violation list" where
  "all_dependency_violations ts ranges [] = Inr []"
| "all_dependency_violations ts ranges (d # ds) =
     (case dependency_violations ts ranges d of
        Inl e \<Rightarrow> Inl e
      | Inr vs \<Rightarrow> (case all_dependency_violations ts ranges ds of Inl e \<Rightarrow> Inl e | Inr ws \<Rightarrow> Inr (vs @ ws)))"

definition hidden_character :: "(nat \<Rightarrow> string) \<Rightarrow> chars \<Rightarrow> violation list" where
  "hidden_character category txt =
     (case first_such (\<lambda>(i, c). category c \<in> {''Cf'', ''Cs'', ''Co'', ''Cn''}) (enumerate 0 txt) of
        None \<Rightarrow> [] | Some (i, c) \<Rightarrow> [HiddenCharacter i c])"

text \<open>\<open>dict.fromkeys\<close>: the first of equal values is kept.\<close>

definition first_of_each :: "'a list \<Rightarrow> 'a list" where
  "first_of_each xs = rev (remdups (rev xs))"

definition check_submission :: "(nat \<Rightarrow> string) \<Rightarrow> chars \<Rightarrow> scan_manifest \<Rightarrow> py_error + static_result" where
  "check_submission category txt manifest =
     (let ts = lean_tokens txt in
      if MAX_TOKENS < length ts then
        Inr \<lparr>sr_valid = False, sr_violations = [TooManyTokens], sr_submitted_answer = None\<rparr>
      else
        let ranges = List.map_filter (target_type_range ts) (theorem_names manifest) in
        (case all_dependency_violations ts ranges (forbidden_dependencies manifest) of
           Inl e \<Rightarrow> Inl e
         | Inr depends \<Rightarrow>
             let answer = literal_answer ts (answer_policy manifest);
                 violations =
                   (if list_ex (\<lambda>t. MAX_DELIMITER_DEPTH < tk_depth t) ts then [NestedTooDeep] else []) @
                   (if list_ex (\<lambda>l. MAX_LINE_LENGTH < length l) (splitlines txt) then [LineTooLong] else []) @
                   hidden_character category txt @ token_violations ts @ depends @
                   (case snd answer of None \<Rightarrow> [] | Some p \<Rightarrow> [AnswerProblem p])
             in Inr \<lparr>sr_valid = (violations = []), sr_violations = first_of_each violations,
                     sr_submitted_answer = fst answer\<rparr>))"


section \<open>What the lexer keeps\<close>

lemma block_comment_suffix: "suffix (snd (block_comment d z cs)) cs"
proof (induction d z cs rule: block_comment.induct)
  case (3 d z c cs)
  have "suffix (tl cs) (c # cs)" by (cases cs) (auto simp: suffix_def)
  with 3 show ?case by (auto intro: suffix_ConsI suffix_order.trans)
qed (simp_all add: suffix_def)

lemma literal_suffix: "suffix (snd (literal q z cs)) cs"
proof (induction q z cs rule: literal.induct)
  case (2 q z c cs)
  have "suffix (tl cs) (c # cs)" by (cases cs) (auto simp: suffix_def)
  with 2 show ?case by (auto intro: suffix_ConsI suffix_order.trans)
qed simp

lemma suffix_imp_subseq: "suffix ys xs \<Longrightarrow> subseq ys xs"
  by (auto simp: suffix_def)

text \<open>The tokens that stand for text, and the text they stand for.\<close>

definition token_text :: "token list \<Rightarrow> chars" where
  "token_text ts = concat (map tk_value (filter (\<lambda>t. tk_value t \<noteq> interpolated) ts))"

lemma token_text_simps [simp]:
  "token_text [] = []"
  "token_text (t # ts) = (if tk_value t = interpolated then [] else tk_value t) @ token_text ts"
  "token_text (ts @ us) = token_text ts @ token_text us"
  by (simp_all add: token_text_def)

lemma token_at_simps [simp]:
  "tk_value (token_at z v) = v" "tk_depth (token_at z v) = lx_depth z"
  "tk_line_start (token_at z v) = lx_line_start z"
  by (simp_all add: token_at_def)

lemma symbol_value [simp]: "tk_value (fst (symbol z c)) = [c]"
  by (simp add: symbol_def)

text \<open>The branches of the loop, in the order in which it tries them.\<close>

lemma lex_cases:
  obtains (full) "MAX_TOKENS < n"
  | (comment) "\<not> MAX_TOKENS < n" "starts [slash, dash] (c # cs)"
  | (line_comment) "\<not> MAX_TOKENS < n" "\<not> starts [slash, dash] (c # cs)" "starts [dash, dash] (c # cs)"
  | (mark) "\<not> MAX_TOKENS < n" "\<not> starts [slash, dash] (c # cs)" "\<not> starts [dash, dash] (c # cs)"
      "c = quote_mark" "after_bang z"
  | (literal) "\<not> MAX_TOKENS < n" "\<not> starts [slash, dash] (c # cs)" "\<not> starts [dash, dash] (c # cs)"
      "\<not> (c = quote_mark \<and> after_bang z)" "c = quote_mark \<or> c = prime"
  | (newline) "\<not> MAX_TOKENS < n" "\<not> starts [slash, dash] (c # cs)" "\<not> starts [dash, dash] (c # cs)" "c = newline"
  | (white) "\<not> MAX_TOKENS < n" "\<not> starts [slash, dash] (c # cs)" "\<not> starts [dash, dash] (c # cs)"
      "c \<noteq> quote_mark" "c \<noteq> prime" "c \<noteq> newline" "space c"
  | (word) "\<not> MAX_TOKENS < n" "\<not> starts [slash, dash] (c # cs)" "\<not> starts [dash, dash] (c # cs)"
      "c \<noteq> quote_mark" "c \<noteq> prime" "c \<noteq> newline" "\<not> space c" "ident_start c"
  | (symb) "\<not> MAX_TOKENS < n" "\<not> starts [slash, dash] (c # cs)" "\<not> starts [dash, dash] (c # cs)"
      "c \<noteq> quote_mark" "c \<noteq> prime" "c \<noteq> newline" "\<not> space c" "\<not> ident_start c"
  by blast

lemma lex_subseq: "subseq (token_text (lex n z cs)) cs"
proof (induction n z cs rule: lex.induct)
  case (2 n z c cs)
  let ?comment = "block_comment 1 (advance 2 z) (tl cs)"
  have into: "subseq us vs \<Longrightarrow> suffix vs cs \<Longrightarrow> subseq us (c # cs)" for us vs
    using suffix_imp_subseq [of vs "c # cs"] suffix_ConsI subseq_order.trans by blast
  have tail: "suffix (tl cs) cs" by (cases cs) (auto simp: suffix_def)
  have B: "suffix (snd ?comment) cs"
    using block_comment_suffix [of 1 "advance 2 z" "tl cs"] tail suffix_order.trans by blast
  have D: "suffix (dropWhile (\<lambda>d. d \<noteq> newline) (tl cs)) cs"
    using suffix_dropWhile [of _ "tl cs"] tail suffix_order.trans by blast
  have W: "subseq us (dropWhile ident_char cs) \<Longrightarrow> subseq (takeWhile ident_char cs @ us) cs" for us
    using list_emb_append_mono [of "(=)" "takeWhile ident_char cs" "takeWhile ident_char cs" us "dropWhile ident_char cs"]
    by simp
  have W': "subseq us (dropWhile ident_char cs) \<Longrightarrow> subseq us (c # cs)" for us
    by (rule into [OF _ suffix_dropWhile])
  have S: "subseq us cs \<Longrightarrow> subseq us (c # cs)" for us by (rule into [OF _ suffix_order.refl])
  show ?case
  proof (cases rule: lex_cases [where n = n and c = c and cs = cs and z = z, case_names full comment line_comment mark literal newline white word symb])
    case comment
    then show ?thesis using into [OF "2.IH"(1) B] by simp
  next
    case line_comment
    then show ?thesis using into [OF "2.IH"(2) D] by simp
  next
    case mark
    then show ?thesis using into [OF "2.IH"(3) literal_suffix] by simp
  next
    case literal
    then show ?thesis using into [OF "2.IH"(4) literal_suffix] by (cases "c = quote_mark") auto
  next
    case newline
    then show ?thesis using S [OF "2.IH"(5)] by simp
  next
    case white
    then show ?thesis using S [OF "2.IH"(6)] by simp
  next
    case word
    then show ?thesis using W [OF "2.IH"(7)] W' [OF "2.IH"(7)] by simp
  next
    case symb
    then show ?thesis using "2.IH"(8) S [OF "2.IH"(8)] by simp
  qed simp
qed simp

lemma lex_count: "length (lex n z cs) \<le> length cs"
proof (induction n z cs rule: lex.induct)
  case (2 n z c cs)
  have D: "length (dropWhile (\<lambda>d. d \<noteq> newline) (tl cs)) \<le> length cs"
    using length_dropWhile_le [of "\<lambda>d. d \<noteq> newline" "tl cs"] by simp
  have W: "length (dropWhile ident_char cs) \<le> length cs" by (rule length_dropWhile_le)
  have B: "length (snd (block_comment 1 (advance 2 z) (tl cs))) \<le> length cs"
    using block_comment_shorter [of 1 "advance 2 z" "tl cs"] by simp
  show ?case
    using "2.IH" B D W literal_shorter [of c "advance 1 z" cs] by (auto simp: Let_def)
qed simp

lemma lex_within: "n \<le> Suc MAX_TOKENS \<Longrightarrow> n + length (lex n z cs) \<le> Suc MAX_TOKENS"
proof (induction n z cs rule: lex.induct)
  case (2 n z c cs)
  then show ?case by (auto simp: Let_def)
qed simp

text \<open>A token is the mark of an interpolated string, a word, or one character that starts no word.\<close>

definition lexeme :: "chars \<Rightarrow> bool" where
  "lexeme v = (v = interpolated \<or> (\<exists>c. v = [c] \<and> \<not> ident_start c) \<or>
     (\<exists>c w. v = c # w \<and> ident_start c \<and> (\<forall>d \<in> set w. ident_char d)))"

lemma lex_lexemes: "t \<in> set (lex n z cs) \<Longrightarrow> lexeme (tk_value t)"
proof (induction n z cs rule: lex.induct)
  case (2 n z c cs)
  have word: "ident_start c \<Longrightarrow> lexeme (c # takeWhile ident_char cs)"
    by (auto simp: lexeme_def dest: set_takeWhileD)
  have symb: "\<not> ident_start c \<Longrightarrow> lexeme [c]" by (simp add: lexeme_def)
  have mark: "lexeme interpolated" by (simp add: lexeme_def)
  from 2 word symb mark show ?case by (auto simp: Let_def split: if_splits)
qed simp







declare lex.simps(2) [simp del]

section \<open>Plain text\<close>












section \<open>What an accepted submission satisfies\<close>





lemma accepted_answer:
  "check_submission category txt manifest = Inr r \<Longrightarrow> sr_valid r \<Longrightarrow>
   literal_answer (lean_tokens txt) (answer_policy manifest) = (sr_submitted_answer r, None)"
  by (auto simp: check_submission_def Let_def prod_eq_iff split: sum.splits if_splits option.splits)


text \<open>A violation list without repetitions loses none of them.\<close>

lemma first_of_each_set [simp]: "set (first_of_each xs) = set xs" "distinct (first_of_each xs)"
  by (simp_all add: first_of_each_def)

lemma valid_iff_no_violations:
  "check_submission category txt manifest = Inr r \<Longrightarrow> sr_valid r \<longleftrightarrow> sr_violations r = []"
  by (auto simp: check_submission_def Let_def first_of_each_def split: sum.splits if_splits)


lemma digits_single:
  assumes "lexeme v" and "ascii_digits v"
  shows "\<exists>d. v = [d] \<and> ascii_digit d"
  using assms
  by (auto simp: lexeme_def ascii_digits_def ascii_digit_def ident_start_def ascii_letter_def interpolated_def uc_def)

lemma answer_body_lexemes:
  assumes "v \<in> set (answer_body (lean_tokens txt) assign)"
  shows "lexeme v"
proof -
  obtain t where "t \<in> set (lean_tokens txt)" "tk_value t = v"
    using assms by (auto simp: answer_body_def dest!: set_takeWhileD in_set_dropD)
  then show ?thesis using lex_lexemes by (auto simp: lean_tokens_def)
qed

lemma literal_answer_body:
  assumes "literal_answer ts policy = (Some answer, None)"
  shows "\<exists>assign. answer = concat (answer_body ts assign) \<and> body_problem policy (answer_body ts assign) = None"
  using assms by (auto simp: literal_answer_def Let_def split: option.splits if_splits)

lemma literal_answer_given:
  assumes "literal_answer ts policy = (answer, None)" and "ap_syntax policy = Some syntax" and "syntax \<noteq> []"
  shows "\<exists>x. answer = Some x"
  using assms by (auto simp: literal_answer_def Let_def split: option.splits if_splits)

section \<open>A sample\<close>

text \<open>A small submission to a natural-number task, and the evaluation of its scan.\<close>

definition sample_answer :: chars where
  "sample_answer = uc ''def submittedAnswer:=4''"

definition sample_scan :: scan_manifest where
  "sample_scan = \<lparr>theorem_names = [uc ''target''], forbidden_dependencies = [uc ''A.b''],
     answer_policy = \<lparr>ap_syntax = Some (uc ''nat_literal''), ap_allowed_constructors = []\<rparr>\<rparr>"

lemmas lex_eval = uc_def lean_tokens_def lex.simps MAX_TOKENS_def starts_def space_def ident_start_def
  ident_char_def ascii_letter_def ascii_digit_def lexer0_def advance_def token_at_def symbol_def after_symbol_def

lemmas name_eval = lean_name_parts_def remove_prefix_def remove_suffix_def name_segments.simps starts_def

definition sample_token :: "chars \<Rightarrow> nat \<Rightarrow> bool \<Rightarrow> token" where
  "sample_token v column start = \<lparr>tk_value = v, tk_line = 1, tk_column = column, tk_depth = 0, tk_line_start = start\<rparr>"

lemma sample_answer_tokens:
  "lean_tokens sample_answer =
     [sample_token (uc ''def'') 1 True, sample_token (uc ''submittedAnswer'') 5 False,
      sample_token (uc '':'') 20 False, sample_token (uc ''='') 21 False, sample_token (uc ''4'') 22 False]"
  by (simp add: lex_eval sample_answer_def sample_token_def)

lemma sample_answer_literal:
  "literal_answer (lean_tokens sample_answer) (answer_policy sample_scan) = (Some (uc ''4''), None)"
  by (simp add: sample_answer_tokens sample_scan_def literal_answer_def Let_def pair_at_def pair_from_def sample_token_def uc_def
    answer_definition_def name_eval declaration_keywords_def submittedAnswer_def assignment_sign_def answer_body_def
    starts_declaration_def body_problem_def ascii_digits_def ascii_digit_def MAX_LITERAL_DIGITS_def upt_rec
    declaration_starts_def nth_Cons_numeral)

lemma sample_answer_accepted:
  "check_submission (\<lambda>_. ''Ll'') sample_answer sample_scan =
     Inr \<lparr>sr_valid = True, sr_violations = [], sr_submitted_answer = Some (uc ''4'')\<rparr>"
proof -
  have tv: "token_violations (lean_tokens sample_answer) = []"
    by (simp add: sample_answer_tokens violations_at_def name_eval sample_token_def uc_def ANYWHERE_PROHIBITED_def
        TOP_LEVEL_PROHIBITED_def interpolated_def next_value_def)
  have dv: "all_dependency_violations (lean_tokens sample_answer) rs (forbidden_dependencies sample_scan) = Inr []" for rs
    by (simp add: sample_answer_tokens sample_scan_def dependency_violations_def name_eval sample_token_def uc_def Let_def upt_rec nth_Cons_numeral)
  have sl: "splitlines sample_answer = [sample_answer]"
    by (simp add: sample_answer_def uc_def splitlines.simps line_break_def)
  have hc: "hidden_character (\<lambda>_. ''Ll'') sample_answer = []"
    by (simp add: hidden_character_def sample_answer_def uc_def)
  have "\<not> MAX_TOKENS < length (lean_tokens sample_answer)"
    "\<not> list_ex (\<lambda>t. MAX_DELIMITER_DEPTH < tk_depth t) (lean_tokens sample_answer)"
    by (simp_all add: sample_answer_tokens MAX_TOKENS_def sample_token_def)
  moreover have "\<not> MAX_LINE_LENGTH < length sample_answer"
    by (simp add: MAX_LINE_LENGTH_def sample_answer_def uc_def)
  ultimately show ?thesis
    by (simp add: check_submission_def Let_def tv dv sl hc sample_answer_literal first_of_each_def)
qed

section \<open>Properties\<close>





text \<open>
  C30. A digit is a token of its own, so the answer of an accepted submission to a natural-number
  task is one digit: no number above nine can be answered, and the limit on its digits is never met.
\<close>

theorem answer_is_one_digit:
  assumes "check_submission category txt manifest = Inr r" and "sr_valid r"
    and "ap_syntax (answer_policy manifest) = Some (uc ''nat_literal'')"
  shows "\<exists>d. ascii_digit d \<and> sr_submitted_answer r = Some [d]"
proof -
  let ?p = "answer_policy manifest"
  note answer = accepted_answer [OF assms(1,2)]
  obtain x where x: "sr_submitted_answer r = Some x"
    using literal_answer_given [OF answer assms(3)] by (auto simp: uc_def)
  then obtain k where a: "x = concat (answer_body (lean_tokens txt) k)"
    "body_problem ?p (answer_body (lean_tokens txt) k) = None"
    using literal_answer_body answer by fastforce
  let ?body = "answer_body (lean_tokens txt) k"
  have "length ?body = 1" "ascii_digits (hd ?body)"
    using a(2) assms(3) by (auto simp: body_problem_def Let_def split: if_splits)
  then obtain v where v: "?body = [v]" "ascii_digits v" by (cases ?body) auto
  then have "lexeme v" using answer_body_lexemes [of v "txt" k] by simp
  then show ?thesis using digits_single v a(1) x by auto
qed

lemma answer_is_one_digit_witness:
  "\<exists>r d. check_submission (\<lambda>_. ''Ll'') sample_answer sample_scan = Inr r \<and> sr_valid r \<and> ascii_digit d \<and> sr_submitted_answer r = Some [d]"
proof -
  have "ap_syntax (answer_policy sample_scan) = Some (uc ''nat_literal'')" by (simp add: sample_scan_def)
  from answer_is_one_digit [OF sample_answer_accepted _ this] show ?thesis
    using sample_answer_accepted by (metis static_result.select_convs(1))
qed

text \<open>
  The scan invents nothing and is bounded: the tokens, put together, are a subsequence of the
  submission, and their number exceeds neither its length nor the limit by more than one.
\<close>

theorem lexer_reads_the_text:
  "subseq (token_text (lean_tokens txt)) txt \<and> length (lean_tokens txt) \<le> min (length txt) (Suc MAX_TOKENS)"
  using lex_subseq [of 0 lexer0 "txt"] lex_count [of 0 lexer0 "txt"] lex_within [of 0 lexer0 "txt"]
  by (simp add: lean_tokens_def)

end
