(* ===== verification/Verdicts.thy ===== *)
theory Verdicts
  imports StaticChecks
begin

text \<open>
  What the verifier can conclude and how its conclusion crosses to the worker: the reason codes of
  \<open>verifier/errors.py\<close> and their two classifications (\<open>verifier/errors.py\<close>,
  \<open>verification_worker/outcomes.py\<close>), the time budgets (\<open>verifier/timeouts.py\<close>), the bounded capture of a
  child's output (\<open>verifier/process.py\<close>, \<open>verification_worker/runner.py\<close>), the reason a failed
  comparator run is given (\<open>verifier/comparator.py\<close>), the report (\<open>verifier/models.py\<close>,
  \<open>verifier/reports.py\<close>) and its acceptance by the worker (\<open>verification_worker/runner.py\<close>).
\<close>

section \<open>Reason codes\<close>

datatype reason_code =
    R_VERIFIED | R_INVALID_ARGUMENT | R_REPOSITORY_NOT_FOUND | R_REPOSITORY_COMMIT_MISMATCH
  | R_CATALOG_NOT_FOUND | R_THEOREM_NOT_FOUND | R_UNSUPPORTED_DECLARATION | R_ADAPTER_REQUIRED
  | R_INVALID_TASK_MODE | R_INELIGIBLE_TASK | R_INVALID_MANIFEST | R_SOURCE_TYPE_CHANGED
  | R_TRUSTED_FILE_MODIFIED | R_SUBMISSION_NOT_FOUND | R_SUBMISSION_TOO_LARGE | R_SUBMISSION_NOT_UTF8
  | R_SUBMISSION_POLICY_VIOLATION | R_BUNDLE_TOO_LARGE | R_BUNDLE_MALFORMED | R_BUNDLE_POLICY_VIOLATION
  | R_BUNDLE_MANIFEST_INVALID | R_BUNDLE_DIGEST_MISMATCH | R_WORKSPACE_ERROR | R_CHALLENGE_BUILD_FAILED
  | R_SOLUTION_BUILD_FAILED | R_STATEMENT_MISMATCH | R_UNPERMITTED_AXIOM | R_LEAN_KERNEL_REJECTED
  | R_NANODA_REJECTED | R_COMPARATOR_REJECTED | R_TIMEOUT | R_RESOURCE_LIMIT | R_INSECURE_SANDBOX
  | R_TASK_COMMITMENT_MISMATCH | R_ENVIRONMENT_MISMATCH | R_DEPENDENCY_IDENTITY_MISMATCH
  | R_COMPARATOR_TOOL_CRASHED | R_INTERNAL_ERROR

text \<open>The members with their text, in the order of the enumeration.\<close>

definition reason_codes :: "(string \<times> reason_code) list" where
  "reason_codes =
     [(''VERIFIED'', R_VERIFIED), (''INVALID_ARGUMENT'', R_INVALID_ARGUMENT),
      (''REPOSITORY_NOT_FOUND'', R_REPOSITORY_NOT_FOUND),
      (''REPOSITORY_COMMIT_MISMATCH'', R_REPOSITORY_COMMIT_MISMATCH),
      (''CATALOG_NOT_FOUND'', R_CATALOG_NOT_FOUND), (''THEOREM_NOT_FOUND'', R_THEOREM_NOT_FOUND),
      (''UNSUPPORTED_DECLARATION'', R_UNSUPPORTED_DECLARATION), (''ADAPTER_REQUIRED'', R_ADAPTER_REQUIRED),
      (''INVALID_TASK_MODE'', R_INVALID_TASK_MODE), (''INELIGIBLE_TASK'', R_INELIGIBLE_TASK),
      (''INVALID_MANIFEST'', R_INVALID_MANIFEST), (''SOURCE_TYPE_CHANGED'', R_SOURCE_TYPE_CHANGED),
      (''TRUSTED_FILE_MODIFIED'', R_TRUSTED_FILE_MODIFIED), (''SUBMISSION_NOT_FOUND'', R_SUBMISSION_NOT_FOUND),
      (''SUBMISSION_TOO_LARGE'', R_SUBMISSION_TOO_LARGE), (''SUBMISSION_NOT_UTF8'', R_SUBMISSION_NOT_UTF8),
      (''SUBMISSION_POLICY_VIOLATION'', R_SUBMISSION_POLICY_VIOLATION),
      (''BUNDLE_TOO_LARGE'', R_BUNDLE_TOO_LARGE), (''BUNDLE_MALFORMED'', R_BUNDLE_MALFORMED),
      (''BUNDLE_POLICY_VIOLATION'', R_BUNDLE_POLICY_VIOLATION),
      (''BUNDLE_MANIFEST_INVALID'', R_BUNDLE_MANIFEST_INVALID),
      (''BUNDLE_DIGEST_MISMATCH'', R_BUNDLE_DIGEST_MISMATCH), (''WORKSPACE_ERROR'', R_WORKSPACE_ERROR),
      (''CHALLENGE_BUILD_FAILED'', R_CHALLENGE_BUILD_FAILED), (''SOLUTION_BUILD_FAILED'', R_SOLUTION_BUILD_FAILED),
      (''STATEMENT_MISMATCH'', R_STATEMENT_MISMATCH), (''UNPERMITTED_AXIOM'', R_UNPERMITTED_AXIOM),
      (''LEAN_KERNEL_REJECTED'', R_LEAN_KERNEL_REJECTED), (''NANODA_REJECTED'', R_NANODA_REJECTED),
      (''COMPARATOR_REJECTED'', R_COMPARATOR_REJECTED), (''TIMEOUT'', R_TIMEOUT),
      (''RESOURCE_LIMIT'', R_RESOURCE_LIMIT), (''INSECURE_SANDBOX'', R_INSECURE_SANDBOX),
      (''TASK_COMMITMENT_MISMATCH'', R_TASK_COMMITMENT_MISMATCH),
      (''ENVIRONMENT_MISMATCH'', R_ENVIRONMENT_MISMATCH),
      (''DEPENDENCY_IDENTITY_MISMATCH'', R_DEPENDENCY_IDENTITY_MISMATCH),
      (''COMPARATOR_TOOL_CRASHED'', R_COMPARATOR_TOOL_CRASHED), (''INTERNAL_ERROR'', R_INTERNAL_ERROR)]"

text \<open>\<open>ReasonCode(text)\<close> and \<open>reason.value\<close>.\<close>

definition reason_of :: "chars \<Rightarrow> reason_code option" where
  "reason_of v = map_option snd (first_such (\<lambda>(n, r). uc n = v) reason_codes)"

definition reason_text :: "reason_code \<Rightarrow> chars" where
  "reason_text r = (case first_such (\<lambda>(n, r'). r' = r) reason_codes of Some (n, _) \<Rightarrow> uc n | None \<Rightarrow> [])"

definition CONFIGURATION_REASONS :: "reason_code list" where
  "CONFIGURATION_REASONS =
     [R_INVALID_ARGUMENT, R_REPOSITORY_NOT_FOUND, R_REPOSITORY_COMMIT_MISMATCH, R_CATALOG_NOT_FOUND,
      R_THEOREM_NOT_FOUND, R_UNSUPPORTED_DECLARATION, R_ADAPTER_REQUIRED, R_INVALID_TASK_MODE,
      R_INELIGIBLE_TASK, R_INVALID_MANIFEST, R_SOURCE_TYPE_CHANGED, R_TRUSTED_FILE_MODIFIED,
      R_INSECURE_SANDBOX, R_TASK_COMMITMENT_MISMATCH, R_ENVIRONMENT_MISMATCH,
      R_DEPENDENCY_IDENTITY_MISMATCH, R_COMPARATOR_TOOL_CRASHED, R_WORKSPACE_ERROR,
      R_CHALLENGE_BUILD_FAILED, R_INTERNAL_ERROR]"

definition exit_code_for :: "reason_code \<Rightarrow> bool \<Rightarrow> int" where
  "exit_code_for reason accepted =
     (if accepted then 0 else if reason \<in> set CONFIGURATION_REASONS then 2 else 1)"

datatype outcome = VERDICT | OPERATOR

definition VERDICT_REASONS :: "reason_code list" where
  "VERDICT_REASONS =
     [R_VERIFIED, R_SUBMISSION_TOO_LARGE, R_SUBMISSION_NOT_UTF8, R_SUBMISSION_POLICY_VIOLATION,
      R_SOLUTION_BUILD_FAILED, R_STATEMENT_MISMATCH, R_UNPERMITTED_AXIOM, R_LEAN_KERNEL_REJECTED,
      R_NANODA_REJECTED, R_COMPARATOR_REJECTED, R_TIMEOUT]"

definition OPERATOR_REASONS :: "reason_code list" where
  "OPERATOR_REASONS =
     [R_INSECURE_SANDBOX, R_WORKSPACE_ERROR, R_INTERNAL_ERROR, R_INVALID_ARGUMENT, R_SUBMISSION_NOT_FOUND,
      R_CHALLENGE_BUILD_FAILED, R_RESOURCE_LIMIT, R_TASK_COMMITMENT_MISMATCH, R_REPOSITORY_COMMIT_MISMATCH,
      R_ENVIRONMENT_MISMATCH, R_DEPENDENCY_IDENTITY_MISMATCH, R_COMPARATOR_TOOL_CRASHED,
      R_REPOSITORY_NOT_FOUND, R_TRUSTED_FILE_MODIFIED, R_SOURCE_TYPE_CHANGED, R_INELIGIBLE_TASK,
      R_INVALID_MANIFEST, R_INVALID_TASK_MODE, R_UNSUPPORTED_DECLARATION, R_ADAPTER_REQUIRED,
      R_THEOREM_NOT_FOUND, R_CATALOG_NOT_FOUND, R_BUNDLE_TOO_LARGE, R_BUNDLE_MALFORMED,
      R_BUNDLE_POLICY_VIOLATION, R_BUNDLE_MANIFEST_INVALID, R_BUNDLE_DIGEST_MISMATCH]"

definition classify :: "reason_code \<Rightarrow> py_error + outcome" where
  "classify reason =
     (if reason \<in> set VERDICT_REASONS then Inr VERDICT
      else if reason \<in> set OPERATOR_REASONS then Inr OPERATOR
      else Inl (ValueError ''the reason is not classified''))"

text \<open>Every member of the enumeration is in exactly one of the two sets.\<close>

lemma classify_total: "classify reason = Inr (if reason \<in> set VERDICT_REASONS then VERDICT else OPERATOR)"
  by (cases reason) (simp_all add: classify_def VERDICT_REASONS_def OPERATOR_REASONS_def)

lemma classify_partition: "reason \<in> set VERDICT_REASONS \<longleftrightarrow> reason \<notin> set OPERATOR_REASONS"
  by (cases reason) (simp_all add: VERDICT_REASONS_def OPERATOR_REASONS_def)

lemma configuration_never_verdict: "reason \<in> set CONFIGURATION_REASONS \<Longrightarrow> classify reason = Inr OPERATOR"
  by (cases reason) (simp_all add: classify_def CONFIGURATION_REASONS_def VERDICT_REASONS_def OPERATOR_REASONS_def)

lemma reason_of_text [simp]: "reason_of (reason_text reason) = Some reason"
  by (cases reason) (simp_all add: reason_of_def reason_text_def reason_codes_def uc_def)

section \<open>Time budgets\<close>

definition DEFAULT_TIMEOUT_SECONDS :: int where "DEFAULT_TIMEOUT_SECONDS = 4 * 60 * 60"

definition verification_timeout_seconds :: "int \<Rightarrow> bool \<Rightarrow> int" where
  "verification_timeout_seconds declared production =
     (if production then max declared DEFAULT_TIMEOUT_SECONDS else declared)"

section \<open>Bounded capture\<close>

text \<open>
  \<open>_read_bounded\<close>: the first \<open>limit\<close> bytes of the chunks, and whether there were more.
  \<open>_drain_pipe\<close>: whole chunks are dropped from the front while the rest still fills the limit, then
  the first one is cut.
\<close>

type_synonym chunks = "nat list list"

fun read_bounded :: "nat \<Rightarrow> nat list \<Rightarrow> bool \<Rightarrow> chunks \<Rightarrow> nat list \<times> bool" where
  "read_bounded limit retained overflow [] = (retained, overflow)"
| "read_bounded limit retained overflow (chunk # rest) =
     (let remaining = int limit - int (length retained) in
      read_bounded limit (if remaining > 0 then retained @ take (nat remaining) chunk else retained)
        (overflow \<or> int (length chunk) > remaining) rest)"

fun drop_front :: "nat \<Rightarrow> chunks \<Rightarrow> nat \<Rightarrow> chunks \<times> nat" where
  "drop_front limit [] held = ([], held)"
| "drop_front limit (c # cs) held =
     (if int held - int (length c) \<ge> int limit then drop_front limit cs (held - length c) else (c # cs, held))"

definition cut_front :: "nat \<Rightarrow> chunks \<times> nat \<Rightarrow> chunks \<times> nat" where
  "cut_front limit p =
     (case p of ([], held) \<Rightarrow> ([], held)
      | (c # cs, held) \<Rightarrow> if held > limit then (drop (held - limit) c # cs, limit) else (c # cs, held))"

fun drain_pipe :: "nat option \<Rightarrow> chunks \<Rightarrow> nat \<Rightarrow> chunks \<Rightarrow> chunks" where
  "drain_pipe limit destination held [] = destination"
| "drain_pipe limit destination held (chunk # rest) =
     (let destination' = destination @ [chunk]; held' = held + length chunk in
      case limit of
        None \<Rightarrow> drain_pipe limit destination' held' rest
      | Some l \<Rightarrow> (let p = cut_front l (drop_front l destination' held') in drain_pipe limit (fst p) (snd p) rest))"

text \<open>The last \<open>k\<close> of a list.\<close>

definition last_of :: "nat \<Rightarrow> 'a list \<Rightarrow> 'a list" where
  "last_of k xs = drop (length xs - k) xs"

lemma read_bounded_spec:
  assumes "length retained \<le> limit"
  shows "read_bounded limit retained overflow chunks =
    (take limit (retained @ concat chunks), overflow \<or> limit < length retained + length (concat chunks))"
  using assms
proof (induction chunks arbitrary: retained overflow)
  case (Cons chunk rest)
  let ?r = "retained @ take (limit - length retained) chunk"
  have step: "read_bounded limit retained overflow (chunk # rest) =
      read_bounded limit ?r (overflow \<or> limit < length retained + length chunk) rest"
  proof -
    have "int limit - int (length retained) < int (length chunk) \<longleftrightarrow> limit < length retained + length chunk"
      "nat (int limit - int (length retained)) = limit - length retained" by linarith+
    then show ?thesis using Cons.prems by (simp add: Let_def)
  qed
  have "length ?r \<le> limit" using Cons.prems by simp
  from Cons.IH [OF this] show ?case unfolding step
    by (auto simp: min_def)
qed simp

lemma drop_front_spec:
  assumes "held = length (concat ds)" and "drop_front limit ds held = (es, m)"
  shows "m = length (concat es) \<and> (\<exists>fs. ds = fs @ es \<and> (fs \<noteq> [] \<longrightarrow> limit \<le> m)) \<and>
    (es \<noteq> [] \<longrightarrow> m < limit + length (hd es))"
  using assms
proof (induction limit ds held arbitrary: es m rule: drop_front.induct)
  case (2 limit c cs held)
  show ?case
  proof (cases "int held - int (length c) \<ge> int limit")
    case True
    then have *: "drop_front limit cs (held - length c) = (es, m)" using "2.prems" by simp
    have "m = length (concat es) \<and> (\<exists>fs. cs = fs @ es \<and> (fs \<noteq> [] \<longrightarrow> limit \<le> m)) \<and>
        (es \<noteq> [] \<longrightarrow> m < limit + length (hd es))"
      by (rule "2.IH" [OF True _ *]) (use "2.prems"(1) in simp)
    then obtain fs where fs: "cs = fs @ es" "fs \<noteq> [] \<longrightarrow> limit \<le> m" "m = length (concat es)"
      "es \<noteq> [] \<longrightarrow> m < limit + length (hd es)" by blast
    have "limit \<le> m" if "fs = []" using that fs True "2.prems"(1) by simp
    then show ?thesis using fs by (intro conjI exI [of _ "c # fs"]) auto
  next
    case False
    then show ?thesis using "2.prems" by auto
  qed
qed simp

lemma drained:
  assumes "cut_front limit (drop_front limit ds (length (concat ds))) = (es, m)"
  shows "concat es = last_of limit (concat ds) \<and> m = length (concat es)"
proof -
  obtain gs k where d: "drop_front limit ds (length (concat ds)) = (gs, k)"
    by (cases "drop_front limit ds (length (concat ds))")
  from drop_front_spec [OF refl d] obtain fs where
    g: "k = length (concat gs)" "ds = fs @ gs" "fs \<noteq> [] \<longrightarrow> limit \<le> k" "gs \<noteq> [] \<longrightarrow> k < limit + length (hd gs)" by blast
  show ?thesis
  proof (cases gs)
    case Nil
    then show ?thesis using assms g d by (cases fs) (auto simp: cut_front_def last_of_def)
  next
    case (Cons c cs)
    have "length (concat ds) - limit = length (concat fs) + (k - limit)"
      using g by (cases "fs = []") auto
    then have l: "last_of limit (concat ds) = drop (k - limit) (concat gs)"
      using g(2) by (simp add: last_of_def)
    show ?thesis
    proof (cases "k > limit")
      case True
      then have "es = drop (k - limit) c # cs" "m = limit"
        using assms d Cons by (auto simp: cut_front_def)
      moreover have "k - limit < length c" using g(4) True Cons by simp
      ultimately show ?thesis using l g(1) Cons True by simp
    next
      case False
      then have "es = gs" "m = k" using assms d Cons by (auto simp: cut_front_def)
      then show ?thesis using l g(1) False by simp
    qed
  qed
qed

lemma last_of_append: "last_of k (last_of k xs @ ys) = last_of k (xs @ ys)"
  by (cases "length xs \<le> k") (auto simp: last_of_def add.commute)

lemma drain_pipe_spec:
  assumes "held = length (concat destination)"
  shows "concat (drain_pipe (Some limit) destination held chunks) =
    (if chunks = [] then concat destination else last_of limit (concat destination @ concat chunks))"
  using assms
proof (induction chunks arbitrary: destination held)
  case (Cons chunk rest)
  let ?d = "destination @ [chunk]"
  obtain es m where e: "cut_front limit (drop_front limit ?d (length (concat ?d))) = (es, m)"
    by (cases "cut_front limit (drop_front limit ?d (length (concat ?d)))")
  note D = drained [OF e]
  have step: "drain_pipe (Some limit) destination held (chunk # rest) = drain_pipe (Some limit) es m rest"
    using Cons.prems e by (simp add: Let_def)
  show ?case
    unfolding step using Cons.IH [of m es] D last_of_append [of limit "concat ?d" "concat rest"] by (simp split: if_splits)
qed simp


section \<open>Why a comparator run failed\<close>

text \<open>
  What the code asks of Unicode beyond the characters of its own sources, as parameters:
  \<open>str.lower\<close>, the value of a decimal digit, and the general category.
\<close>

record unicode =
  u_lower :: "chars \<Rightarrow> chars"
  u_decimal :: "nat \<Rightarrow> nat option"
  u_category :: "nat \<Rightarrow> string"

record process_result =
  pr_exit_code :: "int option"
  pr_stdout :: chars
  pr_stderr :: chars
  pr_timed_out :: bool
  pr_signal :: "int option"

definition RESOURCE_FAILURE_MARKERS :: "chars list" where
  "RESOURCE_FAILURE_MARKERS = map uc
     [''resource exhausted'', ''resource temporarily unavailable'', ''failed to create thread'',
      ''cannot allocate memory'', ''out of memory'', ''std::bad_alloc'']"

definition KILLED_CHILD_EXIT :: int where "KILLED_CHILD_EXIT = 128 + 9"

definition stripped :: "chars \<Rightarrow> chars" where
  "stripped v = rev (dropWhile space (rev (dropWhile space v)))"

text \<open>\<open>p in v\<close>, and \<open>v.rfind(p)\<close>.\<close>

definition occurs :: "string \<Rightarrow> chars \<Rightarrow> bool" where
  "occurs p v = sublist (uc p) v"

definition rfind :: "string \<Rightarrow> chars \<Rightarrow> int" where
  "rfind p v = (let found = filter (\<lambda>i. starts (uc p) (drop i v)) [0..<Suc (length v)] in
     if found = [] then - 1 else int (last found))"

text \<open>\<open>int(digits)\<close>: the interpreter refuses more than 4300 digits.\<close>

definition MAX_STR_DIGITS :: nat where "MAX_STR_DIGITS = 4300"

definition decimal_int :: "nat list \<Rightarrow> py_error + int" where
  "decimal_int ds =
     (if MAX_STR_DIGITS < length ds then Inl (ValueError ''Exceeds the limit for integer string conversion'')
      else Inr (int (foldl (\<lambda>n d. 10 * n + d) 0 ds)))"

definition child_exit_prefix :: chars where
  "child_exit_prefix = uc ''uncaught exception: child exited with ''"

definition crashed_child_exit :: "unicode \<Rightarrow> chars \<Rightarrow> py_error + int option" where
  "crashed_child_exit unicode stderr =
     (let lines = filter (\<lambda>l. l \<noteq> []) (map stripped (splitlines (u_lower unicode stderr))) in
      if lines = [] \<or> \<not> starts child_exit_prefix (last lines) then Inr None
      else
        let digits = map (u_decimal unicode) (drop (length child_exit_prefix) (last lines)) in
        if digits = [] \<or> None \<in> set digits then Inr None
        else (case decimal_int (map the digits) of
                Inl e \<Rightarrow> Inl e
              | Inr code \<Rightarrow> Inr (if 128 \<le> code then Some code else None)))"

text \<open>The semantic reasons, read off the lower-cased output.\<close>

definition semantic_reason :: "chars \<Rightarrow> bool \<Rightarrow> reason_code" where
  "semantic_reason combined enable_nanoda =
     (if rfind ''building solution'' combined > rfind ''exporting'' combined then R_SOLUTION_BUILD_FAILED
      else if occurs ''illegal axiom'' combined \<or>
          (occurs ''axiom'' combined \<and> (occurs ''not permitted'' combined \<or> occurs ''unpermitted'' combined))
        then R_UNPERMITTED_AXIOM
      else if occurs ''different'' combined \<or> occurs ''mismatch'' combined \<or> occurs ''does not match'' combined \<or>
          occurs ''do not match'' combined \<or> occurs ''same statement'' combined then R_STATEMENT_MISMATCH
      else if enable_nanoda \<and> occurs ''nanoda'' combined then R_NANODA_REJECTED
      else if occurs ''kernel'' combined then R_LEAN_KERNEL_REJECTED
      else R_COMPARATOR_REJECTED)"

definition combined_output :: "unicode \<Rightarrow> process_result \<Rightarrow> chars" where
  "combined_output unicode r = u_lower unicode (pr_stdout r @ [newline] @ pr_stderr r)"

definition rejection_reason :: "unicode \<Rightarrow> process_result \<Rightarrow> bool \<Rightarrow> py_error + reason_code" where
  "rejection_reason unicode r enable_nanoda =
     (if pr_timed_out r then Inr R_TIMEOUT
      else
        let combined = combined_output unicode r in
        if pr_exit_code r = Some 127 \<or> occurs ''missing verification tools'' combined then Inr R_INTERNAL_ERROR
        else if pr_signal r \<noteq> None \<or> list_ex (\<lambda>m. sublist m combined) RESOURCE_FAILURE_MARKERS then Inr R_RESOURCE_LIMIT
        else
          (case crashed_child_exit unicode (pr_stderr r) of
             Inl e \<Rightarrow> Inl e
           | Inr (Some code) \<Rightarrow> Inr (if code = KILLED_CHILD_EXIT then R_RESOURCE_LIMIT else R_COMPARATOR_TOOL_CRASHED)
           | Inr None \<Rightarrow> Inr (semantic_reason combined enable_nanoda)))"

lemma rejection_never_verified: "rejection_reason unicode r n = Inr reason \<Longrightarrow> reason \<noteq> R_VERIFIED"
  by (auto simp: rejection_reason_def semantic_reason_def Let_def split: if_splits sum.splits option.splits)

section \<open>The report\<close>

datatype check_name =
    Manifest_valid | Task_commitment_valid | Production_task | Production_sandbox | Source_type_hash_valid
  | Trusted_hashes_valid | Submission_policy_valid | Challenge_built | Solution_built | Same_statement
  | Axioms_permitted | Lean_kernel_passed | Nanoda_enabled | Nanoda_passed

definition check_names :: "(string \<times> check_name) list" where
  "check_names =
     [(''manifest_valid'', Manifest_valid), (''task_commitment_valid'', Task_commitment_valid),
      (''production_task'', Production_task), (''production_sandbox'', Production_sandbox),
      (''source_type_hash_valid'', Source_type_hash_valid), (''trusted_hashes_valid'', Trusted_hashes_valid),
      (''submission_policy_valid'', Submission_policy_valid), (''challenge_built'', Challenge_built),
      (''solution_built'', Solution_built), (''same_statement'', Same_statement),
      (''axioms_permitted'', Axioms_permitted), (''lean_kernel_passed'', Lean_kernel_passed),
      (''nanoda_enabled'', Nanoda_enabled), (''nanoda_passed'', Nanoda_passed)]"

type_synonym checks = "check_name \<Rightarrow> bool"

definition DEFAULT_CHECKS :: checks where
  "DEFAULT_CHECKS = (\<lambda>_. False)"

record verification_report =
  vr_schema_version :: int
  vr_problem_id :: chars
  vr_task_id :: chars
  vr_repository_commit :: chars
  vr_source_theorem :: chars
  vr_task_mode :: chars
  vr_task_bundle_sha256 :: chars
  vr_submission_sha256 :: chars
  vr_accepted :: bool
  vr_stage :: chars
  vr_reason :: reason_code
  vr_checks :: checks
  vr_theorem_names :: "chars list"
  vr_permitted_axioms :: "chars list"
  vr_duration_ms :: int
  vr_comparator_exit_code :: "int option"
  vr_stdout_tail :: chars
  vr_stderr_tail :: chars
  vr_workspace_retained :: bool
  vr_sandbox_mode :: chars
  vr_task_timeout_seconds :: int
  vr_effective_timeout_seconds :: int

text \<open>\<open>replace("\\r\\n", "\\n").replace("\\r", "\\n")\<close>, and the tail a report keeps.\<close>

fun normalized :: "chars \<Rightarrow> chars" where
  "normalized [] = []"
| "normalized (c # cs) =
     (if c = return then newline # normalized (if starts [newline] cs then tl cs else cs) else c # normalized cs)"

definition tail :: "chars \<Rightarrow> chars" where
  "tail v = last_of 4000 (normalized v)"

lemma tail_bound: "length (tail v) \<le> 4000"
  by (simp add: tail_def last_of_def)

section \<open>Values of a report that crossed the boundary\<close>

text \<open>
  A parsed JSON value.  A number that is no integer is its value, \<open>None\<close> for nan and the infinities;
  the keys of an object are distinct, the last of repeated keys being the one that is kept.
\<close>

datatype jvalue =
    J_Null | J_Bool bool | J_Int int | J_Float "rat option" | J_Text chars | J_List "jvalue list"
  | J_Object "(chars \<times> jvalue) list"

fun json_truthy :: "jvalue \<Rightarrow> bool" where
  "json_truthy J_Null = False"
| "json_truthy (J_Bool b) = b"
| "json_truthy (J_Int n) = (n \<noteq> 0)"
| "json_truthy (J_Float x) = (x \<noteq> Some 0)"
| "json_truthy (J_Text v) = (v \<noteq> [])"
| "json_truthy (J_List vs) = (vs \<noteq> [])"
| "json_truthy (J_Object kvs) = (kvs \<noteq> [])"

definition is_text :: "jvalue \<Rightarrow> bool" where "is_text v = (case v of J_Text _ \<Rightarrow> True | _ \<Rightarrow> False)"
definition is_bool :: "jvalue \<Rightarrow> bool" where "is_bool v = (case v of J_Bool _ \<Rightarrow> True | _ \<Rightarrow> False)"

type_synonym jobject = "(chars \<times> jvalue) list"

definition field :: "string \<Rightarrow> jobject \<Rightarrow> jvalue" where
  "field k report = (case map_of report (uc k) of Some v \<Rightarrow> v | None \<Rightarrow> J_Null)"

definition has_field :: "jobject \<Rightarrow> string \<Rightarrow> bool" where
  "has_field report k = (uc k \<in> fst ` set report)"

definition checks_json :: "checks \<Rightarrow> jvalue" where
  "checks_json checks = J_Object (map (\<lambda>(k, c). (uc k, J_Bool (checks c))) check_names)"

text \<open>\<open>VerificationReport.to_dict\<close>.\<close>

definition report_json :: "verification_report \<Rightarrow> jobject" where
  "report_json r =
     [(uc ''schema_version'', J_Int (vr_schema_version r)), (uc ''problem_id'', J_Text (vr_problem_id r)),
      (uc ''task_id'', J_Text (vr_task_id r)), (uc ''repository_commit'', J_Text (vr_repository_commit r)),
      (uc ''source_theorem'', J_Text (vr_source_theorem r)), (uc ''task_mode'', J_Text (vr_task_mode r)),
      (uc ''task_bundle_sha256'', J_Text (vr_task_bundle_sha256 r)),
      (uc ''submission_sha256'', J_Text (vr_submission_sha256 r)), (uc ''accepted'', J_Bool (vr_accepted r)),
      (uc ''stage'', J_Text (vr_stage r)), (uc ''reason_code'', J_Text (reason_text (vr_reason r))),
      (uc ''checks'', checks_json (vr_checks r)), (uc ''theorem_names'', J_List (map J_Text (vr_theorem_names r))),
      (uc ''permitted_axioms'', J_List (map J_Text (vr_permitted_axioms r))),
      (uc ''duration_ms'', J_Int (vr_duration_ms r)),
      (uc ''comparator_exit_code'', case vr_comparator_exit_code r of None \<Rightarrow> J_Null | Some n \<Rightarrow> J_Int n),
      (uc ''stdout_tail'', J_Text (vr_stdout_tail r)), (uc ''stderr_tail'', J_Text (vr_stderr_tail r)),
      (uc ''workspace_retained'', J_Bool (vr_workspace_retained r)), (uc ''sandbox_mode'', J_Text (vr_sandbox_mode r)),
      (uc ''task_timeout_seconds'', J_Int (vr_task_timeout_seconds r)),
      (uc ''effective_timeout_seconds'', J_Int (vr_effective_timeout_seconds r))]"


section \<open>The worker's side of the boundary\<close>

text \<open>
  A refusal of a report is its message, without the details the source interpolates.  The tests of
  \<open>assert_production_report\<close> are the pairs of a fault and its message, in the source's order.
\<close>

definition REPORT_KEYS :: "string list" where
  "REPORT_KEYS = [''accepted'', ''reason_code'', ''stage'', ''checks'', ''sandbox_mode'']"

definition FULL_REPORT_KEYS :: "string list" where
  "FULL_REPORT_KEYS =
     [''schema_version'', ''problem_id'', ''task_id'', ''repository_commit'', ''source_theorem'', ''task_mode'',
      ''task_bundle_sha256'', ''submission_sha256'', ''accepted'', ''stage'', ''reason_code'', ''checks'',
      ''theorem_names'', ''permitted_axioms'', ''duration_ms'', ''comparator_exit_code'', ''stdout_tail'',
      ''stderr_tail'', ''workspace_retained'', ''sandbox_mode'']"

definition TIMEOUT_REPORT_KEYS :: "string list" where
  "TIMEOUT_REPORT_KEYS = [''task_timeout_seconds'', ''effective_timeout_seconds'']"

definition PRODUCTION_SANDBOX_MODE :: chars where "PRODUCTION_SANDBOX_MODE = uc ''landrun+seccomp''"

definition PRODUCTION_ACCEPTANCE_CHECKS :: "string list" where
  "PRODUCTION_ACCEPTANCE_CHECKS = filter (\<lambda>k. k \<noteq> ''nanoda_enabled'' \<and> k \<noteq> ''nanoda_passed'') (map fst check_names)"

definition first_fault :: "(bool \<times> string) list \<Rightarrow> string + unit" where
  "first_fault tests = (case first_such fst tests of Some (_, message) \<Rightarrow> Inl message | None \<Rightarrow> Inr ())"

lemma first_fault_ok: "first_fault tests = Inr () \<longleftrightarrow> (\<forall>t \<in> set tests. \<not> fst t)"
  by (induction tests) (auto simp: first_fault_def split: prod.splits option.splits)

definition strict_checks :: "jvalue \<Rightarrow> bool" where
  "strict_checks v = (case v of J_Object kvs \<Rightarrow> list_all (\<lambda>(k, c). is_bool c) kvs | _ \<Rightarrow> False)"

definition nonempty_text :: "jvalue \<Rightarrow> bool" where
  "nonempty_text v = (is_text v \<and> json_truthy v)"

definition report_from :: "('b \<Rightarrow> jvalue option) \<Rightarrow> 'b \<Rightarrow> string + jobject" where
  "report_from json_loads payload =
     (case json_loads payload of
        Some (J_Object report) \<Rightarrow>
          (case first_fault
             [(list_ex (\<lambda>k. \<not> has_field report k) REPORT_KEYS, ''verifier returned an error rather than a report''),
              (\<not> is_bool (field ''accepted'' report), ''verifier report accepted must be a JSON boolean''),
              (\<not> nonempty_text (field ''reason_code'' report), ''verifier report reason_code must be a non-empty string''),
              (\<not> nonempty_text (field ''stage'' report), ''verifier report stage must be a non-empty string''),
              (\<not> nonempty_text (field ''sandbox_mode'' report), ''verifier report sandbox_mode must be a non-empty string''),
              (\<not> strict_checks (field ''checks'' report), ''verifier report checks must map strings to JSON booleans'')] of
             Inl e \<Rightarrow> Inl e | Inr () \<Rightarrow> Inr report)
      | Some _ \<Rightarrow> Inl ''verifier report is not a JSON object''
      | None \<Rightarrow> Inl ''verifier produced no JSON report'')"

definition int_field :: "string \<Rightarrow> jobject \<Rightarrow> int option" where
  "int_field k report = (case field k report of J_Int n \<Rightarrow> Some n | _ \<Rightarrow> None)"

definition positive :: "int option \<Rightarrow> bool" where
  "positive n = (case n of Some m \<Rightarrow> 0 < m | None \<Rightarrow> False)"

definition text_array :: "jvalue \<Rightarrow> bool" where
  "text_array v = (case v of J_List vs \<Rightarrow> list_all is_text vs | _ \<Rightarrow> False)"

definition bounded_text :: "jvalue \<Rightarrow> bool" where
  "bounded_text v = (case v of J_Text t \<Rightarrow> length t \<le> 4000 | _ \<Rightarrow> False)"

definition report_checks :: "jobject \<Rightarrow> jobject" where
  "report_checks report = (case field ''checks'' report of J_Object kvs \<Rightarrow> kvs | _ \<Rightarrow> [])"

definition timeout_faults :: "jobject \<Rightarrow> (bool \<times> string) list" where
  "timeout_faults report =
     (if list_ex (has_field report) TIMEOUT_REPORT_KEYS then
        [(\<not> list_all (has_field report) TIMEOUT_REPORT_KEYS, ''production verifier report must include both timeout budgets''),
         (\<not> list_all (\<lambda>k. positive (int_field k report)) TIMEOUT_REPORT_KEYS, ''production verifier report budgets must be positive integers''),
         (the (int_field ''effective_timeout_seconds'' report) < the (int_field ''task_timeout_seconds'' report),
            ''effective timeout cannot shorten the committed task budget'')]
      else [])"

definition acceptance_faults :: "jobject \<Rightarrow> (bool \<times> string) list" where
  "acceptance_faults report =
     (if field ''accepted'' report = J_Bool True then
        [(field ''reason_code'' report \<noteq> J_Text (uc ''VERIFIED'') \<or> field ''stage'' report \<noteq> J_Text (uc ''COMPLETED''),
            ''accepted verifier report has an inconsistent verdict or stage''),
         (field ''comparator_exit_code'' report \<noteq> J_Int 0, ''accepted verifier report has a nonzero comparator exit code''),
         (field ''sandbox_mode'' report \<noteq> J_Text PRODUCTION_SANDBOX_MODE,
            ''accepted verifier report was not produced by the production sandbox''),
         (list_ex (\<lambda>k. field k (report_checks report) \<noteq> J_Bool True) PRODUCTION_ACCEPTANCE_CHECKS \<or>
          (field ''nanoda_enabled'' (report_checks report) = J_Bool True \<and>
           field ''nanoda_passed'' (report_checks report) \<noteq> J_Bool True),
            ''accepted verifier report has failed production checks'')]
      else [(field ''reason_code'' report = J_Text (uc ''VERIFIED''), ''rejected verifier report cannot carry reason_code VERIFIED'')])"

definition production_faults ::
  "jobject \<Rightarrow> chars \<Rightarrow> chars \<Rightarrow> chars \<Rightarrow> bool \<Rightarrow> (bool \<times> string) list" where
  "production_faults report expected_task_id expected_task_sha256 expected_submission_sha256 expected_nanoda_enabled =
     [(\<not> list_all (has_field report) FULL_REPORT_KEYS, ''production verifier report is missing fields''),
      (\<not> (fst ` set report \<subseteq> uc ` set (FULL_REPORT_KEYS @ TIMEOUT_REPORT_KEYS)), ''production verifier report has unexpected fields''),
      (int_field ''schema_version'' report \<noteq> Some 2, ''production verifier report schema_version must be 2''),
      (\<not> is_bool (field ''accepted'' report), ''production verifier report accepted must be a JSON boolean''),
      (\<not> nonempty_text (field ''reason_code'' report), ''production verifier report reason_code must be a non-empty string''),
      (\<not> nonempty_text (field ''stage'' report), ''production verifier report stage must be a non-empty string''),
      (\<not> nonempty_text (field ''sandbox_mode'' report), ''production verifier report sandbox_mode must be a non-empty string''),
      (case int_field ''duration_ms'' report of None \<Rightarrow> True | Some n \<Rightarrow> n < 0,
         ''production verifier report duration_ms must be a nonnegative integer'')] @
     timeout_faults report @
     [(field ''comparator_exit_code'' report \<noteq> J_Null \<and> int_field ''comparator_exit_code'' report = None,
         ''production verifier comparator_exit_code must be an integer or null''),
      (\<not> (bounded_text (field ''stdout_tail'' report) \<and> bounded_text (field ''stderr_tail'' report)),
         ''production verifier report tail is not a bounded string''),
      (\<not> (text_array (field ''theorem_names'' report) \<and> text_array (field ''permitted_axioms'' report)),
         ''production verifier report list must be a string array''),
      (field ''task_id'' report \<noteq> J_Text expected_task_id, ''verifier report task_id does not match the claimed submission''),
      (field ''task_bundle_sha256'' report \<noteq> J_Text expected_task_sha256,
         ''verifier report task digest does not match the claimed submission''),
      (field ''submission_sha256'' report \<noteq> J_Text expected_submission_sha256 \<and>
         (json_truthy (field ''accepted'' report) \<or> json_truthy (field ''submission_sha256'' report)),
         ''verifier report proof digest does not match the stored proof''),
      (field ''workspace_retained'' report \<noteq> J_Bool False, ''production verifier report says the hostile workspace was retained''),
      (\<not> strict_checks (field ''checks'' report), ''production verifier report checks must be strict JSON booleans''),
      (fst ` set (report_checks report) \<noteq> (\<lambda>(k, c). uc k) ` set check_names,
         ''production verifier report check set does not match schema version 2''),
      (field ''nanoda_enabled'' (report_checks report) \<noteq> J_Bool expected_nanoda_enabled,
         ''verifier report Nanoda policy does not match the committed task'')] @
     acceptance_faults report"

definition assert_production_report ::
  "jobject \<Rightarrow> chars \<Rightarrow> chars \<Rightarrow> chars \<Rightarrow> bool \<Rightarrow> string + unit" where
  "assert_production_report report expected_task_id expected_task_sha256 expected_submission_sha256 expected_nanoda_enabled =
     first_fault (production_faults report expected_task_id expected_task_sha256 expected_submission_sha256
       expected_nanoda_enabled)"

section \<open>A report as the worker reads it\<close>

named_theorems report_fields "the fields of a report that was written out"

lemma report_json_fields [report_fields]:
  "field ''schema_version'' (report_json r) = J_Int (vr_schema_version r)"
  "field ''task_id'' (report_json r) = J_Text (vr_task_id r)"
  "field ''task_bundle_sha256'' (report_json r) = J_Text (vr_task_bundle_sha256 r)"
  "field ''submission_sha256'' (report_json r) = J_Text (vr_submission_sha256 r)"
  "field ''accepted'' (report_json r) = J_Bool (vr_accepted r)"
  "field ''stage'' (report_json r) = J_Text (vr_stage r)"
  "field ''reason_code'' (report_json r) = J_Text (reason_text (vr_reason r))"
  "field ''checks'' (report_json r) = checks_json (vr_checks r)"
  "field ''theorem_names'' (report_json r) = J_List (map J_Text (vr_theorem_names r))"
  "field ''permitted_axioms'' (report_json r) = J_List (map J_Text (vr_permitted_axioms r))"
  "field ''duration_ms'' (report_json r) = J_Int (vr_duration_ms r)"
  "field ''comparator_exit_code'' (report_json r) = (case vr_comparator_exit_code r of None \<Rightarrow> J_Null | Some n \<Rightarrow> J_Int n)"
  "field ''stdout_tail'' (report_json r) = J_Text (vr_stdout_tail r)"
  "field ''stderr_tail'' (report_json r) = J_Text (vr_stderr_tail r)"
  "field ''workspace_retained'' (report_json r) = J_Bool (vr_workspace_retained r)"
  "field ''sandbox_mode'' (report_json r) = J_Text (vr_sandbox_mode r)"
  "field ''task_timeout_seconds'' (report_json r) = J_Int (vr_task_timeout_seconds r)"
  "field ''effective_timeout_seconds'' (report_json r) = J_Int (vr_effective_timeout_seconds r)"
  by (simp_all add: field_def report_json_def uc_def)

lemma report_json_keys [report_fields]:
  "fst ` set (report_json r) = uc ` set (FULL_REPORT_KEYS @ TIMEOUT_REPORT_KEYS)"
proof -
  have "map fst (report_json r) = map uc (FULL_REPORT_KEYS @ TIMEOUT_REPORT_KEYS)"
    by (simp add: report_json_def FULL_REPORT_KEYS_def TIMEOUT_REPORT_KEYS_def)
  then show ?thesis by (metis set_map)
qed

lemma report_checks_json [report_fields]:
  "report_checks (report_json r) = map (\<lambda>(k, c). (uc k, J_Bool (vr_checks r c))) check_names"
  by (simp add: report_checks_def report_fields checks_json_def)

lemma checks_json_field:
  assumes "(k, c) \<in> set check_names"
  shows "field k (map (\<lambda>(k, c). (uc k, J_Bool (f c))) check_names) = J_Bool (f c)"
proof -
  let ?kvs = "map (\<lambda>(k, c). (uc k, J_Bool (f c))) check_names"
  have "distinct (map fst ?kvs)" by (simp add: check_names_def uc_def)
  moreover have "(uc k, J_Bool (f c)) \<in> set ?kvs" using assms by force
  ultimately show ?thesis by (simp add: field_def map_of_is_SomeI)
qed


definition all_passed :: "checks \<Rightarrow> bool" where
  "all_passed f = (\<forall>c. c \<noteq> Nanoda_enabled \<and> c \<noteq> Nanoda_passed \<longrightarrow> f c)"

text \<open>What a report has to satisfy to be acted on in production, as conditions on the report itself.\<close>

definition actionable :: "verification_report \<Rightarrow> chars \<Rightarrow> chars \<Rightarrow> chars \<Rightarrow> bool \<Rightarrow> bool" where
  "actionable r task_id task_sha256 submission_sha256 nanoda \<longleftrightarrow>
     vr_schema_version r = 2 \<and> 0 \<le> vr_duration_ms r \<and> vr_stage r \<noteq> [] \<and> vr_sandbox_mode r \<noteq> [] \<and>
     length (vr_stdout_tail r) \<le> 4000 \<and> length (vr_stderr_tail r) \<le> 4000 \<and>
     0 < vr_task_timeout_seconds r \<and> vr_task_timeout_seconds r \<le> vr_effective_timeout_seconds r \<and>
     vr_task_id r = task_id \<and> vr_task_bundle_sha256 r = task_sha256 \<and>
     (vr_submission_sha256 r = submission_sha256 \<or> (\<not> vr_accepted r \<and> vr_submission_sha256 r = [])) \<and>
     \<not> vr_workspace_retained r \<and> vr_checks r Nanoda_enabled = nanoda \<and>
     (if vr_accepted r then
        vr_reason r = R_VERIFIED \<and> vr_stage r = uc ''COMPLETED'' \<and> vr_comparator_exit_code r = Some 0 \<and>
        vr_sandbox_mode r = PRODUCTION_SANDBOX_MODE \<and>
        all_passed (vr_checks r) \<and>
        (nanoda \<longrightarrow> vr_checks r Nanoda_passed)
      else vr_reason r \<noteq> R_VERIFIED)"

lemma reason_text_inj: "reason_text a = reason_text b \<longleftrightarrow> a = b"
  by (metis option.inject reason_of_text)

lemma reason_text_verified [simp]: "reason_text r = uc ''VERIFIED'' \<longleftrightarrow> r = R_VERIFIED"
  using reason_text_inj [of r R_VERIFIED] by (simp add: reason_text_def reason_codes_def uc_def)

lemma reason_text_nonempty [simp]: "reason_text r \<noteq> []"
  by (cases r) (simp_all add: reason_text_def reason_codes_def uc_def)

lemma filtered_keys: "(\<exists>k \<in> set (filter p (map fst xs)). q k) \<longleftrightarrow> (\<exists>(k, c) \<in> set xs. p k \<and> q k)"
  by force

lemma acceptance_checks_json:
  "list_ex (\<lambda>k. field k (map (\<lambda>(k, c). (uc k, J_Bool (f c))) check_names) \<noteq> J_Bool True) PRODUCTION_ACCEPTANCE_CHECKS \<longleftrightarrow>
   \<not> all_passed f"
proof -
  let ?kvs = "map (\<lambda>(k, c). (uc k, J_Bool (f c))) check_names"
  have "list_ex (\<lambda>k. field k ?kvs \<noteq> J_Bool True) PRODUCTION_ACCEPTANCE_CHECKS \<longleftrightarrow>
      (\<exists>(k, c) \<in> set check_names. k \<noteq> ''nanoda_enabled'' \<and> k \<noteq> ''nanoda_passed'' \<and> field k ?kvs \<noteq> J_Bool True)"
    unfolding list_ex_iff PRODUCTION_ACCEPTANCE_CHECKS_def filtered_keys by simp
  also have "\<dots> \<longleftrightarrow> (\<exists>(k, c) \<in> set check_names. k \<noteq> ''nanoda_enabled'' \<and> k \<noteq> ''nanoda_passed'' \<and> \<not> f c)"
    by (rule bex_cong) (auto simp: checks_json_field)
  also have "\<dots> \<longleftrightarrow> (\<exists>c. c \<noteq> Nanoda_enabled \<and> c \<noteq> Nanoda_passed \<and> \<not> f c)"
  proof
    assume "\<exists>c. c \<noteq> Nanoda_enabled \<and> c \<noteq> Nanoda_passed \<and> \<not> f c"
    then obtain c where c: "c \<noteq> Nanoda_enabled" "c \<noteq> Nanoda_passed" "\<not> f c" by blast
    then show "\<exists>(k, c) \<in> set check_names. k \<noteq> ''nanoda_enabled'' \<and> k \<noteq> ''nanoda_passed'' \<and> \<not> f c"
      by (cases c) (simp_all add: check_names_def)
  qed (auto simp: check_names_def)
  finally show ?thesis by (simp add: all_passed_def)
qed

lemma report_json_meets:
  "list_all (has_field (report_json r)) FULL_REPORT_KEYS" "list_all (has_field (report_json r)) TIMEOUT_REPORT_KEYS"
  "list_ex (has_field (report_json r)) TIMEOUT_REPORT_KEYS"
  "fst ` set (report_json r) \<subseteq> uc ` set (FULL_REPORT_KEYS @ TIMEOUT_REPORT_KEYS)"
  "fst ` set (report_checks (report_json r)) = (\<lambda>(k, c). uc k) ` set check_names"
  "strict_checks (field ''checks'' (report_json r))"
proof -
  show "list_all (has_field (report_json r)) FULL_REPORT_KEYS" "list_all (has_field (report_json r)) TIMEOUT_REPORT_KEYS"
    by (auto simp: has_field_def report_json_keys list_all_iff)
  then show "list_ex (has_field (report_json r)) TIMEOUT_REPORT_KEYS" by (simp add: TIMEOUT_REPORT_KEYS_def)
  show "fst ` set (report_json r) \<subseteq> uc ` set (FULL_REPORT_KEYS @ TIMEOUT_REPORT_KEYS)" by (simp add: report_json_keys)
  show "fst ` set (report_checks (report_json r)) = (\<lambda>(k, c). uc k) ` set check_names"
    by (force simp: report_checks_json)
  show "strict_checks (field ''checks'' (report_json r))"
    by (auto simp: report_json_fields checks_json_def strict_checks_def list_all_iff is_bool_def)
qed

text \<open>The worker acts on a written-out report exactly when it is actionable.\<close>

lemma assert_production_report_iff:
  "assert_production_report (report_json r) task_id task_sha256 submission_sha256 nanoda = Inr () \<longleftrightarrow>
   actionable r task_id task_sha256 submission_sha256 nanoda"
proof -
  have n: "field ''nanoda_enabled'' (report_checks (report_json r)) = J_Bool (vr_checks r Nanoda_enabled)"
    "field ''nanoda_passed'' (report_checks (report_json r)) = J_Bool (vr_checks r Nanoda_passed)"
    unfolding report_checks_json by (rule checks_json_field; simp add: check_names_def)+
  have t: "timeout_faults (report_json r) =
    [(False, ''production verifier report must include both timeout budgets''),
     (\<not> (0 < vr_task_timeout_seconds r \<and> 0 < vr_effective_timeout_seconds r), ''production verifier report budgets must be positive integers''),
     (vr_effective_timeout_seconds r < vr_task_timeout_seconds r, ''effective timeout cannot shorten the committed task budget'')]"
    by (simp add: timeout_faults_def report_json_meets)
       (simp add: TIMEOUT_REPORT_KEYS_def int_field_def report_json_fields positive_def)
  have a: "(\<forall>t \<in> set (acceptance_faults (report_json r)). \<not> fst t) \<longleftrightarrow>
    (if vr_accepted r then vr_reason r = R_VERIFIED \<and> vr_stage r = uc ''COMPLETED'' \<and> vr_comparator_exit_code r = Some 0 \<and>
        vr_sandbox_mode r = PRODUCTION_SANDBOX_MODE \<and> all_passed (vr_checks r) \<and>
        (vr_checks r Nanoda_enabled \<longrightarrow> vr_checks r Nanoda_passed)
     else vr_reason r \<noteq> R_VERIFIED)"
    unfolding acceptance_faults_def n unfolding report_json_fields report_checks_json acceptance_checks_json
    by (cases "vr_accepted r"; cases "vr_comparator_exit_code r") simp_all
  have lt: "list_all is_text (map J_Text vs)" for vs by (simp add: list_all_iff is_text_def)
  note m = report_json_meets(1,5) report_json_meets(4) [unfolded set_append] report_json_meets(6) [unfolded report_json_fields]
  show ?thesis
    unfolding assert_production_report_def first_fault_ok production_faults_def actionable_def
    by (cases "vr_comparator_exit_code r")
      (simp_all add: ball_Un a t n m lt report_json_fields int_field_def is_bool_def is_text_def nonempty_text_def
        bounded_text_def text_array_def, (auto simp del: not_less)+)
qed


section \<open>Properties\<close>



text \<open>
  C32. The two bounded captures of a child's output are exact, however the output comes in chunks: the
  worker keeps the first bytes and knows whether there were more, the verifier keeps the last ones.
\<close>

theorem captures_exact:
  "read_bounded limit [] False chunks = (take limit (concat chunks), limit < length (concat chunks)) \<and>
   concat (drain_pipe (Some limit) [] 0 chunks) = last_of limit (concat chunks)"
  using read_bounded_spec [of "[]" limit False chunks] drain_pipe_spec [of 0 "[]" limit chunks]
  by (auto simp: last_of_def)

end
