(* ===== verification/Verification.thy ===== *)
theory Verification
  imports Verdicts "HOL-Library.List_Lexorder"
begin

text \<open>
  One verification, \<open>verifier/verification.py\<close>: the stages of \<open>verify\<close> in the source's order, each
  either ending it with a report or handing on what it established.  What the machine answers (the
  pins, the files, Lean and the comparator, the clock) is the record \<open>host\<close>; the reading of a proof
  (\<open>verifier/submission.py\<close>), the choice and the tests of the isolation tools
  (\<open>verifier/comparator.py\<close>), the scan of the proof, the checks, the reason of a failed run and the
  report are the source's.  Also the problem identity a report names (\<open>verifier/task_generator.py\<close>).
\<close>

section \<open>Identities\<close>

text \<open>\<open>sha\<close> is \<open>sha256_text\<close>: \<open>sha256:\<close> and the digest of a text's UTF-8 form in hexadecimal.\<close>

definition slice :: "nat \<Rightarrow> nat \<Rightarrow> 'a list \<Rightarrow> 'a list" where
  "slice i j xs = drop i (take j xs)"

fun join :: "chars \<Rightarrow> chars list \<Rightarrow> chars" where
  "join sep [] = []"
| "join sep [v] = v"
| "join sep (v # vs) = v @ sep @ join sep vs"

text \<open>\<open>theorem.split(".")\<close>.\<close>

fun split_dots :: "chars \<Rightarrow> chars list" where
  "split_dots [] = [[]]"
| "split_dots (c # cs) =
     (if c = dot then [] # split_dots cs
      else (case split_dots cs of v # vs \<Rightarrow> (c # v) # vs | [] \<Rightarrow> [[c]]))"

definition slug_char :: "nat \<Rightarrow> bool" where
  "slug_char c = (97 \<le> c \<and> c \<le> 122 \<or> ascii_digit c)"

text \<open>\<open>re.sub(r"[^a-z0-9]+", "-", v)\<close>, and \<open>strip("-")\<close>.\<close>

fun dashed :: "bool \<Rightarrow> chars \<Rightarrow> chars" where
  "dashed after_gap [] = []"
| "dashed after_gap (c # cs) =
     (if slug_char c then c # dashed False cs else if after_gap then dashed True cs else dash # dashed True cs)"

definition rstrip_dashes :: "chars \<Rightarrow> chars" where
  "rstrip_dashes v = rev (dropWhile (\<lambda>c. c = dash) (rev v))"

definition strip_dashes :: "chars \<Rightarrow> chars" where
  "strip_dashes v = rstrip_dashes (dropWhile (\<lambda>c. c = dash) v)"

definition task_slug :: "unicode \<Rightarrow> (chars \<Rightarrow> chars) \<Rightarrow> chars \<Rightarrow> chars" where
  "task_slug unicode sha thm_name =
     (let segments = last_of 2 (split_dots thm_name);
          joined = join [dash] (map (\<lambda>s. strip_dashes (dashed False (u_lower unicode s))) segments);
          shortened = rstrip_dashes (take 80 joined)
      in if shortened = [] then slice 7 19 (sha thm_name) else shortened)"

definition problem_id :: "unicode \<Rightarrow> (chars \<Rightarrow> chars) \<Rightarrow> chars \<Rightarrow> chars list \<Rightarrow> py_error + chars" where
  "problem_id unicode sha commit theorems =
     (if theorems = [] then Inl (ValueError ''a problem identity requires at least one source theorem'')
      else
        let seed = commit @ [0] @ uc ''problem'' @ [0] @ join [0] theorems;
            suffix = (if 1 < length theorems then uc ''-all-'' @ uc (digits_of (length theorems)) else [])
        in Inr (uc ''fc-'' @ take 8 commit @ [dash] @ task_slug unicode sha (hd theorems) @ suffix @ [dash] @
             slice 7 39 (sha seed) @ uc ''-problem''))"

section \<open>A task and a proof\<close>

definition EXACT_TASK_MODE :: chars where "EXACT_TASK_MODE = uc ''formalized''"
definition COUNTEREXAMPLE_TASK_MODE :: chars where "COUNTEREXAMPLE_TASK_MODE = uc ''counterexample''"

definition is_production_task_mode :: "chars \<Rightarrow> bool" where
  "is_production_task_mode mode = (mode = EXACT_TASK_MODE \<or> mode = COUNTEREXAMPLE_TASK_MODE)"

text \<open>The fields of a \<open>TaskManifest\<close> that a verification reads.\<close>

record task_manifest =
  tm_schema_version :: int
  tm_task_id :: chars
  tm_repository_commit :: "chars option"
  tm_source_theorem :: chars
  tm_source_type_hash :: chars
  tm_generated_target_type_hash :: chars
  tm_task_mode :: chars
  tm_theorem_names :: "chars list"
  tm_forbidden_dependencies :: "chars list"
  tm_permitted_axioms :: "chars list"
  tm_enable_nanoda :: bool
  tm_timeout_seconds :: int
  tm_max_submission_bytes :: nat
  tm_production_eligible :: bool
  tm_answer_policy :: answer_policy
  tm_environment_identity :: "chars option"

definition V2_TASK_MANIFEST_SCHEMA :: int where "V2_TASK_MANIFEST_SCHEMA = 3"

text \<open>\<open>manifest.provenance == V2_PROVENANCE\<close>.\<close>

definition is_v2 :: "task_manifest \<Rightarrow> bool" where
  "is_v2 m = (tm_schema_version m = V2_TASK_MANIFEST_SCHEMA)"

definition scan_part :: "task_manifest \<Rightarrow> scan_manifest" where
  "scan_part m = \<lparr>theorem_names = tm_theorem_names m, forbidden_dependencies = tm_forbidden_dependencies m,
     answer_policy = tm_answer_policy m\<rparr>"

record source =
  src_type_hash :: chars
  src_transitive_axioms :: "chars list"

record task_bundle =
  tb_sha256 :: chars
  tb_manifest :: task_manifest
  tb_sources :: "source list"

text \<open>The file a proof is read from, and the verifier's own error.\<close>

type_synonym verifier_error = "reason_code \<times> chars"

record proof_file =
  pf_lean_suffix :: bool
  pf_exists :: bool
  pf_regular :: bool
  pf_opens :: bool
  pf_still_regular :: bool
  pf_raw :: "nat list"

record proof_text =
  pt_text :: chars
  pt_sha256 :: chars

definition load_submission_bytes ::
  "(nat list \<Rightarrow> chars) \<Rightarrow> (nat list \<Rightarrow> chars option) \<Rightarrow> nat list \<Rightarrow> nat \<Rightarrow> verifier_error + proof_text" where
  "load_submission_bytes sha_bytes utf8 raw max_bytes =
     (if max_bytes < length raw then Inl (R_SUBMISSION_TOO_LARGE, uc ''submission exceeds the maximum'')
      else if 0 \<in> set raw then Inl (R_SUBMISSION_POLICY_VIOLATION, uc ''submission contains a NUL byte'')
      else (case utf8 raw of
              None \<Rightarrow> Inl (R_SUBMISSION_NOT_UTF8, uc ''submission is not valid UTF-8'')
            | Some v \<Rightarrow> Inr \<lparr>pt_text = v, pt_sha256 = sha_bytes raw\<rparr>))"

definition load_submission ::
  "(nat list \<Rightarrow> chars) \<Rightarrow> (nat list \<Rightarrow> chars option) \<Rightarrow> proof_file \<Rightarrow> nat \<Rightarrow> verifier_error + proof_text" where
  "load_submission sha_bytes utf8 f max_bytes =
     (if \<not> pf_lean_suffix f then Inl (R_SUBMISSION_POLICY_VIOLATION, uc ''submission must be one .lean source file'')
      else if \<not> pf_exists f then Inl (R_SUBMISSION_NOT_FOUND, uc ''submission not found'')
      else if \<not> pf_regular f then Inl (R_SUBMISSION_POLICY_VIOLATION, uc ''submission must be one regular file, not a symlink'')
      else if \<not> pf_opens f then Inl (R_SUBMISSION_NOT_FOUND, uc ''cannot open submission safely'')
      else if \<not> pf_still_regular f then Inl (R_SUBMISSION_POLICY_VIOLATION, uc ''submission changed while opening'')
      else load_submission_bytes sha_bytes utf8 (take (max_bytes + 1) (pf_raw f)) max_bytes)"

section \<open>Isolation tools\<close>

datatype tool = Comparator | Exporter | Hardened_landrun | Fake_landrun | Seccomp_launcher | Nanoda

record comparator_tools =
  ct_landrun :: tool
  ct_seccomp_launcher :: "tool option"
  ct_nanoda :: "tool option"
  ct_sandbox_mode :: chars

definition DEVELOPMENT_SANDBOX_MODE :: chars where "DEVELOPMENT_SANDBOX_MODE = uc ''development-fake-landrun''"

text \<open>What the machine says of its tools: \<open>executable\<close> is \<open>_safe_executable\<close> of the tool's path.\<close>

record platform =
  on_linux :: bool
  unprivileged :: bool
  executable :: "tool \<Rightarrow> bool"
  nanoda_built :: bool
  landlock_probe :: bool
  behaviour_probe :: bool

definition resolve_tools :: "platform \<Rightarrow> bool \<Rightarrow> comparator_tools" where
  "resolve_tools p insecure_development =
     (if on_linux p \<and> \<not> insecure_development then
        \<lparr>ct_landrun = Hardened_landrun, ct_seccomp_launcher = Some Seccomp_launcher,
         ct_nanoda = (if nanoda_built p then Some Nanoda else None), ct_sandbox_mode = PRODUCTION_SANDBOX_MODE\<rparr>
      else
        \<lparr>ct_landrun = Fake_landrun, ct_seccomp_launcher = None,
         ct_nanoda = (if nanoda_built p then Some Nanoda else None), ct_sandbox_mode = DEVELOPMENT_SANDBOX_MODE\<rparr>)"

definition safe_executable :: "platform \<Rightarrow> tool option \<Rightarrow> bool" where
  "safe_executable p t = (case t of None \<Rightarrow> False | Some t \<Rightarrow> executable p t)"

definition missing_tools :: "platform \<Rightarrow> comparator_tools \<Rightarrow> bool \<Rightarrow> string list" where
  "missing_tools p tools enable_nanoda =
     map fst (filter (\<lambda>(name, t). \<not> safe_executable p t)
       ([(''comparator'', Some Comparator), (''lean4export'', Some Exporter), (''landrun'', Some (ct_landrun tools))] @
        (if ct_sandbox_mode tools = PRODUCTION_SANDBOX_MODE then [(''seccomp_launcher'', ct_seccomp_launcher tools)] else []) @
        (if enable_nanoda then [(''nanoda'', ct_nanoda tools)] else [])))"

definition sandbox_self_test :: "platform \<Rightarrow> comparator_tools \<Rightarrow> bool" where
  "sandbox_self_test p tools = (on_linux p \<and> safe_executable p (ct_seccomp_launcher tools) \<and> behaviour_probe p)"

definition landlock_available :: "platform \<Rightarrow> comparator_tools \<Rightarrow> bool" where
  "landlock_available p tools = (on_linux p \<and> safe_executable p (ct_seccomp_launcher tools) \<and> landlock_probe p)"

definition production_sandbox_available :: "platform \<Rightarrow> comparator_tools \<Rightarrow> bool" where
  "production_sandbox_available p tools =
     (on_linux p \<and> unprivileged p \<and> ct_sandbox_mode tools = PRODUCTION_SANDBOX_MODE \<and>
      missing_tools p tools False = [] \<and> landlock_available p tools \<and> sandbox_self_test p tools)"


section \<open>The machine and the caller\<close>

record inspection =
  in_source_hash :: chars
  in_target_hash :: chars
  in_matches :: bool
  in_target_contains_sorry :: bool
  in_source_axioms :: "chars list"
  in_source_depends_on_sorry :: bool
  in_source_category :: "chars option"
  in_source_has_formal_proof :: bool
  in_source_declaration_kind :: chars

text \<open>The moments at which a verification reads the clock, in nanoseconds.\<close>

datatype moment = Started | At_challenge | At_inspection nat | At_comparator | At_end

text \<open>
  The answers of the machine: the pinned and the actual commit, the identity of the environment, the
  proof file, the isolation tools, whether the workspace could be made, what a build, an inspection,
  the check of the inspected closure, the packaging and the comparator run return when they are given
  so many seconds.
\<close>

record host =
  h_unicode :: unicode
  h_sha_text :: "chars \<Rightarrow> chars"
  h_sha_bytes :: "nat list \<Rightarrow> chars"
  h_utf8 :: "nat list \<Rightarrow> chars option"
  h_repr :: "chars list \<Rightarrow> chars"
  h_clock :: "moment \<Rightarrow> int"
  h_project_root :: chars
  h_workspace_root :: chars
  h_commits :: "verifier_error + chars \<times> chars"
  h_environment :: "verifier_error + chars"
  h_proof :: proof_file
  h_platform :: platform
  h_workspace_error :: "chars option"
  h_build :: "int \<Rightarrow> process_result"
  h_inspect :: "nat \<Rightarrow> int \<Rightarrow> process_result \<times> inspection option"
  h_closure_error :: "verifier_error option"
  h_package_error :: "verifier_error option"
  h_compare :: "int \<Rightarrow> process_result"

record verify_args =
  va_retain_workspace :: bool
  va_expected_task_sha256 :: "chars option"
  va_allow_uncommitted_task :: bool
  va_allow_insecure_development :: bool
  va_allow_test_task :: bool
  va_expected_build_provenance :: "chars option"

definition is_sha256 :: "chars \<Rightarrow> bool" where
  "is_sha256 v = (length v = 71 \<and> starts (uc ''sha256:'') v \<and>
     (\<forall>c \<in> set (drop 7 v). ascii_digit c \<or> 97 \<le> c \<and> c \<le> 102))"

section \<open>Messages\<close>

definition nat_text :: "nat \<Rightarrow> chars" where "nat_text n = uc (digits_of n)"

definition hex_digit :: "nat \<Rightarrow> nat" where
  "hex_digit d = (if d < 10 then 48 + d else 55 + d)"

fun hex_text :: "nat \<Rightarrow> nat \<Rightarrow> chars" where
  "hex_text 0 n = []"
| "hex_text (Suc k) n = hex_text k (n div 16) @ [hex_digit (n mod 16)]"

text \<open>\<open>f"{n:04X}"\<close> of a code point: at least four digits, up to six.\<close>

definition code_point_text :: "nat \<Rightarrow> chars" where
  "code_point_text n = hex_text (if n < 16 ^ 4 then 4 else if n < 16 ^ 5 then 5 else 6) n"

definition at_text :: "nat \<Rightarrow> nat \<Rightarrow> chars" where
  "at_text line column = uc '' is prohibited at '' @ nat_text line @ uc '':'' @ nat_text column"

fun answer_message :: "(chars list \<Rightarrow> chars) \<Rightarrow> answer_problem \<Rightarrow> chars" where
  "answer_message repr NotOneDefinition = uc ''exactly one regular def submittedAnswer declaration is required''"
| "answer_message repr DefinitionNotFound = uc ''required submittedAnswer definition was not found''"
| "answer_message repr AnswerMisnamed = uc ''answer definition must be named submittedAnswer''"
| "answer_message repr NotNatLiteral = uc ''submittedAnswer must be a closed natural-number numeral''"
| "answer_message repr NotIntLiteral = uc ''submittedAnswer must be a closed signed integer literal''"
| "answer_message repr TooManyDigits = uc ''submittedAnswer exceeds the 4096-digit limit''"
| "answer_message repr NotBoolLiteral = uc ''submittedAnswer must be exactly true or false''"
| "answer_message repr (NotAllowed allowed) = uc ''submittedAnswer must be one allowed constructor: '' @ repr allowed"

fun violation_message :: "(chars list \<Rightarrow> chars) \<Rightarrow> violation \<Rightarrow> chars" where
  "violation_message repr TooManyTokens = uc ''submission exceeds the 5000000-token policy limit''"
| "violation_message repr NestedTooDeep = uc ''submission exceeds the 4096-delimiter nesting limit''"
| "violation_message repr LineTooLong = uc ''submission exceeds the 100000-character line limit''"
| "violation_message repr (HiddenCharacter i c) =
     uc ''invisible, private-use, or unassigned Unicode is prohibited at character '' @ nat_text i @ uc '': U+'' @ code_point_text c"
| "violation_message repr (InterpolatedString l c) =
     uc ''interpolated strings are prohibited at '' @ nat_text l @ uc '':'' @ nat_text c"
| "violation_message repr (Prohibited name l c) = name @ at_text l c"
| "violation_message repr (TopLevelProhibited name l c) = uc ''top-level command '' @ name @ at_text l c"
| "violation_message repr (DeclarationAttributes l c) =
     uc ''declaration attributes are prohibited at '' @ nat_text l @ uc '':'' @ nat_text c"
| "violation_message repr (HashCommand l c) = uc ''top-level hash command'' @ at_text l c"
| "violation_message repr (DependsOn d) = uc ''source declaration dependency is prohibited: '' @ d"
| "violation_message repr (AnswerProblem p) = answer_message repr p"

text \<open>\<open>str.replace\<close> of a text that is not empty.\<close>

function replace_all :: "chars \<Rightarrow> chars \<Rightarrow> chars \<Rightarrow> chars" where
  "replace_all old new [] = []"
| "replace_all old new (c # cs) =
     (if old \<noteq> [] \<and> starts old (c # cs) then new @ replace_all old new (drop (length old) (c # cs))
      else c # replace_all old new cs)"
  by pat_completeness auto
termination
proof (relation "measure (\<lambda>(old, new, cs). length cs)", goal_cases)
  case (2 old new c cs)
  then show ?case by (cases old) auto
qed simp_all

definition sanitized :: "host \<Rightarrow> bool \<Rightarrow> chars \<Rightarrow> chars" where
  "sanitized h in_workspace v =
     replace_all (h_project_root h) (uc ''<PROJECT>'')
       (if in_workspace then replace_all (h_workspace_root h) (uc ''<WORKSPACE>'') v else v)"

section \<open>Reports\<close>

text \<open>What \<open>verify\<close> keeps between its stages, and its two ways to stop.\<close>

record progress =
  vs_checks :: checks
  vs_commit :: "chars option"
  vs_submission_sha256 :: chars
  vs_in_workspace :: bool

type_synonym stop = "py_error + verification_report"

definition andthen :: "stop + 'a \<Rightarrow> ('a \<Rightarrow> stop + 'b) \<Rightarrow> stop + 'b" where
  "andthen m f = (case m of Inl e \<Rightarrow> Inl e | Inr x \<Rightarrow> f x)"

definition elapsed_ms :: "host \<Rightarrow> int" where
  "elapsed_ms h = (h_clock h At_end - h_clock h Started) div 1000000"

definition build_report ::
  "host \<Rightarrow> verify_args \<Rightarrow> task_bundle \<Rightarrow> progress \<Rightarrow> bool \<Rightarrow> string \<Rightarrow> reason_code \<Rightarrow> int option \<Rightarrow>
   chars \<Rightarrow> chars \<Rightarrow> chars \<Rightarrow> stop" where
  "build_report h a b st accepted stage reason comparator_exit_code stdout stderr sandbox_mode =
     (let m = tb_manifest b;
          commit = (case vs_commit st of Some c \<Rightarrow> if c \<noteq> [] then c else (case tm_repository_commit m of Some d \<Rightarrow> d | None \<Rightarrow> [])
                    | None \<Rightarrow> (case tm_repository_commit m of Some d \<Rightarrow> d | None \<Rightarrow> []))
      in case problem_id (h_unicode h) (h_sha_text h) commit
             (if tm_forbidden_dependencies m \<noteq> [] then tm_forbidden_dependencies m else [tm_source_theorem m]) of
           Inl e \<Rightarrow> Inl e
         | Inr problem \<Rightarrow>
             Inr \<lparr>vr_schema_version = 2, vr_problem_id = problem, vr_task_id = tm_task_id m,
               vr_repository_commit = commit, vr_source_theorem = tm_source_theorem m, vr_task_mode = tm_task_mode m,
               vr_task_bundle_sha256 = tb_sha256 b, vr_submission_sha256 = vs_submission_sha256 st,
               vr_accepted = accepted, vr_stage = uc stage, vr_reason = reason, vr_checks = vs_checks st,
               vr_theorem_names = tm_theorem_names m, vr_permitted_axioms = tm_permitted_axioms m,
               vr_duration_ms = elapsed_ms h, vr_comparator_exit_code = comparator_exit_code,
               vr_stdout_tail = tail (sanitized h (vs_in_workspace st) stdout),
               vr_stderr_tail = tail (sanitized h (vs_in_workspace st) stderr),
               vr_workspace_retained = (vs_in_workspace st \<and> va_retain_workspace a),
               vr_sandbox_mode = sandbox_mode, vr_task_timeout_seconds = tm_timeout_seconds m,
               vr_effective_timeout_seconds =
                 verification_timeout_seconds (tm_timeout_seconds m) (tm_production_eligible m)\<rparr>)"

definition not_started :: chars where "not_started = uc ''not-started''"

definition rejected ::
  "host \<Rightarrow> verify_args \<Rightarrow> task_bundle \<Rightarrow> progress \<Rightarrow> reason_code \<Rightarrow> string \<Rightarrow> chars \<Rightarrow> chars \<Rightarrow> int option \<Rightarrow> chars \<Rightarrow> stop" where
  "rejected h a b st reason stage stdout stderr comparator_exit_code sandbox_mode =
     build_report h a b st False stage reason comparator_exit_code stdout stderr sandbox_mode"

text \<open>A rejection with a message and nothing else.\<close>

definition refused :: "host \<Rightarrow> verify_args \<Rightarrow> task_bundle \<Rightarrow> progress \<Rightarrow> reason_code \<Rightarrow> string \<Rightarrow> chars \<Rightarrow> stop" where
  "refused h a b st reason stage message = rejected h a b st reason stage [] message None not_started"

definition passed :: "check_name list \<Rightarrow> progress \<Rightarrow> progress" where
  "passed names st = st\<lparr>vs_checks := (\<lambda>c. c \<in> set names \<or> vs_checks st c)\<rparr>"

definition set_check :: "check_name \<Rightarrow> bool \<Rightarrow> progress \<Rightarrow> progress" where
  "set_check name value st = st\<lparr>vs_checks := (vs_checks st)(name := value)\<rparr>"

definition first_progress :: "task_bundle \<Rightarrow> progress" where
  "first_progress b =
     \<lparr>vs_checks = DEFAULT_CHECKS(Manifest_valid := True, Production_task := tm_production_eligible (tb_manifest b),
        Nanoda_enabled := tm_enable_nanoda (tb_manifest b)),
      vs_commit = tm_repository_commit (tb_manifest b), vs_submission_sha256 = [], vs_in_workspace = False\<rparr>"

definition seconds_remaining :: "host \<Rightarrow> task_bundle \<Rightarrow> moment \<Rightarrow> int" where
  "seconds_remaining h b t =
     (let m = tb_manifest b;
          deadline = h_clock h Started +
            verification_timeout_seconds (tm_timeout_seconds m) (tm_production_eligible m) * 1000000000
      in max 0 ((deadline - h_clock h t + 999999999) div 1000000000))"

section \<open>The stages\<close>

definition opt_text :: "chars option \<Rightarrow> chars" where
  "opt_text v = (case v of None \<Rightarrow> uc ''None'' | Some t \<Rightarrow> t)"

definition check_commitment :: "host \<Rightarrow> verify_args \<Rightarrow> task_bundle \<Rightarrow> progress \<Rightarrow> stop + progress" where
  "check_commitment h a b st =
     (let m = tb_manifest b in
      case va_expected_task_sha256 a of
        Some expected \<Rightarrow>
          if \<not> is_sha256 expected \<or> expected \<noteq> tb_sha256 b then
            Inl (refused h a b st R_TASK_COMMITMENT_MISMATCH ''LOAD_TASK''
              (uc ''task bundle does not match the externally committed SHA-256''))
          else Inr (passed [Task_commitment_valid] st)
      | None \<Rightarrow>
          if tm_production_eligible m \<and> \<not> va_allow_uncommitted_task a then
            Inl (refused h a b st R_TASK_COMMITMENT_MISMATCH ''LOAD_TASK''
              (uc ''production verification requires an externally committed task bundle SHA-256''))
          else Inr st)"

definition check_eligible :: "host \<Rightarrow> verify_args \<Rightarrow> task_bundle \<Rightarrow> progress \<Rightarrow> stop + progress" where
  "check_eligible h a b st =
     (if \<not> tm_production_eligible (tb_manifest b) \<and> \<not> va_allow_test_task a then
        Inl (refused h a b st R_INELIGIBLE_TASK ''LOAD_TASK''
          (uc ''non-production task requires the explicit testing override''))
      else Inr st)"

definition check_repository :: "host \<Rightarrow> verify_args \<Rightarrow> task_bundle \<Rightarrow> progress \<Rightarrow> stop + progress" where
  "check_repository h a b st =
     (let m = tb_manifest b in
      case h_commits h of
        Inl (reason, message) \<Rightarrow> Inl (refused h a b st reason ''LOAD_TASK'' message)
      | Inr (expected, actual) \<Rightarrow>
          if actual \<noteq> expected \<or> (\<not> is_v2 m \<and> tm_repository_commit m \<noteq> Some expected) then
            Inl (refused h a b st R_REPOSITORY_COMMIT_MISMATCH ''LOAD_TASK''
              (uc ''task='' @ opt_text (tm_repository_commit m) @ uc '', expected='' @ expected @ uc '', repository='' @ actual))
          else Inr (st\<lparr>vs_commit := Some actual\<rparr>))"

definition check_environment :: "host \<Rightarrow> verify_args \<Rightarrow> task_bundle \<Rightarrow> progress \<Rightarrow> stop + progress" where
  "check_environment h a b st =
     (let m = tb_manifest b in
      if \<not> is_v2 m then Inr (passed [Trusted_hashes_valid] st)
      else (case h_environment h of
          Inl (reason, message) \<Rightarrow> Inl (refused h a b st R_ENVIRONMENT_MISMATCH ''LOAD_TASK'' message)
        | Inr identity \<Rightarrow>
            if Some identity \<noteq> tm_environment_identity m then
              Inl (refused h a b st R_ENVIRONMENT_MISMATCH ''LOAD_TASK''
                (uc ''task environment '' @ opt_text (tm_environment_identity m) @ uc '', this verifier '' @ identity))
            else if tm_production_eligible m \<and> \<not> va_allow_uncommitted_task a \<and> va_expected_build_provenance a = None then
              Inl (refused h a b st R_ENVIRONMENT_MISMATCH ''LOAD_TASK''
                (uc ''production verification of a v2 task requires its snapshot's build provenance''))
            else Inr (passed [Trusted_hashes_valid] st)))"


definition read_proof :: "host \<Rightarrow> verify_args \<Rightarrow> task_bundle \<Rightarrow> progress \<Rightarrow> stop + progress" where
  "read_proof h a b st =
     (let m = tb_manifest b in
      case load_submission (h_sha_bytes h) (h_utf8 h) (h_proof h) (tm_max_submission_bytes m) of
        Inl (reason, message) \<Rightarrow> Inl (refused h a b st reason ''LOAD_SUBMISSION'' message)
      | Inr proof \<Rightarrow>
          let st' = st\<lparr>vs_submission_sha256 := pt_sha256 proof\<rparr> in
          (case check_submission (u_category (h_unicode h)) (pt_text proof) (scan_part m) of
             Inl e \<Rightarrow> Inl (Inl e)
           | Inr static \<Rightarrow>
               if \<not> sr_valid static then
                 Inl (refused h a b st' R_SUBMISSION_POLICY_VIOLATION ''STATIC_POLICY_CHECK''
                   (join [newline] (map (violation_message (h_repr h)) (sr_violations static))))
               else Inr (passed [Submission_policy_valid] st')))"

definition tools_of :: "host \<Rightarrow> verify_args \<Rightarrow> comparator_tools" where
  "tools_of h a = resolve_tools (h_platform h) (va_allow_insecure_development a)"

definition mode_of :: "host \<Rightarrow> verify_args \<Rightarrow> chars" where
  "mode_of h a = ct_sandbox_mode (tools_of h a)"

definition check_sandbox :: "host \<Rightarrow> verify_args \<Rightarrow> task_bundle \<Rightarrow> progress \<Rightarrow> stop + progress" where
  "check_sandbox h a b st =
     (let production_sandbox = production_sandbox_available (h_platform h) (tools_of h a);
          st' = set_check Production_sandbox production_sandbox st in
      if \<not> production_sandbox \<and> \<not> va_allow_insecure_development a then
        Inl (rejected h a b st' R_INSECURE_SANDBOX ''CREATE_WORKSPACE'' []
          (uc ''production verification requires Linux and the live fail-closed Landrun/seccomp isolation probe'')
          None (mode_of h a))
      else Inr st')"

definition open_workspace :: "host \<Rightarrow> verify_args \<Rightarrow> task_bundle \<Rightarrow> progress \<Rightarrow> stop + progress" where
  "open_workspace h a b st =
     (case h_workspace_error h of
        Some message \<Rightarrow> Inl (refused h a b st R_WORKSPACE_ERROR ''CREATE_WORKSPACE'' message)
      | None \<Rightarrow> Inr (st\<lparr>vs_in_workspace := True\<rparr>))"

definition out_of_time :: "host \<Rightarrow> verify_args \<Rightarrow> task_bundle \<Rightarrow> progress \<Rightarrow> string \<Rightarrow> stop" where
  "out_of_time h a b st stage = rejected h a b st R_TIMEOUT stage [] [] None (mode_of h a)"

definition challenge_stage :: "host \<Rightarrow> verify_args \<Rightarrow> task_bundle \<Rightarrow> progress \<Rightarrow> stop + progress" where
  "challenge_stage h a b st =
     (let remaining = seconds_remaining h b At_challenge in
      if remaining \<le> 0 then Inl (out_of_time h a b st ''BUILD_CHALLENGE'')
      else
        let r = h_build h remaining in
        if pr_timed_out r then Inl (rejected h a b st R_TIMEOUT ''BUILD_CHALLENGE'' (pr_stdout r) (pr_stderr r) None not_started)
        else if pr_exit_code r \<noteq> Some 0 then
          Inl (rejected h a b st R_CHALLENGE_BUILD_FAILED ''BUILD_CHALLENGE'' (pr_stdout r) (pr_stderr r) None not_started)
        else Inr (passed [Challenge_built] st))"

text \<open>\<open>inspect_generated_target\<close>: what is made of the inspector's run and of its parsed last line.\<close>

definition inspect_generated_target :: "process_result \<times> inspection option \<Rightarrow> verifier_error + inspection" where
  "inspect_generated_target p =
     (let r = fst p in
      if pr_timed_out r then Inl (R_TIMEOUT, uc ''task inspection timed out'')
      else if pr_exit_code r \<noteq> Some 0 then
        Inl (R_CHALLENGE_BUILD_FAILED,
          if last_of 4000 (pr_stderr r) \<noteq> [] then last_of 4000 (pr_stderr r) else last_of 4000 (pr_stdout r))
      else (case snd p of
              None \<Rightarrow> Inl (R_CHALLENGE_BUILD_FAILED, uc ''invalid task inspector output'')
            | Some i \<Rightarrow> Inr i))"

text \<open>The loop over the sources and the target names, from the \<open>k\<close>-th on.\<close>

fun inspect_from ::
  "host \<Rightarrow> verify_args \<Rightarrow> task_bundle \<Rightarrow> progress \<Rightarrow> nat \<Rightarrow> source list \<Rightarrow> chars list \<Rightarrow> stop + inspection list" where
  "inspect_from h a b st k [] [] = Inr []"
| "inspect_from h a b st k (s # ss) (t # ts) =
     (let remaining = min (seconds_remaining h b (At_inspection k)) 600 in
      if remaining \<le> 0 then Inl (out_of_time h a b st ''BUILD_CHALLENGE'')
      else (case inspect_generated_target (h_inspect h k remaining) of
          Inl (reason, message) \<Rightarrow> Inl (refused h a b st reason ''BUILD_CHALLENGE'' message)
        | Inr i \<Rightarrow> andthen (inspect_from h a b st (k + 1) ss ts) (\<lambda>is. Inr (i # is))))"
| "inspect_from h a b st k _ _ = Inl (Inl (ValueError ''zip() arguments have different lengths''))"

definition closure_check :: "host \<Rightarrow> verify_args \<Rightarrow> task_bundle \<Rightarrow> progress \<Rightarrow> inspection list \<Rightarrow> stop + unit" where
  "closure_check h a b st inspections =
     (if \<not> is_v2 (tb_manifest b) then Inr ()
      else if inspections = [] then Inl (Inl IndexError)
      else (case h_closure_error h of
              Some (reason, message) \<Rightarrow> Inl (refused h a b st reason ''BUILD_CHALLENGE'' message)
            | None \<Rightarrow> Inr ()))"

text \<open>The compiled environment contradicts the production policy of the source.\<close>

definition policy_differs :: "task_manifest \<Rightarrow> source \<times> inspection \<Rightarrow> bool" where
  "policy_differs m p =
     (let s = fst p; i = snd p in
      in_source_category i \<noteq> Some (uc ''research open'') \<or> in_source_declaration_kind i \<noteq> uc ''theorem'' \<or>
      \<not> in_source_depends_on_sorry i \<or> in_source_has_formal_proof i \<or> in_target_contains_sorry i \<or>
      \<not> is_production_task_mode (tm_task_mode m) \<or>
      (tm_task_mode m = EXACT_TASK_MODE \<and> in_target_hash i \<noteq> in_source_hash i) \<or>
      (tm_task_mode m = COUNTEREXAMPLE_TASK_MODE \<and> in_target_hash i = in_source_hash i) \<or>
      in_source_axioms i \<noteq> sort (src_transitive_axioms s))"

definition inspection_stage :: "host \<Rightarrow> verify_args \<Rightarrow> task_bundle \<Rightarrow> progress \<Rightarrow> stop + progress" where
  "inspection_stage h a b st =
     (let m = tb_manifest b in
      andthen (inspect_from h a b st 0 (tb_sources b) (tm_theorem_names m)) (\<lambda>inspections.
      andthen (closure_check h a b st inspections) (\<lambda>_.
      if list_ex (\<lambda>(s, i). in_source_hash i \<noteq> src_type_hash s) (zip (tb_sources b) inspections) then
        Inl (refused h a b st R_SOURCE_TYPE_CHANGED ''BUILD_CHALLENGE'' [])
      else
        let st' = passed [Source_type_hash_valid] st in
        (case inspections of
           [] \<Rightarrow> Inl (Inl IndexError)
         | i # _ \<Rightarrow>
             if in_source_hash i \<noteq> tm_source_type_hash m \<or> in_target_hash i \<noteq> tm_generated_target_type_hash m \<or>
                list_ex (\<lambda>j. \<not> in_matches j) inspections then
               Inl (refused h a b st' R_STATEMENT_MISMATCH ''BUILD_CHALLENGE'' [])
             else if tm_production_eligible m \<and> list_ex (policy_differs m) (zip (tb_sources b) inspections) then
               Inl (refused h a b st' R_INELIGIBLE_TASK ''BUILD_CHALLENGE''
                 (uc ''source production policy differs from the compiled Lean environment''))
             else Inr st'))))"

definition package_stage :: "host \<Rightarrow> verify_args \<Rightarrow> task_bundle \<Rightarrow> progress \<Rightarrow> stop + progress" where
  "package_stage h a b st =
     (case h_package_error h of
        Some (reason, message) \<Rightarrow> Inl (refused h a b st reason ''CREATE_WORKSPACE'' message)
      | None \<Rightarrow> Inr st)"

definition run_comparator :: "host \<Rightarrow> verify_args \<Rightarrow> task_bundle \<Rightarrow> int \<Rightarrow> process_result" where
  "run_comparator h a b timeout_seconds =
     (let absent = missing_tools (h_platform h) (tools_of h a) (tm_enable_nanoda (tb_manifest b)) in
      if absent \<noteq> [] then
        \<lparr>pr_exit_code = Some 127, pr_stdout = [],
         pr_stderr = uc ''missing verification tools: '' @ join (uc '', '') (map uc absent),
         pr_timed_out = False, pr_signal = None\<rparr>
      else h_compare h timeout_seconds)"

definition comparator_stage :: "reason_code \<Rightarrow> string" where
  "comparator_stage reason =
     (if reason = R_SOLUTION_BUILD_FAILED then ''BUILD_SOLUTION''
      else if reason = R_LEAN_KERNEL_REJECTED then ''RUN_KERNEL''
      else if reason = R_NANODA_REJECTED then ''RUN_NANODA'' else ''RUN_COMPARATOR'')"

definition failed_comparator_checks :: "checks \<Rightarrow> reason_code \<Rightarrow> bool \<Rightarrow> checks" where
  "failed_comparator_checks checks reason nanoda_enabled =
     checks(Solution_built := reason \<in> {R_STATEMENT_MISMATCH, R_UNPERMITTED_AXIOM, R_LEAN_KERNEL_REJECTED, R_NANODA_REJECTED},
       Same_statement := reason \<in> {R_UNPERMITTED_AXIOM, R_LEAN_KERNEL_REJECTED, R_NANODA_REJECTED},
       Axioms_permitted := reason \<in> {R_LEAN_KERNEL_REJECTED, R_NANODA_REJECTED},
       Nanoda_passed := nanoda_enabled \<and> reason = R_LEAN_KERNEL_REJECTED)"

definition compare_stage :: "host \<Rightarrow> verify_args \<Rightarrow> task_bundle \<Rightarrow> progress \<Rightarrow> stop" where
  "compare_stage h a b st =
     (let m = tb_manifest b; remaining = seconds_remaining h b At_comparator in
      if remaining \<le> 0 then out_of_time h a b st ''RUN_COMPARATOR''
      else
        let r = run_comparator h a b remaining in
        if pr_exit_code r \<noteq> Some 0 \<or> pr_timed_out r then
          (case rejection_reason (h_unicode h) r (tm_enable_nanoda m) of
             Inl e \<Rightarrow> Inl e
           | Inr reason \<Rightarrow>
               rejected h a b
                 (st\<lparr>vs_checks := failed_comparator_checks (vs_checks st) reason (tm_enable_nanoda m)\<rparr>)
                 reason (comparator_stage reason) (pr_stdout r) (pr_stderr r) (pr_exit_code r) (mode_of h a))
        else
          build_report h a b
            (set_check Nanoda_passed (tm_enable_nanoda m)
              (passed [Solution_built, Same_statement, Axioms_permitted, Lean_kernel_passed] st))
            True ''COMPLETED'' R_VERIFIED (pr_exit_code r) (pr_stdout r) (pr_stderr r) (mode_of h a))"

text \<open>\<open>verify\<close>, after the task was loaded.\<close>

definition established :: "host \<Rightarrow> verify_args \<Rightarrow> task_bundle \<Rightarrow> stop + progress" where
  "established h a b =
     andthen (check_commitment h a b (first_progress b)) (\<lambda>st.
     andthen (check_eligible h a b st) (\<lambda>st.
     andthen (check_repository h a b st) (\<lambda>st.
     andthen (check_environment h a b st) (\<lambda>st.
     andthen (read_proof h a b st) (\<lambda>st.
     andthen (check_sandbox h a b st) (\<lambda>st.
     andthen (open_workspace h a b st) (\<lambda>st.
     andthen (challenge_stage h a b st) (\<lambda>st.
     andthen (inspection_stage h a b st) (package_stage h a b)))))))))"

definition verify :: "host \<Rightarrow> verify_args \<Rightarrow> task_bundle \<Rightarrow> stop" where
  "verify h a b = (case established h a b of Inl stop \<Rightarrow> stop | Inr st \<Rightarrow> compare_stage h a b st)"


section \<open>What a stage leaves\<close>

lemma andthen_Inr [simp]: "andthen m f = Inr y \<longleftrightarrow> (\<exists>x. m = Inr x \<and> f x = Inr y)"
  by (cases m) (simp_all add: andthen_def)

lemma andthen_Inl: "andthen m f = Inl e \<longleftrightarrow> m = Inl e \<or> (\<exists>x. m = Inr x \<and> f x = Inl e)"
  by (cases m) (simp_all add: andthen_def)

lemma passed_simps [simp]:
  "vs_checks (passed names st) c \<longleftrightarrow> c \<in> set names \<or> vs_checks st c"
  "vs_commit (passed names st) = vs_commit st" "vs_submission_sha256 (passed names st) = vs_submission_sha256 st"
  "vs_in_workspace (passed names st) = vs_in_workspace st"
  by (simp_all add: passed_def)

lemma set_check_simps [simp]:
  "vs_checks (set_check name v st) = (vs_checks st)(name := v)"
  "vs_submission_sha256 (set_check name v st) = vs_submission_sha256 st"
  "vs_in_workspace (set_check name v st) = vs_in_workspace st"
  by (simp_all add: set_check_def)

lemma build_report_fields:
  assumes "build_report h a b st accepted stage reason code stdout stderr mode = Inr r"
  shows "vr_schema_version r = 2" "vr_task_id r = tm_task_id (tb_manifest b)" "vr_task_bundle_sha256 r = tb_sha256 b"
    "vr_submission_sha256 r = vs_submission_sha256 st" "vr_accepted r = accepted" "vr_stage r = uc stage"
    "vr_reason r = reason" "vr_checks r = vs_checks st" "vr_duration_ms r = elapsed_ms h"
    "vr_comparator_exit_code r = code" "length (vr_stdout_tail r) \<le> 4000" "length (vr_stderr_tail r) \<le> 4000"
    "vr_workspace_retained r \<longleftrightarrow> vs_in_workspace st \<and> va_retain_workspace a" "vr_sandbox_mode r = mode"
    "vr_task_timeout_seconds r = tm_timeout_seconds (tb_manifest b)"
    "vr_effective_timeout_seconds r =
       verification_timeout_seconds (tm_timeout_seconds (tb_manifest b)) (tm_production_eligible (tb_manifest b))"
  using assms by (auto simp: build_report_def Let_def tail_bound split: sum.splits)

text \<open>
  The circumstances of a verification in production: the caller names the task's digest and sets no
  override, the task has a budget, the clock does not run back, and an error of the machine never
  calls itself a verification.
\<close>

definition in_production :: "host \<Rightarrow> verify_args \<Rightarrow> task_bundle \<Rightarrow> bool" where
  "in_production h a b \<longleftrightarrow>
     va_expected_task_sha256 a = Some (tb_sha256 b) \<and> \<not> va_retain_workspace a \<and>
     \<not> va_allow_insecure_development a \<and> \<not> va_allow_test_task a \<and>
     0 < tm_timeout_seconds (tb_manifest b) \<and> h_clock h Started \<le> h_clock h At_end \<and>
     (\<forall>message. h_commits h \<noteq> Inl (R_VERIFIED, message) \<and> h_closure_error h \<noteq> Some (R_VERIFIED, message) \<and>
        h_package_error h \<noteq> Some (R_VERIFIED, message))"

definition proof_digest :: "host \<Rightarrow> chars" where
  "proof_digest h = h_sha_bytes h (pf_raw (h_proof h))"

definition acts_on :: "host \<Rightarrow> task_bundle \<Rightarrow> verification_report \<Rightarrow> bool" where
  "acts_on h b r = actionable r (tm_task_id (tb_manifest b)) (tb_sha256 b) (proof_digest h) (tm_enable_nanoda (tb_manifest b))"

text \<open>Every report of a stage that stops is one the worker acts on.\<close>

definition fine :: "host \<Rightarrow> task_bundle \<Rightarrow> stop \<Rightarrow> bool" where
  "fine h b stop = (case stop of Inl _ \<Rightarrow> True | Inr r \<Rightarrow> acts_on h b r \<and> \<not> vr_accepted r)"

definition on_track :: "host \<Rightarrow> task_bundle \<Rightarrow> progress \<Rightarrow> bool" where
  "on_track h b st \<longleftrightarrow> vs_checks st Nanoda_enabled = tm_enable_nanoda (tb_manifest b) \<and>
     (vs_submission_sha256 st = [] \<or> vs_submission_sha256 st = proof_digest h)"

lemma rejected_fine:
  assumes "in_production h a b" and "on_track h b st" and "reason \<noteq> R_VERIFIED" and "stage \<noteq> []" and "mode \<noteq> []"
  shows "fine h b (rejected h a b st reason stage stdout stderr code mode)"
proof (cases "rejected h a b st reason stage stdout stderr code mode")
  case (Inr r)
  then have B: "build_report h a b st False stage reason code stdout stderr mode = Inr r" by (simp add: rejected_def)
  note f = build_report_fields [OF B]
  have "0 \<le> elapsed_ms h" using assms(1) by (simp add: elapsed_ms_def in_production_def pos_imp_zdiv_nonneg_iff)
  then show ?thesis
    using assms f Inr
    by (auto simp: fine_def acts_on_def actionable_def in_production_def on_track_def verification_timeout_seconds_def uc_def)
qed (simp add: fine_def)

lemma not_started_text [simp]: "not_started \<noteq> []"
  by (simp add: not_started_def uc_def)

lemma mode_text [simp]: "mode_of h a \<noteq> []"
  by (simp add: mode_of_def tools_of_def resolve_tools_def PRODUCTION_SANDBOX_MODE_def DEVELOPMENT_SANDBOX_MODE_def uc_def)

lemma refused_fine:
  assumes "in_production h a b" and "on_track h b st" and "reason \<noteq> R_VERIFIED" and "stage \<noteq> []"
  shows "fine h b (refused h a b st reason stage message)"
  unfolding refused_def by (rule rejected_fine [OF assms]) simp

lemma raised_fine [simp]: "fine h b (Inl e)"
  by (simp add: fine_def)

text \<open>The proof that is read, whichever the length of its file: one byte over the limit settles it.\<close>

lemma load_submission_prefix:
  "load_submission_bytes sha utf8 (take (k + 1) raw) k = load_submission_bytes sha utf8 raw k"
  by (cases "k < length raw") (simp_all add: load_submission_bytes_def)

lemma load_submission_Inr:
  assumes "load_submission sha utf8 f k = Inr p"
  shows "pt_sha256 p = sha (pf_raw f)" and "utf8 (pf_raw f) = Some (pt_text p)" and "length (pf_raw f) \<le> k"
    and "0 \<notin> set (pf_raw f)"
  using assms unfolding load_submission_def load_submission_prefix
  by (auto simp: load_submission_bytes_def split: if_splits option.splits)

lemma load_submission_reason: "load_submission sha utf8 f k = Inl (reason, message) \<Longrightarrow> reason \<noteq> R_VERIFIED"
  unfolding load_submission_def by (auto simp: load_submission_bytes_def split: if_splits option.splits)

section \<open>Stage by stage\<close>

lemma check_commitment_stage:
  assumes "in_production h a b" and "on_track h b st"
  shows "check_commitment h a b st = Inl e \<Longrightarrow> fine h b e"
    and "check_commitment h a b st = Inr st' \<Longrightarrow> st' = passed [Task_commitment_valid] st"
  using assms refused_fine [OF assms] by (auto simp: check_commitment_def in_production_def Let_def split: if_splits)

lemma check_eligible_stage:
  assumes "in_production h a b" and "on_track h b st"
  shows "check_eligible h a b st = Inl e \<Longrightarrow> fine h b e"
    and "check_eligible h a b st = Inr st' \<Longrightarrow> st' = st \<and> tm_production_eligible (tb_manifest b)"
  using assms refused_fine [OF assms] by (auto simp: check_eligible_def in_production_def Let_def split: if_splits)

lemma check_repository_stage:
  assumes "in_production h a b" and "on_track h b st"
  shows "check_repository h a b st = Inl e \<Longrightarrow> fine h b e"
    and "check_repository h a b st = Inr st' \<Longrightarrow> \<exists>commit. st' = st\<lparr>vs_commit := Some commit\<rparr> \<and> h_commits h = Inr (commit, commit)"
proof -
  show "check_repository h a b st = Inl e \<Longrightarrow> fine h b e"
    using assms refused_fine [OF assms]
    by (auto simp: check_repository_def in_production_def Let_def split: if_splits sum.splits)
  show "check_repository h a b st = Inr st' \<Longrightarrow> \<exists>commit. st' = st\<lparr>vs_commit := Some commit\<rparr> \<and> h_commits h = Inr (commit, commit)"
    by (auto simp: check_repository_def Let_def split: if_splits sum.splits)
qed

lemma check_environment_stage:
  assumes "in_production h a b" and "on_track h b st"
  shows "check_environment h a b st = Inl e \<Longrightarrow> fine h b e"
    and "check_environment h a b st = Inr st' \<Longrightarrow> st' = passed [Trusted_hashes_valid] st"
  using refused_fine [OF assms]
  by (auto simp: check_environment_def Let_def split: if_splits sum.splits)

lemma read_proof_stage:
  assumes "in_production h a b" and "on_track h b st"
  shows "read_proof h a b st = Inl e \<Longrightarrow> fine h b e"
    and "read_proof h a b st = Inr st' \<Longrightarrow>
      st' = passed [Submission_policy_valid] (st\<lparr>vs_submission_sha256 := proof_digest h\<rparr>) \<and>
      (\<exists>v static. h_utf8 h (pf_raw (h_proof h)) = Some v \<and>
         check_submission (u_category (h_unicode h)) v (scan_part (tb_manifest b)) = Inr static \<and> sr_valid static)"
proof -
  have t: "on_track h b (st\<lparr>vs_submission_sha256 := proof_digest h\<rparr>)" using assms(2) by (simp add: on_track_def)
  show "read_proof h a b st = Inl e \<Longrightarrow> fine h b e"
    using refused_fine [OF assms] refused_fine [OF assms(1) t]
    by (auto simp: read_proof_def Let_def proof_digest_def load_submission_Inr(1) dest: load_submission_reason
        split: if_splits sum.splits)
  show "read_proof h a b st = Inr st' \<Longrightarrow>
      st' = passed [Submission_policy_valid] (st\<lparr>vs_submission_sha256 := proof_digest h\<rparr>) \<and>
      (\<exists>v static. h_utf8 h (pf_raw (h_proof h)) = Some v \<and>
         check_submission (u_category (h_unicode h)) v (scan_part (tb_manifest b)) = Inr static \<and> sr_valid static)"
    by (auto simp: read_proof_def Let_def proof_digest_def load_submission_Inr(1) dest: load_submission_Inr(2)
        split: if_splits sum.splits)
qed

lemma check_sandbox_stage:
  assumes "in_production h a b" and "on_track h b st"
  shows "check_sandbox h a b st = Inl e \<Longrightarrow> fine h b e"
    and "check_sandbox h a b st = Inr st' \<Longrightarrow> st' = set_check Production_sandbox True st \<and>
      production_sandbox_available (h_platform h) (tools_of h a)"
proof -
  have t: "on_track h b (set_check Production_sandbox v st)" for v using assms(2) by (simp add: on_track_def)
  show "check_sandbox h a b st = Inl e \<Longrightarrow> fine h b e"
    using rejected_fine [OF assms(1) t] by (auto simp: check_sandbox_def Let_def split: if_splits)
  show "check_sandbox h a b st = Inr st' \<Longrightarrow> st' = set_check Production_sandbox True st \<and>
      production_sandbox_available (h_platform h) (tools_of h a)"
    using assms(1) by (auto simp: check_sandbox_def in_production_def Let_def split: if_splits)
qed

lemma open_workspace_stage:
  assumes "in_production h a b" and "on_track h b st"
  shows "open_workspace h a b st = Inl e \<Longrightarrow> fine h b e"
    and "open_workspace h a b st = Inr st' \<Longrightarrow> st' = st\<lparr>vs_in_workspace := True\<rparr>"
  using refused_fine [OF assms] by (auto simp: open_workspace_def split: option.splits)

lemma out_of_time_fine:
  assumes "in_production h a b" and "on_track h b st" and "stage \<noteq> []"
  shows "fine h b (out_of_time h a b st stage)"
  unfolding out_of_time_def by (rule rejected_fine [OF assms(1,2)]) (use assms(3) in simp_all)

lemma challenge_stage_stage:
  assumes "in_production h a b" and "on_track h b st"
  shows "challenge_stage h a b st = Inl e \<Longrightarrow> fine h b e"
    and "challenge_stage h a b st = Inr st' \<Longrightarrow> st' = passed [Challenge_built] st"
  using rejected_fine [OF assms] out_of_time_fine [OF assms] by (auto simp: challenge_stage_def Let_def split: if_splits)

lemma inspect_reason: "inspect_generated_target p = Inl (reason, message) \<Longrightarrow> reason \<noteq> R_VERIFIED"
  by (auto simp: inspect_generated_target_def Let_def split: if_splits option.splits)

lemma inspect_from_fine:
  assumes "in_production h a b" and "on_track h b st"
  shows "inspect_from h a b st k ss ts = Inl e \<Longrightarrow> fine h b e"
  using assms
proof (induction h a b st k ss ts arbitrary: e rule: inspect_from.induct)
  case (2 h a b st k s ss t ts)
  then show ?case
    using refused_fine [OF "2.prems"(2,3)] out_of_time_fine [OF "2.prems"(2,3)]
    by (auto simp: Let_def andthen_Inl dest: inspect_reason split: if_splits sum.splits)
qed auto


lemma inspection_stage_stage:
  assumes "in_production h a b" and "on_track h b st"
  shows "inspection_stage h a b st = Inl e \<Longrightarrow> fine h b e"
    and "inspection_stage h a b st = Inr st' \<Longrightarrow> st' = passed [Source_type_hash_valid] st"
proof -
  have t: "on_track h b (passed [Source_type_hash_valid] st)" using assms(2) by (simp add: on_track_def)
  have c: "closure_check h a b st is = Inl e \<Longrightarrow> fine h b e" for "is" e
    using assms(1) refused_fine [OF assms] by (auto simp: closure_check_def in_production_def split: if_splits option.splits)
  show "inspection_stage h a b st = Inl e \<Longrightarrow> fine h b e"
    using refused_fine [OF assms] refused_fine [OF assms(1) t] inspect_from_fine [OF assms] c
    by (auto simp: inspection_stage_def Let_def andthen_Inl split: if_splits list.splits)
  show "inspection_stage h a b st = Inr st' \<Longrightarrow> st' = passed [Source_type_hash_valid] st"
    by (auto simp: inspection_stage_def Let_def split: if_splits list.splits)
qed

lemma package_stage_stage:
  assumes "in_production h a b" and "on_track h b st"
  shows "package_stage h a b st = Inl e \<Longrightarrow> fine h b e"
    and "package_stage h a b st = Inr st' \<Longrightarrow> st' = st"
  using assms(1) refused_fine [OF assms] by (auto simp: package_stage_def in_production_def split: option.splits)

text \<open>A sequence of stages that keep on track and stop well stops well.\<close>

definition sound_stage :: "(host \<Rightarrow> verify_args \<Rightarrow> task_bundle \<Rightarrow> progress \<Rightarrow> stop + progress) \<Rightarrow> bool" where
  "sound_stage f \<longleftrightarrow> (\<forall>h a b st. in_production h a b \<longrightarrow> on_track h b st \<longrightarrow>
     (case f h a b st of Inl e \<Rightarrow> fine h b e | Inr st' \<Rightarrow> on_track h b st'))"

lemma sound_stageI:
  assumes "\<And>h a b st e. in_production h a b \<Longrightarrow> on_track h b st \<Longrightarrow> f h a b st = Inl e \<Longrightarrow> fine h b e"
    and "\<And>h a b st st'. in_production h a b \<Longrightarrow> on_track h b st \<Longrightarrow> f h a b st = Inr st' \<Longrightarrow> on_track h b st'"
  shows "sound_stage f"
  unfolding sound_stage_def using assms by (simp split: sum.split)

lemma sound_stage_then:
  assumes "sound_stage f" and "sound_stage g"
  shows "sound_stage (\<lambda>h a b st. andthen (f h a b st) (g h a b))"
proof (rule sound_stageI)
  fix h a b st
  assume P: "in_production h a b" "on_track h b st"
  have F: "case f h a b st of Inl e \<Rightarrow> fine h b e | Inr st' \<Rightarrow> on_track h b st'"
    using assms(1) P by (simp add: sound_stage_def)
  have G: "case g h a b x of Inl e \<Rightarrow> fine h b e | Inr st' \<Rightarrow> on_track h b st'" if "f h a b st = Inr x" for x
    using assms(2) P(1) F that by (simp add: sound_stage_def)
  show "fine h b e" if "andthen (f h a b st) (g h a b) = Inl e" for e
    using that F G by (cases "f h a b st") (auto simp: andthen_def)
  show "on_track h b st'" if "andthen (f h a b st) (g h a b) = Inr st'" for st'
    using that G by (cases "f h a b st") (auto simp: andthen_def)
qed

lemma sound_check_commitment: "sound_stage check_commitment"
  by (rule sound_stageI, erule (2) check_commitment_stage(1), drule (2) check_commitment_stage(2), simp add: on_track_def)

lemma sound_check_eligible: "sound_stage check_eligible"
  by (rule sound_stageI, erule (2) check_eligible_stage(1), drule (2) check_eligible_stage(2), simp add: on_track_def)

lemma sound_check_repository: "sound_stage check_repository"
  by (rule sound_stageI, erule (2) check_repository_stage(1), drule (2) check_repository_stage(2), auto simp: on_track_def)

lemma sound_check_environment: "sound_stage check_environment"
  by (rule sound_stageI, erule (2) check_environment_stage(1), drule (2) check_environment_stage(2), simp add: on_track_def)

lemma sound_read_proof: "sound_stage read_proof"
  by (rule sound_stageI, erule (2) read_proof_stage(1), drule (2) read_proof_stage(2), simp add: on_track_def)

lemma sound_check_sandbox: "sound_stage check_sandbox"
  by (rule sound_stageI, erule (2) check_sandbox_stage(1), drule (2) check_sandbox_stage(2), simp add: on_track_def)

lemma sound_open_workspace: "sound_stage open_workspace"
  by (rule sound_stageI, erule (2) open_workspace_stage(1), drule (2) open_workspace_stage(2), simp add: on_track_def)

lemma sound_challenge_stage: "sound_stage challenge_stage"
  by (rule sound_stageI, erule (2) challenge_stage_stage(1), drule (2) challenge_stage_stage(2), simp add: on_track_def)

lemma sound_inspection_stage: "sound_stage inspection_stage"
  by (rule sound_stageI, erule (2) inspection_stage_stage(1), drule (2) inspection_stage_stage(2), simp add: on_track_def)

lemma sound_package_stage: "sound_stage package_stage"
  by (rule sound_stageI, erule (2) package_stage_stage(1), drule (2) package_stage_stage(2), simp add: on_track_def)

lemmas sound_stages = sound_check_commitment sound_check_eligible sound_check_repository sound_check_environment
  sound_read_proof sound_check_sandbox sound_open_workspace sound_challenge_stage sound_inspection_stage
  sound_package_stage

text \<open>What is established when the comparator is about to run.\<close>

definition ready :: "host \<Rightarrow> verify_args \<Rightarrow> task_bundle \<Rightarrow> progress \<Rightarrow> bool" where
  "ready h a b st \<longleftrightarrow>
     vs_checks st Nanoda_enabled = tm_enable_nanoda (tb_manifest b) \<and> vs_submission_sha256 st = proof_digest h \<and>
     (\<forall>c. c \<notin> {Solution_built, Same_statement, Axioms_permitted, Lean_kernel_passed, Nanoda_enabled, Nanoda_passed} \<longrightarrow>
        vs_checks st c) \<and>
     production_sandbox_available (h_platform h) (tools_of h a) \<and>
     (\<exists>commit. h_commits h = Inr (commit, commit)) \<and>
     (\<exists>v static. h_utf8 h (pf_raw (h_proof h)) = Some v \<and>
        check_submission (u_category (h_unicode h)) v (scan_part (tb_manifest b)) = Inr static \<and> sr_valid static)"

lemma established_stage:
  assumes P: "in_production h a b"
  shows "established h a b = Inl e \<Longrightarrow> fine h b e" and "established h a b = Inr st \<Longrightarrow> ready h a b st"
proof -
  let ?s0 = "first_progress b"
  let ?s1 = "passed [Task_commitment_valid] ?s0"
  have t0: "on_track h b ?s0" by (simp add: on_track_def first_progress_def)
  have t1: "on_track h b ?s1" using t0 by (simp add: on_track_def)
  have t2: "on_track h b (?s1\<lparr>vs_commit := c\<rparr>)" for c using t1 by (simp add: on_track_def)
  let ?s3 = "\<lambda>c. passed [Trusted_hashes_valid] (?s1\<lparr>vs_commit := c\<rparr>)"
  have t3: "on_track h b (?s3 c)" for c using t2 [of c] by (simp add: on_track_def)
  let ?s4 = "\<lambda>c. passed [Submission_policy_valid] ((?s3 c)\<lparr>vs_submission_sha256 := proof_digest h\<rparr>)"
  have t4: "on_track h b (?s4 c)" for c using t3 [of c] by (simp add: on_track_def)
  let ?s5 = "\<lambda>c. set_check Production_sandbox True (?s4 c)"
  have t5: "on_track h b (?s5 c)" for c using t4 [of c] by (simp add: on_track_def)
  let ?s6 = "\<lambda>c. (?s5 c)\<lparr>vs_in_workspace := True\<rparr>"
  have t6: "on_track h b (?s6 c)" for c using t5 [of c] by (simp add: on_track_def)
  let ?s7 = "\<lambda>c. passed [Challenge_built] (?s6 c)"
  have t7: "on_track h b (?s7 c)" for c using t6 [of c] by (simp add: on_track_def)
  let ?s8 = "\<lambda>c. passed [Source_type_hash_valid] (?s7 c)"
  have t8: "on_track h b (?s8 c)" for c using t7 [of c] by (simp add: on_track_def)
  note a = check_commitment_stage [OF P t0] check_eligible_stage [OF P t1] check_repository_stage [OF P t1]
    check_environment_stage [OF P t2] read_proof_stage [OF P t3] check_sandbox_stage [OF P t4]
    open_workspace_stage [OF P t5] challenge_stage_stage [OF P t6] inspection_stage_stage [OF P t7]
    package_stage_stage [OF P t8]
  have "sound_stage (\<lambda>h a b st.
     andthen (check_commitment h a b st) (\<lambda>st.
     andthen (check_eligible h a b st) (\<lambda>st.
     andthen (check_repository h a b st) (\<lambda>st.
     andthen (check_environment h a b st) (\<lambda>st.
     andthen (read_proof h a b st) (\<lambda>st.
     andthen (check_sandbox h a b st) (\<lambda>st.
     andthen (open_workspace h a b st) (\<lambda>st.
     andthen (challenge_stage h a b st) (\<lambda>st.
     andthen (inspection_stage h a b st) (package_stage h a b))))))))))"
    by (intro sound_stage_then sound_stages)
  then show "fine h b e" if "established h a b = Inl e"
  proof -
    from \<open>sound_stage _\<close> P t0 have "case established h a b of Inl e \<Rightarrow> fine h b e | Inr st' \<Rightarrow> on_track h b st'"
      unfolding sound_stage_def established_def by blast
    then show ?thesis using that by simp
  qed
  assume "established h a b = Inr st"
  then obtain st1 st2 st3 st4 st5 st6 st7 st8 st9 where
    e: "check_commitment h a b ?s0 = Inr st1" "check_eligible h a b st1 = Inr st2" "check_repository h a b st2 = Inr st3"
      "check_environment h a b st3 = Inr st4" "read_proof h a b st4 = Inr st5" "check_sandbox h a b st5 = Inr st6"
      "open_workspace h a b st6 = Inr st7" "challenge_stage h a b st7 = Inr st8" "inspection_stage h a b st8 = Inr st9"
      "package_stage h a b st9 = Inr st"
    unfolding established_def by auto
  have 1: "st1 = ?s1" using a(2) e(1) by blast
  have 2: "st2 = ?s1" "tm_production_eligible (tb_manifest b)" using a(4) e(2) unfolding 1 by blast+
  obtain c where 3: "st3 = ?s1\<lparr>vs_commit := Some c\<rparr>" "h_commits h = Inr (c, c)" using a(6) e(3) unfolding 2 by blast
  have 4: "st4 = ?s3 (Some c)" using a(8) e(4) unfolding 3 by blast
  have 5: "st5 = ?s4 (Some c)" "\<exists>v static. h_utf8 h (pf_raw (h_proof h)) = Some v \<and>
        check_submission (u_category (h_unicode h)) v (scan_part (tb_manifest b)) = Inr static \<and> sr_valid static"
    using a(10) e(5) unfolding 4 by blast+
  have 6: "st6 = ?s5 (Some c)" "production_sandbox_available (h_platform h) (tools_of h a)" using a(12) e(6) unfolding 5 by blast+
  have 7: "st7 = ?s6 (Some c)" using a(14) e(7) unfolding 6 by blast
  have 8: "st8 = ?s7 (Some c)" using a(16) e(8) unfolding 7 by blast
  have 9: "st9 = ?s8 (Some c)" using a(18) e(9) unfolding 8 by blast
  have 10: "st = ?s8 (Some c)" using a(20) e(10) unfolding 9 by blast
  have "vs_checks st k" if "k \<notin> {Solution_built, Same_statement, Axioms_permitted, Lean_kernel_passed, Nanoda_enabled, Nanoda_passed}" for k
    using that 2(2) unfolding 10 by (cases k) (simp_all add: first_progress_def)
  then show "ready h a b st"
    unfolding ready_def using 3(2) 5(2) 6(2) by (auto simp: 10 first_progress_def)
qed


lemma compare_stage_acts:
  assumes "in_production h a b" and "ready h a b st" and "compare_stage h a b st = Inr r"
  shows "acts_on h b r"
proof -
  let ?m = "tb_manifest b"
  have t: "on_track h b st" using assms(2) by (simp add: ready_def on_track_def)
  have t': "on_track h b (st\<lparr>vs_checks := failed_comparator_checks (vs_checks st) reason (tm_enable_nanoda ?m)\<rparr>)" for reason
    using t by (simp add: on_track_def failed_comparator_checks_def)
  have stage: "comparator_stage reason \<noteq> []" for reason by (simp add: comparator_stage_def)
  have late: "fine h b (out_of_time h a b st ''RUN_COMPARATOR'')" by (rule out_of_time_fine [OF assms(1) t]) simp
  let ?run = "run_comparator h a b (seconds_remaining h b At_comparator)"
  consider (late) "seconds_remaining h b At_comparator \<le> 0"
    | (failed) "0 < seconds_remaining h b At_comparator" "pr_exit_code ?run \<noteq> Some 0 \<or> pr_timed_out ?run"
    | (passed) "0 < seconds_remaining h b At_comparator" "pr_exit_code ?run = Some 0" "\<not> pr_timed_out ?run"
    by linarith
  then show ?thesis
  proof cases
    case late
    then show ?thesis using assms(3) \<open>fine h b (out_of_time h a b st ''RUN_COMPARATOR'')\<close>
      by (simp add: compare_stage_def fine_def Let_def)
  next
    case failed
    then obtain reason where reason: "rejection_reason (h_unicode h) ?run (tm_enable_nanoda ?m) = Inr reason"
      using assms(3) by (auto simp: compare_stage_def Let_def split: sum.splits)
    then have eq: "rejected h a b (st\<lparr>vs_checks := failed_comparator_checks (vs_checks st) reason (tm_enable_nanoda ?m)\<rparr>)
        reason (comparator_stage reason) (pr_stdout ?run) (pr_stderr ?run) (pr_exit_code ?run) (mode_of h a) = Inr r"
      using failed assms(3) by (auto simp: compare_stage_def Let_def)
    have "fine h b (Inr r)"
      unfolding eq [symmetric] by (rule rejected_fine [OF assms(1) t' rejection_never_verified [OF reason] stage mode_text])
    then show ?thesis by (simp add: fine_def)
  next
    case passed
    let ?st = "set_check Nanoda_passed (tm_enable_nanoda ?m)
        (Verification.passed [Solution_built, Same_statement, Axioms_permitted, Lean_kernel_passed] st)"
    have B: "build_report h a b ?st True ''COMPLETED'' R_VERIFIED (pr_exit_code ?run) (pr_stdout ?run) (pr_stderr ?run)
        (mode_of h a) = Inr r"
      using passed assms(3) by (simp add: compare_stage_def Let_def)
    note f = build_report_fields [OF B]
    have mode: "mode_of h a = PRODUCTION_SANDBOX_MODE"
      using assms(2) by (simp add: ready_def production_sandbox_available_def mode_of_def)
    have all: "vs_checks ?st c" if "c \<noteq> Nanoda_enabled" "c \<noteq> Nanoda_passed" for c
      using that assms(2) by (cases c) (simp_all add: ready_def)
    have "0 \<le> elapsed_ms h" using assms(1) by (simp add: elapsed_ms_def in_production_def pos_imp_zdiv_nonneg_iff)
    moreover have "all_passed (vs_checks ?st)" using all by (simp add: all_passed_def)
    ultimately show ?thesis
      using assms(1,2) f mode passed
      by (simp add: acts_on_def actionable_def in_production_def ready_def verification_timeout_seconds_def uc_def
          PRODUCTION_SANDBOX_MODE_def)
  qed
qed


lemma established_accepted:
  assumes "in_production h a b" and "verify h a b = Inr r" and "vr_accepted r"
  obtains st where "established h a b = Inr st" and "compare_stage h a b st = Inr r"
proof (cases "established h a b")
  case (Inl e)
  then have "fine h b e" by (rule established_stage(1) [OF assms(1)])
  then show ?thesis using Inl assms(2,3) by (simp add: verify_def fine_def)
next
  case (Inr st)
  then show ?thesis using that assms(2) by (simp add: verify_def)
qed

lemma accepted_compared:
  assumes "compare_stage h a b st = Inr r" and "vr_accepted r"
  shows "\<exists>seconds > 0. pr_exit_code (run_comparator h a b seconds) = Some 0 \<and> \<not> pr_timed_out (run_comparator h a b seconds)"
proof -
  let ?t = "seconds_remaining h b At_comparator"
  have "0 < ?t"
    using assms by (auto simp: compare_stage_def Let_def out_of_time_def rejected_def dest!: build_report_fields(5) split: if_splits)
  moreover have "pr_exit_code (run_comparator h a b ?t) = Some 0 \<and> \<not> pr_timed_out (run_comparator h a b ?t)"
    using assms \<open>0 < ?t\<close>
    by (auto simp: compare_stage_def Let_def rejected_def dest!: build_report_fields(5) split: if_splits sum.splits)
  ultimately show ?thesis by blast
qed

section \<open>A sample\<close>

text \<open>A task with one source, a machine on which everything goes well, and an empty proof.\<close>

definition sample_manifest :: task_manifest where
  "sample_manifest = \<lparr>tm_schema_version = 2, tm_task_id = [1], tm_repository_commit = Some [2],
     tm_source_theorem = uc ''a'', tm_source_type_hash = [3], tm_generated_target_type_hash = [3],
     tm_task_mode = EXACT_TASK_MODE, tm_theorem_names = [[5]], tm_forbidden_dependencies = [],
     tm_permitted_axioms = [], tm_enable_nanoda = False, tm_timeout_seconds = 60, tm_max_submission_bytes = 10,
     tm_production_eligible = True, tm_answer_policy = \<lparr>ap_syntax = None, ap_allowed_constructors = []\<rparr>,
     tm_environment_identity = None\<rparr>"

definition sample_digest :: chars where
  "sample_digest = uc ''sha256:'' @ replicate 64 48"

definition sample_bundle :: task_bundle where
  "sample_bundle = \<lparr>tb_sha256 = sample_digest, tb_manifest = sample_manifest,
     tb_sources = [\<lparr>src_type_hash = [3], src_transitive_axioms = []\<rparr>]\<rparr>"

definition clean_exit :: process_result where
  "clean_exit = \<lparr>pr_exit_code = Some 0, pr_stdout = [], pr_stderr = [], pr_timed_out = False, pr_signal = None\<rparr>"

definition sample_inspection :: inspection where
  "sample_inspection = \<lparr>in_source_hash = [3], in_target_hash = [3], in_matches = True, in_target_contains_sorry = False,
     in_source_axioms = [], in_source_depends_on_sorry = True, in_source_category = Some (uc ''research open''),
     in_source_has_formal_proof = False, in_source_declaration_kind = uc ''theorem''\<rparr>"

definition sample_host :: host where
  "sample_host = \<lparr>h_unicode = \<lparr>u_lower = (\<lambda>v. v), u_decimal = (\<lambda>_. None), u_category = (\<lambda>_. ''Ll'')\<rparr>,
     h_sha_text = (\<lambda>_. sample_digest), h_sha_bytes = (\<lambda>_. sample_digest), h_utf8 = Some, h_repr = (\<lambda>_. []),
     h_clock = (\<lambda>_. 0), h_project_root = [1], h_workspace_root = [2], h_commits = Inr ([2], [2]),
     h_environment = Inr [], h_proof = \<lparr>pf_lean_suffix = True, pf_exists = True, pf_regular = True, pf_opens = True,
       pf_still_regular = True, pf_raw = []\<rparr>,
     h_platform = \<lparr>on_linux = True, unprivileged = True, executable = (\<lambda>_. True), nanoda_built = True,
       landlock_probe = True, behaviour_probe = True\<rparr>,
     h_workspace_error = None, h_build = (\<lambda>_. clean_exit), h_inspect = (\<lambda>_ _. (clean_exit, Some sample_inspection)),
     h_closure_error = None, h_package_error = None, h_compare = (\<lambda>_. clean_exit)\<rparr>"

definition sample_args :: verify_args where
  "sample_args = \<lparr>va_retain_workspace = False, va_expected_task_sha256 = Some sample_digest,
     va_allow_uncommitted_task = False, va_allow_insecure_development = False, va_allow_test_task = False,
     va_expected_build_provenance = None\<rparr>"

lemma sample_production: "in_production sample_host sample_args sample_bundle"
  by (simp add: in_production_def sample_host_def sample_args_def sample_bundle_def sample_manifest_def)

lemma sample_digest_ok: "is_sha256 sample_digest"
  by (simp add: is_sha256_def sample_digest_def uc_def starts_def ascii_digit_def)

lemma empty_scan:
  "check_submission category [] \<lparr>theorem_names = ns, forbidden_dependencies = [],
     answer_policy = \<lparr>ap_syntax = None, ap_allowed_constructors = []\<rparr>\<rparr> = Inr \<lparr>sr_valid = True, sr_violations = [], sr_submitted_answer = None\<rparr>"
  by (simp add: check_submission_def lean_tokens_def literal_answer_def hidden_character_def first_of_each_def)

lemma sample_bundle_parts:
  "tb_sources sample_bundle = [\<lparr>src_type_hash = [3], src_transitive_axioms = []\<rparr>]"
  "tm_theorem_names (tb_manifest sample_bundle) = [[5]]" "tb_manifest sample_bundle = sample_manifest"
  "tm_source_type_hash sample_manifest = [3]" "tm_generated_target_type_hash sample_manifest = [3]"
  "in_source_hash sample_inspection = [3]" "in_target_hash sample_inspection = [3]" "in_matches sample_inspection"
  by (simp_all add: sample_bundle_def sample_manifest_def sample_inspection_def)

lemma sample_seconds: "seconds_remaining sample_host sample_bundle t = 14400"
  by (simp add: seconds_remaining_def sample_host_def sample_bundle_def sample_manifest_def
      verification_timeout_seconds_def DEFAULT_TIMEOUT_SECONDS_def)

lemma sample_established:
  "\<exists>st. established sample_host sample_args sample_bundle = Inr st"
proof -
  have e: "\<not> is_v2 sample_manifest" by (simp add: is_v2_def sample_manifest_def V2_TASK_MANIFEST_SCHEMA_def)
  have 1: "check_commitment sample_host sample_args sample_bundle st = Inr (passed [Task_commitment_valid] st)" for st
    using sample_digest_ok by (simp add: check_commitment_def sample_args_def sample_bundle_def)
  have 2: "check_eligible sample_host sample_args sample_bundle st = Inr st" for st
    by (simp add: check_eligible_def sample_bundle_def sample_manifest_def)
  have 3: "check_repository sample_host sample_args sample_bundle st = Inr (st\<lparr>vs_commit := Some [2]\<rparr>)" for st
    using e by (simp add: check_repository_def sample_bundle_def sample_host_def) (simp add: sample_manifest_def)
  have 4: "check_environment sample_host sample_args sample_bundle st = Inr (passed [Trusted_hashes_valid] st)" for st
    using e by (simp add: check_environment_def sample_bundle_def)
  have 5: "\<exists>st'. read_proof sample_host sample_args sample_bundle st = Inr st'" for st
    by (simp add: read_proof_def sample_bundle_def sample_host_def sample_manifest_def load_submission_def
        load_submission_bytes_def scan_part_def empty_scan)
  have 6: "\<exists>st'. check_sandbox sample_host sample_args sample_bundle st = Inr st'" for st
    by (simp add: check_sandbox_def tools_of_def resolve_tools_def sample_args_def sample_host_def
        production_sandbox_available_def missing_tools_def safe_executable_def landlock_available_def sandbox_self_test_def)
  have 7: "open_workspace sample_host sample_args sample_bundle st = Inr (st\<lparr>vs_in_workspace := True\<rparr>)" for st
    by (simp add: open_workspace_def sample_host_def)
  have 8: "challenge_stage sample_host sample_args sample_bundle st = Inr (passed [Challenge_built] st)" for st
    by (simp add: challenge_stage_def sample_seconds) (simp add: sample_host_def clean_exit_def)
  have i: "inspect_generated_target (h_inspect sample_host k seconds) = Inr sample_inspection" for k seconds
    by (simp add: inspect_generated_target_def sample_host_def clean_exit_def)
  have f: "inspect_from sample_host sample_args sample_bundle st 0 (tb_sources sample_bundle)
      (tm_theorem_names (tb_manifest sample_bundle)) = Inr [sample_inspection]" for st
    unfolding sample_bundle_parts(1,2) by (simp add: sample_seconds i Let_def andthen_def)
  have p: "\<not> policy_differs sample_manifest (\<lparr>src_type_hash = [3], src_transitive_axioms = []\<rparr>, sample_inspection)"
    by (simp add: policy_differs_def sample_inspection_def sample_manifest_def is_production_task_mode_def
        EXACT_TASK_MODE_def COUNTEREXAMPLE_TASK_MODE_def uc_def)
  have 9: "inspection_stage sample_host sample_args sample_bundle st = Inr (passed [Source_type_hash_valid] st)" for st
    unfolding inspection_stage_def Let_def f using e p by (simp add: andthen_def closure_check_def sample_bundle_parts)
  have 10: "package_stage sample_host sample_args sample_bundle st = Inr st" for st
    by (simp add: package_stage_def sample_host_def)
  show ?thesis using 5 6 by (simp add: established_def 1 2 3 4 7 8 9 10) blast
qed

lemma build_report_total: "\<exists>r. build_report h a b st accepted stage reason code stdout stderr mode = Inr r"
  by (simp add: build_report_def Let_def problem_id_def)

lemma sample_accepted: "\<exists>r. verify sample_host sample_args sample_bundle = Inr r \<and> vr_accepted r"
proof -
  obtain st where st: "established sample_host sample_args sample_bundle = Inr st" using sample_established by blast
  have c: "run_comparator sample_host sample_args sample_bundle seconds = clean_exit" for seconds
    by (simp add: run_comparator_def missing_tools_def tools_of_def resolve_tools_def safe_executable_def
        sample_host_def sample_args_def sample_bundle_def sample_manifest_def)
  obtain r where r: "build_report sample_host sample_args sample_bundle
      (set_check Nanoda_passed (tm_enable_nanoda (tb_manifest sample_bundle))
        (passed [Solution_built, Same_statement, Axioms_permitted, Lean_kernel_passed] st))
      True ''COMPLETED'' R_VERIFIED (Some 0) [] [] (mode_of sample_host sample_args) = Inr r"
    using build_report_total by blast
  have "verify sample_host sample_args sample_bundle = Inr r"
    using r by (simp add: verify_def st compare_stage_def sample_seconds c clean_exit_def Let_def)
  then show ?thesis using build_report_fields(5) [OF r] by blast
qed

section \<open>Properties\<close>

text \<open>
  C16. The worker acts on every report of a verification in production: when the caller named the
  task's digest and set no override, whatever the machine answers, the report that comes back passes
  every test of \<open>assert_production_report\<close> for that task and that proof.
\<close>

theorem report_is_actionable:
  assumes "in_production h a b" and "verify h a b = Inr r"
  shows "assert_production_report (report_json r) (tm_task_id (tb_manifest b)) (tb_sha256 b) (proof_digest h)
    (tm_enable_nanoda (tb_manifest b)) = Inr ()"
proof -
  have "acts_on h b r"
  proof (cases "established h a b")
    case (Inl e)
    then have "fine h b e" by (rule established_stage(1) [OF assms(1)])
    then show ?thesis using Inl assms(2) by (simp add: verify_def fine_def)
  next
    case (Inr st)
    then show ?thesis
      using compare_stage_acts [OF assms(1) established_stage(2) [OF assms(1) Inr]] assms(2) by (simp add: verify_def)
  qed
  then show ?thesis unfolding acts_on_def assert_production_report_iff .
qed

theorem report_is_actionable_witness:
  "\<exists>r. verify sample_host sample_args sample_bundle = Inr r \<and> vr_accepted r \<and>
     assert_production_report (report_json r) [1] sample_digest sample_digest False = Inr ()"
proof -
  obtain r where r: "verify sample_host sample_args sample_bundle = Inr r" "vr_accepted r" using sample_accepted by blast
  from report_is_actionable [OF sample_production r(1)]
  have "assert_production_report (report_json r) [1] sample_digest sample_digest False = Inr ()"
    by (simp add: proof_digest_def sample_bundle_def sample_manifest_def) (simp add: sample_host_def)
  with r show ?thesis by blast
qed

text \<open>
  C17. A verification in production accepts only what passed everything: the environment is at its own
  pinned commit, the production sandbox was probed and is in force, the bytes of the proof decode to a
  text the scan accepts, every check but Nanoda's is set, and the comparator ended with exit code 0
  within its budget.
\<close>

theorem accepted_passed_everything:
  assumes "in_production h a b" and "verify h a b = Inr r" and "vr_accepted r"
  shows "all_passed (vr_checks r) \<and> vr_submission_sha256 r = proof_digest h \<and>
    production_sandbox_available (h_platform h) (tools_of h a) \<and>
    (\<exists>commit. h_commits h = Inr (commit, commit)) \<and>
    (\<exists>v static. h_utf8 h (pf_raw (h_proof h)) = Some v \<and>
       check_submission (u_category (h_unicode h)) v (scan_part (tb_manifest b)) = Inr static \<and> sr_valid static) \<and>
    (\<exists>seconds > 0. pr_exit_code (run_comparator h a b seconds) = Some 0 \<and> \<not> pr_timed_out (run_comparator h a b seconds))"
proof -
  obtain st where st: "established h a b = Inr st" "compare_stage h a b st = Inr r"
    by (rule established_accepted [OF assms])
  have R: "ready h a b st" by (rule established_stage(2) [OF assms(1) st(1)])
  have "acts_on h b r" by (rule compare_stage_acts [OF assms(1) R st(2)])
  then show ?thesis
    using R assms(3) accepted_compared [OF st(2) assms(3)] by (simp add: acts_on_def actionable_def ready_def)
qed

theorem accepted_passed_everything_witness:
  "\<exists>r. verify sample_host sample_args sample_bundle = Inr r \<and> all_passed (vr_checks r)"
proof -
  obtain r where r: "verify sample_host sample_args sample_bundle = Inr r" "vr_accepted r" using sample_accepted by blast
  from accepted_passed_everything [OF sample_production r] r show ?thesis by blast
qed

end
