(* ===== verification/Spec2Isabelle.thy ===== *)
theory Spec2Isabelle
  imports Ratelimit Customers PayoutWatcher Bounty Emissions Verification
begin

text \<open>
  The conjectures validator takes in proofs of open conjectures, verifies them in a sandbox, has them
  reviewed and pays bounties.  Miners pay for each attempt, either by quoting a transfer to the
  validator's treasury or by spending prepaid credits.  This development models the part of it that
  decides about money and about verdicts: the database functions of \<open>conjectures_subnet/db\<close>, the
  deposit and payout watchers and the chain reader they rest on, the price of a bounty, the payout
  notifier, the weight vector of the subnet's emissions, the verifier around the Lean tools, and the
  API's rate limiter.

  \<^bold>\<open>How the code is modelled.\<close>  A function of the \<open>db\<close> package runs in the transaction of the session it
  is handed and is atomic, so it is a function \<open>db \<Rightarrow> db_error + 'a \<times> db\<close>: an error carries no state,
  because the transaction is rolled back.  The database is a record of tables, each a list of rows in
  insertion order, with its sequences, the clock \<open>now()\<close> and the SHA-256 of the server as a parameter.
  Every insert and update goes through the constraints of the table, as PostgreSQL checks them, and
  raises the name of the first that fails.  A watcher opens several transactions per block, so its
  methods return the state they left whatever the result is.  Amounts and instants are integers, UUIDs
  are numbers drawn from one sequence, row locks appear as the atomicity of a step.

  \<^bold>\<open>The theories.\<close>
  \<^item> \<open>Prelude\<close>: the transaction type and its laws, sums over rows, the locale \<open>invariant_of\<close>, in which an
    invariant is lifted from steps to runs.
  \<^item> \<open>Schema\<close> (\<open>db/models.py\<close>, \<open>db/errors.py\<close>): rows, states, constraints, triggers, the generic writes and
    the locale \<open>table\<close>, interpreted on every table that is updated by key.
  \<^item> \<open>Digests\<close> (\<open>db/digests.py\<close>): the text and stored form of a digest, with the round trip.
  \<^item> \<open>Credits\<close> (\<open>db/credits.py\<close>): balances, holds, package bonuses, ledger entries, deposits.
  \<^item> \<open>Transfers\<close> (\<open>db/transfers.py\<close>): the cursor, recording an arrival, attribution and crediting.
  \<^item> \<open>ChainReader\<close> (\<open>conjectures_subnet/transfers.py\<close>): references and their parser, resolving a quoted
    transfer, the doubling and bisecting search for the genesis block, with its termination and
    exactness.
  \<^item> \<open>ChainEvents\<close> (\<open>conjectures_subnet/transfers.py\<close>): transfers and payouts decoded from the event
    records of a block; every payout is paired with an addition of its own.
  \<^item> \<open>Watcher\<close> (\<open>deposit_watcher/watcher.py\<close>): startup, one arrival, one block, one pass, catching up; no
    arrival is missed whatever fails, and none is credited twice.
  \<^item> \<open>Submissions\<close> (\<open>db/submissions.py\<close>): intake, verdicts, automatic and human decisions, corrections, reads.
  \<^item> \<open>Intents\<close> (\<open>db/intents.py\<close>): hold, attach, confirm, cancel, expire, and the timeline.
  \<^item> \<open>Accounts\<close> (\<open>db/accounts.py\<close>): accounts, passwords, linked coldkeys and identities, sessions and login
    challenges; what holds of every row, and that a revocation and a consumption are for ever.
  \<^item> \<open>Purchases\<close> (\<open>db/tmc_pay.py\<close>): card orders, invoices, settlement and webhook deliveries; what the
    ledger says was purchased is what the credited orders collected.
  \<^item> \<open>Invitations\<close> (\<open>db/invitations.py\<close>): invitation links, redemption and listings.
  \<^item> \<open>Leases\<close> (\<open>db/verification.py\<close>): the worker queue and the exclusiveness of a lease.
  \<^item> \<open>Funding\<close>: the transactions of the money side as the relation \<open>money_step\<close>, and the invariant
    \<open>funding_inv\<close>: keys are fresh, no account is overdrawn, money is conserved.
  \<^item> \<open>Customers\<close>: the invariant \<open>customers_ok\<close> of accounts, sessions, orders and invitations across the whole
    system, and the sources of a balance.
  \<^item> \<open>PayoutTables\<close> (\<open>db/models.py\<close>, \<open>db/bounty_policy.py\<close>, \<open>db/trajectory_fulfillment.py\<close>): the tables of the
    paying side with their triggers: the price an automatic instruction must have, the evidence a
    chat-log bounty needs, the bonus ledger.
  \<^item> \<open>Payouts\<close> (\<open>db/payouts.py\<close>, \<open>db/payout_instructions.py\<close>): matching transfers of the treasury to
    obligations, sightings and their reversal, the operator's decisions.
  \<^item> \<open>Notifier\<close> (\<open>payout_notifier/worker.py\<close>): writing payout instructions and the outbox of messages.
  \<^item> \<open>Reviews\<close>: the transactions of the judgement side as \<open>review_step\<close>, and the invariant \<open>review_inv\<close>.
  \<^item> \<open>Settlement\<close>: the transactions of the paying side as \<open>payout_step\<close>, and the invariant \<open>payout_inv\<close>: a
    claimed transfer and the obligation it pays belong to each other alone.
  \<^item> \<open>PayoutWatcher\<close> (\<open>payout_watcher/watcher.py\<close>): the cursor, finalized blocks, the best-chain tail and
    the pauses between passes; nothing the treasury paid is missed, and sightings follow the best chain.
  \<^item> \<open>Bounty\<close> (\<open>conjectures_subnet/bounty.py\<close>, \<open>db/proof_status.py\<close>): the formula, the pool snapshot, single and
    locked quotes, the cached balance; a locked price is covered by the treasury.
  \<^item> \<open>Emissions\<close> (\<open>emissions_worker\<close>): the split, the combined vector and the plan of an epoch.
  \<^item> \<open>Ratelimit\<close> (\<open>submission_api/ratelimit.py\<close>): the sliding window limiter, proved to refine a limiter
    that forgets nothing through the locale \<open>window_limiter\<close>.
  \<^item> \<open>StaticChecks\<close> (\<open>verifier/static_checks.py\<close>): the lexer and the source policy of a submission; what it
    finds outside comments and literals, and what a raw string hides from it.
  \<^item> \<open>Verdicts\<close> (\<open>verifier/errors.py\<close>, \<open>verification_worker/outcomes.py\<close>, \<open>verifier/comparator.py\<close>,
    \<open>verifier/reports.py\<close>, \<open>verification_worker/runner.py\<close>): reason codes, bounded captures, the reason of a
    failed run, the report and the tests it must pass in production.
  \<^item> \<open>Verification\<close> (\<open>verifier/verification.py\<close>, \<open>verifier/submission.py\<close>): the stages of \<open>verify\<close>; every
    report it makes in production is one the worker acts on, and an accepted one passed everything.

  Both watchers are instances of the locale \<open>block_follower\<close> of \<open>Prelude\<close>: a position that moves only past a
  block whose scan went through, and a record that only grows.

  This theory composes the three machines into \<open>system_step\<close> and states what holds in every reachable state.

  \<^bold>\<open>Loops and bounds.\<close>  The chain search is proved to terminate; \<open>catch_up\<close> takes the number of passes its
  argument \<open>max_passes\<close> allows and is shown to reach the head when they suffice.  All other loops are
  over lists; the lexer's recursion is on the text that is left.

  \<^bold>\<open>Parameters.\<close>  The chain (a record of the reads of \<open>TransferSource\<close>, each of which may fail), SHA-256,
  the verdict of the sandbox, the price quoted for a defect award, the SS58 encoder, the price feed of the
  payout watcher, the treasury balance a quote reads, and the answer of the score endpoint.  The secrets of
  sessions, challenges and invitations are arguments.  The paying machine lets chat-log claims change in
  any way.  In the verifier: the answers of the machine (record \<open>host\<close>: the pinned commits, the proof file,
  the isolation probes, Lean's builds, the comparator, the clock), Unicode's tables, UTF-8 and SHA-256.

  \<^bold>\<open>Not modelled.\<close>  The HTTP layer and the calls to the payment provider, the review and sale of chat
  logs, the loading of tasks and the derivation of their identities, the commands and mounts of the
  container, the node client, logging, and the texts of error messages that interpolate
  values for operators (the watcher's start-up errors).  Text is ASCII.
\<close>

section \<open>The system\<close>

text \<open>
  One run of the deployment: any interleaving of the transactions of the money side, of the
  judgement side and of the paying side, from a freshly migrated database whose \<open>sha256\<close> is \<open>sha\<close>.
\<close>

inductive system_step :: "(bytes \<Rightarrow> bytes) \<Rightarrow> db \<Rightarrow> db \<Rightarrow> bool" for sha where
  money: "money_step s s' \<Longrightarrow> system_step sha s s'"
| review: "review_step sha s s' \<Longrightarrow> system_step sha s s'"
| paying: "payout_step s s' \<Longrightarrow> system_step sha s s'"

definition fresh :: "(bytes \<Rightarrow> bytes) \<Rightarrow> db \<Rightarrow> bool" where
  "fresh sha s \<longleftrightarrow> (\<exists>now. s = empty_db sha now)"

definition reachable :: "(bytes \<Rightarrow> bytes) \<Rightarrow> db \<Rightarrow> bool" where
  "reachable sha s \<longleftrightarrow> (\<exists>s0. fresh sha s0 \<and> (system_step sha)\<^sup>*\<^sup>* s0 s)"

definition system_inv :: "db \<Rightarrow> bool" where
  "system_inv s \<longleftrightarrow> funding_inv s \<and> review_inv s \<and> paid_once s \<and> payout_inv s \<and> customers_ok s"

lemma paid_once_empty: "paid_once (empty_db sha now)"
  by (simp add: paid_once_def empty_db_def List.map_filter_simps)

interpretation books: invariant_of "fresh sha" "system_step sha" system_inv for sha
proof
  fix s assume "fresh sha s"
  then show "system_inv s"
    by (auto simp: fresh_def system_inv_def funding_inv_empty review_inv_empty paid_once_empty payout_inv_empty
      customers_ok_empty)
next
  fix s s' assume "system_step sha s s'" and inv: "system_inv s"
  then show "system_inv s'"
  proof cases
    case money
    then have "intake_only s s'" by (rule money_step_intake)
    then show ?thesis using inv funding_inv_step [OF money] intake_only_inv intake_paid_once
        kept_inv [OF intake_kept] money_step_customers_ok [OF money] by (auto simp: system_inv_def)
  next
    case review
    then have "review_inv s'" "money_frame s s'" using inv review_step_effect by (auto simp: system_inv_def)
    then show ?thesis using inv money_frame_funding_inv money_frame_paid_once kept_inv [OF review_step_kept [OF review]]
        customer_same_ok [OF customer_same_money] by (auto simp: system_inv_def)
  next
    case paying
    then have "sound s s'" using inv payout_step_sound by (auto simp: system_inv_def)
    then show ?thesis using inv money_frame_funding_inv money_frame_paid_once
        customer_same_ok [OF customer_same_money] by (auto simp: system_inv_def sound_def)
  qed
qed

lemma reachable_inv: "reachable sha s \<Longrightarrow> funding_inv s \<and> review_inv s \<and> paid_once s \<and> payout_inv s \<and> customers_ok s"
  using books.reach_inv [of sha] by (auto simp: reachable_def system_inv_def)

lemma reachable_step: "reachable sha s \<Longrightarrow> system_step sha s s' \<Longrightarrow> reachable sha s'"
  by (auto simp: reachable_def intro: rtranclp.rtrancl_into_rtrancl)

lemma reachable_run: "reachable sha s \<Longrightarrow> (system_step sha)\<^sup>*\<^sup>* s s' \<Longrightarrow> reachable sha s'"
  unfolding reachable_def by (meson rtranclp_trans)

text \<open>What any run from a reachable state relates.\<close>

lemma run_history:
  assumes "reachable sha s" and "(system_step sha)\<^sup>*\<^sup>* s s'"
  shows "history s s'"
proof -
  have inv: "system_inv s" using reachable_inv [OF assms(1)] by (simp add: system_inv_def)
  have "history s1 s2" if "system_step sha s1 s2" "system_inv s1" for s1 s2
    using that
    by cases (auto simp: system_inv_def sound_def dest: money_step_history review_step_history payout_step_sound)
  then show ?thesis by (rule books.run_relates [where r = history, OF _ history_refl history_trans assms(2) inv])
qed

lemma run_remembers:
  assumes "reachable sha s" and "(system_step sha)\<^sup>*\<^sup>* s s'"
  shows "remembers s s'"
proof -
  have inv: "system_inv s" using reachable_inv [OF assms(1)] by (simp add: system_inv_def)
  have "remembers s1 s2" if "system_step sha s1 s2" "system_inv s1" for s1 s2
    using that(1)
  proof cases
    case review
    then have "money_frame s1 s2" using that(2) review_step_effect by (simp add: system_inv_def)
    then show ?thesis by (intro customer_same_remembers customer_same_money)
  next
    case paying
    then have "money_frame s1 s2" using that(2) payout_step_sound by (simp add: system_inv_def sound_def)
    then show ?thesis by (intro customer_same_remembers customer_same_money)
  qed (rule money_step_remembers)
  then show ?thesis by (rule books.run_relates [where r = remembers, OF _ remembers_refl remembers_trans assms(2) inv])
qed

section \<open>A complete run\<close>

text \<open>
  An account opens; three credits arrive on chain, are recorded and credited; two are held, a proof
  is attached and confirmed; a worker claims the submission and its verdict makes it eligible.
\<close>

definition open_account :: "ss58 option \<Rightarrow> account_row dbtx" where
  "open_account k =
     bindT (create_account (Some ''a@b.c'') True None None None) (\<lambda>a.
       bindT (get_account (a_id a)) (\<lambda>x. set_payout_coldkey x k))"

definition zero_sha :: "bytes \<Rightarrow> bytes" where
  "zero_sha = (\<lambda>_. replicate 32 0)"

definition sample_run :: "recorded_verdict dbtx" where
  "sample_run =
     thenT (open_account (Some ''A''))
    (thenT (record_transfer (sample_arrival\<lparr>ar_amount_rao := 30\<rparr>))
    (thenT (settle (sample_settings\<lparr>ws_credit_price_rao := 10\<rparr>) 1 (sample_arrival\<lparr>ar_amount_rao := 30\<rparr>) True)
    (thenT (\<lambda>s. open_intent 0 ''task'' zero_digest 10 900 (clock s) 2 None None s)
    (thenT (bindT (get_intent 2 0) (\<lambda>i s. attach_bundle i [1, 2, 3] zero_digest zero_digest (clock s) s))
    (thenT (\<lambda>s. confirm 2 0 sample_confirmation (clock s) s)
    (thenT (claim_next ''w1'' 60 3 sample_served [])
    (bindT (locked_row 3 ''w1'') (\<lambda>x. record_verification_result zero_sha x sample_verdict))))))))"

lemma sample_run_reachable:
  assumes "sample_run s0 = Inr (rv, s)" and "fresh zero_sha s0"
  shows "reachable zero_sha s"
proof -
  let ?arr = "sample_arrival\<lparr>ar_amount_rao := 30\<rparr>"
  let ?ws = "sample_settings\<lparr>ws_credit_price_rao := 10\<rparr>"
  from assms(1) obtain a1 s1 r2 s2 r3 s3 i4 b4 s4 i5 j5 s5 c6 s6 c7 s7 x8 where
    1: "open_account (Some ''A'') s0 = Inr (a1, s1)"
    and 2: "record_transfer ?arr s1 = Inr (r2, s2)"
    and 3: "settle ?ws 1 ?arr True s2 = Inr (r3, s3)"
    and 4: "open_intent 0 ''task'' zero_digest 10 900 (clock s3) 2 None None s3 = Inr ((i4, b4), s4)"
    and 5: "find_row i_id 2 (intents s4) = Some i5" "attach_bundle i5 [1, 2, 3] zero_digest zero_digest (clock s4) s4 = Inr (j5, s5)"
    and 6: "confirm 2 0 sample_confirmation (clock s5) s5 = Inr (c6, s6)"
    and 7: "claim_next ''w1'' 60 3 sample_served [] s6 = Inr (c7, s7)"
    and 8: "locked_row 3 ''w1'' s7 = Inr (x8, s7)" "record_verification_result zero_sha x8 sample_verdict s7 = Inr (rv, s)"
    unfolding sample_run_def
    by (auto simp: bindT_Inr_iff thenT_Inr_iff locked_row_def split: option.splits)
  have lock: "lock_owned_for_recording s7 3 ''w1'' = Some x8"
    using 8(1) by (auto simp: locked_row_def split: option.splits)
  from 1 obtain a u x where a: "create_account (Some ''a@b.c'') True None None None s0 = Inr (a, u)"
    and x: "find_row a_id (a_id a) (accounts u) = Some x" "set_payout_coldkey x (Some ''A'') u = Inr (a1, s1)"
    by (auto simp: open_account_def bindT_Inr_iff get_account_def split: option.splits)
  have "(system_step zero_sha)\<^sup>*\<^sup>* s0 u"
    using account_step.created [OF a] by (intro r_into_rtranclp system_step.money account_changed)
  also have "system_step zero_sha u s1" using account_step.payout_set [OF x] by (intro system_step.money account_changed)
  also have "system_step zero_sha s1 s2" using transfer_recorded [OF 2] by (rule system_step.money)
  also have "system_step zero_sha s2 s3" using transfer_settled [OF 3] by (rule system_step.money)
  also have "system_step zero_sha s3 s4" using intent_opened [OF 4] by (rule system_step.money)
  also have "system_step zero_sha s4 s5" using bundle_attached [OF 5] by (rule system_step.money)
  also have "system_step zero_sha s5 s6" using intent_confirmed [OF 6] by (rule system_step.money)
  also have "system_step zero_sha s6 s7" using claimed [OF 7] by (rule system_step.review)
  also have "system_step zero_sha s7 s" using review_step.verdict [OF lock 8(2)] by (rule system_step.review)
  finally show ?thesis using assms(2) by (auto simp: reachable_def)
qed

lemma sample_run_ok:
  "\<exists>s x. reachable zero_sha s \<and> balance_rao s 0 = 10 \<and> held_rao s 0 100 = 0 \<and> arrived_rao s 0 = 30 \<and>
     spent_rao s 0 = 20 \<and> x \<in> set (submissions s) \<and> s_id x = 3 \<and> s_credit_ledger_id x = Some 2 \<and>
     s_reward_status x = ELIGIBLE"
proof -
  let ?s0 = "empty_db zero_sha 100"
  have "case sample_run ?s0 of Inl _ \<Rightarrow> False | Inr (rv, s) \<Rightarrow>
     balance_rao s 0 = 10 \<and> held_rao s 0 100 = 0 \<and> arrived_rao s 0 = 30 \<and> spent_rao s 0 = 20 \<and>
     list_ex (\<lambda>x. s_id x = 3 \<and> s_credit_ledger_id x = Some 2 \<and> s_reward_status x = ELIGIBLE) (submissions s)"
    by code_simp
  then obtain rv s x where r: "sample_run ?s0 = Inr (rv, s)" and s: "balance_rao s 0 = 10" "held_rao s 0 100 = 0"
     "arrived_rao s 0 = 30" "spent_rao s 0 = 20" "x \<in> set (submissions s)" "s_id x = 3" "s_credit_ledger_id x = Some 2"
     "s_reward_status x = ELIGIBLE"
    by (auto simp: succeeds_iff list_ex_iff)
  have "fresh zero_sha ?s0" by (auto simp: fresh_def)
  from sample_run_reachable [OF r this] s show ?thesis by blast
qed

text \<open>The run goes on: the notifier writes the payout instruction, the treasury pays it and the watcher claims the payment.\<close>

definition sample_settled :: "db \<Rightarrow> db_error + payout_update option \<times> db" where
  "sample_settled =
     thenT sample_run
    (thenT (seed_reward_events None)
    (bindT (record_payout (sample_payout\<lparr>op_destination_coldkey := ''A''\<rparr>) None) (\<lambda>p. claim_payout (tp_id p))))"

lemma seed_reward_events_step:
  assumes "seed_reward_events q s = Inr (k, s')"
  shows "payout_step s s'"
  using assms by (auto simp: seed_reward_events_def Let_def intro: seeded)

lemma sample_settled_reachable:
  assumes "sample_settled s0 = Inr (u, s)" and "fresh zero_sha s0"
  shows "reachable zero_sha s"
proof -
  from assms(1) obtain rv s1 k s2 p s3 where 1: "sample_run s0 = Inr (rv, s1)" and 2: "seed_reward_events None s1 = Inr (k, s2)"
    and 3: "record_payout (sample_payout\<lparr>op_destination_coldkey := ''A''\<rparr>) None s2 = Inr (p, s3)"
    and 4: "claim_payout (tp_id p) s3 = Inr (u, s)"
    unfolding sample_settled_def by (auto simp: bindT_Inr_iff thenT_Inr_iff)
  have "(system_step zero_sha)\<^sup>*\<^sup>* s1 s2" using seed_reward_events_step [OF 2] system_step.paying by blast
  also have "system_step zero_sha s2 s3" using payout_recorded [OF 3] by (rule system_step.paying)
  also have "system_step zero_sha s3 s" using payout_claimed [OF 4] by (rule system_step.paying)
  finally show ?thesis using sample_run_reachable [OF 1 assms(2)] unfolding reachable_def by (meson rtranclp_trans)
qed

lemma sample_settled_ok:
  "\<exists>s p e x. reachable zero_sha s \<and> treasury_payouts s = [p] \<and> tp_status p = CLAIMED \<and> tp_amount_rao p = 1000 \<and>
     reward_events s = [e] \<and> rw_generation_key e = Some ''submission:3'' \<and> rw_submission_id e = 3 \<and>
     rw_eligibility_reason e = ''AUTO_REVIEW_DISABLED'' \<and>
     find_row s_id 3 (submissions s) = Some x \<and> s_bounty_amount_rao x = 1000"
proof -
  let ?s0 = "empty_db zero_sha 100"
  have "case sample_settled ?s0 of Inl _ \<Rightarrow> False | Inr (u, s) \<Rightarrow>
     (case treasury_payouts s of [] \<Rightarrow> False | p # ps \<Rightarrow> ps = [] \<and> tp_status p = CLAIMED \<and> tp_amount_rao p = 1000) \<and>
     (case reward_events s of [] \<Rightarrow> False | e # es \<Rightarrow> es = [] \<and> rw_generation_key e = Some ''submission:3'' \<and>
        rw_submission_id e = 3 \<and> rw_eligibility_reason e = ''AUTO_REVIEW_DISABLED'') \<and>
     (case find_row s_id 3 (submissions s) of None \<Rightarrow> False | Some x \<Rightarrow> s_bounty_amount_rao x = 1000)"
    by code_simp
  then obtain u s where r: "sample_settled ?s0 = Inr (u, s)" and s:
     "\<exists>p. treasury_payouts s = [p] \<and> tp_status p = CLAIMED \<and> tp_amount_rao p = 1000"
     "\<exists>e. reward_events s = [e] \<and> rw_generation_key e = Some ''submission:3'' \<and>
        rw_submission_id e = 3 \<and> rw_eligibility_reason e = ''AUTO_REVIEW_DISABLED''"
     "\<exists>x. find_row s_id 3 (submissions s) = Some x \<and> s_bounty_amount_rao x = 1000"
    by (auto simp: succeeds_iff finds_iff nonempty_iff)
  have "fresh zero_sha ?s0" by (auto simp: fresh_def)
  from sample_settled_reachable [OF r this] s show ?thesis by blast
qed

section \<open>Properties\<close>



text \<open>
  C2.  Money is conserved per account: what the ledger credits it for chain deposits is exactly the
  sum of the transfers attributed to it, and what the ledger charges it is exactly what its
  confirmed intents held.
\<close>

theorem money_conserved:
  assumes "reachable sha s"
  shows "deposited_rao s a = arrived_rao s a \<and> spent_rao s a = confirmed_rao s a"
  using reachable_inv [OF assms] by (simp add: funding_inv_def conserved_def)

theorem money_conserved_witness:
  "\<exists>s. reachable zero_sha s \<and> arrived_rao s 0 = 30 \<and> deposited_rao s 0 = 30 \<and> spent_rao s 0 = 20 \<and> confirmed_rao s 0 = 20"
proof -
  obtain s where s: "reachable zero_sha s" "arrived_rao s 0 = 30" "spent_rao s 0 = 20" using sample_run_ok by blast
  from money_conserved [OF s(1), of 0] s show ?thesis by auto
qed

text \<open>
  C3.  A payment buys one thing.  A transfer has one row; if it pays for a submission directly, that
  row is out of the credit path, so it is in nobody's credits; and no two submissions name the same
  transfer, the same ledger entry or the same intent as their funding.
\<close>

theorem payment_buys_one_thing:
  assumes "reachable sha s" and "x \<in> set (submissions s)"
  shows "(\<forall>ref. s_payment_reference x = Some ref \<longrightarrow>
      (\<exists>t. {u \<in> set (transfers s). t_extrinsic_reference u = ref} = {t} \<and> t_status t = T_IGNORED)) \<and>
    distinct (List.map_filter s_payment_reference (submissions s)) \<and>
    distinct (List.map_filter s_credit_ledger_id (submissions s)) \<and>
    distinct (List.map_filter s_intent_id (submissions s))"
proof -
  have inv: "spent_once s" "well_keyed s" "paid_once s"
    using reachable_inv [OF assms(1)] by (simp_all add: funding_inv_def)
  have "\<exists>t. {u \<in> set (transfers s). t_extrinsic_reference u = ref} = {t} \<and> t_status t = T_IGNORED"
    if "s_payment_reference x = Some ref" for ref
  proof -
    from inv(1) assms(2) that obtain t where t: "t \<in> set (transfers s)" "t_extrinsic_reference t = ref" "t_status t = T_IGNORED"
      by (auto simp: spent_once_def)
    have "distinct (map t_extrinsic_reference (transfers s))" using inv(2) by (simp add: well_keyed_def)
    then have "u = t" if "u \<in> set (transfers s)" "t_extrinsic_reference u = ref" for u
      using that t(1,2) by (metis find_row_unique option.inject)
    then have "{u \<in> set (transfers s). t_extrinsic_reference u = ref} = {t}" using t by blast
    then show ?thesis using t(3) by blast
  qed
  then show ?thesis using inv(3) unfolding paid_once_def by blast
qed

theorem payment_buys_one_thing_witness:
  "\<exists>s x. reachable zero_sha s \<and> x \<in> set (submissions s) \<and> s_credit_ledger_id x = Some 2 \<and>
     distinct (List.map_filter s_credit_ledger_id (submissions s))"
proof -
  obtain s x where s: "reachable zero_sha s" "x \<in> set (submissions s)" "s_credit_ledger_id x = Some 2"
    using sample_run_ok by blast
  from payment_buys_one_thing [OF s(1,2)] s show ?thesis by blast
qed

text \<open>
  C8.  A submission funded by credits was paid for by its own account: the entry it names exists, is
  a SPEND of the account it belongs to for the intent it came from, and took a positive amount.
\<close>

theorem submission_paid_by_own_spend:
  assumes "reachable sha s" and "x \<in> set (submissions s)" and "s_credit_ledger_id x = Some n"
  shows "\<exists>l \<in> set (ledger s). l_id l = n \<and> l_kind l = SPEND \<and> Some (l_account_id l) = s_account_id x \<and>
    l_intent_id l = s_intent_id x \<and> l_amount_rao l < 0"
  using reachable_inv [OF assms(1)] assms(2,3) by (auto simp: funding_inv_def funded_def)

theorem submission_paid_by_own_spend_witness:
  "\<exists>s x. reachable zero_sha s \<and> x \<in> set (submissions s) \<and> (\<exists>l \<in> set (ledger s). l_id l = 2 \<and> l_kind l = SPEND)"
proof -
  obtain s x where s: "reachable zero_sha s" "x \<in> set (submissions s)" "s_credit_ledger_id x = Some 2"
    using sample_run_ok by blast
  from submission_paid_by_own_spend [OF s] s show ?thesis by blast
qed

text \<open>
  C7.  A reward presupposes a proof and a decision: whatever is eligible for a reward, rewarded or
  failed in payment is VERIFIED, is APPROVED, and its latest binding decision says so; and the
  review status of every submission is what that decision says.
\<close>

theorem reward_presupposes_review:
  assumes "reachable sha s" and "x \<in> set (submissions s)"
  shows "s_manual_review_status x = review_summary s (s_id x) \<and>
    (s_manual_review_status x \<noteq> UNREVIEWED \<longrightarrow> s_verification_status x = VERIFIED) \<and>
    (s_reward_status x \<noteq> INELIGIBLE \<longrightarrow> s_verification_status x = VERIFIED \<and>
       (\<exists>d. latest_binding_decision s (s_id x) = Some d \<and> r_decision d = O_APPROVED))"
proof -
  have ok: "row_ok s x" using reachable_inv [OF assms(1)] assms(2) by (simp add: review_inv_def)
  then have sum: "s_manual_review_status x = review_summary s (s_id x)" by (simp add: row_ok_def)
  have "\<exists>d. latest_binding_decision s (s_id x) = Some d \<and> r_decision d = O_APPROVED"
    if "s_manual_review_status x = APPROVED"
    using sum that by (auto simp: review_summary_def split: option.splits review_outcome.splits)
  then show ?thesis using ok sum by (auto simp: row_ok_def)
qed

theorem reward_presupposes_review_witness:
  "\<exists>s x d. reachable zero_sha s \<and> x \<in> set (submissions s) \<and> s_reward_status x = ELIGIBLE \<and>
     s_verification_status x = VERIFIED \<and> latest_binding_decision s 3 = Some d \<and> r_decision d = O_APPROVED"
proof -
  obtain s x where s: "reachable zero_sha s" "x \<in> set (submissions s)" "s_reward_status x = ELIGIBLE" "s_id x = 3"
    using sample_run_ok by blast
  from reward_presupposes_review [OF s(1,2)] s show ?thesis by auto
qed

text \<open>
  C6.  One conjecture, one reward: at most one submission of a reward target is eligible, rewarded
  or failed, in every state the system reaches.
\<close>

theorem one_reward_per_target:
  assumes "reachable sha s" and "x \<in> set (submissions s)" and "y \<in> set (submissions s)"
    and "s_reward_status x \<noteq> INELIGIBLE" and "s_reward_status y \<noteq> INELIGIBLE"
    and "s_reward_target_id x = s_reward_target_id y"
  shows "x = y"
proof -
  have inv: "one_reward s" "distinct (map s_id (submissions s))"
    using reachable_inv [OF assms(1)] by (simp_all add: review_inv_def review_keyed_def)
  have "s_id x = s_id y" using inv(1) assms unfolding one_reward_def by blast
  then show ?thesis using inv(2) assms(2,3) by (metis find_row_unique option.inject)
qed

theorem one_reward_per_target_witness:
  "\<exists>s x. reachable zero_sha s \<and> s_reward_status x = ELIGIBLE \<and>
     {y \<in> set (submissions s). s_reward_status y = ELIGIBLE \<and> s_reward_target_id y = s_reward_target_id x} = {x}"
proof -
  obtain s x where s: "reachable zero_sha s" "x \<in> set (submissions s)" "s_reward_status x = ELIGIBLE"
    using sample_run_ok by blast
  have "y = x" if "y \<in> set (submissions s)" "s_reward_status y = ELIGIBLE" "s_reward_target_id y = s_reward_target_id x" for y
    using one_reward_per_target [OF s(1) that(1) s(2)] that s(3) by simp
  then have "{y \<in> set (submissions s). s_reward_status y = ELIGIBLE \<and> s_reward_target_id y = s_reward_target_id x} = {x}"
    using s by blast
  with s show ?thesis by blast
qed

text \<open>
  C22.  The record is append-only: along any run the ledger, the verification runs and the decisions
  only grow at the end; no entry that was there is changed or removed.
\<close>

theorem record_is_append_only:
  assumes "reachable sha s" and "(system_step sha)\<^sup>*\<^sup>* s s'"
  shows "prefix (ledger s) (ledger s') \<and> prefix (decisions s) (decisions s') \<and> prefix (runs s) (runs s')"
  using run_history [OF assms] by (simp add: history_def)

theorem record_is_append_only_witness:
  "\<exists>s s'. reachable zero_sha s \<and> (system_step zero_sha)\<^sup>*\<^sup>* s s' \<and> s' \<noteq> s \<and> prefix (ledger s) (ledger s')"
proof -
  obtain s where s: "reachable zero_sha s" using sample_run_ok by blast
  let ?s' = "s\<lparr>clock := clock s + 1\<rparr>"
  have "system_step zero_sha s ?s'" by (intro system_step.money tick) simp
  then have run: "(system_step zero_sha)\<^sup>*\<^sup>* s ?s'" by blast
  have "clock ?s' \<noteq> clock s" by simp
  then have "?s' \<noteq> s" by metis
  with record_is_append_only [OF s run] s run show ?thesis by blast
qed

text \<open>
  C4.  A claimed payout settles one reward and nothing else: the reward event it names is confirmed,
  was seen on chain, and has its amount and its destination; no other payout is claimed for that
  event; no trajectory bonus is paid with it; and the submission it rewards is VERIFIED and APPROVED.
\<close>

theorem payout_settles_one:
  assumes "reachable sha s" and "p \<in> set (treasury_payouts s)" and "tp_status p = CLAIMED"
  shows "\<exists>e x. {f \<in> set (reward_events s). tp_reward_event_id p = Some (rw_id f)} = {e} \<and> pays p e \<and>
    {q \<in> set (treasury_payouts s). tp_reward_event_id q = Some (rw_id e)} = {p} \<and>
    (\<forall>b \<in> set (bonuses s). tb_treasury_payout_id b \<noteq> Some (tp_id p)) \<and>
    x \<in> set (submissions s) \<and> s_id x = rw_submission_id e \<and>
    s_verification_status x = VERIFIED \<and> s_manual_review_status x = APPROVED"
proof -
  have inv: "review_inv s" "payout_inv s" using reachable_inv [OF assms(1)] by simp_all
  have d: "distinct (map rw_id (reward_events s))" "distinct (map tp_id (treasury_payouts s))"
    using payout_inv_parts(1) [OF inv(2)] by (simp_all add: pay_keyed_def)
  note c = payout_inv_parts(3) [OF inv(2), unfolded claims_settle_def, rule_format, OF assms(2)]
  then have named: "tp_reward_event_id p \<noteq> None" using assms(3) by blast
  with c obtain e where e: "e \<in> set (reward_events s)" "pays p e" by blast
  then have id: "tp_reward_event_id p = Some (rw_id e)" "rw_chain_observed e" by (simp_all add: pays_def)
  have "f = e" if "f \<in> set (reward_events s)" "rw_id f = rw_id e" for f
    using that e(1) d(1) by (metis find_row_unique option.inject)
  then have only_event: "{f \<in> set (reward_events s). tp_reward_event_id p = Some (rw_id f)} = {e}" using e(1) id(1) by auto
  have "q = p" if "q \<in> set (treasury_payouts s)" "tp_reward_event_id q = Some (rw_id e)" for q
  proof -
    have "tp_id q = tp_id p" using c named that id(1) by metis
    then show ?thesis using that(1) assms(2) d(2) by (metis find_row_unique option.inject)
  qed
  then have only_payout: "{q \<in> set (treasury_payouts s). tp_reward_event_id q = Some (rw_id e)} = {p}"
    using assms(2) id(1) by blast
  from payout_inv_parts(2) [OF inv(2)] e(1) id(2) obtain x where x: "x \<in> set (submissions s)" "s_id x = rw_submission_id e"
    "s_reward_status x \<noteq> INELIGIBLE" unfolding observed_live_def by blast
  then have "row_ok s x" using inv(1) by (simp add: review_inv_def)
  then have "s_verification_status x = VERIFIED" "s_manual_review_status x = APPROVED" using x(3) by (auto simp: row_ok_def)
  then show ?thesis using only_event e(2) only_payout c named x(1,2) by blast
qed

theorem payout_settles_one_witness:
  "\<exists>s p e. reachable zero_sha s \<and> p \<in> set (treasury_payouts s) \<and> tp_amount_rao p = 1000 \<and> pays p e \<and>
     {q \<in> set (treasury_payouts s). tp_reward_event_id q = Some (rw_id e)} = {p}"
proof -
  obtain s p where s: "reachable zero_sha s" "p \<in> set (treasury_payouts s)" "tp_status p = CLAIMED" "tp_amount_rao p = 1000"
    using sample_settled_ok by (metis list.set_intros(1))
  from payout_settles_one [OF s(1-3)] s show ?thesis by blast
qed

text \<open>
  C5.  An automatic payout instruction is the only one of its submission and pays what the submission
  locked: the bounty quoted when it was taken in, unless it is an award for a defect, which under
  the capped policies is still at most that bounty.
\<close>

theorem automatic_reward_locked:
  assumes "reachable sha s" and "e \<in> set (reward_events s)" and "rw_generation_key e = Some k"
  shows "k = ''submission:'' @ str_uuid (rw_submission_id e) \<and>
    {f \<in> set (reward_events s). rw_generation_key f = Some k} = {e} \<and>
    (\<exists>x \<in> set (submissions s). s_id x = rw_submission_id e \<and>
       (rw_eligibility_reason e \<noteq> DEFECT_AWARD \<longrightarrow> rw_amount_rao e = s_bounty_amount_rao x) \<and>
       (capped_policy x \<longrightarrow> rw_amount_rao e \<le> s_bounty_amount_rao x))"
proof -
  have inv: "payout_inv s" using reachable_inv [OF assms(1)] by simp
  have d: "distinct (map rw_id (reward_events s))" using payout_inv_parts(1) [OF inv] by (simp add: pay_keyed_def)
  have k: "rw_generation_key e \<noteq> None" using assms(3) by simp
  note l = payout_inv_parts(4) [OF inv, unfolded locked_prices_def, rule_format, OF assms(2) k]
  have "f = e" if "f \<in> set (reward_events s)" "rw_generation_key f = Some k" for f
  proof -
    have "rw_id f = rw_id e" using l that assms(3) by metis
    then show ?thesis using that(1) assms(2) d by (metis find_row_unique option.inject)
  qed
  then have "{f \<in> set (reward_events s). rw_generation_key f = Some k} = {e}" using assms(2,3) by blast
  then show ?thesis using l assms(3) by (auto simp: price_ok_def)
qed

theorem automatic_reward_locked_witness:
  "\<exists>s e x. reachable zero_sha s \<and> e \<in> set (reward_events s) \<and> x \<in> set (submissions s) \<and> s_id x = rw_submission_id e \<and>
     rw_amount_rao e = s_bounty_amount_rao x"
proof -
  obtain s e where s: "reachable zero_sha s" "e \<in> set (reward_events s)" "rw_generation_key e = Some ''submission:3''"
    "rw_eligibility_reason e = ''AUTO_REVIEW_DISABLED''"
    using sample_settled_ok by (metis list.set_intros(1))
  have "rw_eligibility_reason e \<noteq> DEFECT_AWARD" using s(4) by simp
  with automatic_reward_locked [OF s(1-3)] s show ?thesis by blast
qed

section \<open>Customers\<close>

text \<open>
  A customer signs up, proves an address, signs in, buys two credits by card and redeems an invitation.
  The rows are numbered: the account 0, the challenge 1, the session 2, the order 3, the invitation 4 and
  its redemption 5.
\<close>

definition sample_terms :: invoice_terms where
  "sample_terms = \<lparr>it_invoice_id = ''inv'', it_merchant_id = ''m'', it_status = TP_CREATED, it_fiat_amount = ''1'',
     it_fiat_currency = ''USD'', it_exchange_rate = ''1'', it_commission_amount = None, it_crypto_amount_rao = Some 25,
     it_deposit_address = ''d'', it_invoice_expires_at = Some 900, it_hosted_invoice_url = None,
     it_crypto_amount = None, it_crypto_currency = ''TAO'', it_crypto_network = ''bittensor''\<rparr>"

definition sample_sign_in :: "db \<Rightarrow> db_error + session_row \<times> db" where
  "sample_sign_in =
     thenT (open_account (Some ''A''))
    (thenT (create_challenge C_EMAIL [1] 900 None (Some ''a@b.c'') None None None)
    (thenT (consume_challenge C_EMAIL [1] 100)
    (bindT (get_account 0) (\<lambda>a. create_session a [7] 900 COOKIE None None None))))"

definition sample_settle :: "order_row \<Rightarrow> settled_order dbtx" where
  "sample_settle r = settle_order r TP_CONFIRMED None False None None 100 None ''system''"

definition attach_open :: "order_row \<Rightarrow> invoice_terms \<Rightarrow> order_row dbtx" where
  "attach_open r t = (if o_credited_ledger_id r = None then attach_invoice r t else raise NoResultFound)"

definition sample_purchase :: "db \<Rightarrow> db_error + settled_order \<times> db" where
  "sample_purchase =
     thenT sample_sign_in
    (thenT (create_order 0 2 10 ''ext'')
    (thenT (bindT (get_order 3 0) (\<lambda>r. attach_open r sample_terms))
    (bindT (get_order 3 0) sample_settle)))"

definition sample_shop :: "db \<Rightarrow> db_error + redemption \<times> db" where
  "sample_shop =
     thenT sample_purchase
    (thenT (create_invitation zero_sha ''code'' 3 ''note'' 0 5 None None)
     (redeem zero_sha ''code'' 0 10 100))"

lemma account_run: "account_step s s' \<Longrightarrow> system_step sha s s'"
  by (intro system_step.money account_changed)

lemma order_run: "order_step s s' \<Longrightarrow> system_step sha s s'"
  by (intro system_step.money order_changed)

lemma invite_run: "invite_step s s' \<Longrightarrow> system_step sha s s'"
  by (intro system_step.money invitation_changed)

lemma open_account_reachable:
  assumes "open_account k s0 = Inr (a, s)" and "reachable sha s0"
  shows "reachable sha s"
proof -
  from assms(1) obtain b u x where b: "create_account (Some ''a@b.c'') True None None None s0 = Inr (b, u)"
    and x: "find_row a_id (a_id b) (accounts u) = Some x" "set_payout_coldkey x k u = Inr (a, s)"
    by (auto simp: open_account_def bindT_Inr_iff get_account_def split: option.splits)
  have "reachable sha u" using assms(2) account_run [OF account_step.created [OF b]] by (rule reachable_step)
  then show ?thesis using account_run [OF account_step.payout_set [OF x]] by (rule reachable_step)
qed

lemma fresh_reachable: "reachable sha (empty_db sha now)"
  by (auto simp: reachable_def fresh_def)

lemma get_account_Inr: "get_account n s = Inr (a, s') \<longleftrightarrow> s' = s \<and> find_row a_id n (accounts s) = Some a"
  by (auto simp: get_account_def split: option.splits)

lemma get_order_Inr:
  "get_order n a s = Inr (r, s') \<longleftrightarrow> s' = s \<and> find_row o_id n (orders s) = Some r \<and> o_account_id r = a"
  by (auto simp: get_order_def split: option.splits)

lemma attach_open_step:
  assumes "bindT (get_order n a) (\<lambda>r. attach_open r t) s = Inr (r', s')"
  shows "system_step sha s s'"
proof -
  from assms obtain r where "find_row o_id n (orders s) = Some r" "o_credited_ledger_id r = None" "attach_invoice r t s = Inr (r', s')"
    by (auto simp: bindT_Inr_iff get_order_Inr attach_open_def split: if_splits)
  then show ?thesis by (intro order_run order_step.attached)
qed

lemma sample_sign_in_reachable:
  assumes "sample_sign_in s0 = Inr (r, s)" and "reachable sha s0"
  shows "reachable sha s"
proof -
  from assms(1) obtain a s1 c s2 d s3 b where 1: "open_account (Some ''A'') s0 = Inr (a, s1)"
    and 2: "create_challenge C_EMAIL [1] 900 None (Some ''a@b.c'') None None None s1 = Inr (c, s2)"
    and 3: "consume_challenge C_EMAIL [1] 100 s2 = Inr (d, s3)"
    and 4: "create_session b [7] 900 COOKIE None None None s3 = Inr (r, s)"
    unfolding sample_sign_in_def by (auto simp: bindT_Inr_iff thenT_Inr_iff get_account_Inr)
  have "reachable sha s1" using open_account_reachable [OF 1 assms(2)] .
  then have "reachable sha s2" using account_run [OF account_step.challenged [OF 2]] by (rule reachable_step)
  then have "reachable sha s3" using account_run [OF account_step.answered [OF 3]] by (rule reachable_step)
  then show ?thesis using account_run [OF account_step.signed_in [OF 4]] by (rule reachable_step)
qed

lemma sample_purchase_reachable:
  assumes "sample_purchase s0 = Inr (so, s)" and "reachable sha s0"
  shows "reachable sha s"
proof -
  from assms(1) obtain a s1 r s2 r3 s3 where 1: "sample_sign_in s0 = Inr (a, s1)"
    and 2: "create_order 0 2 10 ''ext'' s1 = Inr (r, s2)"
    and 3: "bindT (get_order 3 0) (\<lambda>r. attach_open r sample_terms) s2 = Inr (r3, s3)"
    and 5: "bindT (get_order 3 0) sample_settle s3 = Inr (so, s)"
    unfolding sample_purchase_def thenT_Inr_iff by blast
  from 5 obtain r4 where 4: "settle_order r4 TP_CONFIRMED None False None None 100 None ''system'' s3 = Inr (so, s)"
    unfolding bindT_Inr_iff get_order_Inr sample_settle_def by blast
  have "reachable sha s1" using sample_sign_in_reachable [OF 1 assms(2)] .
  then have "reachable sha s2" using order_run [OF order_step.ordered [OF 2]] by (rule reachable_step)
  then have "reachable sha s3" using attach_open_step [OF 3] by (rule reachable_step)
  then show ?thesis using order_run [OF order_step.settled [OF 4]] by (rule reachable_step)
qed

lemma sample_shop_reachable:
  assumes "sample_shop s0 = Inr (rd, s)" and "reachable sha s0"
  shows "reachable sha s"
proof -
  from assms(1) obtain so s1 iv s2 where 1: "sample_purchase s0 = Inr (so, s1)"
    and 2: "create_invitation zero_sha ''code'' 3 ''note'' 0 5 None None s1 = Inr (iv, s2)"
    and 3: "redeem zero_sha ''code'' 0 10 100 s2 = Inr (rd, s)"
    unfolding sample_shop_def by (auto simp: thenT_Inr_iff)
  have "reachable sha s1" using sample_purchase_reachable [OF 1 assms(2)] .
  then have "reachable sha s2" using invite_run [OF invite_step.issued [OF 2]] by (rule reachable_step)
  then show ?thesis using invite_run [OF invite_step.redeemed [OF 3]] by (rule reachable_step)
qed

lemma sample_shop_ok:
  "\<exists>s a r v. reachable zero_sha s \<and> accounts s = [a] \<and> a_id a = 0 \<and> a_email a = Some ''a@b.c'' \<and> orders s = [r] \<and>
     o_id r = 3 \<and> o_credited_ledger_id r = Some 1 \<and> invitations s = [v] \<and> iv_id v = 4 \<and> balance_rao s 0 = 55"
proof -
  let ?s0 = "empty_db zero_sha 100"
  have "case sample_shop ?s0 of Inl _ \<Rightarrow> False | Inr (u, s) \<Rightarrow>
     (case accounts s of [] \<Rightarrow> False | a # as \<Rightarrow> as = [] \<and> a_id a = 0 \<and> a_email a = Some ''a@b.c'') \<and>
     (case orders s of [] \<Rightarrow> False | r # rs \<Rightarrow> rs = [] \<and> o_id r = 3 \<and> o_credited_ledger_id r = Some 1) \<and>
     (case invitations s of [] \<Rightarrow> False | v # vs \<Rightarrow> vs = [] \<and> iv_id v = 4) \<and> balance_rao s 0 = 55"
    by code_simp
  then obtain u s where r: "sample_shop ?s0 = Inr (u, s)" and s:
     "\<exists>a. accounts s = [a] \<and> a_id a = 0 \<and> a_email a = Some ''a@b.c''"
     "\<exists>r. orders s = [r] \<and> o_id r = 3 \<and> o_credited_ledger_id r = Some 1"
     "\<exists>v. invitations s = [v] \<and> iv_id v = 4" "balance_rao s 0 = 55"
    by (auto simp: succeeds_iff finds_iff nonempty_iff)
  from sample_shop_reachable [OF r fresh_reachable] s show ?thesis by blast
qed

text \<open>
  C15.  Every account is well typed: its roles are known and it has the one every account has; a
  password is dated and belongs to an account that can be mailed; its address has the shape of one and
  is nobody else's, whatever the case of the letters; the coldkey it submits with is linked to it, and
  to no other account.
\<close>

theorem accounts_well_typed:
  assumes "reachable sha s" and "a \<in> set (accounts s)"
  shows "MINER_ROLE \<in> set (a_roles a) \<and> set (a_roles a) \<subseteq> set ACCOUNT_ROLES \<and>
    (a_password_hash a = None \<or> a_password_updated_at a \<noteq> None \<and> a_email a \<noteq> None) \<and>
    (a_email a = None \<or> (\<exists>e. a_email a = Some e \<and> is_email e \<and>
       {b \<in> set (accounts s). map_option py_lower (a_email b) = Some (py_lower e)} = {a})) \<and>
    (a_submission_coldkey a = None \<or>
       (\<exists>w. {x \<in> set (wallets s). Some (w_coldkey x) = a_submission_coldkey a} = {w} \<and> w_account_id w = a_id a))"
proof -
  from reachable_inv [OF assms(1)] have ok: "accounts_ok s" by (simp add: customers_ok_def)
  then have a: "account_ok a" "linked_to s a" using assms(2) by (simp_all add: accounts_ok_def)
  have d: "distinct (map a_id (accounts s))" "distinct (map w_coldkey (wallets s))"
    "one_per a_id (\<lambda>a. map_option py_lower (a_email a)) (accounts s)" using ok by (simp_all add: accounts_ok_def)
  have ck: "MINER_ROLE \<in> set (a_roles a)" "set (a_roles a) \<subseteq> set ACCOUNT_ROLES" "pred_option is_email (a_email a)"
    "(a_password_hash a = None) = (a_password_updated_at a = None)" "a_password_hash a = None \<or> a_email a \<noteq> None"
    using a(1) unfolding account_ok_def account_checks_def by auto
  have mail: "b = a" if "a_email a = Some e" "b \<in> set (accounts s)" "map_option py_lower (a_email b) = Some (py_lower e)" for b e
  proof -
    have "a_id b = a_id a" using that(1) by (intro one_perD [OF d(3) that(2) assms(2) that(3)]) simp
    then show ?thesis using same_key [OF d(1) that(2) assms(2)] by simp
  qed
  have wallet: "\<exists>w. {x \<in> set (wallets s). Some (w_coldkey x) = a_submission_coldkey a} = {w} \<and> w_account_id w = a_id a" if k: "a_submission_coldkey a = Some k" for k
  proof -
    from a(2) k obtain w where w: "w \<in> set (wallets s)" "w_coldkey w = k" "w_account_id w = a_id a"
      by (auto simp: linked_to_def references_def both_def list_ex_iff)
    have "x = w" if "x \<in> set (wallets s)" "w_coldkey x = k" for x using same_key [OF d(2) that(1) w(1)] that w by simp
    then have "{x \<in> set (wallets s). Some (w_coldkey x) = a_submission_coldkey a} = {w}" unfolding k using w by blast
    then show ?thesis using w by blast
  qed
  have one: "\<exists>e. a_email a = Some e \<and> is_email e \<and>
       {b \<in> set (accounts s). map_option py_lower (a_email b) = Some (py_lower e)} = {a}" if e: "a_email a = Some e" for e
  proof -
    have "{b \<in> set (accounts s). map_option py_lower (a_email b) = Some (py_lower e)} = {a}"
    proof (rule set_eqI)
      fix b
      have "map_option py_lower (a_email a) = Some (py_lower e)" using e by simp
      then show "b \<in> {b \<in> set (accounts s). map_option py_lower (a_email b) = Some (py_lower e)} \<longleftrightarrow> b \<in> {a}"
        using mail [OF e, of b] assms(2) unfolding mem_Collect_eq singleton_iff by metis
    qed
    then show ?thesis using e ck(3) by simp
  qed
  have "a_email a = None \<or> (\<exists>e. a_email a = Some e \<and> is_email e \<and>
       {b \<in> set (accounts s). map_option py_lower (a_email b) = Some (py_lower e)} = {a})"
    using one by (cases "a_email a") blast+
  moreover have "a_submission_coldkey a = None \<or>
       (\<exists>w. {x \<in> set (wallets s). Some (w_coldkey x) = a_submission_coldkey a} = {w} \<and> w_account_id w = a_id a)"
    using wallet by (cases "a_submission_coldkey a") blast+
  moreover have "a_password_hash a = None \<or> a_password_updated_at a \<noteq> None \<and> a_email a \<noteq> None" using ck(4,5) by blast
  ultimately show ?thesis using ck(1,2) by blast
qed

theorem accounts_well_typed_witness:
  "\<exists>s a. reachable zero_sha s \<and> accounts s = [a] \<and> a_email a = Some ''a@b.c'' \<and> MINER_ROLE \<in> set (a_roles a)"
proof -
  obtain s a where s: "reachable zero_sha s" "accounts s = [a]" "a_email a = Some ''a@b.c''" using sample_shop_ok by blast
  then have "a \<in> set (accounts s)" by simp
  from accounts_well_typed [OF s(1) this] s show ?thesis by blast
qed

text \<open>
  C13.  A login challenge is used once: a secret that a sign-in consumed is refused ever after, whatever
  the system does in between.
\<close>

theorem challenge_used_once:
  assumes "reachable sha s" and "consume_challenge kind secret now s = Inr (Some c, s1)"
    and "(system_step sha)\<^sup>*\<^sup>* s1 s2" and "consume_challenge kind' secret now' s2 = Inr (r, s3)"
  shows "r = None"
proof -
  have r1: "reachable sha s1" using assms(1) account_run [OF account_step.answered [OF assms(2)]] by (rule reachable_step)
  have "secrets_ok s2" using reachable_inv [OF reachable_run [OF r1 assms(3)]] by (simp add: customers_ok_def)
  then show ?thesis using consumed_stays_consumed [OF assms(2) _ run_remembers [OF r1 assms(3)] assms(4)] by blast
qed

theorem challenge_used_once_witness:
  "\<exists>s c s1 r s2. reachable zero_sha s \<and> consume_challenge C_EMAIL [1] 100 s = Inr (Some c, s1) \<and>
     consume_challenge C_EMAIL [1] 101 s1 = Inr (r, s2) \<and> r = None"
proof -
  let ?s0 = "empty_db zero_sha 100"
  let ?run = "thenT (open_account None) (create_challenge C_EMAIL [1] 900 None (Some ''a@b.c'') None None None)"
  have "case ?run ?s0 of Inl _ \<Rightarrow> False | Inr (d, s) \<Rightarrow>
     (case consume_challenge C_EMAIL [1] 100 s of Inl _ \<Rightarrow> False | Inr (c, s1) \<Rightarrow> (case c of None \<Rightarrow> False | Some _ \<Rightarrow> True) \<and>
       (case consume_challenge C_EMAIL [1] 101 s1 of Inl _ \<Rightarrow> False | Inr _ \<Rightarrow> True))"
    by code_simp
  then obtain d s c s1 r s2 where r: "?run ?s0 = Inr (d, s)" and c: "consume_challenge C_EMAIL [1] 100 s = Inr (Some c, s1)"
    and again: "consume_challenge C_EMAIL [1] 101 s1 = Inr (r, s2)"
    by (auto simp: succeeds_iff finds_iff)
  from r obtain a t where 1: "open_account None ?s0 = Inr (a, t)"
    and 2: "create_challenge C_EMAIL [1] 900 None (Some ''a@b.c'') None None None t = Inr (d, s)" by (auto simp: thenT_Inr_iff)
  have "reachable zero_sha t" using open_account_reachable [OF 1 fresh_reachable] .
  then have s: "reachable zero_sha s" using account_run [OF account_step.challenged [OF 2]] by (rule reachable_step)
  from challenge_used_once [OF s c rtranclp.rtrancl_refl again] s c again show ?thesis by blast
qed

text \<open>
  C14.  Signing out lasts: a session of the account that existed when its sessions were revoked never
  authenticates again, unless it was the one to be kept or of another kind.
\<close>

theorem revoked_session_dead:
  assumes "reachable sha s" and "revoke_all_sessions a kind keep s = Inr (m, s1)"
    and "(system_step sha)\<^sup>*\<^sup>* s1 s2" and "authenticate s2 token k now = Some x"
    and "r \<in> set (sessions s)" and "se_account_id r = a" and "kind = None \<or> kind = Some (se_kind r)"
    and "keep \<noteq> Some (se_id r)"
  shows "se_id (au_session_row x) \<noteq> se_id r"
proof -
  note rev = assms(2) [unfolded revoke_all_sessions_def]
  have r1: "reachable sha s1" using assms(1) account_run [OF revocations(3) [OF assms(2)]] by (rule reachable_step)
  have "secrets_ok s2" using reachable_inv [OF reachable_run [OF r1 assms(3)]] by (simp add: customers_ok_def)
  moreover have "se_account_id r = a \<and> pred_option (\<lambda>k. se_kind r = k) kind \<and> pred_option (\<lambda>e. se_id r \<noteq> e) keep"
    using assms(6-8) by (cases kind; cases keep) auto
  ultimately show ?thesis
    using revoked_stays_revoked [OF rev _ run_remembers [OF r1 assms(3)] assms(5) _ assms(4)] by blast
qed

theorem revoked_session_dead_witness:
  "\<exists>s r m s1 s2 x. reachable zero_sha s \<and> r \<in> set (sessions s) \<and> revoke_all_sessions 0 (Some COOKIE) None s = Inr (m, s1) \<and>
     (system_step zero_sha)\<^sup>*\<^sup>* s1 s2 \<and> authenticate s2 [8] COOKIE 100 = Some x \<and> se_id (au_session_row x) \<noteq> se_id r"
proof -
  let ?s0 = "empty_db zero_sha 100"
  let ?again = "bindT (get_account 0) (\<lambda>a. create_session a [8] 900 COOKIE None None None)"
  have "case sample_sign_in ?s0 of Inl _ \<Rightarrow> False | Inr (d, s) \<Rightarrow>
     list_ex (\<lambda>r. se_account_id r = 0 \<and> se_kind r = COOKIE) (sessions s) \<and>
     (case revoke_all_sessions 0 (Some COOKIE) None s of Inl _ \<Rightarrow> False | Inr (m, s1) \<Rightarrow>
       (case ?again s1 of Inl _ \<Rightarrow> False | Inr (q, s2) \<Rightarrow>
          (case authenticate s2 [8] COOKIE 100 of None \<Rightarrow> False | Some x \<Rightarrow> True)))"
    by code_simp
  then obtain d s r m s1 q s2 x where 1: "sample_sign_in ?s0 = Inr (d, s)"
    and r: "r \<in> set (sessions s)" "se_account_id r = 0" "se_kind r = COOKIE"
    and 2: "revoke_all_sessions 0 (Some COOKIE) None s = Inr (m, s1)" and 3: "?again s1 = Inr (q, s2)"
    and 4: "authenticate s2 [8] COOKIE 100 = Some x"
    by (auto simp: succeeds_iff finds_iff list_ex_iff)
  have s: "reachable zero_sha s" using sample_sign_in_reachable [OF 1 fresh_reachable] .
  from 3 obtain b where "create_session b [8] 900 COOKIE None None None s1 = Inr (q, s2)" by (auto simp: bindT_Inr_iff get_account_Inr)
  then have run: "(system_step zero_sha)\<^sup>*\<^sup>* s1 s2" using account_run [OF account_step.signed_in] by blast
  have "se_id (au_session_row x) \<noteq> se_id r" using revoked_session_dead [OF s 2 run 4 r(1,2)] r(3) by simp
  with s r(1) 2 run 4 show ?thesis by blast
qed

text \<open>
  C10.  An order is credited once: after a settlement no later one goes through for the same order,
  whichever copy of the order the webhook, the poll or an operator holds.
\<close>

theorem order_credited_once:
  assumes "reachable sha s" and "settle_order r st cf review ev poll now sch who s = Inr (so, s1)"
    and "(system_step sha)\<^sup>*\<^sup>* s1 s2" and "settle_order r' st' cf' review' ev' poll' now' sch' who' s2 = Inr (so', s3)"
  shows "o_id r' \<noteq> o_id r"
proof -
  have r1: "reachable sha s1" using assms(1) order_run [OF order_step.settled [OF assms(2)]] by (rule reachable_step)
  have "orders_ok s2" using reachable_inv [OF reachable_run [OF r1 assms(3)]] by (simp add: customers_ok_def)
  moreover have "prefix (ledger s1) (ledger s2)" using run_history [OF r1 assms(3)] by (simp add: history_def)
  ultimately show ?thesis using credited_stays_credited [OF assms(2) _ _ assms(4)] by blast
qed

theorem order_credited_once_witness:
  "\<exists>s r so s1 r' so' s2. reachable zero_sha s \<and> o_id r = 3 \<and> sample_settle r s = Inr (so, s1) \<and>
     sample_settle r' s1 = Inr (so', s2) \<and> o_id r' \<noteq> o_id r"
proof -
  let ?s0 = "empty_db zero_sha 100"
  let ?run = "thenT sample_sign_in (thenT (create_order 0 2 10 ''e1'') (thenT (bindT (get_order 3 0) (\<lambda>r. attach_open r sample_terms))
    (thenT (create_order 0 2 10 ''e2'') (bindT (get_order 4 0) (\<lambda>r. attach_open r (sample_terms\<lparr>it_invoice_id := ''i2''\<rparr>))))))"
  have "case ?run ?s0 of Inl _ \<Rightarrow> False | Inr (d, s) \<Rightarrow>
     (case get_order 3 0 s of Inl _ \<Rightarrow> False | Inr (r, t) \<Rightarrow>
     (case sample_settle r s of Inl _ \<Rightarrow> False | Inr (so, s1) \<Rightarrow>
       (case get_order 4 0 s1 of Inl _ \<Rightarrow> False | Inr (r', t1) \<Rightarrow>
         (case sample_settle r' s1 of Inl _ \<Rightarrow> False | Inr (so', s2) \<Rightarrow> True))))"
    by code_simp
  then obtain d s r so s1 r' so' s2 where 1: "?run ?s0 = Inr (d, s)" and r: "get_order 3 0 s = Inr (r, s)"
    and 2: "sample_settle r s = Inr (so, s1)" and 3: "sample_settle r' s1 = Inr (so', s2)"
    by (auto simp: succeeds_iff get_order_Inr)
  from 1 obtain q t1 o1 t2 r1 t3 o2 t4 where
    a: "sample_sign_in ?s0 = Inr (q, t1)" "create_order 0 2 10 ''e1'' t1 = Inr (o1, t2)"
    and b: "bindT (get_order 3 0) (\<lambda>r. attach_open r sample_terms) t2 = Inr (r1, t3)"
    and c: "create_order 0 2 10 ''e2'' t3 = Inr (o2, t4)"
    and e: "bindT (get_order 4 0) (\<lambda>r. attach_open r (sample_terms\<lparr>it_invoice_id := ''i2''\<rparr>)) t4 = Inr (d, s)"
    unfolding thenT_Inr_iff by blast
  have "reachable zero_sha t1" using sample_sign_in_reachable [OF a(1) fresh_reachable] .
  then have "reachable zero_sha t2" using order_run [OF order_step.ordered [OF a(2)]] by (rule reachable_step)
  then have "reachable zero_sha t3" using attach_open_step [OF b] by (rule reachable_step)
  then have "reachable zero_sha t4" using order_run [OF order_step.ordered [OF c]] by (rule reachable_step)
  then have s: "reachable zero_sha s" using attach_open_step [OF e] by (rule reachable_step)
  have "o_id r = 3" using r find_row_Some [of o_id 3 "orders s" r] by (simp add: get_order_Inr)
  with order_credited_once [OF s 2 [unfolded sample_settle_def] rtranclp.rtrancl_refl 3 [unfolded sample_settle_def]] s 2 3
  show ?thesis by blast
qed



text \<open>
  C11.  A paid order is worth its price: an order that was credited has one entry in the ledger, a
  DEPOSIT of its account, for what arrived, which is no less than its credits cost.
\<close>

theorem credited_order_paid:
  assumes "reachable sha s" and "r \<in> set (orders s)" and "o_credited_ledger_id r = Some n"
  shows "\<exists>l. {x \<in> set (ledger s). l_tmc_pay_order_id x = Some (o_id r)} = {l} \<and> l_id l = n \<and> l_kind l = DEPOSIT \<and>
    l_account_id l = o_account_id r \<and> paid_rao r = Some (l_amount_rao l) \<and>
    o_credits r * o_credit_price_rao r \<le> l_amount_rao l"
proof -
  from reachable_inv [OF assms(1)] have k: "orders_keyed s" "orders_paired s" and w: "well_keyed s"
    by (simp_all add: customers_ok_def orders_ok_def funding_inv_def)
  have d: "distinct (map o_id (orders s))" "distinct (map l_id (ledger s))" using k(1) w by (simp_all add: orders_keyed_def well_keyed_def)
  from k(2) assms(2,3) obtain l where l: "l \<in> set (ledger s)" "l_id l = n" "entry_for r l" unfolding orders_paired_def by blast
  have le: "l_tmc_pay_order_id l = Some (o_id r)" "l_kind l = DEPOSIT" "l_account_id l = o_account_id r"
    "paid_rao r = Some (l_amount_rao l)" using l(3) by (simp_all add: entry_for_def)
  have "x = l" if x: "x \<in> set (ledger s)" "l_tmc_pay_order_id x = Some (o_id r)" for x
  proof -
    obtain y where y: "y \<in> set (orders s)" "o_id y = o_id r" "o_credited_ledger_id y = Some (l_id x)"
      using k(2) x unfolding orders_paired_def by blast
    then have "y = r" using same_key [OF d(1) y(1) assms(2)] by simp
    then have "l_id x = l_id l" using y(3) assms(3) l(2) by simp
    then show ?thesis using same_key [OF d(2) x(1) l(1)] by simp
  qed
  then have "{x \<in> set (ledger s). l_tmc_pay_order_id x = Some (o_id r)} = {l}" using l(1) le(1) by blast
  moreover have "o_credits r * o_credit_price_rao r \<le> l_amount_rao l"
  proof -
    have "pred_option (\<lambda>v. v \<ge> required_rao r) (o_crypto_amount_rao r)"
      using k(1) assms(2) by (simp add: orders_keyed_def order_checks_def)
    then show ?thesis using le(4) by (auto simp: paid_rao_def required_rao_def split: if_splits)
  qed
  ultimately show ?thesis using l(2) le by blast
qed

theorem credited_order_paid_witness:
  "\<exists>s r l. reachable zero_sha s \<and> orders s = [r] \<and> l \<in> set (ledger s) \<and> l_tmc_pay_order_id l = Some 3 \<and>
     paid_rao r = Some (l_amount_rao l)"
proof -
  obtain s r where s: "reachable zero_sha s" "orders s = [r]" "o_id r = 3" "o_credited_ledger_id r = Some 1"
    using sample_shop_ok by blast
  then have "r \<in> set (orders s)" by simp
  from credited_order_paid [OF s(1) this s(4)] s show ?thesis by fastforce
qed

text \<open>
  C12.  An invitation gives away what was promised and no more: its redemptions are as many as its
  counter says and at most its maximum, by as many different accounts, and each has a GRANT of its own
  account for the credits of the invitation at the price of the day.
\<close>

theorem invitation_within_promise:
  assumes "reachable sha s" and "v \<in> set (invitations s)"
  shows "redeemed_times s (iv_id v) = iv_redeemed_count v \<and> iv_redeemed_count v \<le> iv_max_redemptions v \<and>
    distinct (map rd_account_id (filter (\<lambda>r. rd_invitation_id r = iv_id v) (redemptions s))) \<and>
    (\<forall>r. r \<in> set (redemptions s) \<and> rd_invitation_id r = iv_id v \<longrightarrow>
       (\<exists>l \<in> set (ledger s). \<exists>p. l_invitation_redemption_id l = Some (rd_id r) \<and> l_kind l = GRANT \<and>
          l_account_id l = rd_account_id r \<and> l_credit_price_rao l = Some p \<and> l_amount_rao l = iv_credits v * p))"
proof -
  from reachable_inv [OF assms(1)] have k: "invitations_keyed s" "redemptions_keyed s" "grants_paired s"
    by (simp_all add: customers_ok_def invitations_ok_def)
  let ?rs = "filter (\<lambda>r. rd_invitation_id r = iv_id v) (redemptions s)"
  have one: "one_per rd_id (\<lambda>r. Some (rd_invitation_id r, rd_account_id r)) (redemptions s)"
    and d: "distinct (map rd_id (redemptions s))" "distinct (map iv_id (invitations s))"
    using k by (simp_all add: redemptions_keyed_def invitations_keyed_def)
  have "inj_on rd_account_id (set ?rs)"
  proof (rule inj_onI)
    fix x y assume xy: "x \<in> set ?rs" "y \<in> set ?rs" "rd_account_id x = rd_account_id y"
    then have "rd_id x = rd_id y" by (intro one_perD [OF one, of x y "(iv_id v, rd_account_id y)"]) auto
    then show "x = y" using same_key [OF d(1)] xy by simp
  qed
  moreover have "distinct ?rs" using d(1) by (simp add: distinct_map)
  ultimately have "distinct (map rd_account_id ?rs)" by (simp add: distinct_map)
  moreover have "redeemed_times s (iv_id v) = iv_redeemed_count v" "iv_redeemed_count v \<le> iv_max_redemptions v"
    using k(1) assms(2) by (simp_all add: invitations_keyed_def invitation_checks_def)
  moreover have "\<exists>l \<in> set (ledger s). \<exists>p. l_invitation_redemption_id l = Some (rd_id r) \<and> l_kind l = GRANT \<and>
      l_account_id l = rd_account_id r \<and> l_credit_price_rao l = Some p \<and> l_amount_rao l = iv_credits v * p"
    if r: "r \<in> set (redemptions s)" "rd_invitation_id r = iv_id v" for r
  proof -
    from k(3) r(1) obtain l where l: "l \<in> set (ledger s)" "grant_for s r l" unfolding grants_paired_def by blast
    then obtain w p where w: "w \<in> set (invitations s)" "iv_id w = rd_invitation_id r" "l_credit_price_rao l = Some p"
      "l_amount_rao l = iv_credits w * p" unfolding grant_for_def by blast
    then have "w = v" using same_key [OF d(2) w(1) assms(2)] r(2) by simp
    then show ?thesis using l w by (auto simp: grant_for_def)
  qed
  ultimately show ?thesis by blast
qed

theorem invitation_within_promise_witness:
  "\<exists>s v. reachable zero_sha s \<and> invitations s = [v] \<and> redeemed_times s 4 = iv_redeemed_count v \<and>
     iv_redeemed_count v \<le> iv_max_redemptions v"
proof -
  obtain s v where s: "reachable zero_sha s" "invitations s = [v]" "iv_id v = 4" using sample_shop_ok by blast
  then have "v \<in> set (invitations s)" by simp
  from invitation_within_promise [OF s(1) this] s show ?thesis by auto
qed

end
